(* ===== verification/Prelude.thy ===== *)
theory Prelude
  imports Main "HOL-Library.AList" "HOL-Library.Word" "HOL-Library.Multiset"
begin

text \<open>
  Shared vocabulary of the development: Go's built-in types and the parts of its standard
  library that several components use.

  \<^item> A Go \<open>string\<close> and a \<open>[]byte\<close> are both sequences of bytes; Isabelle's \<open>char\<close> is an
    8-bit byte, so both are \<open>char list\<close>, and conversions between them are the identity.
  \<^item> A Go \<open>map\<close> is an association list with distinct keys. Go iterates over a map in an
    unspecified order; the model iterates in the order of the list, and every theorem is
    about an arbitrary list, hence about every iteration order.
  \<^item> A \<open>time.Time\<close> is a number of nanoseconds since Go's zero time, so \<open>IsZero\<close> is
    equality with 0, and \<open>After\<close>, \<open>Before\<close> and \<open>Sub\<close> are \<open>>\<close>, \<open><\<close> and \<open>-\<close>.
    The clock (\<open>time.Now\<close>) and fresh identifiers (\<open>uuid.New\<close>) are arguments.
  \<^item> A pointer that may be nil is an \<open>option\<close>.
\<close>

named_theorems gomap_simps \<open>lookup, insertion and deletion in Go maps\<close>
named_theorems gostr_simps \<open>facts about Go string functions\<close>
named_theorems wf_intros \<open>preservation of well-formedness\<close>

type_synonym bytes = "char list"
type_synonym time = int
type_synonym ('k, 'v) gomap = "('k \<times> 'v) list"

abbreviation (input) second :: time where
  "second \<equiv> 1000000000"

definition is_zero :: "time \<Rightarrow> bool" where
  "is_zero t \<longleftrightarrow> t = 0"

section \<open>Go maps\<close>

definition gget :: "('k, 'v) gomap \<Rightarrow> 'k \<Rightarrow> 'v option" where
  "gget m k = map_of m k"

definition gput :: "'k \<Rightarrow> 'v \<Rightarrow> ('k, 'v) gomap \<Rightarrow> ('k, 'v) gomap" where
  "gput k v m = AList.update k v m"

definition gdel :: "'k \<Rightarrow> ('k, 'v) gomap \<Rightarrow> ('k, 'v) gomap" where
  "gdel k m = AList.delete k m"

definition gkeys :: "('k, 'v) gomap \<Rightarrow> 'k list" where
  "gkeys m = map fst m"

definition gvals :: "('k, 'v) gomap \<Rightarrow> 'v list" where
  "gvals m = map snd m"

definition gwf :: "('k, 'v) gomap \<Rightarrow> bool" where
  "gwf m \<longleftrightarrow> distinct (map fst m)"

text \<open>Mutating the value a map entry points to (\<open>p := m[k]; p.f = v\<close>).\<close>

definition gmod :: "'k \<Rightarrow> ('v \<Rightarrow> 'v) \<Rightarrow> ('k, 'v) gomap \<Rightarrow> ('k, 'v) gomap" where
  "gmod k f m = map (\<lambda>(k', v). (k', if k' = k then f v else v)) m"

lemma gget_empty [simp]: "gget [] k = None"
  by (simp add: gget_def)

lemma gget_gput [gomap_simps]: "gget (gput k v m) k' = (if k' = k then Some v else gget m k')"
  by (simp add: gget_def gput_def update_conv')

lemma gget_gdel [gomap_simps]: "gget (gdel k m) k' = (if k' = k then None else gget m k')"
  by (simp add: gget_def gdel_def delete_conv')

lemma gget_gmod [gomap_simps]:
  "gget (gmod k f m) k' = (if k' = k then map_option f (gget m k') else gget m k')"
  by (induction m) (auto simp: gget_def gmod_def)

lemma gwf_empty [simp, wf_intros]: "gwf []"
  by (simp add: gwf_def)

lemma gwf_gput [simp, wf_intros]: "gwf m \<Longrightarrow> gwf (gput k v m)"
  by (simp add: gwf_def gput_def distinct_update)

lemma gwf_gdel [simp, wf_intros]: "gwf m \<Longrightarrow> gwf (gdel k m)"
  by (simp add: gwf_def gdel_def distinct_delete)

lemma gkeys_gmod [simp]: "gkeys (gmod k f m) = gkeys m"
  by (induction m) (auto simp: gkeys_def gmod_def)

lemma gwf_gmod [simp, wf_intros]: "gwf (gmod k f m) = gwf m"
  using gkeys_gmod [of k f m] by (simp add: gwf_def gkeys_def)

lemma gget_eq_Some_iff: "gwf m \<Longrightarrow> gget m k = Some v \<longleftrightarrow> (k, v) \<in> set m"
  by (simp add: gwf_def gget_def)

lemma gget_SomeD: "gget m k = Some v \<Longrightarrow> (k, v) \<in> set m"
  by (simp add: gget_def map_of_SomeD)

lemma gget_None_iff: "gget m k = None \<longleftrightarrow> k \<notin> set (gkeys m)"
  by (simp add: gget_def gkeys_def map_of_eq_None_iff)

lemma set_gvals_iff: "gwf m \<Longrightarrow> v \<in> set (gvals m) \<longleftrightarrow> (\<exists>k. gget m k = Some v)"
  by (force simp: gvals_def gget_eq_Some_iff image_iff)

lemma gkeys_gput: "gget m k = None \<Longrightarrow> gput k v m = m @ [(k, v)]"
  by (induction m) (auto simp: gput_def gget_def split: if_splits)

lemma length_gput: "length (gput k v m) = (if gget m k = None then Suc (length m) else length m)"
  by (induction m) (auto simp: gput_def gget_def)

lemma gdel_absent: "gget m k = None \<Longrightarrow> gdel k m = m"
  by (induction m) (auto simp: gdel_def gget_def AList.delete_eq split: if_splits)

lemma gdel_filter: "gdel k m = filter (\<lambda>p. fst p \<noteq> k) m"
  by (induction m) (auto simp: gdel_def AList.delete_eq)

lemma gkeys_gdel: "gkeys (gdel k m) = filter (\<lambda>k'. k' \<noteq> k) (gkeys m)"
  by (simp add: gdel_filter gkeys_def filter_map comp_def)

lemma set_gkeys_gput [simp]: "set (gkeys (gput k v m)) = insert k (set (gkeys m))"
  by (induction m) (auto simp: gkeys_def gput_def)

lemma set_gkeys_gdel [simp]: "set (gkeys (gdel k m)) = set (gkeys m) - {k}"
  by (auto simp: gkeys_gdel)

lemma length_gkeys [simp]: "length (gkeys m) = length m"
  by (simp add: gkeys_def)

lemma length_gvals [simp]: "length (gvals m) = length m"
  by (simp add: gvals_def)

text \<open>Deleting every key of a list, as the loops \<open>for _, id := range ids { delete(m, id) }\<close> do.\<close>

fun gdel_all :: "'k list \<Rightarrow> ('k, 'v) gomap \<Rightarrow> ('k, 'v) gomap" where
  "gdel_all [] m = m"
| "gdel_all (k # ks) m = gdel_all ks (gdel k m)"

lemma gdel_all_filter: "gdel_all ks m = filter (\<lambda>p. fst p \<notin> set ks) m"
  by (induction ks arbitrary: m) (auto simp: gdel_filter intro: filter_cong)

lemma gget_gdel_all [gomap_simps]:
  "gget (gdel_all ks m) k = (if k \<in> set ks then None else gget m k)"
  by (induction ks arbitrary: m) (auto simp: gomap_simps)

lemma gwf_gdel_all [simp, wf_intros]: "gwf m \<Longrightarrow> gwf (gdel_all ks m)"
  by (induction ks arbitrary: m) auto

text \<open>Inserting the entries of a list in order, as a store's \<open>Load\<close> loop does.\<close>

fun gput_all :: "('k \<times> 'v) list \<Rightarrow> ('k, 'v) gomap \<Rightarrow> ('k, 'v) gomap" where
  "gput_all [] m = m"
| "gput_all ((k, v) # ps) m = gput_all ps (gput k v m)"

lemma gget_gput_all:
  "gget (gput_all ps m) k = (case map_of (rev ps) k of Some v \<Rightarrow> Some v | None \<Rightarrow> gget m k)"
  by (induction ps m rule: gput_all.induct)
     (auto simp: gomap_simps map_add_def split: option.splits)

lemma gwf_gput_all [simp, wf_intros]: "gwf m \<Longrightarrow> gwf (gput_all ps m)"
  by (induction ps m rule: gput_all.induct) auto

lemma map_of_rev_eq: "distinct (map fst ps) \<Longrightarrow> map_of (rev ps) = map_of ps"
  by (rule map_of_eqI) (auto simp: rev_map [symmetric])

lemma gput_all_distinct:
  assumes "distinct (map fst ps)"
  shows "gget (gput_all ps []) k = map_of ps k"
  using assms by (auto simp: gget_gput_all map_of_rev_eq split: option.splits)

section \<open>Strings and byte slices\<close>

definition bval :: "char \<Rightarrow> nat" where
  "bval c = of_char c"

definition has_prefix :: "string \<Rightarrow> string \<Rightarrow> bool" where
  "has_prefix s p \<longleftrightarrow> take (length p) s = p"

definition has_suffix :: "string \<Rightarrow> string \<Rightarrow> bool" where
  "has_suffix s p \<longleftrightarrow> length p \<le> length s \<and> drop (length s - length p) s = p"

definition cut_prefix :: "string \<Rightarrow> string \<Rightarrow> string option" where
  "cut_prefix s p = (if has_prefix s p then Some (drop (length p) s) else None)"

fun str_contains :: "string \<Rightarrow> string \<Rightarrow> bool" where
  "str_contains [] p \<longleftrightarrow> p = []"
| "str_contains (c # s) p \<longleftrightarrow> has_prefix (c # s) p \<or> str_contains s p"

text \<open>\<open>strings.Split(s, sep)\<close> for a one-byte separator: always at least one part.\<close>

fun split_on :: "char \<Rightarrow> string \<Rightarrow> string list" where
  "split_on c [] = [[]]"
| "split_on c (x # xs) =
     (if x = c then [] # split_on c xs
      else (case split_on c xs of [] \<Rightarrow> [[x]] | p # ps \<Rightarrow> (x # p) # ps))"

fun join_with :: "string \<Rightarrow> string list \<Rightarrow> string" where
  "join_with sep [] = []"
| "join_with sep [x] = x"
| "join_with sep (x # y # ys) = x @ sep @ join_with sep (y # ys)"

lemma has_prefix_iff [gostr_simps]: "has_prefix s p \<longleftrightarrow> (\<exists>r. s = p @ r)"
  by (metis append_eq_conv_conj append_take_drop_id has_prefix_def)

lemma has_suffix_iff [gostr_simps]: "has_suffix s p \<longleftrightarrow> (\<exists>r. s = r @ p)"
proof
  assume "has_suffix s p"
  then show "\<exists>r. s = r @ p"
    by (metis append_take_drop_id has_suffix_def)
next
  assume "\<exists>r. s = r @ p"
  then show "has_suffix s p"
    by (auto simp: has_suffix_def)
qed

lemma cut_prefix_Some: "cut_prefix s p = Some r \<longleftrightarrow> s = p @ r"
  by (auto simp: cut_prefix_def has_prefix_def) (metis append_take_drop_id)

lemma split_on_not_Nil [simp]: "split_on c s \<noteq> []"
  by (induction s) (auto split: list.splits)

lemma split_on_no_sep: "c \<notin> set s \<Longrightarrow> split_on c s = [s]"
  by (induction s) auto

lemma split_on_append_sep: "split_on c (s @ c # t) = split_on c s @ split_on c t"
  by (induction s) (auto split: list.splits)

lemma split_on_parts: "p \<in> set (split_on c s) \<Longrightarrow> c \<notin> set p"
proof (induction s arbitrary: p)
  case (Cons x xs)
  then show ?case
    by (cases "split_on c xs") (auto split: if_splits)
qed simp

lemma join_split: "join_with [c] (split_on c s) = s"
proof (induction s)
  case (Cons x xs)
  show ?case
  proof (cases "split_on c xs")
    case Nil
    then show ?thesis by simp
  next
    case (Cons p ps)
    with Cons.IH show ?thesis by (cases ps) auto
  qed
qed simp

lemma split_lines: "list_all (\<lambda>l. CHR 0x0A \<notin> set l) ls \<Longrightarrow>
    split_on (CHR 0x0A) (concat (map (\<lambda>l. l @ [CHR 0x0A]) ls)) = ls @ [[]]"
  by (induction ls) (simp_all add: split_on_append_sep split_on_no_sep)

lemma split_join:
  assumes "ps \<noteq> []" and "\<forall>p \<in> set ps. c \<notin> set p"
  shows "split_on c (join_with [c] ps) = ps"
  using assms
  by (induction "[c]" ps rule: join_with.induct) (auto simp: split_on_no_sep split_on_append_sep)

section \<open>Decimal integers: strconv.Itoa and strconv.Atoi\<close>

definition is_digit :: "char \<Rightarrow> bool" where
  "is_digit c \<longleftrightarrow> 48 \<le> bval c \<and> bval c \<le> 57"

definition digit_char :: "nat \<Rightarrow> char" where
  "digit_char d = ''0123456789'' ! d"

fun itoa_nat :: "nat \<Rightarrow> string" where
  "itoa_nat n = (if n < 10 then [digit_char n] else itoa_nat (n div 10) @ [digit_char (n mod 10)])"

declare itoa_nat.simps [simp del]

definition itoa :: "int \<Rightarrow> string" where
  "itoa i = (if i < 0 then CHR ''-'' # itoa_nat (nat (- i)) else itoa_nat (nat i))"

definition digits_value :: "string \<Rightarrow> nat" where
  "digits_value s = foldl (\<lambda>n c. 10 * n + (bval c - 48)) 0 s"

text \<open>
  \<open>strconv.Atoi\<close> on a 64-bit platform: an optional sign, then one or more decimal digits,
  within the range of \<open>int64\<close>; anything else is an error.
\<close>

definition atoi_unsigned :: "string \<Rightarrow> nat option" where
  "atoi_unsigned s = (if s \<noteq> [] \<and> list_all is_digit s then Some (digits_value s) else None)"

definition atoi :: "string \<Rightarrow> int option" where
  "atoi s =
     (case s of
        [] \<Rightarrow> None
      | c # t \<Rightarrow>
          if c = CHR ''-'' then
            (case atoi_unsigned t of
               Some n \<Rightarrow> if n \<le> 2 ^ 63 then Some (- int n) else None | None \<Rightarrow> None)
          else
            (case atoi_unsigned (if c = CHR ''+'' then t else s) of
               Some n \<Rightarrow> if n < 2 ^ 63 then Some (int n) else None | None \<Rightarrow> None))"

lemma bval_digit_char [simp]: "d < 10 \<Longrightarrow> bval (digit_char d) = 48 + d"
proof -
  assume "d < 10"
  then have "d \<in> {0, 1, 2, 3, 4, 5, 6, 7, 8, 9}" by auto
  then show ?thesis by (auto simp: bval_def digit_char_def)
qed

lemma is_digit_digit_char [simp]: "d < 10 \<Longrightarrow> is_digit (digit_char d)"
  by (simp add: is_digit_def)

lemma itoa_nat_digits: "list_all is_digit (itoa_nat n)"
  by (induction n rule: itoa_nat.induct) (subst itoa_nat.simps, auto)

lemma itoa_nat_not_Nil [simp]: "itoa_nat n \<noteq> []"
  by (subst itoa_nat.simps) simp

lemma length_itoa_nat: "0 < k \<Longrightarrow> n < 10 ^ k \<Longrightarrow> length (itoa_nat n) \<le> k"
proof (induction n arbitrary: k rule: itoa_nat.induct)
  case (1 n)
  show ?case
  proof (cases "n < 10")
    case True
    with "1.prems" show ?thesis by (subst itoa_nat.simps) simp
  next
    case False
    with "1.prems" obtain j where k: "k = Suc j" "0 < j" by (cases k; cases "k - 1") auto
    with "1.prems" have "n div 10 < 10 ^ j" by (simp add: div_less_iff_less_mult mult.commute)
    with "1.IH" False k have "length (itoa_nat (n div 10)) \<le> j" by simp
    with False k show ?thesis by (subst itoa_nat.simps) simp
  qed
qed

lemma digits_value_itoa_nat [simp]: "digits_value (itoa_nat n) = n"
proof (induction n rule: itoa_nat.induct)
  case (1 n)
  show ?case
  proof (cases "n < 10")
    case True
    then show ?thesis by (subst itoa_nat.simps) (simp add: digits_value_def)
  next
    case False
    with "1.IH" have "digits_value (itoa_nat (n div 10)) = n div 10" by simp
    with False show ?thesis by (subst itoa_nat.simps) (simp add: digits_value_def)
  qed
qed

lemma atoi_unsigned_itoa_nat [simp]: "atoi_unsigned (itoa_nat n) = Some n"
  by (simp add: atoi_unsigned_def itoa_nat_digits)

lemma hd_itoa_nat: "is_digit (hd (itoa_nat n))"
  using itoa_nat_digits [of n] itoa_nat_not_Nil [of n] by (cases "itoa_nat n") auto

lemma sign_not_digit [simp]: "\<not> is_digit CHR ''-''" "\<not> is_digit CHR ''+''"
  by (simp_all add: is_digit_def bval_def)

lemma atoi_itoa: "- (2 ^ 63) \<le> i \<Longrightarrow> i < 2 ^ 63 \<Longrightarrow> atoi (itoa i) = Some i"
proof (cases "i < 0")
  case True
  assume "- (2 ^ 63) \<le> i"
  with True show ?thesis by (simp add: itoa_def atoi_def)
next
  case False
  assume "i < 2 ^ 63"
  moreover obtain c t where ct: "itoa_nat (nat i) = c # t"
    using itoa_nat_not_Nil [of "nat i"] by (cases "itoa_nat (nat i)") auto
  moreover have "is_digit c" using hd_itoa_nat [of "nat i"] ct by simp
  then have "c \<noteq> CHR ''-''" "c \<noteq> CHR ''+''" using sign_not_digit by blast+
  moreover have "atoi_unsigned (c # t) = Some (nat i)" using atoi_unsigned_itoa_nat ct by metis
  ultimately show ?thesis using False by (simp add: itoa_def atoi_def)
qed

section \<open>Sorting newest first\<close>

text \<open>
  \<open>sort.Slice(xs, func(i, j) bool { return xs[i].T.After(xs[j].T) })\<close>. Go leaves the order
  of elements with equal times unspecified; the model keeps their order (as Go's insertion
  sort for short slices does).
\<close>

definition newest_first :: "('a \<Rightarrow> time) \<Rightarrow> 'a list \<Rightarrow> 'a list" where
  "newest_first t xs = sort_key (\<lambda>x. - t x) xs"

lemma set_newest_first [simp]: "set (newest_first t xs) = set xs"
  by (simp add: newest_first_def)

lemma length_newest_first [simp]: "length (newest_first t xs) = length xs"
  by (simp add: newest_first_def)

lemma mset_newest_first [simp]: "mset (newest_first t xs) = mset xs"
  by (simp add: newest_first_def)

lemma distinct_newest_first [simp]: "distinct (newest_first t xs) = distinct xs"
  by (metis mset_eq_imp_distinct_iff mset_newest_first)

lemma distinct_map_newest_first [simp]:
  "distinct (map f (newest_first t xs)) = distinct (map f xs)"
  by (metis mset_eq_imp_distinct_iff mset_map mset_newest_first)

lemma sorted_newest_first: "sorted_wrt (\<lambda>x y. t y \<le> t x) (newest_first t xs)"
proof -
  have "sorted (map (\<lambda>x. - t x) (newest_first t xs))"
    by (simp add: newest_first_def)
  then show ?thesis by (simp add: sorted_map)
qed

lemma newest_first_Cons_newest:
  assumes "\<forall>y \<in> set xs. t y < t x"
  shows "newest_first t (xs @ [x]) = x # newest_first t xs"
proof -
  have "sort_key (\<lambda>x. - t x) (x # xs) = insort_key (\<lambda>x. - t x) x (sort_key (\<lambda>x. - t x) xs)"
    by simp
  also have "\<dots> = x # sort_key (\<lambda>x. - t x) xs"
    using assms by (intro insort_is_Cons) (auto simp: less_imp_le)
  finally have *: "sort_key (\<lambda>x. - t x) (x # xs) = x # sort_key (\<lambda>x. - t x) xs" .
  have "sort_key (\<lambda>x. - t x) (xs @ [x]) = x # sort_key (\<lambda>x. - t x) xs"
  proof (rule properties_for_sort_key)
    show "mset (x # sort_key (\<lambda>x. - t x) xs) = mset (xs @ [x])" by simp
    show "sorted (map (\<lambda>x. - t x) (x # sort_key (\<lambda>x. - t x) xs))"
      using assms by (auto simp: less_imp_le)
    fix k
    assume k: "k \<in> set (x # sort_key (\<lambda>x. - t x) xs)"
    show "filter (\<lambda>y. - t k = - t y) (x # sort_key (\<lambda>x. - t x) xs)
            = filter (\<lambda>y. - t k = - t y) (xs @ [x])"
    proof (cases "t k = t x")
      case True
      then have "filter (\<lambda>y. - t k = - t y) xs = []"
        using assms by (auto simp: filter_empty_conv)
      moreover have "filter (\<lambda>y. - t k = - t y) (sort_key (\<lambda>x. - t x) xs) = []"
        using assms True by (auto simp: filter_empty_conv)
      ultimately show ?thesis using True by simp
    next
      case False
      then show ?thesis
        using sort_key_stable [of "\<lambda>x. - t x" "- t k" xs]
        by (simp add: eq_commute [of "t k"])
    qed
  qed
  then show ?thesis by (simp add: newest_first_def)
qed

end
