(* ===== verification/Utf8.thy ===== *)
theory Utf8
  imports Prelude
begin

text \<open>
  UTF-8 as Go's \<open>unicode/utf8\<close>, \<open>strings.ToValidUTF8\<close> and \<open>strings.TrimSpace\<close> treat it.
  The daemon sanitises terminal output and process command lines before they cross a
  protobuf string field, and cuts byte buffers on rune boundaries; the lemmas here say what
  those library calls give it.
\<close>

section \<open>Decoding\<close>

definition is_cont :: "char \<Rightarrow> bool" where
  "is_cont c \<longleftrightarrow> 0x80 \<le> bval c \<and> bval c < 0xC0"

definition cont_in :: "nat \<Rightarrow> nat \<Rightarrow> char \<Rightarrow> bool" where
  "cont_in lo hi c \<longleftrightarrow> lo \<le> bval c \<and> bval c \<le> hi"

text \<open>
  \<open>utf8.DecodeRune\<close>: the rune at the front of a byte slice and its width, or \<open>None\<close> where
  Go returns \<open>(RuneError, 1)\<close> (or \<open>(RuneError, 0)\<close> for the empty slice).
\<close>

definition decode2 :: "char \<Rightarrow> bytes \<Rightarrow> (nat \<times> nat) option" where
  "decode2 b0 r = (case r of
     b1 # _ \<Rightarrow> if is_cont b1 then Some ((bval b0 - 0xC0) * 64 + (bval b1 - 0x80), 2) else None
   | _ \<Rightarrow> None)"

definition decode3 :: "nat \<Rightarrow> nat \<Rightarrow> char \<Rightarrow> bytes \<Rightarrow> (nat \<times> nat) option" where
  "decode3 lo hi b0 r = (case r of
     b1 # b2 # _ \<Rightarrow>
       if cont_in lo hi b1 \<and> is_cont b2
       then Some ((bval b0 - 0xE0) * 4096 + (bval b1 - 0x80) * 64 + (bval b2 - 0x80), 3) else None
   | _ \<Rightarrow> None)"

definition decode4 :: "nat \<Rightarrow> nat \<Rightarrow> char \<Rightarrow> bytes \<Rightarrow> (nat \<times> nat) option" where
  "decode4 lo hi b0 r = (case r of
     b1 # b2 # b3 # _ \<Rightarrow>
       if cont_in lo hi b1 \<and> is_cont b2 \<and> is_cont b3
       then Some ((bval b0 - 0xF0) * 262144 + (bval b1 - 0x80) * 4096
                    + (bval b2 - 0x80) * 64 + (bval b3 - 0x80), 4) else None
   | _ \<Rightarrow> None)"

fun decode_rune :: "bytes \<Rightarrow> (nat \<times> nat) option" where
  "decode_rune [] = None"
| "decode_rune (b # r) =
     (let x = bval b in
      if x < 0x80 then Some (x, 1)
      else if x < 0xC2 then None
      else if x < 0xE0 then decode2 b r
      else if x = 0xE0 then decode3 0xA0 0xBF b r
      else if x = 0xED then decode3 0x80 0x9F b r
      else if x < 0xF0 then decode3 0x80 0xBF b r
      else if x = 0xF0 then decode4 0x90 0xBF b r
      else if x < 0xF4 then decode4 0x80 0xBF b r
      else if x = 0xF4 then decode4 0x80 0x8F b r
      else None)"

lemmas decode_defs = decode_rune.simps decode2_def decode3_def decode4_def Let_def

declare decode_rune.simps(2) [simp del]

fun valid_utf8 :: "bytes \<Rightarrow> bool" where
  "valid_utf8 [] \<longleftrightarrow> True"
| "valid_utf8 (b # s) \<longleftrightarrow>
     (case decode_rune (b # s) of None \<Rightarrow> False | Some (_, n) \<Rightarrow> valid_utf8 (drop (n - 1) s))"

lemma valid_utf8_ascii: "list_all (\<lambda>c. bval c < 128) s \<Longrightarrow> valid_utf8 s"
  by (induction s) (simp_all add: decode_rune.simps(2))

text \<open>\<open>strings.ToValidUTF8(s, repl)\<close>: each maximal run of invalid bytes becomes one \<open>repl\<close>.\<close>

fun to_valid_from :: "bytes \<Rightarrow> bool \<Rightarrow> bytes \<Rightarrow> bytes" where
  "to_valid_from repl invalid [] = []"
| "to_valid_from repl invalid (b # s) =
     (case decode_rune (b # s) of
        None \<Rightarrow> (if invalid then [] else repl) @ to_valid_from repl True s
      | Some (_, n) \<Rightarrow> take n (b # s) @ to_valid_from repl False (drop (n - 1) s))"

definition replacement_char :: bytes where
  "replacement_char = [CHR 0xEF, CHR 0xBF, CHR 0xBD]"

definition to_valid_utf8 :: "bytes \<Rightarrow> bytes" where
  "to_valid_utf8 s = to_valid_from replacement_char False s"

text \<open>The runes of a string with their bytes; an invalid byte is U+FFFD of width one.\<close>

fun segments :: "bytes \<Rightarrow> (nat \<times> bytes) list" where
  "segments [] = []"
| "segments (b # s) =
     (case decode_rune (b # s) of
        None \<Rightarrow> (0xFFFD, [b]) # segments s
      | Some (r, n) \<Rightarrow> (r, take n (b # s)) # segments (drop (n - 1) s))"

text \<open>\<open>unicode.IsSpace\<close>.\<close>

definition is_space :: "nat \<Rightarrow> bool" where
  "is_space r \<longleftrightarrow> (9 \<le> r \<and> r \<le> 13) \<or> r = 0x20 \<or> r = 0x85 \<or> r = 0xA0 \<or> r = 0x1680
     \<or> (0x2000 \<le> r \<and> r \<le> 0x200A) \<or> r = 0x2028 \<or> r = 0x2029 \<or> r = 0x202F \<or> r = 0x205F
     \<or> r = 0x3000"

definition trim_space :: "bytes \<Rightarrow> bytes" where
  "trim_space s =
     concat (map snd (rev (dropWhile (is_space \<circ> fst) (rev (dropWhile (is_space \<circ> fst) (segments s))))))"

section \<open>Facts about single runes\<close>

lemma bval_less_256: "bval c < 256"
proof -
  have "of_char c \<in> {0..<(256::nat)}"
    using range_nat_of_char by blast
  then show ?thesis by (simp add: bval_def)
qed

lemma decode_rune_width:
  assumes "decode_rune s = Some (r, n)"
  shows "0 < n \<and> n \<le> 4 \<and> n \<le> length s"
  using assms
  by (cases s) (auto simp: decode_defs split: if_splits list.splits)

lemma decode_rune_append:
  assumes "decode_rune s = Some (r, n)"
  shows "decode_rune (take n s @ t) = Some (r, n)"
  using assms
  by (cases s) (auto simp: decode_defs split: if_splits list.splits)

lemma decode_rune_not_cont:
  assumes "decode_rune (b # s) = Some (r, n)"
  shows "\<not> is_cont b"
  using assms by (auto simp: is_cont_def decode_rune.simps Let_def split: if_splits)

lemma cont_in_is_cont:
  "cont_in 0xA0 0xBF c \<Longrightarrow> is_cont c" "cont_in 0x80 0x9F c \<Longrightarrow> is_cont c"
  "cont_in 0x80 0xBF c \<Longrightarrow> is_cont c" "cont_in 0x90 0xBF c \<Longrightarrow> is_cont c"
  "cont_in 0x80 0x8F c \<Longrightarrow> is_cont c"
  by (auto simp: cont_in_def is_cont_def)

lemma decode_rune_conts:
  assumes "decode_rune (b # s) = Some (r, n)"
  shows "\<forall>c \<in> set (take (n - 1) s). is_cont c"
proof -
  have "n \<in> {1, 2, 3, 4}"
    using decode_rune_width [OF assms] by auto
  then show ?thesis
    using assms
    by (auto simp: decode_defs take_Cons' dest: cont_in_is_cont split: if_splits list.splits)
qed

lemma valid_utf8_rune_append:
  assumes "decode_rune s = Some (r, n)" and "valid_utf8 t"
  shows "valid_utf8 (take n s @ t)"
proof -
  obtain b u where s: "s = b # u" using assms(1) by (cases s) auto
  have n: "0 < n" "n \<le> length s" using decode_rune_width [OF assms(1)] by auto
  have "take n s @ t = b # (take (n - 1) u @ t)"
    using n s by (cases n) auto
  moreover have "decode_rune (b # (take (n - 1) u @ t)) = Some (r, n)"
    using decode_rune_append [OF assms(1), of t] calculation by simp
  moreover have "drop (n - 1) (take (n - 1) u @ t) = t"
    using n s by simp
  ultimately show ?thesis using assms(2) by simp
qed

lemma valid_utf8_replacement: "valid_utf8 t \<Longrightarrow> valid_utf8 (replacement_char @ t)"
  by (simp add: replacement_char_def decode_defs bval_def is_cont_def cont_in_def)

section \<open>Sanitising\<close>

lemma to_valid_from_valid:
  assumes repl: "\<And>t. valid_utf8 t \<Longrightarrow> valid_utf8 (repl @ t)"
  shows "valid_utf8 (to_valid_from repl iv s)"
  using repl
proof (induction repl iv s rule: to_valid_from.induct)
  case (2 repl iv b s)
  show ?case
  proof (cases "decode_rune (b # s)")
    case None
    with "2.IH"(1) "2.prems" show ?thesis by auto
  next
    case (Some p)
    then obtain r n where p: "decode_rune (b # s) = Some (r, n)" by (cases p) auto
    then have "valid_utf8 (to_valid_from repl False (drop (n - 1) s))"
      using "2.prems" by (intro "2.IH"(2)) auto
    then have "valid_utf8 (take n (b # s) @ to_valid_from repl False (drop (n - 1) s))"
      by (rule valid_utf8_rune_append [OF p])
    then show ?thesis using p by (simp del: take_Suc_Cons)
  qed
qed simp

lemma to_valid_utf8_valid: "valid_utf8 (to_valid_utf8 s)"
  unfolding to_valid_utf8_def by (intro to_valid_from_valid valid_utf8_replacement)

lemma take_drop_rune: "0 < n \<Longrightarrow> take n (b # s) @ drop (n - 1) s = b # s"
  by (cases n) simp_all

lemma to_valid_from_id: "valid_utf8 s \<Longrightarrow> to_valid_from repl iv s = s"
proof (induction s arbitrary: iv rule: valid_utf8.induct)
  case (2 b s)
  from "2.prems" obtain r n where p: "decode_rune (b # s) = Some (r, n)"
    and v: "valid_utf8 (drop (n - 1) s)"
    by (auto split: option.splits)
  have "to_valid_from repl False (drop (n - 1) s) = drop (n - 1) s"
    by (rule "2.IH" [OF p _ v]) simp
  moreover have "0 < n" using decode_rune_width [OF p] by simp
  ultimately show ?case
    using p take_drop_rune [of n b s] by (simp del: take_Suc_Cons)
qed simp

lemma to_valid_utf8_id: "valid_utf8 s \<Longrightarrow> to_valid_utf8 s = s"
  by (simp add: to_valid_utf8_def to_valid_from_id)

lemma segments_concat: "concat (map snd (segments s)) = s"
proof (induction s rule: segments.induct)
  case (2 b s)
  show ?case
  proof (cases "decode_rune (b # s)")
    case (Some p)
    then obtain r n where p: "decode_rune (b # s) = Some (r, n)" by (cases p) auto
    have "concat (map snd (segments (drop (n - 1) s))) = drop (n - 1) s"
      by (rule "2.IH"(2) [OF p]) simp
    moreover have "0 < n" using decode_rune_width [OF p] by simp
    ultimately show ?thesis using p take_drop_rune [of n b s] by (simp del: take_Suc_Cons)
  qed (use "2.IH" in auto)
qed simp

text \<open>Every segment of a valid string is itself one rune, so any concatenation of them is valid.\<close>

definition rune_bytes :: "bytes \<Rightarrow> bool" where
  "rune_bytes u \<longleftrightarrow> (\<exists>r. decode_rune u = Some (r, length u))"

lemma valid_utf8_concat: "\<forall>u \<in> set us. rune_bytes u \<Longrightarrow> valid_utf8 (concat us)"
proof (induction us)
  case (Cons u us)
  then obtain r where "decode_rune u = Some (r, length u)" by (auto simp: rune_bytes_def)
  then have "valid_utf8 (take (length u) u @ concat us)"
    using Cons by (intro valid_utf8_rune_append) auto
  then show ?case by simp
qed simp

lemma segments_runes: "valid_utf8 s \<Longrightarrow> \<forall>p \<in> set (segments s). rune_bytes (snd p)"
proof (induction s rule: valid_utf8.induct)
  case (2 b s)
  from "2.prems" obtain r n where p: "decode_rune (b # s) = Some (r, n)"
    and v: "valid_utf8 (drop (n - 1) s)"
    by (auto split: option.splits)
  have "\<forall>q \<in> set (segments (drop (n - 1) s)). rune_bytes (snd q)"
    by (rule "2.IH" [OF p _ v]) simp
  moreover have "rune_bytes (take n (b # s))"
    using decode_rune_append [OF p, of "[]"] decode_rune_width [OF p]
    by (simp add: rune_bytes_def del: take_Suc_Cons decode_rune.simps)
  ultimately show ?case using p by (simp del: take_Suc_Cons)
qed simp

lemma trim_space_valid: "valid_utf8 s \<Longrightarrow> valid_utf8 (trim_space s)"
  unfolding trim_space_def
  by (rule valid_utf8_concat) (auto dest!: segments_runes set_dropWhileD)

section \<open>ASCII text\<close>

lemma segments_ascii: "list_all (\<lambda>c. bval c < 128) s \<Longrightarrow> segments s = map (\<lambda>c. (bval c, [c])) s"
  by (induction s) (simp_all add: decode_rune.simps(2))

lemma trim_space_line:
  assumes "list_all (\<lambda>c. bval c < 128 \<and> \<not> is_space (bval c)) s"
  shows "trim_space (s @ [CHR 0x0A]) = s"
proof -
  have ascii: "segments (s @ [CHR 0x0A]) = map (\<lambda>c. (bval c, [c])) s @ [(10, [CHR 0x0A])]"
    using assms by (subst segments_ascii) (auto simp: list_all_iff bval_def)
  have none: "dropWhile (is_space \<circ> fst) (map (\<lambda>c. (bval c, [c])) t) = map (\<lambda>c. (bval c, [c])) t"
    if "list_all (\<lambda>c. bval c < 128 \<and> \<not> is_space (bval c)) t" for t
    using that by (cases t) auto
  have "trim_space (s @ [CHR 0x0A]) = concat (map snd (map (\<lambda>c. (bval c, [c])) s))"
  proof (cases "s = []")
    case True
    then show ?thesis using ascii by (simp add: trim_space_def is_space_def)
  next
    case False
    have "dropWhile (is_space \<circ> fst) (segments (s @ [CHR 0x0A])) = segments (s @ [CHR 0x0A])"
      using assms False ascii by (cases s) auto
    moreover have "dropWhile (is_space \<circ> fst) (rev (segments (s @ [CHR 0x0A]))) = map (\<lambda>c. (bval c, [c])) (rev s)"
      using none [of "rev s"] assms ascii by (simp add: is_space_def rev_map)
    ultimately show ?thesis by (simp add: trim_space_def rev_map [symmetric])
  qed
  then show ?thesis by (simp add: comp_def)
qed

section \<open>Cutting on a rune boundary\<close>

lemma valid_utf8_cut:
  assumes "valid_utf8 (x @ y)"
  shows "\<exists>k \<le> 3. k \<le> length y \<and> (\<forall>c \<in> set (take k y). is_cont c)
           \<and> (k < length y \<longrightarrow> \<not> is_cont (y ! k)) \<and> valid_utf8 (drop k y)"
  using assms
proof (induction "x @ y" arbitrary: x rule: valid_utf8.induct)
  case 1
  then show ?case by simp
next
  case (2 b s)
  have start: "\<not> is_cont (z ! 0)" if "valid_utf8 z" "z \<noteq> []" for z
    using that by (cases z) (auto dest: decode_rune_not_cont split: option.splits)
  show ?case
  proof (cases x)
    case Nil
    with "2.hyps"(2) "2.prems" start [of y] show ?thesis by (intro exI [of _ 0]) auto
  next
    case (Cons b' x')
    with "2.hyps"(2) have b: "b' = b" and s: "s = x' @ y" by auto
    from "2.prems" "2.hyps"(2) [symmetric] obtain r n
      where p: "decode_rune (b # s) = Some (r, n)" and v: "valid_utf8 (drop (n - 1) s)"
      by (auto split: option.splits)
    have w: "0 < n" "n \<le> 4" "n \<le> Suc (length s)" using decode_rune_width [OF p] by auto
    show ?thesis
    proof (cases "n - 1 \<le> length x'")
      case True
      then have "drop (n - 1) s = drop (n - 1) x' @ y" by (simp add: s)
      with "2.hyps"(1) [OF p _ this] v show ?thesis by simp
    next
      case False
      let ?k = "n - 1 - length x'"
      have "drop (n - 1) s = drop ?k y" using False by (simp add: s)
      moreover have "\<forall>c \<in> set (take ?k y). is_cont c"
        using decode_rune_conts [OF p] False by (simp add: s)
      moreover have "?k < length y \<longrightarrow> \<not> is_cont (y ! ?k)"
        using start [of "drop ?k y"] v calculation(1) by auto
      moreover have "?k \<le> 3" "?k \<le> length y" using w by (auto simp: s)
      ultimately show ?thesis using v by (intro exI [of _ ?k]) simp
    qed
  qed
qed

lemma valid_utf8_drop_conts:
  assumes "valid_utf8 (x @ y)" and "y = [] \<or> \<not> is_cont (hd y)"
  shows "valid_utf8 y"
proof -
  obtain k where k: "\<forall>c \<in> set (take k y). is_cont c" "k \<le> length y" "valid_utf8 (drop k y)"
    using valid_utf8_cut [OF assms(1)] by blast
  have "k = 0 \<or> y = []"
    using k(1,2) assms(2) by (cases y; cases k) auto
  then show ?thesis using k(3) by auto
qed

lemma valid_utf8_prefix:
  assumes "valid_utf8 (x @ y)" and "y = [] \<or> \<not> is_cont (hd y)"
  shows "valid_utf8 x"
  using assms
proof (induction "x @ y" arbitrary: x rule: valid_utf8.induct)
  case (2 b s)
  show ?case
  proof (cases x)
    case (Cons b' x')
    with "2.hyps"(2) have b: "b' = b" and s: "s = x' @ y" by auto
    from "2.prems"(1) "2.hyps"(2) [symmetric] obtain r n
      where p: "decode_rune (b # s) = Some (r, n)" and v: "valid_utf8 (drop (n - 1) s)"
      by (auto split: option.splits)
    have w: "0 < n" "n \<le> Suc (length s)" using decode_rune_width [OF p] by auto
    have le: "n - 1 \<le> length x'"
    proof (rule ccontr)
      assume "\<not> n - 1 \<le> length x'"
      then have "y \<noteq> []" and "take (n - 1) s = x' @ take (n - 1 - length x') y"
        using w by (auto simp: s)
      moreover from this(1) \<open>\<not> n - 1 \<le> length x'\<close>
      have "hd y \<in> set (take (n - 1 - length x') y)"
        by (cases y; cases "n - 1 - length x'") auto
      ultimately show False using decode_rune_conts [OF p] "2.prems"(2) by auto
    qed
    then have d: "drop (n - 1) s = drop (n - 1) x' @ y" by (simp add: s)
    have "valid_utf8 (drop (n - 1) x')"
      using v "2.prems"(2) d by (intro "2.hyps"(1) [OF p _ d]) auto
    moreover have "x = take n (b # s) @ drop (n - 1) x'"
      using le w Cons b by (cases n) (auto simp: s)
    ultimately show ?thesis
      using valid_utf8_rune_append [OF p] by (metis)
  qed simp
qed simp

end
