(* ===== verification/Keyed_Store.thy ===== *)
theory Keyed_Store
  imports Utf8
begin

text \<open>
  What the daemon's persistent stores share: a map from identifiers to records, saved as a
  JSON list and rebuilt from it. The interface of such a store is a locale; its main fact is
  that a store rebuilt from its own records, in any order, answers every lookup alike.
\<close>

section \<open>JSON files\<close>

text \<open>
  \<open>encoding/json\<close> writes each byte of a string that is not part of a valid rune as U+FFFD; all
  else of a string survives the round trip.
\<close>

fun json_str :: "bytes \<Rightarrow> bytes" where
  "json_str [] = []"
| "json_str (b # s) =
     (case decode_rune (b # s) of
        None \<Rightarrow> replacement_char @ json_str s
      | Some (_, n) \<Rightarrow> take n (b # s) @ json_str (drop (n - 1) s))"

lemma json_str_valid [simp]: "valid_utf8 s \<Longrightarrow> json_str s = s"
proof (induction s rule: json_str.induct)
  case (2 b s)
  then obtain r n where p: "decode_rune (b # s) = Some (r, n)" and v: "valid_utf8 (drop (n - 1) s)"
    by (auto split: option.splits)
  have "0 < n" using decode_rune_width [OF p] by simp
  then have "take n (b # s) @ drop (n - 1) s = b # s" by (rule take_drop_rune)
  moreover have "json_str (drop (n - 1) s) = drop (n - 1) s"
    by (rule "2.IH"(2) [OF p _ v]) simp
  moreover have "json_str (b # s) = take n (b # s) @ json_str (drop (n - 1) s)"
    by (simp only: json_str.simps p option.case prod.case)
  ultimately show ?case by (simp only:)
qed simp

text \<open>
  What is on disk under a store's path. An entry of the list is \<open>None\<close> for a JSON \<open>null\<close>.
\<close>

datatype 'r store_file = NoFile | ReadFails string | BadJSON string | JSONFile "'r option list"

text \<open>How a save goes: the directory, the encoder and the atomic write succeed, or an error.\<close>

datatype save_io = SaveOk | SaveFails string

text \<open>An atomic write either installs the new contents or leaves the old ones.\<close>

definition write_store :: "save_io \<Rightarrow> 'r list \<Rightarrow> 'r store_file \<Rightarrow> 'r store_file \<times> string option" where
  "write_store io rs disk =
     (case io of SaveOk \<Rightarrow> (JSONFile (map Some rs), None) | SaveFails e \<Rightarrow> (disk, Some e))"

section \<open>The interface of a store\<close>

lemma distinct_map_Cons: "distinct (map f (x # xs)) \<Longrightarrow> y \<in> set xs \<Longrightarrow> f y \<noteq> f x"
  by simp (metis imageI)

lemma find_unique: "r \<in> set rs \<Longrightarrow> P r \<Longrightarrow> (\<And>r'. r' \<in> set rs \<Longrightarrow> P r' \<Longrightarrow> r' = r) \<Longrightarrow> List.find P rs = Some r"
proof (induction rs)
  case (Cons x xs)
  show ?case
  proof (cases "P x")
    case True
    then have "x = r" using Cons.prems(3) by simp
    with True show ?thesis by simp
  next
    case False
    then have "r \<noteq> x" using Cons.prems(2) by blast
    then have "r \<in> set xs" using Cons.prems(1) by simp
    then have "List.find P xs = Some r" using Cons.prems(2,3) by (intro Cons.IH) simp_all
    then show ?thesis using False by simp
  qed
qed simp

locale keyed_store =
  fixes lookup :: "'s \<Rightarrow> string \<Rightarrow> 'r option"
    and put :: "'r \<Rightarrow> 's \<Rightarrow> 's"
    and remove :: "string \<Rightarrow> 's \<Rightarrow> 's \<times> bool"
    and entries :: "'s \<Rightarrow> 'r list"
    and key :: "'r \<Rightarrow> string"
    and empty :: "'s"
    and wf :: "'s \<Rightarrow> bool"
  assumes wf_empty: "wf empty"
    and lookup_empty: "lookup empty k = None"
    and wf_put: "wf s \<Longrightarrow> wf (put r s)"
    and lookup_put: "wf s \<Longrightarrow> lookup (put r s) k = (if k = key r then Some r else lookup s k)"
    and wf_remove: "wf s \<Longrightarrow> wf (fst (remove k s))"
    and lookup_remove: "wf s \<Longrightarrow> lookup (fst (remove k s)) k' = (if k' = k then None else lookup s k')"
    and remove_result: "wf s \<Longrightarrow> snd (remove k s) \<longleftrightarrow> lookup s k \<noteq> None"
    and entries_lookup: "wf s \<Longrightarrow> r \<in> set (entries s) \<longleftrightarrow> lookup s (key r) = Some r"
    and lookup_key: "wf s \<Longrightarrow> lookup s k = Some r \<Longrightarrow> key r = k"
    and entries_distinct: "wf s \<Longrightarrow> distinct (map key (entries s))"
begin

lemma wf_puts: "wf s \<Longrightarrow> wf (fold put rs s)"
  by (induction rs arbitrary: s) (auto simp: wf_put)

lemma lookup_puts:
  assumes "wf s" and "distinct (map key rs)"
  shows "lookup (fold put rs s) k =
    (case List.find (\<lambda>r. key r = k) rs of Some r \<Rightarrow> Some r | None \<Rightarrow> lookup s k)"
  using assms
proof (induction rs arbitrary: s)
  case (Cons r rs)
  have none: "List.find (\<lambda>r. key r = k) rs = None" if k: "key r = k"
  proof -
    have "key x \<noteq> k" if "x \<in> set rs" for x
      using distinct_map_Cons [OF Cons.prems(2) that] k by simp
    then show ?thesis unfolding find_None_iff by blast
  qed
  have IH: "lookup (fold put (r # rs) s) k =
      (case List.find (\<lambda>r. key r = k) rs of Some r \<Rightarrow> Some r | None \<Rightarrow> lookup (put r s) k)"
    using Cons.IH [OF wf_put [OF Cons.prems(1)], of r] Cons.prems(2) by simp
  show ?case
  proof (cases "key r = k")
    case True
    then show ?thesis unfolding IH none [OF True] by (simp add: lookup_put Cons.prems(1))
  next
    case False
    then have "lookup (put r s) k = lookup s k" using lookup_put [OF Cons.prems(1), of r k] by auto
    then show ?thesis unfolding IH
      using False by (cases "List.find (\<lambda>r. key r = k) rs") simp_all
  qed
qed simp

lemma rebuild:
  assumes "wf s" and "distinct (map key rs)" and "set rs = set (entries s)"
  shows "lookup (fold put rs empty) k = lookup s k"
proof (cases "lookup s k")
  case None
  have "key r \<noteq> k" if "r \<in> set rs" for r
  proof -
    have "lookup s (key r) = Some r" using that assms(3) entries_lookup [OF assms(1)] by blast
    then show ?thesis using None by auto
  qed
  then have "List.find (\<lambda>r. key r = k) rs = None"
    unfolding find_None_iff by blast
  then show ?thesis using None by (simp add: lookup_puts wf_empty assms(2) lookup_empty)
next
  case (Some r)
  then have k: "key r = k" using lookup_key [OF assms(1)] by blast
  moreover have "r \<in> set rs"
    using Some k assms(3) entries_lookup [OF assms(1), of r] by blast
  moreover have "r' = r" if "r' \<in> set rs" "key r' = k" for r'
  proof -
    have "lookup s (key r') = Some r'" using that(1) assms(3) entries_lookup [OF assms(1)] by blast
    then show ?thesis using that(2) Some by simp
  qed
  ultimately have "List.find (\<lambda>r. key r = k) rs = Some r"
    by (intro find_unique) blast+
  with Some lookup_puts [OF wf_empty assms(2), of k] show ?thesis by simp
qed

lemma remove_twice: "wf s \<Longrightarrow> \<not> snd (remove k (fst (remove k s)))"
  by (simp add: remove_result wf_remove lookup_remove)

lemma put_remove_absent:
  "wf s \<Longrightarrow> lookup s (key r) = None \<Longrightarrow> lookup (fst (remove (key r) (put r s))) k = lookup s k"
  by (simp add: lookup_remove wf_put lookup_put)

lemma entries_puts:
  "wf s \<Longrightarrow> distinct (map key rs) \<Longrightarrow> \<forall>r \<in> set rs. lookup s (key r) = None \<Longrightarrow>
    set (entries (fold put rs s)) = set rs \<union> set (entries s)"
proof (induction rs arbitrary: s)
  case (Cons r rs)
  have "x \<in> set (entries (put r s)) \<longleftrightarrow> x = r \<or> x \<in> set (entries s)" for x
  proof (cases "key x = key r")
    case True
    then show ?thesis
      using Cons.prems(1,3) entries_lookup [OF wf_put [OF Cons.prems(1)], of x r]
        entries_lookup [OF Cons.prems(1), of x] lookup_put [OF Cons.prems(1), of r "key x"] by auto
  next
    case False
    then show ?thesis
      using entries_lookup [OF wf_put [OF Cons.prems(1)], of x r]
        entries_lookup [OF Cons.prems(1), of x] lookup_put [OF Cons.prems(1), of r "key x"] by auto
  qed
  then have "set (entries (put r s)) = insert r (set (entries s))" by blast
  moreover have "\<forall>r' \<in> set rs. lookup (put r s) (key r') = None"
    using Cons.prems distinct_map_Cons [OF Cons.prems(2)] by (simp add: lookup_put)
  ultimately show ?case using Cons by (auto simp: wf_put)
qed simp

end

text \<open>
  A store that keeps its records in one Go map under their keys, as the daemon's stores do, has the
  interface; \<open>get_map\<close> and \<open>set_map\<close> read and replace the map.
\<close>

definition map_wf :: "('s \<Rightarrow> (string, 'r) gomap) \<Rightarrow> ('r \<Rightarrow> string) \<Rightarrow> 's \<Rightarrow> bool" where
  "map_wf get_map key s \<longleftrightarrow> gwf (get_map s) \<and> (\<forall>p \<in> set (get_map s). key (snd p) = fst p)"

lemma map_wf_key: "map_wf get_map key s \<Longrightarrow> gget (get_map s) k = Some r \<Longrightarrow> key r = k"
  by (auto simp: map_wf_def dest!: gget_SomeD)

lemma map_wfI:
  "gwf (get_map s) \<Longrightarrow> (\<And>k r. gget (get_map s) k = Some r \<Longrightarrow> key r = k) \<Longrightarrow> map_wf get_map key s"
  by (auto simp: map_wf_def gget_eq_Some_iff)

lemma map_wf_put:
  assumes "map_wf get_map key s" and "get_map s' = gput (key r) r (get_map s)"
  shows "map_wf get_map key s'"
proof (rule map_wfI)
  show "gwf (get_map s')" using assms by (simp add: map_wf_def)
  fix k r' assume "gget (get_map s') k = Some r'"
  then have "k = key r \<and> r' = r \<or> gget (get_map s) k = Some r'"
    by (cases "k = key r") (simp_all add: assms(2) gget_gput)
  then show "key r' = k" using map_wf_key [OF assms(1)] by blast
qed

lemma map_wf_del:
  "map_wf get_map key s \<Longrightarrow> get_map s' = gdel k (get_map s) \<Longrightarrow> map_wf get_map key s'"
  by (simp add: map_wf_def) (simp add: gdel_filter)

lemma map_store:
  assumes set_map: "\<And>m s. get_map (set_map m s) = m" and init: "get_map init = []"
  shows "keyed_store (\<lambda>s. gget (get_map s)) (\<lambda>r s. set_map (gput (key r) r (get_map s)) s)
    (\<lambda>k s. case gget (get_map s) k of
       Some _ \<Rightarrow> (set_map (gdel k (get_map s)) s, True) | None \<Rightarrow> (s, False))
    (\<lambda>s. gvals (get_map s)) key init (map_wf get_map key)"
proof
  fix s r k k'
  show "map_wf get_map key init" "gget (get_map init) k = None" by (simp_all add: map_wf_def init)
  assume wf: "map_wf get_map key s"
  then have g: "gwf (get_map s)" by (simp add: map_wf_def)
  show "map_wf get_map key (set_map (gput (key r) r (get_map s)) s)"
    by (rule map_wf_put [OF wf]) (simp add: set_map)
  show "gget (get_map (set_map (gput (key r) r (get_map s)) s)) k =
      (if k = key r then Some r else gget (get_map s) k)" by (simp add: set_map gget_gput)
  show "map_wf get_map key (fst (case gget (get_map s) k of
       Some _ \<Rightarrow> (set_map (gdel k (get_map s)) s, True) | None \<Rightarrow> (s, False)))"
    using wf map_wf_del [OF wf, of "set_map (gdel k (get_map s)) s" k] by (simp add: set_map split: option.split)
  show "gget (get_map (fst (case gget (get_map s) k of
       Some _ \<Rightarrow> (set_map (gdel k (get_map s)) s, True) | None \<Rightarrow> (s, False)))) k' =
      (if k' = k then None else gget (get_map s) k')"
    by (auto simp: set_map gget_gdel split: option.splits)
  show "snd (case gget (get_map s) k of
       Some _ \<Rightarrow> (set_map (gdel k (get_map s)) s, True) | None \<Rightarrow> (s, False)) \<longleftrightarrow>
      gget (get_map s) k \<noteq> None" by (simp split: option.splits)
  show "r \<in> set (gvals (get_map s)) \<longleftrightarrow> gget (get_map s) (key r) = Some r"
    using set_gvals_iff [OF g, of r] map_wf_key [OF wf] by auto
  show "gget (get_map s) k = Some r \<Longrightarrow> key r = k" by (rule map_wf_key [OF wf])
  have "map key (gvals (get_map s)) = map fst (get_map s)" using wf by (auto simp: gvals_def map_wf_def)
  then show "distinct (map key (gvals (get_map s)))" using g by (simp add: gwf_def)
qed

end
