(* ===== verification/Stream_Scanner.thy ===== *)
theory Stream_Scanner
  imports Prelude
begin

text \<open>
  The interface of the daemon's terminal-stream scanners. The PTY reader feeds a scanner one
  chunk at a time, and the chunk boundaries are accidents of the kernel's buffering: a
  scanner is correct only if its answers do not depend on them. The locale states that as
  two laws of the chunk function; its lemma says that any two ways of cutting the same
  stream into chunks end in the same state with the same combined result. The bell detector,
  the mode tracker and the detach keys of the command line tool interpret it.
\<close>

fun run_chunks ::
  "('s \<Rightarrow> bytes \<Rightarrow> 's \<times> 'r) \<Rightarrow> 'r \<Rightarrow> ('r \<Rightarrow> 'r \<Rightarrow> 'r) \<Rightarrow> 's \<Rightarrow> bytes list \<Rightarrow> 's \<times> 'r" where
  "run_chunks process none join s [] = (s, none)"
| "run_chunks process none join s (c # cs) =
     (let (s1, r1) = process s c; (s2, r2) = run_chunks process none join s1 cs
      in (s2, join r1 r2))"

locale stream_scanner =
  fixes process :: "'s \<Rightarrow> bytes \<Rightarrow> 's \<times> 'r"
    and none :: 'r
    and join :: "'r \<Rightarrow> 'r \<Rightarrow> 'r"
  assumes process_Nil: "process s [] = (s, none)"
    and process_append:
      "process s (x @ y) =
         (let (s1, r1) = process s x; (s2, r2) = process s1 y in (s2, join r1 r2))"
begin

lemma run_chunks_concat: "run_chunks process none join s cs = process s (concat cs)"
proof (induction cs arbitrary: s)
  case (Cons c cs)
  then show ?case by (simp add: process_append Let_def split: prod.splits)
qed (simp add: process_Nil)

lemma chunking_irrelevant:
  "concat cs = concat ds \<Longrightarrow> run_chunks process none join s cs = run_chunks process none join s ds"
  by (simp add: run_chunks_concat)

lemma process_state_append: "fst (process s (x @ y)) = fst (process (fst (process s x)) y)"
  by (simp add: process_append Let_def split: prod.splits)

end

end
