(* ===== verification/Bell.thy ===== *)
theory Bell
  imports Utf8 Stream_Scanner
begin

text \<open>
  The attention-signal detector of \<open>internal/session/bell.go\<close>: bare BEL characters and
  OSC 9 notifications in a terminal output stream, across chunk boundaries.
\<close>

record bell_detector =
  bd_afterEscape :: bool
  bd_inOSC :: bool
  bd_oscBuf :: bytes

record bell_result =
  br_bell :: bool
  br_messages :: "string list"

definition bell_attention :: "bell_result \<Rightarrow> bool" where
  "bell_attention r \<longleftrightarrow> br_bell r \<or> 0 < length (br_messages r)"

definition bell_lastMessage :: "bell_result \<Rightarrow> string" where
  "bell_lastMessage r =
     (if length (br_messages r) = 0 then [] else br_messages r ! (length (br_messages r) - 1))"

definition bellByte :: char where "bellByte = CHR 0x07"
definition escByte :: char where "escByte = CHR 0x1B"
definition oscIntroducer :: char where "oscIntroducer = CHR '']''"
definition stringTerminator :: char where "stringTerminator = CHR 0x5C"
definition maxOSCBuffer :: nat where "maxOSCBuffer = 512"
definition oscNotificationPrefix :: bytes where "oscNotificationPrefix = ''9;''"

lemmas bell_consts = bellByte_def escByte_def oscIntroducer_def stringTerminator_def

text \<open>The zero value of the Go struct, with which a session starts.\<close>

definition new_bellDetector :: bell_detector where
  "new_bellDetector = \<lparr>bd_afterEscape = False, bd_inOSC = False, bd_oscBuf = []\<rparr>"

definition no_bell :: bell_result where
  "no_bell = \<lparr>br_bell = False, br_messages = []\<rparr>"

definition endOSC :: "bell_detector \<Rightarrow> bell_result \<Rightarrow> bell_detector \<times> bell_result" where
  "endOSC d res =
     (let d = d\<lparr>bd_inOSC := False\<rparr>;
          res = (case cut_prefix (bd_oscBuf d) oscNotificationPrefix of
                   None \<Rightarrow> res
                 | Some payload \<Rightarrow>
                     let msg = trim_space (to_valid_utf8 payload) in
                     if msg \<noteq> [] then res\<lparr>br_messages := br_messages res @ [msg]\<rparr> else res)
      in (d\<lparr>bd_oscBuf := []\<rparr>, res))"

text \<open>One iteration of the loop of \<open>process\<close>; each \<open>continue\<close> is a branch.\<close>

definition bell_byte :: "char \<Rightarrow> bell_detector \<times> bell_result \<Rightarrow> bell_detector \<times> bell_result" where
  "bell_byte b = (\<lambda>(d, res).
     if bd_afterEscape d then
       (let d = d\<lparr>bd_afterEscape := False\<rparr> in
        if b = oscIntroducer then (d\<lparr>bd_inOSC := True, bd_oscBuf := []\<rparr>, res)
        else if bd_inOSC d \<and> b = stringTerminator then endOSC d res
        else (d, res))
     else if b = escByte then (d\<lparr>bd_afterEscape := True\<rparr>, res)
     else if b = bellByte then
       (if bd_inOSC d then endOSC d res else (d, res\<lparr>br_bell := True\<rparr>))
     else if bd_inOSC d \<and> length (bd_oscBuf d) < maxOSCBuffer then
       (d\<lparr>bd_oscBuf := bd_oscBuf d @ [b]\<rparr>, res)
     else (d, res))"

definition bell_process :: "bell_detector \<Rightarrow> bytes \<Rightarrow> bell_detector \<times> bell_result" where
  "bell_process d data = fold bell_byte data (d, no_bell)"

text \<open>How the results of successive chunks combine.\<close>

definition bell_join :: "bell_result \<Rightarrow> bell_result \<Rightarrow> bell_result" where
  "bell_join r s = \<lparr>br_bell = br_bell r \<or> br_bell s, br_messages = br_messages r @ br_messages s\<rparr>"

section \<open>Chunk boundaries do not matter\<close>

lemma endOSC_join:
  "endOSC d (bell_join r s) = (let (d', s') = endOSC d s in (d', bell_join r s'))"
  by (simp add: endOSC_def bell_join_def Let_def split: option.splits)

lemma bell_byte_join:
  "bell_byte b (d, bell_join r s) = (let (d', s') = bell_byte b (d, s) in (d', bell_join r s'))"
  by (simp add: bell_byte_def Let_def endOSC_join split: prod.splits)
     (simp add: bell_join_def)

lemma bell_fold_join:
  "fold bell_byte data (d, bell_join r s) =
     (let (d', s') = fold bell_byte data (d, s) in (d', bell_join r s'))"
proof (induction data arbitrary: d s)
  case (Cons b data)
  obtain d' s' where "bell_byte b (d, s) = (d', s')" by fastforce
  with Cons show ?case by (simp add: bell_byte_join)
qed simp

lemma bell_join_none [simp]: "bell_join r no_bell = r" "bell_join no_bell r = r"
  by (simp_all add: bell_join_def no_bell_def)

interpretation bell_scanner: stream_scanner bell_process no_bell bell_join
proof
  fix d :: bell_detector and x y :: bytes
  show "bell_process d [] = (d, no_bell)" by (simp add: bell_process_def)
  obtain d' r where x: "fold bell_byte x (d, no_bell) = (d', r)" by fastforce
  have "fold bell_byte y (d', r) =
      (let (d2, r2) = fold bell_byte y (d', no_bell) in (d2, bell_join r r2))"
    using bell_fold_join [of y d' r no_bell] by simp
  then show "bell_process d (x @ y) =
      (let (s1, r1) = bell_process d x; (s2, r2) = bell_process s1 y in (s2, bell_join r1 r2))"
    using x by (simp add: bell_process_def Let_def)
qed

section \<open>What a detector can hold and report\<close>

definition bell_message_ok :: "string \<Rightarrow> bool" where
  "bell_message_ok m \<longleftrightarrow> m \<noteq> [] \<and> valid_utf8 m"

definition bell_inv :: "bell_detector \<times> bell_result \<Rightarrow> bool" where
  "bell_inv p \<longleftrightarrow> length (bd_oscBuf (fst p)) \<le> maxOSCBuffer
     \<and> (\<forall>m \<in> set (br_messages (snd p)). bell_message_ok m)"

lemma bell_inv_endOSC: "bell_inv (d, r) \<Longrightarrow> bell_inv (endOSC d r)"
  by (auto simp: bell_inv_def endOSC_def Let_def bell_message_ok_def maxOSCBuffer_def
      trim_space_valid to_valid_utf8_valid split: option.splits)

lemma bell_inv_byte: "bell_inv p \<Longrightarrow> bell_inv (bell_byte b p)"
proof (cases p)
  case (Pair d r)
  assume p: "bell_inv p"
  then have "bell_inv (d\<lparr>bd_afterEscape := False\<rparr>, r)"
    using Pair by (simp add: bell_inv_def)
  then have "bell_inv (endOSC d r)" "bell_inv (endOSC (d\<lparr>bd_afterEscape := False\<rparr>) r)"
    using p Pair by (blast intro: bell_inv_endOSC)+
  moreover have "length (bd_oscBuf d) \<le> maxOSCBuffer" "\<forall>m \<in> set (br_messages r). bell_message_ok m"
    using p Pair by (simp_all add: bell_inv_def)
  ultimately show ?thesis
    using Pair by (simp add: bell_byte_def Let_def) (simp add: bell_inv_def)
qed

lemma bell_inv_fold: "bell_inv p \<Longrightarrow> bell_inv (fold bell_byte data p)"
  by (induction data arbitrary: p) (simp_all add: bell_inv_byte)

lemma bell_inv_process:
  "length (bd_oscBuf d) \<le> maxOSCBuffer \<Longrightarrow> bell_inv (bell_process d data)"
  unfolding bell_process_def by (rule bell_inv_fold) (simp add: bell_inv_def no_bell_def)

section \<open>Whole sequences\<close>

text \<open>A detector that is outside every escape sequence.\<close>

definition bell_ground :: "bell_detector \<Rightarrow> bool" where
  "bell_ground d \<longleftrightarrow> \<not> bd_afterEscape d \<and> \<not> bd_inOSC d"

definition plain_payload :: "bytes \<Rightarrow> bool" where
  "plain_payload p \<longleftrightarrow> escByte \<notin> set p \<and> bellByte \<notin> set p"

lemma bell_fold_payload:
  assumes "plain_payload p" and "\<not> bd_afterEscape d" and "bd_inOSC d"
  shows "fold bell_byte p (d, r) =
           (d\<lparr>bd_oscBuf := take (max maxOSCBuffer (length (bd_oscBuf d))) (bd_oscBuf d @ p)\<rparr>, r)"
  using assms
proof (induction p arbitrary: d)
  case (Cons b p)
  let ?d = "if length (bd_oscBuf d) < maxOSCBuffer then d\<lparr>bd_oscBuf := bd_oscBuf d @ [b]\<rparr> else d"
  have "bell_byte b (d, r) = (?d, r)"
    using Cons.prems by (auto simp: bell_byte_def plain_payload_def)
  moreover have "fold bell_byte p (?d, r) =
      (?d\<lparr>bd_oscBuf := take (max maxOSCBuffer (length (bd_oscBuf ?d))) (bd_oscBuf ?d @ p)\<rparr>, r)"
    using Cons.prems by (intro Cons.IH) (auto simp: plain_payload_def)
  ultimately show ?case by (auto simp: max_def take_Cons')
qed simp

text \<open>An OSC sequence \<open>ESC ] payload\<close> closed by BEL or by ST (\<open>ESC \\<close>).\<close>

definition osc_sequence :: "bytes \<Rightarrow> bytes \<Rightarrow> bytes" where
  "osc_sequence payload terminator = [escByte, oscIntroducer] @ payload @ terminator"

lemma bell_fold_osc:
  assumes "bell_ground d" and "plain_payload p" and "length p \<le> maxOSCBuffer"
    and "tm \<in> {[bellByte], [escByte, stringTerminator]}"
  shows "fold bell_byte (osc_sequence p tm) (d, r) =
           endOSC (d\<lparr>bd_inOSC := True, bd_oscBuf := p\<rparr>) r"
proof -
  have "fold bell_byte [escByte, oscIntroducer] (d, r) = (d\<lparr>bd_inOSC := True, bd_oscBuf := []\<rparr>, r)"
    using assms(1) by (simp add: bell_byte_def bell_ground_def bell_consts)
  then have "fold bell_byte (osc_sequence p tm) (d, r) =
      fold bell_byte tm (d\<lparr>bd_inOSC := True, bd_oscBuf := p\<rparr>, r)"
    using bell_fold_payload [OF assms(2), of "d\<lparr>bd_inOSC := True, bd_oscBuf := []\<rparr>" r] assms(1,3)
    by (simp add: osc_sequence_def bell_ground_def)
  also have "\<dots> = endOSC (d\<lparr>bd_inOSC := True, bd_oscBuf := p\<rparr>) r"
    using assms(1,4) by (cases d) (auto simp: bell_byte_def bell_ground_def bell_consts)
  finally show ?thesis .
qed

lemma bell_process_osc:
  assumes "bell_ground d" and "plain_payload p" and "length p \<le> maxOSCBuffer"
    and "tm \<in> {[bellByte], [escByte, stringTerminator]}"
  shows "bell_process d (osc_sequence p tm) =
           (d\<lparr>bd_inOSC := False, bd_oscBuf := []\<rparr>,
            case cut_prefix p oscNotificationPrefix of
              None \<Rightarrow> no_bell
            | Some m \<Rightarrow> if trim_space (to_valid_utf8 m) = [] then no_bell
                        else no_bell\<lparr>br_messages := [trim_space (to_valid_utf8 m)]\<rparr>)"
  unfolding bell_process_def bell_fold_osc [OF assms]
  by (simp add: endOSC_def Let_def no_bell_def split: option.splits)

lemma bell_process_bare:
  "bell_ground d \<Longrightarrow> bell_process d [bellByte] = (d, no_bell\<lparr>br_bell := True\<rparr>)"
  by (simp add: bell_process_def bell_byte_def bell_ground_def bell_consts)

section \<open>Properties\<close>

text \<open>
  C20: a notification is recognised however the PTY cuts it up. From a detector outside every
  sequence, an OSC sequence of at most 512 payload bytes, closed by BEL or by ST and arriving in
  any chunks, yields exactly the sanitised text of an OSC 9 payload when that is not blank and
  nothing otherwise; its closing BEL is never reported as a bell, and the detector is outside
  every sequence again.
\<close>
theorem bell_notification:
  assumes "bell_ground d" and "plain_payload p" and "length p \<le> maxOSCBuffer"
    and "tm \<in> {[bellByte], [escByte, stringTerminator]}"
    and "concat chunks = osc_sequence p tm"
  shows "run_chunks bell_process no_bell bell_join d chunks =
    (d\<lparr>bd_inOSC := False, bd_oscBuf := []\<rparr>,
     case cut_prefix p oscNotificationPrefix of
       None \<Rightarrow> no_bell
     | Some m \<Rightarrow> if trim_space (to_valid_utf8 m) = [] then no_bell
                 else no_bell\<lparr>br_messages := [trim_space (to_valid_utf8 m)]\<rparr>)"
  unfolding bell_scanner.run_chunks_concat assms(5) by (rule bell_process_osc [OF assms(1-4)])

lemma bell_notification_witness:
  "br_messages (snd (run_chunks bell_process no_bell bell_join new_bellDetector
     [[escByte], [oscIntroducer, CHR ''9''], '';ok'', [bellByte]])) \<noteq> []"
proof -
  have "run_chunks bell_process no_bell bell_join new_bellDetector
      [[escByte], [oscIntroducer, CHR ''9''], '';ok'', [bellByte]] =
    (new_bellDetector\<lparr>bd_inOSC := False, bd_oscBuf := []\<rparr>,
     case cut_prefix ''9;ok'' oscNotificationPrefix of
       None \<Rightarrow> no_bell
     | Some m \<Rightarrow> if trim_space (to_valid_utf8 m) = [] then no_bell
                 else no_bell\<lparr>br_messages := [trim_space (to_valid_utf8 m)]\<rparr>)"
    by (rule bell_notification [where tm = "[bellByte]"])
      (simp_all add: bell_ground_def new_bellDetector_def plain_payload_def osc_sequence_def
        maxOSCBuffer_def bell_consts)
  moreover have "cut_prefix ''9;ok'' oscNotificationPrefix = Some ''ok''"
    by (simp add: oscNotificationPrefix_def cut_prefix_Some)
  moreover have "trim_space (to_valid_utf8 ''ok'') \<noteq> []" by code_simp
  ultimately show ?thesis by simp
qed

text \<open>
  What a detector holds and reports is bounded and clean. Whatever output it is fed, in
  whatever chunks, it keeps at most 512 payload bytes, and every message it reports is non-empty
  valid UTF-8.
\<close>
lemma bell_bounded_and_clean:
  "length (bd_oscBuf (fst (run_chunks bell_process no_bell bell_join new_bellDetector chunks))) \<le> 512
    \<and> list_all (\<lambda>m. m \<noteq> [] \<and> valid_utf8 m)
        (br_messages (snd (run_chunks bell_process no_bell bell_join new_bellDetector chunks)))"
  using bell_inv_process [of new_bellDetector "concat chunks"]
  by (simp add: bell_scanner.run_chunks_concat bell_inv_def new_bellDetector_def maxOSCBuffer_def
      bell_message_ok_def list_all_iff)

end
