(* ===== verification/Modes.thy ===== *)
theory Modes
  imports Bell
begin

text \<open>
  The terminal mode tracker of \<open>internal/session/modes.go\<close>: it follows the DEC private mode
  sequences \<open>ESC [ ? Pm h/l\<close> of an output stream, and prints a preamble that brings a fresh
  terminal to the tracked modes. The main lemma is the round trip: reading its own preamble,
  a fresh tracker ends in the modes the preamble was printed for.
\<close>

datatype mt_state = MsGround | MsEscape | MsCSI

record mode_tracker =
  mt_state :: mt_state
  mt_params :: bytes
  mt_overflow :: bool
  mt_altBuffer :: int
  mt_mouseTracking :: int
  mt_mouseEncoding :: int
  mt_bools :: "(int, bool) gomap"

definition maxCSIParams :: nat where "maxCSIParams = 32"

definition trackedBoolModes :: "int list" where "trackedBoolModes = [1, 7, 25, 1004, 2004]"

definition defaultOnModes :: "int \<Rightarrow> bool" where "defaultOnModes m \<longleftrightarrow> m = 7 \<or> m = 25"

definition new_modeTracker :: mode_tracker where
  "new_modeTracker =
     \<lparr>mt_state = MsGround, mt_params = [], mt_overflow = False, mt_altBuffer = 0,
      mt_mouseTracking = 0, mt_mouseEncoding = 0, mt_bools = []\<rparr>"

definition mode_pick :: "bool \<Rightarrow> int \<Rightarrow> int" where
  "mode_pick enabled mode = (if enabled then mode else 0)"

text \<open>The \<open>switch mode\<close> of \<open>apply\<close>, for one parsed parameter.\<close>

definition mode_set :: "bool \<Rightarrow> int \<Rightarrow> mode_tracker \<Rightarrow> mode_tracker" where
  "mode_set enabled mode t =
     (if mode \<in> {47, 1047, 1049} then t\<lparr>mt_altBuffer := mode_pick enabled mode\<rparr>
      else if mode \<in> {1000, 1001, 1002, 1003} then t\<lparr>mt_mouseTracking := mode_pick enabled mode\<rparr>
      else if mode \<in> {1005, 1006, 1015} then t\<lparr>mt_mouseEncoding := mode_pick enabled mode\<rparr>
      else if mode \<in> {1, 7, 25, 1004, 2004} then t\<lparr>mt_bools := gput mode enabled (mt_bools t)\<rparr>
      else t)"

fun mode_params :: "bool \<Rightarrow> string list \<Rightarrow> mode_tracker \<Rightarrow> mode_tracker" where
  "mode_params enabled [] t = t"
| "mode_params enabled (p # ps) t =
     mode_params enabled ps (case atoi p of None \<Rightarrow> t | Some mode \<Rightarrow> mode_set enabled mode t)"

definition mode_apply :: "bytes \<Rightarrow> bool \<Rightarrow> mode_tracker \<Rightarrow> mode_tracker" where
  "mode_apply params enabled t =
     (if params = [] \<or> hd params \<noteq> CHR ''?'' then t
      else mode_params enabled (split_on CHR '';'' (tl params)) t)"

lemma mode_set_alt: "m \<in> {47, 1047, 1049} \<Longrightarrow> mode_set e m t = t\<lparr>mt_altBuffer := mode_pick e m\<rparr>"
  by (simp only: mode_set_def if_True)

lemma mode_set_mouse:
  "m \<in> {1000, 1001, 1002, 1003} \<Longrightarrow> mode_set e m t = t\<lparr>mt_mouseTracking := mode_pick e m\<rparr>"
  by (elim insertE emptyE) (simp_all add: mode_set_def)

lemma mode_set_encoding:
  "m \<in> {1005, 1006, 1015} \<Longrightarrow> mode_set e m t = t\<lparr>mt_mouseEncoding := mode_pick e m\<rparr>"
  by (elim insertE emptyE) (simp_all add: mode_set_def)

lemma mode_set_bool:
  "m \<in> {1, 7, 25, 1004, 2004} \<Longrightarrow> mode_set e m t = t\<lparr>mt_bools := gput m e (mt_bools t)\<rparr>"
  by (elim insertE emptyE) (simp_all add: mode_set_def)

text \<open>One iteration of the loop of \<open>process\<close>.\<close>

definition mode_byte :: "char \<Rightarrow> mode_tracker \<Rightarrow> mode_tracker" where
  "mode_byte b t =
     (case mt_state t of
        MsGround \<Rightarrow> if b = escByte then t\<lparr>mt_state := MsEscape\<rparr> else t
      | MsEscape \<Rightarrow>
          if b = CHR ''['' then t\<lparr>mt_state := MsCSI, mt_params := [], mt_overflow := False\<rparr>
          else if b = escByte then t
          else t\<lparr>mt_state := MsGround\<rparr>
      | MsCSI \<Rightarrow>
          if b = escByte then t\<lparr>mt_state := MsEscape\<rparr>
          else if 0x40 \<le> bval b \<and> bval b \<le> 0x7E then
            (let t = (if \<not> mt_overflow t \<and> (b = CHR ''h'' \<or> b = CHR ''l'')
                      then mode_apply (mt_params t) (b = CHR ''h'') t else t)
             in t\<lparr>mt_state := MsGround\<rparr>)
          else if length (mt_params t) < maxCSIParams then t\<lparr>mt_params := mt_params t @ [b]\<rparr>
          else t\<lparr>mt_overflow := True\<rparr>)"

definition mode_process :: "mode_tracker \<Rightarrow> bytes \<Rightarrow> mode_tracker" where
  "mode_process t data = fold mode_byte data t"

text \<open>The sequence \<open>"\x1b[?%d%c"\<close> that \<open>preamble\<close> prints.\<close>

definition mode_seq :: "int \<Rightarrow> char \<Rightarrow> bytes" where
  "mode_seq mode final = [CHR 0x1B, CHR ''['', CHR ''?''] @ itoa mode @ [final]"

fun preamble_bools :: "(int, bool) gomap \<Rightarrow> int list \<Rightarrow> bytes" where
  "preamble_bools bools [] = []"
| "preamble_bools bools (mode # ms) =
     (case gget bools mode of
        Some v \<Rightarrow> if v \<noteq> defaultOnModes mode
                  then mode_seq mode (if v then CHR ''h'' else CHR ''l'') else []
      | None \<Rightarrow> []) @ preamble_bools bools ms"

definition mode_preamble :: "mode_tracker \<Rightarrow> bytes" where
  "mode_preamble t =
     preamble_bools (mt_bools t) trackedBoolModes
     @ (if mt_altBuffer t \<noteq> 0 then mode_seq (mt_altBuffer t) CHR ''h'' else [])
     @ (if mt_mouseTracking t \<noteq> 0 then mode_seq (mt_mouseTracking t) CHR ''h'' else [])
     @ (if mt_mouseEncoding t \<noteq> 0 then mode_seq (mt_mouseEncoding t) CHR ''h'' else [])"

section \<open>Chunk boundaries do not matter\<close>

lemma mode_process_append: "mode_process t (x @ y) = mode_process (mode_process t x) y"
  by (simp add: mode_process_def)

interpretation mode_scanner: stream_scanner "\<lambda>t data. (mode_process t data, ())" "()" "\<lambda>_ _. ()"
  by unfold_locales (simp_all add: mode_process_def)

section \<open>The modes a tracker stands for\<close>

definition mode_bool :: "mode_tracker \<Rightarrow> int \<Rightarrow> bool" where
  "mode_bool t m = (case gget (mt_bools t) m of Some v \<Rightarrow> v | None \<Rightarrow> defaultOnModes m)"

text \<open>What a terminal shows of its modes: everything but the parser's own state.\<close>

definition mode_view :: "mode_tracker \<Rightarrow> int \<times> int \<times> int \<times> bool list" where
  "mode_view t = (mt_altBuffer t, mt_mouseTracking t, mt_mouseEncoding t,
                  map (mode_bool t) trackedBoolModes)"

definition mode_wf :: "mode_tracker \<Rightarrow> bool" where
  "mode_wf t \<longleftrightarrow> mt_altBuffer t \<in> {0, 47, 1047, 1049}
     \<and> mt_mouseTracking t \<in> {0, 1000, 1001, 1002, 1003}
     \<and> mt_mouseEncoding t \<in> {0, 1005, 1006, 1015}
     \<and> set (gkeys (mt_bools t)) \<subseteq> set trackedBoolModes
     \<and> length (mt_params t) \<le> maxCSIParams"

lemma mode_wf_new: "mode_wf new_modeTracker"
  by (simp add: mode_wf_def new_modeTracker_def gkeys_def)

lemma mode_wf_set: "mode_wf t \<Longrightarrow> mode_wf (mode_set e m t)"
  by (auto simp: mode_wf_def mode_set_def mode_pick_def trackedBoolModes_def)

lemma mode_wf_params: "mode_wf t \<Longrightarrow> mode_wf (mode_params e ps t)"
  by (induction e ps t rule: mode_params.induct) (auto simp: mode_wf_set split: option.splits)

lemma mode_wf_apply: "mode_wf t \<Longrightarrow> mode_wf (mode_apply ps e t)"
  by (simp add: mode_apply_def mode_wf_params)

lemma mode_wf_parser [simp]:
  "mode_wf (t\<lparr>mt_state := s\<rparr>) = mode_wf t"
  "mode_wf (t\<lparr>mt_overflow := b\<rparr>) = mode_wf t"
  "mode_wf t \<Longrightarrow> mode_wf (t\<lparr>mt_params := []\<rparr>)"
  by (simp_all add: mode_wf_def)

lemma mode_wf_byte: "mode_wf t \<Longrightarrow> mode_wf (mode_byte b t)"
proof -
  assume t: "mode_wf t"
  then have "length (mt_params t) < maxCSIParams \<Longrightarrow> mode_wf (t\<lparr>mt_params := mt_params t @ [b]\<rparr>)"
    by (simp add: mode_wf_def)
  with t show ?thesis
    by (simp add: mode_byte_def Let_def mode_wf_apply split: mt_state.splits)
       (simp add: mode_wf_def)
qed

lemma mode_wf_process: "mode_wf t \<Longrightarrow> mode_wf (mode_process t data)"
  unfolding mode_process_def
  by (induction data arbitrary: t) (simp_all add: mode_wf_byte)

section \<open>Reading one mode sequence\<close>

text \<open>A byte that is a parameter byte of a CSI sequence: neither ESC nor a final byte.\<close>

definition param_byte :: "char \<Rightarrow> bool" where
  "param_byte b \<longleftrightarrow> b \<noteq> escByte \<and> \<not> (0x40 \<le> bval b \<and> bval b \<le> 0x7E)"

lemma digit_param_byte: "is_digit c \<Longrightarrow> param_byte c"
  by (auto simp: is_digit_def param_byte_def escByte_def bval_def)

lemma mode_process_params:
  assumes "list_all param_byte ps" and "mt_state t = MsCSI"
    and "length (mt_params t) + length ps \<le> maxCSIParams"
  shows "mode_process t ps = t\<lparr>mt_params := mt_params t @ ps\<rparr>"
  using assms
proof (induction ps arbitrary: t)
  case (Cons b ps)
  then have "mode_byte b t = t\<lparr>mt_params := mt_params t @ [b]\<rparr>"
    by (auto simp: mode_byte_def param_byte_def)
  with Cons show ?case by (simp add: mode_process_def)
qed (simp add: mode_process_def)

lemma mode_process_final:
  assumes "mt_state t = MsCSI" and "\<not> mt_overflow t" and "f = CHR ''h'' \<or> f = CHR ''l''"
  shows "mode_process t [f] = (mode_apply (mt_params t) (f = CHR ''h'') t)\<lparr>mt_state := MsGround\<rparr>"
  using assms by (auto simp: mode_process_def mode_byte_def escByte_def bval_def)

text \<open>The parameters of a private-mode set or reset, e.g. \<open>?1049\<close> or \<open>?1000;1006\<close>.\<close>

lemma mode_process_csi:
  assumes "mt_state t = MsGround" and "list_all param_byte ps" and "length ps < maxCSIParams"
    and "f = CHR ''h'' \<or> f = CHR ''l''"
  shows "mode_process t ([CHR 0x1B, CHR ''['', CHR ''?''] @ ps @ [f]) =
    (mode_apply (CHR ''?'' # ps) (f = CHR ''h'')
       (t\<lparr>mt_state := MsCSI, mt_params := CHR ''?'' # ps, mt_overflow := False\<rparr>))\<lparr>mt_state := MsGround\<rparr>"
proof -
  let ?t = "t\<lparr>mt_state := MsCSI, mt_params := [], mt_overflow := False\<rparr>"
  have "mode_process t [CHR 0x1B, CHR ''[''] = ?t"
    using assms(1) by (simp add: mode_process_def mode_byte_def escByte_def)
  moreover have "mode_process ?t (CHR ''?'' # ps) = ?t\<lparr>mt_params := CHR ''?'' # ps\<rparr>"
    using mode_process_params [of "CHR ''?'' # ps" ?t] assms(2,3)
    by (simp add: param_byte_def escByte_def bval_def)
  moreover have "mode_process (?t\<lparr>mt_params := CHR ''?'' # ps\<rparr>) [f] =
      (mode_apply (CHR ''?'' # ps) (f = CHR ''h'') (?t\<lparr>mt_params := CHR ''?'' # ps\<rparr>))\<lparr>mt_state := MsGround\<rparr>"
    using mode_process_final [of "?t\<lparr>mt_params := CHR ''?'' # ps\<rparr>" f] assms(4) by simp
  moreover have "[CHR 0x1B, CHR ''['', CHR ''?''] @ ps @ [f] = [CHR 0x1B, CHR ''[''] @ (CHR ''?'' # ps) @ [f]"
    by simp
  ultimately show ?thesis by (simp only: mode_process_append) (cases t, simp)
qed

text \<open>A tracker that agrees with \<open>t\<close> on every mode and is outside every sequence.\<close>

definition mode_same :: "mode_tracker \<Rightarrow> mode_tracker \<Rightarrow> bool" where
  "mode_same t u \<longleftrightarrow> mt_altBuffer t = mt_altBuffer u \<and> mt_mouseTracking t = mt_mouseTracking u
     \<and> mt_mouseEncoding t = mt_mouseEncoding u \<and> mt_bools t = mt_bools u"

lemma itoa_digits: "0 \<le> m \<Longrightarrow> list_all is_digit (itoa m)"
  by (simp add: itoa_def itoa_nat_digits)

lemma digits_no_semicolon: "list_all is_digit s \<Longrightarrow> CHR '';'' \<notin> set s"
  by (auto simp: list_all_iff is_digit_def bval_def)

lemma mode_process_seq:
  assumes "mt_state t = MsGround" and "0 \<le> m" and "m < 10000"
    and "f = CHR ''h'' \<or> f = CHR ''l''"
  shows "mt_state (mode_process t (mode_seq m f)) = MsGround"
    and "mode_same (mode_process t (mode_seq m f)) (mode_set (f = CHR ''h'') m t)"
proof -
  have digits: "list_all is_digit (itoa m)" using assms(2) by (rule itoa_digits)
  have len: "length (itoa m) < maxCSIParams"
    using length_itoa_nat [of 4 "nat m"] assms(2,3)
    by (simp add: itoa_def maxCSIParams_def nat_less_iff)
  have params: "list_all param_byte (itoa m)"
    using digits by (auto simp: list_all_iff digit_param_byte)
  have split: "split_on CHR '';'' (itoa m) = [itoa m]"
    using digits by (intro split_on_no_sep digits_no_semicolon)
  have num: "atoi (itoa m) = Some m"
    using assms(2,3) by (intro atoi_itoa) auto
  have "mode_process t (mode_seq m f) =
    (mode_apply (CHR ''?'' # itoa m) (f = CHR ''h'')
       (t\<lparr>mt_state := MsCSI, mt_params := CHR ''?'' # itoa m, mt_overflow := False\<rparr>))\<lparr>mt_state := MsGround\<rparr>"
    unfolding mode_seq_def using mode_process_csi [OF assms(1) params len assms(4)] by simp
  then have *: "mode_process t (mode_seq m f) =
    (mode_set (f = CHR ''h'') m
       (t\<lparr>mt_state := MsCSI, mt_params := CHR ''?'' # itoa m, mt_overflow := False\<rparr>))\<lparr>mt_state := MsGround\<rparr>"
    by (simp add: mode_apply_def split num)
  show "mt_state (mode_process t (mode_seq m f)) = MsGround" by (simp add: *)
  show "mode_same (mode_process t (mode_seq m f)) (mode_set (f = CHR ''h'') m t)"
    by (simp add: * mode_same_def mode_set_def)
qed

section \<open>The preamble restores the modes\<close>

definition bools_after :: "(int, bool) gomap \<Rightarrow> int list \<Rightarrow> (int, bool) gomap \<Rightarrow> (int, bool) gomap" where
  "bools_after bools ms start =
     fold (\<lambda>m acc. case gget bools m of
             Some v \<Rightarrow> if v \<noteq> defaultOnModes m then gput m v acc else acc
           | None \<Rightarrow> acc) ms start"

lemma mode_process_preamble_bools:
  assumes "set ms \<subseteq> set trackedBoolModes" and "mt_state t = MsGround"
  shows "mt_state (mode_process t (preamble_bools bools ms)) = MsGround
    \<and> mode_same (mode_process t (preamble_bools bools ms))
        (t\<lparr>mt_bools := bools_after bools ms (mt_bools t)\<rparr>)"
  using assms
proof (induction ms arbitrary: t)
  case Nil
  then show ?case by (simp add: mode_process_def mode_same_def bools_after_def)
next
  case (Cons m ms)
  have m: "m \<in> {1, 7, 25, 1004, 2004}" using Cons.prems by (auto simp: trackedBoolModes_def)
  show ?case
  proof (cases "\<exists>v. gget bools m = Some v \<and> v \<noteq> defaultOnModes m")
    case False
    then have "preamble_bools bools (m # ms) = preamble_bools bools ms"
      and "bools_after bools (m # ms) acc = bools_after bools ms acc" for acc
      by (auto simp: bools_after_def split: option.splits)
    with Cons show ?thesis by auto
  next
    case True
    then obtain v where v: "gget bools m = Some v" "v \<noteq> defaultOnModes m" by blast
    let ?f = "if v then CHR ''h'' else CHR ''l''"
    let ?u = "mode_process t (mode_seq m ?f)"
    have u: "mt_state ?u = MsGround" "mode_same ?u (mode_set v m t)"
      using mode_process_seq [OF Cons.prems(2), of m ?f] m by auto
    have "mode_set v m t = t\<lparr>mt_bools := gput m v (mt_bools t)\<rparr>"
      using m by (rule mode_set_bool)
    with u(2) have ub: "mode_same ?u (t\<lparr>mt_bools := gput m v (mt_bools t)\<rparr>)" by simp
    have "preamble_bools bools (m # ms) = mode_seq m ?f @ preamble_bools bools ms"
      using v by simp
    then have "mode_process t (preamble_bools bools (m # ms)) =
        mode_process ?u (preamble_bools bools ms)"
      by (simp only: mode_process_append)
    moreover have "bools_after bools (m # ms) (mt_bools t) = bools_after bools ms (mt_bools ?u)"
      using v ub by (simp add: bools_after_def mode_same_def)
    ultimately show ?thesis
      using Cons.IH [OF _ u(1)] Cons.prems ub by (simp add: mode_same_def)
  qed
qed

lemma mode_process_optional:
  assumes "mt_state t = MsGround" and "0 \<le> m" and "m < 10000"
  defines "u \<equiv> mode_process t (if m \<noteq> 0 then mode_seq m CHR ''h'' else [])"
  shows "mt_state u = MsGround \<and> mode_same u (if m \<noteq> 0 then mode_set True m t else t)"
  using mode_process_seq [OF assms(1-3), of "CHR ''h''"] assms(1)
  by (simp add: u_def) (simp add: mode_process_def mode_same_def)

lemma bools_after_tracked:
  "m \<in> set trackedBoolModes \<Longrightarrow>
    (case gget (bools_after bools trackedBoolModes []) m of Some v \<Rightarrow> v | None \<Rightarrow> defaultOnModes m)
    = (case gget bools m of Some v \<Rightarrow> v | None \<Rightarrow> defaultOnModes m)"
  by (auto simp: trackedBoolModes_def bools_after_def gomap_simps split: option.splits)

lemma mode_same_trans:
  "mode_same t u \<Longrightarrow> mode_same u v \<Longrightarrow> mode_same t v"
  by (simp add: mode_same_def)

lemma mode_same_set: "mode_same t u \<Longrightarrow> mode_same (mode_set e m t) (mode_set e m u)"
  by (simp add: mode_same_def mode_set_def)

lemma mode_preamble_restores:
  assumes "mode_wf t"
  shows "mode_view (mode_process new_modeTracker (mode_preamble t)) = mode_view t"
    and "mt_state (mode_process new_modeTracker (mode_preamble t)) = MsGround"
proof -
  let ?b = "bools_after (mt_bools t) trackedBoolModes []"
  let ?opt = "\<lambda>m. if m \<noteq> 0 then mode_seq m CHR ''h'' else []"
  let ?put = "\<lambda>m u. if m \<noteq> 0 then mode_set True m u else u"
  define t1 where "t1 = mode_process new_modeTracker (preamble_bools (mt_bools t) trackedBoolModes)"
  define t2 where "t2 = mode_process t1 (?opt (mt_altBuffer t))"
  define t3 where "t3 = mode_process t2 (?opt (mt_mouseTracking t))"
  define t4 where "t4 = mode_process t3 (?opt (mt_mouseEncoding t))"
  have modes: "mt_altBuffer t \<in> {0, 47, 1047, 1049}"
    "mt_mouseTracking t \<in> {0, 1000, 1001, 1002, 1003}" "mt_mouseEncoding t \<in> {0, 1005, 1006, 1015}"
    using assms by (auto simp: mode_wf_def)
  then have small: "0 \<le> m \<and> m < 10000"
    if "m \<in> {mt_altBuffer t, mt_mouseTracking t, mt_mouseEncoding t}" for m
    using that by auto
  have 1: "mt_state t1 = MsGround" "mode_same t1 (new_modeTracker\<lparr>mt_bools := ?b\<rparr>)"
    unfolding t1_def
    using mode_process_preamble_bools [of trackedBoolModes new_modeTracker "mt_bools t"]
    by (simp_all add: new_modeTracker_def)
  have 2: "mt_state t2 = MsGround" "mode_same t2 (?put (mt_altBuffer t) t1)"
    unfolding t2_def using mode_process_optional [OF 1(1)] small by auto
  have 3: "mt_state t3 = MsGround" "mode_same t3 (?put (mt_mouseTracking t) t2)"
    unfolding t3_def using mode_process_optional [OF 2(1)] small by auto
  have 4: "mt_state t4 = MsGround" "mode_same t4 (?put (mt_mouseEncoding t) t3)"
    unfolding t4_def using mode_process_optional [OF 3(1)] small by auto
  have t4: "mode_process new_modeTracker (mode_preamble t) = t4"
    by (simp only: mode_preamble_def mode_process_append t1_def t2_def t3_def t4_def)
  have a1: "mt_altBuffer t1 = 0" "mt_mouseTracking t1 = 0" "mt_mouseEncoding t1 = 0" "mt_bools t1 = ?b"
    using 1(2) by (simp_all add: mode_same_def new_modeTracker_def)
  have a2: "mt_altBuffer t2 = mt_altBuffer t" "mt_mouseTracking t2 = 0" "mt_mouseEncoding t2 = 0"
      "mt_bools t2 = ?b"
    using 2(2) a1 mode_set_alt [of "mt_altBuffer t" True] modes(1)
    by (simp_all add: mode_same_def mode_pick_def split: if_splits)
  have a3: "mt_altBuffer t3 = mt_altBuffer t" "mt_mouseTracking t3 = mt_mouseTracking t"
      "mt_mouseEncoding t3 = 0" "mt_bools t3 = ?b"
    using 3(2) a2 mode_set_mouse [of "mt_mouseTracking t" True] modes(2)
    by (simp_all add: mode_same_def mode_pick_def split: if_splits)
  have a4: "mt_altBuffer t4 = mt_altBuffer t" "mt_mouseTracking t4 = mt_mouseTracking t"
      "mt_mouseEncoding t4 = mt_mouseEncoding t" "mt_bools t4 = ?b"
    using 4(2) a3 mode_set_encoding [of "mt_mouseEncoding t" True] modes(3)
    by (simp_all add: mode_same_def mode_pick_def split: if_splits)
  have "mode_bool t4 m = mode_bool t m" if "m \<in> set trackedBoolModes" for m
    using bools_after_tracked [OF that, of "mt_bools t"] by (simp add: mode_bool_def a4(4))
  then show "mode_view (mode_process new_modeTracker (mode_preamble t)) = mode_view t"
    by (simp add: t4 mode_view_def a4)
  show "mt_state (mode_process new_modeTracker (mode_preamble t)) = MsGround"
    by (simp add: t4 4(1))
qed

end
