(* ===== verification/Channels.thy ===== *)
theory Channels
  imports Prelude
begin

text \<open>
  Go's buffered channels, as far as the daemon uses them: a non-blocking send
  (\<open>select { case ch <- x: default: }\<close>), a non-blocking receive, and \<open>close\<close>. A send on a
  closed channel and a second \<open>close\<close> panic; the model keeps both as outcomes, so that a
  theorem can say that they never happen.
\<close>

record 'a chan =
  ch_buf :: "'a list"
  ch_cap :: nat
  ch_closed :: bool

datatype 'a send_result = Sent "'a chan" | SendWouldBlock | SendPanics

datatype 'a recv_result = Received 'a "'a chan" | RecvClosed | RecvWouldBlock

definition make_chan :: "nat \<Rightarrow> 'a chan" where
  "make_chan n = \<lparr>ch_buf = [], ch_cap = n, ch_closed = False\<rparr>"

definition chan_send :: "'a chan \<Rightarrow> 'a \<Rightarrow> 'a send_result" where
  "chan_send ch x =
     (if ch_closed ch then SendPanics
      else if length (ch_buf ch) < ch_cap ch then Sent (ch\<lparr>ch_buf := ch_buf ch @ [x]\<rparr>)
      else SendWouldBlock)"

definition chan_recv :: "'a chan \<Rightarrow> 'a recv_result" where
  "chan_recv ch =
     (case ch_buf ch of
        x # xs \<Rightarrow> Received x (ch\<lparr>ch_buf := xs\<rparr>)
      | [] \<Rightarrow> if ch_closed ch then RecvClosed else RecvWouldBlock)"

definition chan_close :: "'a chan \<Rightarrow> 'a chan option" where
  "chan_close ch = (if ch_closed ch then None else Some (ch\<lparr>ch_closed := True\<rparr>))"

definition chan_ok :: "'a chan \<Rightarrow> bool" where
  "chan_ok ch \<longleftrightarrow> \<not> ch_closed ch \<and> length (ch_buf ch) \<le> ch_cap ch"

lemma chan_ok_make [simp]: "chan_ok (make_chan n)"
  by (simp add: chan_ok_def make_chan_def)

lemma chan_send_ok:
  assumes "chan_ok ch"
  shows "chan_send ch x =
    (if length (ch_buf ch) < ch_cap ch then Sent (ch\<lparr>ch_buf := ch_buf ch @ [x]\<rparr>) else SendWouldBlock)"
  using assms by (simp add: chan_send_def chan_ok_def)

lemma chan_ok_push:
  "chan_ok ch \<Longrightarrow> length (ch_buf ch) < ch_cap ch \<Longrightarrow> chan_ok (ch\<lparr>ch_buf := ch_buf ch @ [x]\<rparr>)"
  by (simp add: chan_ok_def)

lemma chan_ok_pop: "chan_ok ch \<Longrightarrow> ch_buf ch = x # xs \<Longrightarrow> chan_ok (ch\<lparr>ch_buf := xs\<rparr>)"
  by (simp add: chan_ok_def)

lemma chan_close_ok: "chan_ok ch \<Longrightarrow> chan_close ch = Some (ch\<lparr>ch_closed := True\<rparr>)"
  by (simp add: chan_ok_def chan_close_def)

end
