(* ===== verification/Events.thy ===== *)
theory Events
  imports Channels "HOL-Library.Sublist"
begin

text \<open>
  The event hub of \<open>internal/session/events.go\<close>: fan-out of session events to subscribers
  over buffered channels, and a bounded history. Every operation holds the hub's mutex, so
  an execution is a sequence of operations (\<^theory_text>\<open>hub_op\<close>).
\<close>

datatype event_type = EventTypeUnspecified | EventTypeBell | EventTypeEnded

record event =
  ev_SessionID :: string
  ev_SessionName :: string
  ev_Tool :: string
  ev_Type :: event_type
  ev_Timestamp :: time
  ev_Message :: string

fun event_type_String :: "event_type \<Rightarrow> string" where
  "event_type_String EventTypeBell = ''bell''"
| "event_type_String EventTypeEnded = ''ended''"
| "event_type_String EventTypeUnspecified = ''unspecified''"

definition maxRecentEvents :: nat where "maxRecentEvents = 100"

definition subscriberBuffer :: nat where "subscriberBuffer = 64"

record event_hub =
  hub_subscribers :: "(string, event chan) gomap"
  hub_recent :: "event list"
  hub_closed :: bool

definition NewEventHub :: event_hub where
  "NewEventHub = \<lparr>hub_subscribers = [], hub_recent = [], hub_closed = False\<rparr>"

text \<open>\<open>Subscribe\<close> also returns the channel: a closed one once the hub is closed.\<close>

definition hub_Subscribe :: "string \<Rightarrow> event_hub \<Rightarrow> event_hub \<times> event chan" where
  "hub_Subscribe sid h =
     (let ch = make_chan subscriberBuffer in
      if hub_closed h then (h, ch\<lparr>ch_closed := True\<rparr>)
      else (h\<lparr>hub_subscribers := gput sid ch (hub_subscribers h)\<rparr>, ch))"

text \<open>
  \<open>Unsubscribe\<close> and \<open>Close\<close> close channels, which panics on a channel that is closed
  already: the result is an option. The closed channels are returned, because their
  receivers go on draining them.
\<close>

definition hub_Unsubscribe :: "string \<Rightarrow> event_hub \<Rightarrow> (event_hub \<times> event chan option) option" where
  "hub_Unsubscribe sid h =
     (case gget (hub_subscribers h) sid of
        None \<Rightarrow> Some (h, None)
      | Some ch \<Rightarrow>
          map_option (\<lambda>ch'. (h\<lparr>hub_subscribers := gdel sid (hub_subscribers h)\<rparr>, Some ch'))
            (chan_close ch))"

fun publish_to :: "event \<Rightarrow> (string, event chan) gomap \<Rightarrow> (string, event chan) gomap option" where
  "publish_to ev [] = Some []"
| "publish_to ev ((sid, ch) # subs) =
     (case chan_send ch ev of
        SendPanics \<Rightarrow> None
      | SendWouldBlock \<Rightarrow> map_option (\<lambda>r. (sid, ch) # r) (publish_to ev subs)
      | Sent ch' \<Rightarrow> map_option (\<lambda>r. (sid, ch') # r) (publish_to ev subs))"

definition hub_Publish :: "event \<Rightarrow> event_hub \<Rightarrow> event_hub option" where
  "hub_Publish ev h =
     (if hub_closed h then Some h
      else
        let recent = hub_recent h @ [ev];
            recent = (if maxRecentEvents < length recent
                      then drop (length recent - maxRecentEvents) recent else recent)
        in map_option (\<lambda>subs. h\<lparr>hub_recent := recent, hub_subscribers := subs\<rparr>)
             (publish_to ev (hub_subscribers h)))"

fun close_all :: "(string, 'a chan) gomap \<Rightarrow> (string, 'a chan) gomap option" where
  "close_all [] = Some []"
| "close_all ((sid, ch) # subs) =
     (case chan_close ch of
        None \<Rightarrow> None
      | Some ch' \<Rightarrow> map_option (\<lambda>r. (sid, ch') # r) (close_all subs))"

definition hub_Close :: "event_hub \<Rightarrow> (event_hub \<times> (string, event chan) gomap) option" where
  "hub_Close h =
     (if hub_closed h then Some (h, [])
      else map_option (\<lambda>closed. (h\<lparr>hub_closed := True, hub_subscribers := []\<rparr>, closed))
             (close_all (hub_subscribers h)))"

definition hub_SubscriberCount :: "event_hub \<Rightarrow> nat" where
  "hub_SubscriberCount h = length (hub_subscribers h)"

definition hub_Recent :: "int \<Rightarrow> event_hub \<Rightarrow> event list" where
  "hub_Recent limit h =
     (let n = length (hub_recent h);
          limit = (if limit \<le> 0 \<or> int n < limit then n else nat limit)
      in map (\<lambda>i. hub_recent h ! (n - 1 - i)) [0..<limit])"

text \<open>A subscriber receiving from its registered channel.\<close>

definition hub_receive :: "string \<Rightarrow> event_hub \<Rightarrow> event_hub \<times> event option" where
  "hub_receive sid h =
     (case gget (hub_subscribers h) sid of
        None \<Rightarrow> (h, None)
      | Some ch \<Rightarrow>
          (case chan_recv ch of
             Received ev ch' \<Rightarrow>
               (h\<lparr>hub_subscribers := gput sid ch' (hub_subscribers h)\<rparr>, Some ev)
           | _ \<Rightarrow> (h, None)))"

datatype hub_op =
  HSubscribe string | HUnsubscribe string | HPublish event | HClose | HReceive string

fun hub_step :: "hub_op \<Rightarrow> event_hub \<Rightarrow> event_hub option" where
  "hub_step (HSubscribe sid) h = Some (fst (hub_Subscribe sid h))"
| "hub_step (HUnsubscribe sid) h = map_option fst (hub_Unsubscribe sid h)"
| "hub_step (HPublish ev) h = hub_Publish ev h"
| "hub_step HClose h = map_option fst (hub_Close h)"
| "hub_step (HReceive sid) h = Some (fst (hub_receive sid h))"

fun hub_run :: "hub_op list \<Rightarrow> event_hub \<Rightarrow> event_hub option" where
  "hub_run [] h = Some h"
| "hub_run (op # ops) h = (case hub_step op h of None \<Rightarrow> None | Some h' \<Rightarrow> hub_run ops h')"

section \<open>No operation panics\<close>

definition sub_ok :: "event chan \<Rightarrow> bool" where
  "sub_ok ch \<longleftrightarrow> chan_ok ch \<and> ch_cap ch = subscriberBuffer"

definition hub_inv :: "event_hub \<Rightarrow> bool" where
  "hub_inv h \<longleftrightarrow> gwf (hub_subscribers h) \<and> (\<forall>p \<in> set (hub_subscribers h). sub_ok (snd p))
     \<and> length (hub_recent h) \<le> maxRecentEvents \<and> (hub_closed h \<longrightarrow> hub_subscribers h = [])"

definition publish_chan :: "event \<Rightarrow> event chan \<Rightarrow> event chan" where
  "publish_chan ev ch =
     (if length (ch_buf ch) < ch_cap ch then ch\<lparr>ch_buf := ch_buf ch @ [ev]\<rparr> else ch)"

lemma publish_to_ok:
  "\<forall>p \<in> set subs. sub_ok (snd p) \<Longrightarrow>
    publish_to ev subs = Some (map (\<lambda>(sid, ch). (sid, publish_chan ev ch)) subs)"
  by (induction ev subs rule: publish_to.induct)
     (auto simp: sub_ok_def chan_send_ok publish_chan_def)

lemma sub_ok_publish: "sub_ok ch \<Longrightarrow> sub_ok (publish_chan ev ch)"
  by (auto simp: sub_ok_def publish_chan_def chan_ok_push)

lemma close_all_ok:
  "\<forall>p \<in> set subs. chan_ok (snd p) \<Longrightarrow>
    close_all subs = Some (map (\<lambda>(sid, ch). (sid, ch\<lparr>ch_closed := True\<rparr>)) subs)"
  by (induction subs rule: close_all.induct) (auto simp: chan_close_ok)

lemma gwf_map_snd [simp]: "gwf (map (\<lambda>(k, v). (k, f v)) m) = gwf m"
  by (simp add: gwf_def comp_def case_prod_beta)

lemma set_gput: "gwf m \<Longrightarrow> set (gput k v m) \<subseteq> insert (k, v) (set m)"
proof
  fix p
  assume "gwf m" and "p \<in> set (gput k v m)"
  then have "gget (gput k v m) (fst p) = Some (snd p)"
    by (simp add: gget_eq_Some_iff)
  then show "p \<in> insert (k, v) (set m)"
    by (cases p) (auto simp: gomap_simps split: if_splits dest: gget_SomeD)
qed

lemma hub_inv_put:
  "hub_inv h \<Longrightarrow> sub_ok ch \<Longrightarrow> \<not> hub_closed h \<Longrightarrow>
    hub_inv (h\<lparr>hub_subscribers := gput sid ch (hub_subscribers h)\<rparr>)"
  using set_gput [of "hub_subscribers h" sid ch] by (auto simp: hub_inv_def)

lemma hub_inv_new: "hub_inv NewEventHub"
  by (simp add: hub_inv_def NewEventHub_def)

lemma hub_get_ok: "hub_inv h \<Longrightarrow> gget (hub_subscribers h) sid = Some ch \<Longrightarrow> sub_ok ch"
  by (force simp: hub_inv_def dest: gget_SomeD)

lemma hub_step_ok:
  assumes "hub_inv h"
  shows "\<exists>h'. hub_step op h = Some h' \<and> hub_inv h'"
proof (cases op)
  case (HSubscribe sid)
  have "sub_ok (make_chan subscriberBuffer)"
    by (simp add: sub_ok_def) (simp add: make_chan_def)
  with assms HSubscribe show ?thesis
    by (simp add: hub_Subscribe_def Let_def hub_inv_put)
next
  case (HUnsubscribe sid)
  show ?thesis
  proof (cases "gget (hub_subscribers h) sid")
    case (Some ch)
    then have "sub_ok ch" using assms by (rule hub_get_ok [rotated])
    then have "chan_close ch = Some (ch\<lparr>ch_closed := True\<rparr>)"
      by (simp add: sub_ok_def chan_close_ok)
    moreover have "hub_inv (h\<lparr>hub_subscribers := gdel sid (hub_subscribers h)\<rparr>)"
      using assms by (auto simp: hub_inv_def gdel_filter [of sid "hub_subscribers h"] gwf_def
          intro: distinct_map_filter)
    ultimately show ?thesis using HUnsubscribe Some by (simp add: hub_Unsubscribe_def)
  qed (use assms HUnsubscribe in \<open>simp add: hub_Unsubscribe_def\<close>)
next
  case (HPublish ev)
  with assms show ?thesis
    by (auto simp: hub_Publish_def Let_def publish_to_ok hub_inv_def sub_ok_publish
        maxRecentEvents_def)
next
  case HClose
  with assms show ?thesis
    by (auto simp: hub_Close_def hub_inv_def sub_ok_def close_all_ok)
next
  case (HReceive sid)
  show ?thesis
  proof (cases "hub_receive sid h")
    case (Pair h' ev)
    have "hub_inv h'"
    proof (cases "gget (hub_subscribers h) sid")
      case (Some ch)
      then have "sub_ok ch" using assms by (rule hub_get_ok [rotated])
      moreover have "\<not> hub_closed h" using Some assms by (auto simp: hub_inv_def)
      ultimately show ?thesis
        using Pair Some assms
        by (auto simp: hub_receive_def chan_recv_def sub_ok_def split: list.splits if_splits
            intro!: hub_inv_put chan_ok_pop)
    qed (use Pair assms in \<open>simp add: hub_receive_def\<close>)
    then show ?thesis using HReceive Pair by simp
  qed
qed

lemma hub_run_ok: "hub_inv h \<Longrightarrow> \<exists>h'. hub_run ops h = Some h' \<and> hub_inv h'"
proof (induction ops arbitrary: h)
  case (Cons op ops)
  then show ?case using hub_step_ok [of h op] by auto
qed simp

section \<open>The history\<close>

definition last_n :: "nat \<Rightarrow> 'a list \<Rightarrow> 'a list" where
  "last_n n xs = drop (length xs - n) xs"

text \<open>The events published before the hub was closed.\<close>

fun published :: "hub_op list \<Rightarrow> event list" where
  "published [] = []"
| "published (HPublish ev # ops) = ev # published ops"
| "published (HClose # ops) = []"
| "published (op # ops) = published ops"

lemma last_n_last_n: "last_n n (last_n n xs @ ys) = last_n n (xs @ ys)"
proof -
  have "length xs + length ys - (length xs - n + n) + (length xs - n) = length xs + length ys - n"
    if "n \<le> length xs"
    using that by simp
  then show ?thesis by (cases "n \<le> length xs") (simp_all add: last_n_def)
qed

lemma hub_Publish_recent:
  "hub_inv h \<Longrightarrow> hub_Publish ev h = Some h' \<Longrightarrow> \<not> hub_closed h \<Longrightarrow>
    hub_recent h' = last_n maxRecentEvents (hub_recent h @ [ev]) \<and> \<not> hub_closed h'"
  by (auto simp: hub_Publish_def Let_def last_n_def split: if_splits)

lemma hub_step_recent:
  assumes "hub_step op h = Some h'" and "\<forall>ev. op \<noteq> HPublish ev"
  shows "hub_recent h' = hub_recent h \<and> (hub_closed h' \<longleftrightarrow> hub_closed h \<or> op = HClose)"
  using assms
  by (cases op)
     (auto simp: hub_Subscribe_def hub_Unsubscribe_def hub_Close_def hub_receive_def Let_def
       split: if_splits option.splits recv_result.splits)

lemma hub_run_closed_recent:
  "hub_closed h \<Longrightarrow> hub_run ops h = Some h' \<Longrightarrow> hub_recent h' = hub_recent h"
proof (induction ops arbitrary: h)
  case (Cons op ops)
  then obtain h1 where h1: "hub_step op h = Some h1" "hub_run ops h1 = Some h'"
    by (auto split: option.splits)
  have "hub_recent h1 = hub_recent h \<and> hub_closed h1"
  proof (cases "\<exists>ev. op = HPublish ev")
    case True
    with h1(1) Cons.prems(1) show ?thesis by (auto simp: hub_Publish_def)
  qed (use hub_step_recent [OF h1(1)] Cons.prems(1) in auto)
  with Cons.IH h1(2) show ?case by auto
qed simp

lemma hub_run_recent:
  "hub_inv h \<Longrightarrow> \<not> hub_closed h \<Longrightarrow> hub_run ops h = Some h' \<Longrightarrow>
    hub_recent h' = last_n maxRecentEvents (hub_recent h @ published ops)"
proof (induction ops arbitrary: h)
  case Nil
  then show ?case by (simp add: last_n_def hub_inv_def)
next
  case (Cons op ops)
  then obtain h1 where h1: "hub_step op h = Some h1" "hub_run ops h1 = Some h'"
    by (auto split: option.splits)
  have inv1: "hub_inv h1" using hub_step_ok [OF Cons.prems(1), of op] h1(1) by auto
  show ?case
  proof (cases op)
    case (HPublish ev)
    with h1(1) have r: "hub_recent h1 = last_n maxRecentEvents (hub_recent h @ [ev])"
      and c: "\<not> hub_closed h1"
      using hub_Publish_recent [OF Cons.prems(1) _ Cons.prems(2)] by auto
    have "hub_recent h' = last_n maxRecentEvents (hub_recent h1 @ published ops)"
      using Cons.IH [OF inv1 c h1(2)] .
    then show ?thesis by (simp add: r HPublish last_n_last_n)
  next
    case HClose
    with h1(1) have "hub_recent h1 = hub_recent h" "hub_closed h1"
      using hub_step_recent [of op h h1] by auto
    then have "hub_recent h' = hub_recent h"
      using hub_run_closed_recent h1(2) by metis
    then show ?thesis using HClose Cons.prems(1) by (simp add: last_n_def hub_inv_def)
  next
    case (HSubscribe sid)
    then show ?thesis using hub_step_recent [OF h1(1)] Cons.prems inv1 h1(2) Cons.IH by auto
  next
    case (HUnsubscribe sid)
    then show ?thesis using hub_step_recent [OF h1(1)] Cons.prems inv1 h1(2) Cons.IH by auto
  next
    case (HReceive sid)
    then show ?thesis using hub_step_recent [OF h1(1)] Cons.prems inv1 h1(2) Cons.IH by auto
  qed
qed

lemma hub_Recent_rev:
  "hub_Recent limit h =
     (if limit \<le> 0 \<or> int (length (hub_recent h)) < limit then rev (hub_recent h)
      else take (nat limit) (rev (hub_recent h)))"
proof -
  have "map (\<lambda>i. xs ! (length xs - 1 - i)) [0..<k] = take k (rev xs)" if "k \<le> length xs"
    for k and xs :: "event list"
    using that by (intro nth_equalityI) (auto simp: rev_nth)
  then show ?thesis by (auto simp: hub_Recent_def Let_def)
qed

section \<open>Delivery\<close>

text \<open>What subscriber \<open>sid\<close> has queued, and the events it receives along a run.\<close>

definition hub_queued :: "string \<Rightarrow> event_hub \<Rightarrow> event list" where
  "hub_queued sid h = (case gget (hub_subscribers h) sid of None \<Rightarrow> [] | Some ch \<Rightarrow> ch_buf ch)"

fun hub_got :: "string \<Rightarrow> hub_op list \<Rightarrow> event_hub \<Rightarrow> event list" where
  "hub_got sid [] h = []"
| "hub_got sid (op # ops) h =
     (if op = HReceive sid then (case snd (hub_receive sid h) of Some ev \<Rightarrow> [ev] | None \<Rightarrow> []) else [])
     @ (case hub_step op h of Some h' \<Rightarrow> hub_got sid ops h' | None \<Rightarrow> [])"

lemma gget_map_snd: "gget (map (\<lambda>(k, v). (k, f v)) m) k = map_option f (gget m k)"
  by (induction m) (auto simp: gget_def)

lemma hub_Publish_queued:
  assumes "hub_inv h" and "hub_Publish ev h = Some h'"
  shows "hub_queued sid h' = hub_queued sid h \<or> hub_queued sid h' = hub_queued sid h @ [ev]"
    and "gget (hub_subscribers h) sid \<noteq> None \<Longrightarrow> length (hub_queued sid h) < subscriberBuffer \<Longrightarrow>
      hub_queued sid h' = hub_queued sid h @ [ev] \<and> gget (hub_subscribers h') sid \<noteq> None"
proof -
  have "hub_subscribers h' = map (\<lambda>(k, ch). (k, publish_chan ev ch)) (hub_subscribers h)
      \<or> hub_closed h \<and> h' = h"
    using assms by (auto simp: hub_Publish_def Let_def publish_to_ok hub_inv_def split: if_splits)
  then consider (running) "gget (hub_subscribers h') sid =
      map_option (publish_chan ev) (gget (hub_subscribers h) sid)"
    | (ended) "hub_subscribers h = []" "h' = h"
    using assms(1) by (auto simp: gget_map_snd hub_inv_def)
  then show "hub_queued sid h' = hub_queued sid h \<or> hub_queued sid h' = hub_queued sid h @ [ev]"
    and "gget (hub_subscribers h) sid \<noteq> None \<Longrightarrow> length (hub_queued sid h) < subscriberBuffer \<Longrightarrow>
      hub_queued sid h' = hub_queued sid h @ [ev] \<and> gget (hub_subscribers h') sid \<noteq> None"
    using hub_get_ok [OF assms(1), of sid]
    by (cases; auto simp: hub_queued_def publish_chan_def sub_ok_def split: option.splits)+
qed

lemma hub_receive_queued:
  "hub_queued sid h = (case snd (hub_receive sid h) of Some ev \<Rightarrow> [ev] | None \<Rightarrow> [])
      @ hub_queued sid (fst (hub_receive sid h))"
  by (auto simp: hub_receive_def hub_queued_def chan_recv_def gomap_simps
      split: option.splits recv_result.splits list.splits if_splits)

lemma hub_receive_other: "k \<noteq> sid \<Longrightarrow>
    gget (hub_subscribers (fst (hub_receive k h))) sid = gget (hub_subscribers h) sid"
  by (auto simp: hub_receive_def gomap_simps split: option.splits recv_result.splits)

lemma hub_receive_subscribed:
  "gget (hub_subscribers h) sid \<noteq> None \<Longrightarrow>
    gget (hub_subscribers (fst (hub_receive k h))) sid \<noteq> None"
  by (auto simp: hub_receive_def gomap_simps split: option.splits recv_result.splits)

lemma hub_step_queued_other:
  assumes "hub_step op h = Some h'" and "op \<noteq> HSubscribe sid" and "op \<noteq> HReceive sid"
    and "\<forall>ev. op \<noteq> HPublish ev"
  shows "hub_queued sid h' = hub_queued sid h \<or> hub_queued sid h' = []"
  using assms
  by (cases op)
     (auto simp: hub_queued_def hub_Subscribe_def hub_Unsubscribe_def hub_Close_def Let_def
       hub_receive_other gomap_simps split: if_splits option.splits)

lemma subseq_drop_right: "subseq (xs @ ys) zs \<Longrightarrow> subseq xs zs"
  by (meson subseq_order.order_trans subseq_rev_drop_many subseq_order.order_refl)

lemma hub_closed_step:
  "hub_inv h \<Longrightarrow> hub_closed h \<Longrightarrow> hub_step op h = Some h \<and> snd (hub_receive sid h) = None"
  by (cases op)
     (auto simp: hub_inv_def hub_Subscribe_def hub_Unsubscribe_def hub_Publish_def hub_Close_def
       hub_receive_def)

lemma hub_closed_run:
  "hub_inv h \<Longrightarrow> hub_closed h \<Longrightarrow> hub_run ops h = Some h \<and> hub_got sid ops h = []"
  using hub_closed_step by (induction ops) auto

text \<open>
  Whatever the other subscribers do, and however slow this one is: what it has received and
  still has queued is a subsequence of what was published, in order.
\<close>

lemma hub_delivery_gen:
  assumes "hub_inv h" and "HSubscribe sid \<notin> set ops" and "hub_run ops h = Some h'"
    and "subseq (got @ hub_queued sid h) past"
  shows "subseq (got @ hub_got sid ops h @ hub_queued sid h') (past @ published ops)"
  using assms
proof (induction ops arbitrary: h got past)
  case (Cons op ops)
  from Cons.prems(3) obtain h1 where h1: "hub_step op h = Some h1" "hub_run ops h1 = Some h'"
    by (auto split: option.splits)
  have inv1: "hub_inv h1" using hub_step_ok [OF Cons.prems(1), of op] h1(1) by auto
  have fresh: "HSubscribe sid \<notin> set ops" "op \<noteq> HSubscribe sid" using Cons.prems(2) by auto
  have got: "hub_got sid (op # ops) h =
      (if op = HReceive sid then (case snd (hub_receive sid h) of Some ev \<Rightarrow> [ev] | None \<Rightarrow> []) else [])
      @ hub_got sid ops h1"
    using h1(1) by simp
  note IH = Cons.IH [OF inv1 fresh(1) h1(2)]
  consider (publish) ev where "op = HPublish ev" | (receive) "op = HReceive sid" | (close) "op = HClose"
    | (other) "op \<noteq> HReceive sid" "\<forall>ev. op \<noteq> HPublish ev" "op \<noteq> HClose" by blast
  then show ?case
  proof cases
    case (publish ev)
    then have "hub_queued sid h1 = hub_queued sid h \<or> hub_queued sid h1 = hub_queued sid h @ [ev]"
      using hub_Publish_queued(1) [OF Cons.prems(1)] h1(1) by simp
    moreover have "subseq (got @ hub_queued sid h) (past @ [ev])"
      using Cons.prems(4) by (rule subseq_rev_drop_many)
    moreover have "subseq ((got @ hub_queued sid h) @ [ev]) (past @ [ev])"
      using Cons.prems(4) by (simp only: subseq_append)
    ultimately have "subseq (got @ hub_queued sid h1) (past @ [ev])" by auto
    from IH [OF this] show ?thesis using h1(1) publish by simp
  next
    case receive
    let ?x = "case snd (hub_receive sid h) of Some ev \<Rightarrow> [ev] | None \<Rightarrow> []"
    have "hub_queued sid h = ?x @ hub_queued sid h1"
      using hub_receive_queued [of sid h] h1(1) receive by simp
    then have "subseq ((got @ ?x) @ hub_queued sid h1) past" using Cons.prems(4) by simp
    from IH [OF this] show ?thesis using h1(1) receive by simp
  next
    case close
    with h1(1) have "hub_closed h1" using hub_step_recent [of op h h1] by simp
    then have "hub_got sid ops h1 = []" "h' = h1" using hub_closed_run [OF inv1] h1(2) by auto
    moreover have "subseq (got @ hub_queued sid h1) past"
      using hub_step_queued_other [OF h1(1) fresh(2)] close Cons.prems(4)
      by (auto dest: subseq_drop_right)
    ultimately show ?thesis using got close by (simp del: hub_got.simps)
  next
    case other
    have "subseq (got @ hub_queued sid h1) past"
      using hub_step_queued_other [OF h1(1) fresh(2) other(1,2)] Cons.prems(4)
      by (auto dest: subseq_drop_right)
    from IH [OF this] have "subseq (got @ hub_got sid ops h1 @ hub_queued sid h') (past @ published ops)" .
    then show ?thesis using h1(1) other by (cases op) auto
  qed
qed simp

text \<open>Nothing is lost while at most \<open>subscriberBuffer\<close> events are outstanding.\<close>

lemma hub_delivery_complete_gen:
  assumes "hub_inv h" and "hub_run ops h = Some h'"
    and "\<forall>op \<in> set ops. op \<noteq> HSubscribe sid \<and> op \<noteq> HUnsubscribe sid \<and> op \<noteq> HClose"
    and "gget (hub_subscribers h) sid \<noteq> None"
    and "length (hub_queued sid h) + length (published ops) \<le> subscriberBuffer"
  shows "hub_got sid ops h @ hub_queued sid h' = hub_queued sid h @ published ops"
  using assms
proof (induction ops arbitrary: h)
  case (Cons op ops)
  from Cons.prems(2) obtain h1 where h1: "hub_step op h = Some h1" "hub_run ops h1 = Some h'"
    by (auto split: option.splits)
  have inv1: "hub_inv h1" using hub_step_ok [OF Cons.prems(1), of op] h1(1) by auto
  have ops: "\<forall>op \<in> set ops. op \<noteq> HSubscribe sid \<and> op \<noteq> HUnsubscribe sid \<and> op \<noteq> HClose"
    using Cons.prems(3) by simp
  have got: "hub_got sid (op # ops) h =
      (if op = HReceive sid then (case snd (hub_receive sid h) of Some ev \<Rightarrow> [ev] | None \<Rightarrow> []) else [])
      @ hub_got sid ops h1"
    using h1(1) by simp
  note IH = Cons.IH [OF inv1 h1(2) ops]
  show ?case
  proof (cases op)
    case (HPublish ev)
    then have "hub_queued sid h1 = hub_queued sid h @ [ev]" "gget (hub_subscribers h1) sid \<noteq> None"
      using hub_Publish_queued(2) [OF Cons.prems(1) _ Cons.prems(4)] h1(1) Cons.prems(5) by auto
    with IH show ?thesis using HPublish h1(1) Cons.prems(5) by simp
  next
    case (HReceive k)
    then have h1': "h1 = fst (hub_receive k h)" using h1(1) by simp
    have sub: "gget (hub_subscribers h1) sid \<noteq> None"
      unfolding h1' by (rule hub_receive_subscribed) (rule Cons.prems(4))
    show ?thesis
    proof (cases "k = sid")
      case True
      let ?x = "case snd (hub_receive sid h) of Some ev \<Rightarrow> [ev] | None \<Rightarrow> []"
      have q: "hub_queued sid h = ?x @ hub_queued sid h1"
        using hub_receive_queued [of sid h] h1' True by simp
      then have "length (hub_queued sid h1) + length (published ops) \<le> subscriberBuffer"
        using Cons.prems(5) HReceive by (simp split: option.splits)
      from IH [OF sub this] show ?thesis using True HReceive h1(1) q by simp
    next
      case False
      then have "hub_queued sid h1 = hub_queued sid h"
        using hub_receive_other [OF False] h1' by (simp add: hub_queued_def)
      with IH [OF sub] Cons.prems(5) HReceive False h1(1) show ?thesis by simp
    qed
  next
    case (HSubscribe k)
    with Cons.prems(3) h1(1) have "gget (hub_subscribers h1) sid = gget (hub_subscribers h) sid"
      by (auto simp: hub_Subscribe_def Let_def gomap_simps)
    with IH Cons.prems(4,5) HSubscribe h1(1) show ?thesis by (simp add: hub_queued_def)
  next
    case (HUnsubscribe k)
    with Cons.prems(3) h1(1) have "gget (hub_subscribers h1) sid = gget (hub_subscribers h) sid"
      by (auto simp: hub_Unsubscribe_def gomap_simps split: option.splits)
    with IH Cons.prems(4,5) HUnsubscribe got show ?thesis
      by (simp add: hub_queued_def del: hub_got.simps)
  qed (use Cons.prems(3) in simp)
qed simp

section \<open>Properties\<close>

text \<open>
  The event hub never panics, whatever subscribers come and go, receive or stall, and when it
  is closed; and its history is the last hundred events published before the close, which
  \<open>Recent\<close> lists newest first.
\<close>
lemma hub_history:
  "\<exists>h. hub_run ops NewEventHub = Some h
     \<and> hub_recent h = last_n 100 (published ops)
     \<and> hub_Recent limit h =
         (if limit \<le> 0 then rev (last_n 100 (published ops))
          else take (nat limit) (rev (last_n 100 (published ops))))"
proof -
  obtain h where h: "hub_run ops NewEventHub = Some h" using hub_run_ok [OF hub_inv_new] by blast
  have r: "hub_recent h = last_n 100 (published ops)"
    using hub_run_recent [OF hub_inv_new _ h] by (simp add: NewEventHub_def maxRecentEvents_def)
  then show ?thesis using h by (intro exI [of _ h]) (simp add: hub_Recent_rev)
qed

text \<open>
  A subscriber sees events in order, none twice and none made up: what it received and what is
  queued for it is a subsequence of what was published since it subscribed. While at most 64 events
  are published and neither it unsubscribes nor the hub closes, it misses none.
\<close>
lemma hub_delivery:
  assumes "hub_run before NewEventHub = Some h0" and "\<not> hub_closed h0"
    and "HSubscribe sid \<notin> set ops"
    and "hub_run ops (fst (hub_Subscribe sid h0)) = Some h"
  shows "subseq (hub_got sid ops (fst (hub_Subscribe sid h0)) @ hub_queued sid h) (published ops)
    \<and> (HUnsubscribe sid \<notin> set ops \<and> HClose \<notin> set ops \<and> length (published ops) \<le> 64 \<longrightarrow>
         hub_got sid ops (fst (hub_Subscribe sid h0)) @ hub_queued sid h = published ops)"
proof -
  let ?h1 = "fst (hub_Subscribe sid h0)"
  have "hub_inv h0" using hub_run_ok [OF hub_inv_new, of before] assms(1) by auto
  then have inv: "hub_inv ?h1" using hub_step_ok [of h0 "HSubscribe sid"] by simp
  have q: "hub_queued sid ?h1 = []" "gget (hub_subscribers ?h1) sid \<noteq> None"
    using assms(2) by (simp_all add: hub_queued_def hub_Subscribe_def Let_def gomap_simps make_chan_def)
  have "subseq (hub_got sid ops ?h1 @ hub_queued sid h) (published ops)"
    using hub_delivery_gen [OF inv assms(3,4), of "[]" "[]"] q by simp
  moreover have "hub_got sid ops ?h1 @ hub_queued sid h = published ops"
    if "HUnsubscribe sid \<notin> set ops" "HClose \<notin> set ops" "length (published ops) \<le> 64"
    using hub_delivery_complete_gen [OF inv assms(4), of sid] assms(3) that q
    by (auto simp: subscriberBuffer_def)
  ultimately show ?thesis by blast
qed

lemma hub_delivery_witness:
  "\<exists>h ev. hub_run [HPublish ev, HReceive ''s'', HPublish ev] (fst (hub_Subscribe ''s'' NewEventHub)) = Some h
    \<and> hub_got ''s'' [HPublish ev, HReceive ''s'', HPublish ev] (fst (hub_Subscribe ''s'' NewEventHub))
        @ hub_queued ''s'' h = [ev, ev]"
proof -
  fix ev :: event
  let ?h1 = "fst (hub_Subscribe ''s'' NewEventHub)" and ?ops = "[HPublish ev, HReceive ''s'', HPublish ev]"
  have "hub_inv ?h1" using hub_step_ok [OF hub_inv_new, of "HSubscribe ''s''"] by simp
  then obtain h where h: "hub_run ?ops ?h1 = Some h" using hub_run_ok by blast
  have "hub_got ''s'' ?ops ?h1 @ hub_queued ''s'' h = published ?ops"
    using hub_delivery [of "[]" NewEventHub "''s''" ?ops h] h by (simp add: NewEventHub_def)
  then show ?thesis using h by (intro exI [of _ h] exI [of _ ev]) simp
qed

end
