(* ===== verification/Paths.thy ===== *)
theory Paths
  imports Prelude "HOL-Library.Sublist"
begin

text \<open>
  Go's \<open>path/filepath\<close> on Unix (\<open>Clean\<close>, \<open>Join\<close>, \<open>Base\<close>, \<open>Dir\<close>, \<open>IsAbs\<close>), and the path
  functions of the repository that are built on it: the containment tests that keep a
  client-supplied session id inside the log directory and match working directories to
  projects, and home-directory resolution.
\<close>

section \<open>filepath.Clean and Join\<close>

text \<open>The components of the cleaned path so far are a stack, last component first.\<close>

definition clean_step :: "bool \<Rightarrow> string \<Rightarrow> string list \<Rightarrow> string list" where
  "clean_step rooted c stack =
     (if c = [] \<or> c = ''.'' then stack
      else if c = ''..'' then
        (case stack of
           [] \<Rightarrow> if rooted then [] else [''..'']
         | c0 # rest \<Rightarrow> if c0 = ''..'' then ''..'' # stack else rest)
      else c # stack)"

definition clean_stack :: "bool \<Rightarrow> string list \<Rightarrow> string list \<Rightarrow> string list" where
  "clean_stack rooted cs stack = fold (clean_step rooted) cs stack"

definition is_abs :: "string \<Rightarrow> bool" where
  "is_abs p \<longleftrightarrow> has_prefix p ''/''"

definition clean_comps :: "string \<Rightarrow> string list" where
  "clean_comps p = rev (clean_stack (is_abs p) (split_on CHR ''/'' p) [])"

definition render_path :: "bool \<Rightarrow> string list \<Rightarrow> string" where
  "render_path rooted cs =
     (if rooted then CHR ''/'' # join_with ''/'' cs
      else if cs = [] then ''.'' else join_with ''/'' cs)"

definition clean_path :: "string \<Rightarrow> string" where
  "clean_path p = render_path (is_abs p) (clean_comps p)"

definition join_paths :: "string list \<Rightarrow> string" where
  "join_paths elems =
     (case dropWhile (\<lambda>e. e = []) elems of
        [] \<Rightarrow> [] | es \<Rightarrow> clean_path (join_with ''/'' es))"

definition strip_slashes :: "string \<Rightarrow> string" where
  "strip_slashes p = rev (dropWhile (\<lambda>c. c = CHR ''/'') (rev p))"

definition base_name :: "string \<Rightarrow> string" where
  "base_name p =
     (if p = [] then ''.''
      else let b = last (split_on CHR ''/'' (strip_slashes p)) in if b = [] then ''/'' else b)"

definition dir_name :: "string \<Rightarrow> string" where
  "dir_name p = clean_path (rev (dropWhile (\<lambda>c. c \<noteq> CHR ''/'') (rev p)))"

section \<open>Facts about cleaned paths\<close>

definition good_comp :: "string \<Rightarrow> bool" where
  "good_comp c \<longleftrightarrow> c \<noteq> [] \<and> CHR ''/'' \<notin> set c"

lemma clean_stack_append:
  "clean_stack rooted (xs @ ys) stack = clean_stack rooted ys (clean_stack rooted xs stack)"
  by (simp add: clean_stack_def)

lemma clean_step_good:
  "list_all good_comp stack \<Longrightarrow> CHR ''/'' \<notin> set c \<Longrightarrow> list_all good_comp (clean_step rooted c stack)"
  by (auto simp: clean_step_def good_comp_def split: list.splits)

lemma clean_stack_good:
  "list_all good_comp stack \<Longrightarrow> \<forall>c \<in> set cs. CHR ''/'' \<notin> set c \<Longrightarrow>
    list_all good_comp (clean_stack rooted cs stack)"
proof (induction cs arbitrary: stack)
  case (Cons c cs)
  then show ?case using clean_step_good [of stack c rooted] by (simp add: clean_stack_def)
qed (simp add: clean_stack_def)

lemma clean_comps_good: "list_all good_comp (clean_comps p)"
  using clean_stack_good [of "[]" "split_on CHR ''/'' p"] split_on_parts [of _ "CHR ''/''" p]
  by (simp add: clean_comps_def list_all_rev)

lemma good_split_join:
  "list_all good_comp cs \<Longrightarrow> cs \<noteq> [] \<Longrightarrow> split_on CHR ''/'' (join_with ''/'' cs) = cs"
  by (rule split_join) (auto simp: list_all_iff good_comp_def)

lemma join_with_Cons_nonempty:
  "ps \<noteq> [] \<Longrightarrow> join_with s (p # ps) = p @ s @ join_with s ps"
  by (cases ps) auto

lemma is_abs_join: "p \<noteq> [] \<Longrightarrow> is_abs (p @ CHR ''/'' # q) = is_abs p"
  by (cases p) (auto simp: is_abs_def has_prefix_def)

lemma clean_comps_join:
  "p \<noteq> [] \<Longrightarrow> clean_comps (p @ CHR ''/'' # q) =
    rev (clean_stack (is_abs p) (split_on CHR ''/'' q) (rev (clean_comps p)))"
  by (simp add: clean_comps_def is_abs_join split_on_append_sep clean_stack_append)

lemma join_paths_2: "p \<noteq> [] \<Longrightarrow> join_paths [p, q] = clean_path (p @ CHR ''/'' # q)"
  by (simp add: join_paths_def)

lemma split_abs: "is_abs p \<Longrightarrow> \<exists>q. p = CHR ''/'' # q"
  by (auto simp: is_abs_def gostr_simps)

lemma is_abs_render: "list_all good_comp cs \<Longrightarrow> is_abs (render_path rooted cs) = rooted"
proof (cases cs)
  case (Cons c cs')
  assume "list_all good_comp cs"
  with Cons have "c \<noteq> []" "CHR ''/'' \<notin> set c" by (auto simp: good_comp_def)
  with Cons show ?thesis
    by (cases c; cases cs') (auto simp: render_path_def is_abs_def has_prefix_def)
qed (simp add: render_path_def is_abs_def has_prefix_def)

text \<open>A path under a directory, component-wise: the directory's components come first.\<close>

lemma render_under:
  assumes "list_all good_comp ds" and "list_all good_comp es" and "ds \<noteq> []" and "es \<noteq> []"
  shows "has_prefix (render_path rooted (ds @ es)) (render_path rooted ds @ ''/'')"
proof -
  have "join_with ''/'' (ds @ es) = join_with ''/'' ds @ CHR ''/'' # join_with ''/'' es"
    using assms(3)
  proof (induction ds)
    case (Cons d ds)
    then show ?case using assms(4) by (cases "ds = []") (simp_all add: join_with_Cons_nonempty)
  qed simp
  then show ?thesis using assms(3) by (auto simp: gostr_simps render_path_def)
qed

lemma render_under_iff:
  assumes "list_all good_comp ds" and "list_all good_comp ts"
    and "\<not> rooted \<Longrightarrow> ts \<noteq> [] \<Longrightarrow> hd ts \<noteq> ''.''"
  shows "has_prefix (render_path rooted ts) (render_path rooted ds @ ''/'') \<longleftrightarrow>
    ds \<noteq> [] \<and> (\<exists>es. es \<noteq> [] \<and> ts = ds @ es)"
proof
  assume "ds \<noteq> [] \<and> (\<exists>es. es \<noteq> [] \<and> ts = ds @ es)"
  then show "has_prefix (render_path rooted ts) (render_path rooted ds @ ''/'')"
    using assms(1,2) by (auto intro!: render_under)
next
  assume "has_prefix (render_path rooted ts) (render_path rooted ds @ ''/'')"
  then obtain r where r: "render_path rooted ts = render_path rooted ds @ CHR ''/'' # r"
    by (auto simp: gostr_simps)
  have "ts \<noteq> []"
  proof
    assume "ts = []"
    with r have "length (render_path rooted ds @ CHR ''/'' # r) = 1"
      by (metis One_nat_def join_with.simps(1) length_Cons list.size(3) render_path_def)
    then have "render_path rooted ds = []" by simp
    then show False
      using assms(1) by (cases ds; cases "tl ds") (auto simp: render_path_def good_comp_def split: if_splits)
  qed
  then have sts: "split_on CHR ''/'' (join_with ''/'' ts) = ts"
    using good_split_join assms(2) by blast
  have "ds \<noteq> []"
  proof
    assume ds: "ds = []"
    show False
    proof (cases rooted)
      case True
      with r ds have "join_with ''/'' ts = CHR ''/'' # r" by (simp add: render_path_def)
      then have "hd ts = []" using sts by (metis list.sel(1) split_on.simps(2))
      then show False using \<open>ts \<noteq> []\<close> assms(2) by (cases ts) (auto simp: good_comp_def)
    next
      case False
      with r ds \<open>ts \<noteq> []\<close> have "join_with ''/'' ts = ''.'' @ CHR ''/'' # r"
        by (simp add: render_path_def)
      then have "ts = split_on CHR ''/'' ''.'' @ split_on CHR ''/'' r"
        using sts split_on_append_sep by metis
      then have "hd ts = ''.''" by simp
      then show False using assms(3) False \<open>ts \<noteq> []\<close> by blast
    qed
  qed
  moreover from r this \<open>ts \<noteq> []\<close>
  have "join_with ''/'' ts = join_with ''/'' ds @ CHR ''/'' # r"
    by (auto simp: render_path_def split: if_splits)
  then have "ts = ds @ split_on CHR ''/'' r"
    using sts split_on_append_sep good_split_join [OF assms(1) calculation] by metis
  ultimately show "ds \<noteq> [] \<and> (\<exists>es. es \<noteq> [] \<and> ts = ds @ es)"
    using split_on_not_Nil by blast
qed

lemma clean_step_no_dot:
  "''.'' \<notin> set stack \<Longrightarrow> ''.'' \<notin> set (clean_step rooted c stack)"
  by (auto simp: clean_step_def split: list.splits if_splits)

lemma clean_stack_no_dot:
  "''.'' \<notin> set stack \<Longrightarrow> ''.'' \<notin> set (clean_stack rooted cs stack)"
proof (induction cs arbitrary: stack)
  case (Cons c cs)
  then show ?case using clean_step_no_dot [of stack rooted c] by (simp add: clean_stack_def)
qed (simp add: clean_stack_def)

lemma clean_comps_no_dot: "''.'' \<notin> set (clean_comps p)"
  by (simp add: clean_comps_def clean_stack_no_dot)

text \<open>Cleaning a cleaned path changes nothing.\<close>

definition clean_stack_ok :: "bool \<Rightarrow> string list \<Rightarrow> bool" where
  "clean_stack_ok rooted stack \<longleftrightarrow>
     (\<exists>m ups. stack = m @ replicate ups ''..'' \<and> ''..'' \<notin> set m \<and> (rooted \<longrightarrow> ups = 0))
     \<and> ''.'' \<notin> set stack \<and> [] \<notin> set stack"

lemma clean_stack_ok_step:
  assumes "clean_stack_ok rooted stack"
  shows "clean_stack_ok rooted (clean_step rooted c stack)"
proof -
  obtain m ups where s: "stack = m @ replicate ups ''..''" "''..'' \<notin> set m" "rooted \<longrightarrow> ups = 0"
    and d: "''.'' \<notin> set stack" "[] \<notin> set stack"
    using assms unfolding clean_stack_ok_def by blast
  show ?thesis
  proof (cases "c = ''..''")
    case True
    show ?thesis
    proof (cases m)
      case Nil
      have "clean_step rooted c stack = [] @ replicate (if rooted then 0 else Suc ups) ''..''"
        using True s Nil by (cases ups) (auto simp: clean_step_def)
      then show ?thesis unfolding clean_stack_ok_def
        by (intro conjI exI [of _ "[]"] exI [of _ "if rooted then 0 else Suc ups"]) auto
    next
      case (Cons a m')
      then have "clean_step rooted c stack = m' @ replicate ups ''..''"
        using True s by (auto simp: clean_step_def)
      then show ?thesis using s d Cons unfolding clean_stack_ok_def by auto
    qed
  next
    case False
    show ?thesis
    proof (cases "c = [] \<or> c = ''.''")
      case True
      then show ?thesis using assms by (auto simp: clean_step_def)
    next
      case nodot: False
      then have "clean_step rooted c stack = (c # m) @ replicate ups ''..''"
        using False s by (simp add: clean_step_def)
      then show ?thesis using s d False nodot unfolding clean_stack_ok_def
        by (intro conjI exI [of _ "c # m"] exI [of _ ups]) auto
    qed
  qed
qed

lemma clean_stack_ok_fold:
  "clean_stack_ok rooted stack \<Longrightarrow> clean_stack_ok rooted (clean_stack rooted cs stack)"
proof (induction cs arbitrary: stack)
  case (Cons c cs)
  then show ?case using clean_stack_ok_step [of rooted stack c] by (simp add: clean_stack_def)
qed (simp add: clean_stack_def)

lemma clean_stack_ok_tl: "clean_stack_ok rooted (c # stack) \<Longrightarrow> clean_stack_ok rooted stack"
proof -
  assume ok: "clean_stack_ok rooted (c # stack)"
  then obtain m ups where "c # stack = m @ replicate ups ''..''" "''..'' \<notin> set m"
      "rooted \<longrightarrow> ups = 0" unfolding clean_stack_ok_def by blast
  then have "stack = tl m @ replicate (if m = [] then ups - 1 else ups) ''..''
      \<and> ''..'' \<notin> set (tl m) \<and> (rooted \<longrightarrow> (if m = [] then ups - 1 else ups) = 0)"
    by (cases m; cases ups) auto
  moreover from ok have "''.'' \<notin> set stack" "[] \<notin> set stack"
    unfolding clean_stack_ok_def by simp_all
  ultimately show ?thesis unfolding clean_stack_ok_def by blast
qed

lemma clean_stack_again:
  "clean_stack_ok rooted stack \<Longrightarrow> clean_stack rooted (rev stack) [] = stack"
proof (induction stack)
  case (Cons c stack)
  have IH: "clean_stack rooted (rev stack) [] = stack"
    using Cons.IH clean_stack_ok_tl [OF Cons.prems] .
  obtain m ups where s: "c # stack = m @ replicate ups ''..''" "''..'' \<notin> set m"
    "rooted \<longrightarrow> ups = 0" and c: "c \<noteq> ''.''" "c \<noteq> []"
    using Cons.prems unfolding clean_stack_ok_def by (metis list.set_intros(1))
  have "clean_step rooted c stack = c # stack"
  proof (cases "c = ''..''")
    case True
    with s have "m = []" by (cases m) auto
    with s True have "\<not> rooted" "stack = replicate (ups - 1) ''..''" by (cases ups; auto)+
    then show ?thesis using True by (cases "ups - 1") (auto simp: clean_step_def)
  qed (use c in \<open>simp add: clean_step_def\<close>)
  then show ?case using IH by (simp add: clean_stack_append) (simp add: clean_stack_def)
qed (simp add: clean_stack_def)

lemma clean_stack_ok_comps: "clean_stack_ok (is_abs p) (rev (clean_comps p))"
  by (simp add: clean_comps_def) (rule clean_stack_ok_fold, simp add: clean_stack_ok_def)

lemma split_render:
  assumes "list_all good_comp cs"
  shows "clean_stack rooted (split_on CHR ''/'' (render_path rooted cs)) [] = clean_stack rooted cs []"
proof (cases "cs = []")
  case True
  then show ?thesis by (simp add: render_path_def clean_stack_def clean_step_def)
next
  case False
  with assms have "split_on CHR ''/'' (join_with ''/'' cs) = cs" by (rule good_split_join)
  then show ?thesis using False by (simp add: render_path_def clean_stack_def clean_step_def)
qed

lemma clean_comps_clean: "clean_comps (clean_path p) = clean_comps p"
proof -
  have abs: "is_abs (clean_path p) = is_abs p"
    by (simp add: clean_path_def is_abs_render clean_comps_good)
  have "clean_comps (clean_path p) =
      rev (clean_stack (is_abs p) (split_on CHR ''/'' (render_path (is_abs p) (clean_comps p))) [])"
    by (simp add: clean_comps_def [of "clean_path p"] abs) (simp add: clean_path_def)
  also have "\<dots> = rev (clean_stack (is_abs p) (rev (rev (clean_comps p))) [])"
    by (simp add: split_render clean_comps_good)
  also have "\<dots> = clean_comps p"
    using clean_stack_again [OF clean_stack_ok_comps, of p] by (simp del: rev_rev_ident) simp
  finally show ?thesis .
qed

lemma clean_path_idem: "clean_path (clean_path p) = clean_path p"
  unfolding clean_path_def [of "clean_path p"] clean_comps_clean
  by (simp add: clean_path_def is_abs_render clean_comps_good)

section \<open>Staying below a directory\<close>

lemma is_abs_clean [simp]: "is_abs (clean_path p) = is_abs p"
  by (simp add: clean_path_def is_abs_render clean_comps_good)

lemma clean_comps_rev_stack:
  "p \<noteq> [] \<Longrightarrow> clean_comps (p @ CHR ''/'' # q) =
    rev (clean_stack (is_abs p) (split_on CHR ''/'' q) (rev (clean_comps p)))"
  by (rule clean_comps_join)

lemma under_dir_iff:
  "has_prefix (clean_path p) (clean_path d @ ''/'') \<longleftrightarrow>
    clean_comps d \<noteq> [] \<and> (\<exists>es. es \<noteq> [] \<and> clean_comps p = clean_comps d @ es)"
  if "is_abs p = is_abs d"
proof -
  have "hd ts \<noteq> ''.''" if "ts \<noteq> []" "ts = clean_comps p" for ts
    using that clean_comps_no_dot [of p] by (metis hd_in_set)
  then show ?thesis
    using render_under_iff [of "clean_comps d" "clean_comps p" "is_abs d"] that
    by (simp add: clean_path_def clean_comps_good)
qed

lemma split_last:
  "CHR ''/'' \<notin> set x \<Longrightarrow> \<exists>ps l. split_on CHR ''/'' s = ps @ [l] \<and> split_on CHR ''/'' (s @ x) = ps @ [l @ x]"
proof (induction s)
  case Nil
  then have "split_on CHR ''/'' x = [x]" by (rule split_on_no_sep)
  then show ?case by auto
next
  case (Cons c s)
  then obtain ps l where IH: "split_on CHR ''/'' s = ps @ [l]" "split_on CHR ''/'' (s @ x) = ps @ [l @ x]"
    by blast
  show ?case
  proof (cases "c = CHR ''/''")
    case True
    with IH have "split_on CHR ''/'' (c # s) = ([] # ps) @ [l]"
        "split_on CHR ''/'' ((c # s) @ x) = ([] # ps) @ [l @ x]"
      by simp_all
    then show ?thesis by blast
  next
    case False
    show ?thesis
    proof (cases ps)
      case Nil
      with IH False have "split_on CHR ''/'' (c # s) = [] @ [c # l]"
          "split_on CHR ''/'' ((c # s) @ x) = [] @ [(c # l) @ x]"
        by simp_all
      then show ?thesis by blast
    next
      case (Cons p ps')
      with IH False have "split_on CHR ''/'' (c # s) = ((c # p) # ps') @ [l]"
          "split_on CHR ''/'' ((c # s) @ x) = ((c # p) # ps') @ [l @ x]"
        by simp_all
      then show ?thesis by blast
    qed
  qed
qed

text \<open>
  If \<open>dir/name\<close> stays strictly below \<open>dir\<close>, so does \<open>dir/name.suffix\<close>: the last component
  of \<open>name\<close> cannot be turned by the suffix into one that leaves the directory.
\<close>

lemma under_dir_suffix:
  assumes "dir \<noteq> []" and "has_prefix (join_paths [dir, name]) (clean_path dir @ ''/'')"
    and "CHR ''/'' \<notin> set x" and "2 < length x"
  shows "has_prefix (join_paths [dir, name @ x]) (clean_path dir @ ''/'')"
proof -
  let ?D = "clean_comps dir" and ?r = "is_abs dir"
  obtain ps l where sp: "split_on CHR ''/'' name = ps @ [l]"
      "split_on CHR ''/'' (name @ x) = ps @ [l @ x]"
    using split_last assms(3) by blast
  let ?S = "clean_stack ?r ps (rev ?D)"
  have abs: "is_abs (dir @ CHR ''/'' # q) = is_abs dir" for q
    using assms(1) by (rule is_abs_join)
  obtain es where D: "?D \<noteq> []" and es: "es \<noteq> []" "clean_comps (dir @ CHR ''/'' # name) = ?D @ es"
    using assms(2) under_dir_iff [of "dir @ CHR ''/'' # name" dir] abs
    by (auto simp: join_paths_2 assms(1))
  then have T: "rev (clean_step ?r l ?S) = ?D @ es"
    by (simp add: clean_comps_join assms(1) sp clean_stack_append) (simp add: clean_stack_def)
  have "\<exists>es'. rev ?S = ?D @ es'"
  proof (cases "l = [] \<or> l = ''.''")
    case True
    with T show ?thesis by (auto simp: clean_step_def)
  next
    case nodot: False
    show ?thesis
    proof (cases "l = ''..''")
      case False
      with nodot T have "rev ?S @ [l] = ?D @ es" by (simp add: clean_step_def)
      then show ?thesis using es(1) by (metis append_butlast_last_id append_assoc butlast_append butlast_snoc)
    next
      case up: True
      show ?thesis
      proof (cases ?S)
        case Nil
        have "?D @ es = rev (if ?r then [] else [''..''])"
          using T by (simp add: Nil up clean_step_def)
        then have "length (?D @ es) \<le> 1" by (cases ?r) auto
        moreover have "0 < length ?D" "0 < length es" using D es(1) by simp_all
        ultimately show ?thesis by (simp only: length_append)
      next
        case (Cons c0 rest)
        show ?thesis
        proof (cases "c0 = ''..''")
          case True
          with up Cons T have "rev ?S @ [''..''] = ?D @ es" by (simp add: clean_step_def)
          then show ?thesis using es(1) by (metis append_butlast_last_id append_assoc butlast_append butlast_snoc)
        next
          case False
          with up Cons T have "rev rest = ?D @ es" by (simp add: clean_step_def)
          with Cons show ?thesis by simp
        qed
      qed
    qed
  qed
  then obtain es' where es': "rev ?S = ?D @ es'" by blast
  have "l @ x \<noteq> []" "l @ x \<noteq> ''.''" "l @ x \<noteq> ''..''"
    using assms(4) by (auto dest!: arg_cong [of _ _ length])
  then have "clean_step ?r (l @ x) ?S = (l @ x) # ?S" by (simp add: clean_step_def)
  then have "clean_comps (dir @ CHR ''/'' # name @ x) = ?D @ es' @ [l @ x]"
    using es' by (simp add: clean_comps_join assms(1) sp(2) clean_stack_append)
      (simp add: clean_stack_def)
  then show ?thesis
    using under_dir_iff [of "dir @ CHR ''/'' # name @ x" dir] abs D
    by (simp add: join_paths_2 assms(1))
qed

text \<open>A name that is one proper path component stays below the directory.\<close>

lemma under_dir_component:
  assumes "clean_comps dir \<noteq> []" and "CHR ''/'' \<notin> set name" and "name \<notin> {[], ''.'', ''..''}"
  shows "has_prefix (join_paths [dir, name]) (clean_path dir @ ''/'')"
    and "clean_comps (join_paths [dir, name]) = clean_comps dir @ [name]"
proof -
  have dir: "dir \<noteq> []" using assms(1) by (auto simp: clean_comps_def clean_stack_def clean_step_def)
  have comps: "clean_comps (dir @ CHR ''/'' # name) = clean_comps dir @ [name]"
    using assms(3) by (simp add: clean_comps_join dir split_on_no_sep assms(2))
      (simp add: clean_stack_def clean_step_def)
  then show "clean_comps (join_paths [dir, name]) = clean_comps dir @ [name]"
    by (simp add: join_paths_2 dir clean_comps_clean)
  show "has_prefix (join_paths [dir, name]) (clean_path dir @ ''/'')"
    using under_dir_iff [of "dir @ CHR ''/'' # name" dir] is_abs_join [OF dir] comps assms(1)
    by (simp add: join_paths_2 dir)
qed

end
