(* ===== verification/SessionLogger.thy ===== *)
theory SessionLogger
  imports Paths
begin

text \<open>
  The session logs of \<open>internal/session/logger.go\<close>: buffered appends to
  \<open>{logDir}/{id}.log\<close>, compression to \<open>.log.gz\<close> on close, and the read, size and delete
  operations, which take a session id from a client and must stay below the log directory.

  The log files are a map from paths to contents. A gzip file is a content of its own
  (\<open>GzLog d\<close> decompresses to \<open>d\<close>). What the operating system does is an argument of the
  operation: \<open>wr\<close> says how many bytes of a write it accepts (fewer is an error), the fields of
  \<open>compress_io\<close> which calls of \<open>compressLog\<close> succeed.
\<close>

datatype log_content = RawLog bytes | GzLog bytes

type_synonym log_fs = "(string, log_content) gomap"

definition logBufferSize :: nat where "logBufferSize = 4096"

record session_logger =
  sl_sessionID :: string
  sl_logDir :: string
  sl_buffer :: bytes
  sl_failed :: bool
  sl_flushTimer :: bool
  sl_closed :: bool
  sl_bytesWritten :: int

definition LogPath :: "session_logger \<Rightarrow> string" where
  "LogPath l = join_paths [sl_logDir l, sl_sessionID l @ ''.log'']"

definition CompressedLogPath :: "session_logger \<Rightarrow> string" where
  "CompressedLogPath l = join_paths [sl_logDir l, sl_sessionID l @ ''.log.gz'']"

text \<open>Appending through the open file: a file that was deleted meanwhile stays deleted.\<close>

definition fs_append :: "string \<Rightarrow> bytes \<Rightarrow> log_fs \<Rightarrow> log_fs" where
  "fs_append path data fs =
     gmod path (\<lambda>c. case c of RawLog d \<Rightarrow> RawLog (d @ data) | GzLog d \<Rightarrow> GzLog d) fs"

definition NewSessionLogger ::
  "bool \<Rightarrow> bool \<Rightarrow> string \<Rightarrow> string \<Rightarrow> log_fs \<Rightarrow> (string + session_logger) \<times> log_fs" where
  "NewSessionLogger mkdir_ok open_ok sessionID logDir fs =
     (if \<not> mkdir_ok then (Inl ''failed to create log directory'', fs)
      else if \<not> open_ok then (Inl ''failed to create log file'', fs)
      else
        let logPath = join_paths [logDir, sessionID @ ''.log''];
            fs = (case gget fs logPath of None \<Rightarrow> gput logPath (RawLog []) fs | Some _ \<Rightarrow> fs)
        in (Inr \<lparr>sl_sessionID = sessionID, sl_logDir = logDir, sl_buffer = [], sl_failed = False,
                sl_flushTimer = True, sl_closed = False, sl_bytesWritten = 0\<rparr>, fs))"

section \<open>The buffered writer\<close>

text \<open>\<open>bufio.Writer\<close>: once a write to the file fails, the error is kept and nothing is written.\<close>

definition bufio_flush ::
  "(bytes \<Rightarrow> nat) \<Rightarrow> session_logger \<times> log_fs \<Rightarrow> (session_logger \<times> log_fs) \<times> bool" where
  "bufio_flush wr s =
     (let (l, fs) = s; b = sl_buffer l; n = min (wr b) (length b) in
      if sl_failed l then (s, False)
      else if b = [] then (s, True)
      else ((l\<lparr>sl_buffer := drop n b, sl_failed := n < length b\<rparr>,
             fs_append (LogPath l) (take n b) fs), n = length b))"

function bufio_write ::
  "(bytes \<Rightarrow> nat) \<Rightarrow> bytes \<Rightarrow> nat \<Rightarrow> session_logger \<times> log_fs \<Rightarrow> (session_logger \<times> log_fs) \<times> nat \<times> bool" where
  "bufio_write wr p nn (l, fs) =
     (if logBufferSize - length (sl_buffer l) < length p \<and> \<not> sl_failed l then
        if sl_buffer l = [] then
          let n = min (wr p) (length p) in
          bufio_write wr (drop n p) (nn + n)
            (l\<lparr>sl_failed := n < length p\<rparr>, fs_append (LogPath l) (take n p) fs)
        else
          let n = min (logBufferSize - length (sl_buffer l)) (length p);
              (s', _) = bufio_flush wr (l\<lparr>sl_buffer := sl_buffer l @ take n p\<rparr>, fs)
          in bufio_write wr (drop n p) (nn + n) s'
      else if sl_failed l then ((l, fs), nn, False)
      else ((l\<lparr>sl_buffer := sl_buffer l @ p\<rparr>, fs), nn + length p, True))"
  by pat_completeness auto

termination
  by (relation "measures [\<lambda>(wr, p, nn, (l, fs)). if sl_failed l then 0 else 1,
                          \<lambda>(wr, p, nn, (l, fs)). length p,
                          \<lambda>(wr, p, nn, (l, fs)). length (sl_buffer l)]")
     (auto simp: bufio_flush_def Let_def min_def split: if_splits prod.splits)

declare bufio_write.simps [simp del]

section \<open>The logger's operations\<close>

definition logger_Write ::
  "(bytes \<Rightarrow> nat) \<Rightarrow> bytes \<Rightarrow> session_logger \<times> log_fs \<Rightarrow> (session_logger \<times> log_fs) \<times> (string + nat)" where
  "logger_Write wr data s =
     (if sl_closed (fst s) then (s, Inl ''logger is closed'')
      else
        let ((l, fs), n, ok) = bufio_write wr data 0 s in
        if \<not> ok then ((l, fs), Inl ''write error'')
        else
          let l = l\<lparr>sl_bytesWritten := sl_bytesWritten l + int n\<rparr>;
              s' = (if logBufferSize - length (sl_buffer l) < logBufferSize div 4
                    then fst (bufio_flush wr (l, fs)) else (l, fs))
          in (s', Inr n))"

definition logger_Flush ::
  "(bytes \<Rightarrow> nat) \<Rightarrow> session_logger \<times> log_fs \<Rightarrow> (session_logger \<times> log_fs) \<times> string option" where
  "logger_Flush wr s =
     (if sl_closed (fst s) then (s, None)
      else let (s', ok) = bufio_flush wr s in
        (s', if ok then None else Some ''failed to flush buffer''))"

definition periodicFlush ::
  "(bytes \<Rightarrow> nat) \<Rightarrow> session_logger \<times> log_fs \<Rightarrow> session_logger \<times> log_fs" where
  "periodicFlush wr s =
     (if sl_closed (fst s) then s
      else
        let (l, fs) = (if sl_buffer (fst s) \<noteq> [] then fst (bufio_flush wr s) else s)
        in (l\<lparr>sl_flushTimer := True\<rparr>, fs))"

record compress_io =
  io_open_src :: bool
  io_open_dst :: bool
  io_copy :: bool
  io_gz_close :: bool
  io_dst_close :: bool
  io_remove_src :: bool

definition compressLog :: "compress_io \<Rightarrow> session_logger \<Rightarrow> log_fs \<Rightarrow> log_fs \<times> string option" where
  "compressLog io l fs =
     (let srcPath = LogPath l; dstPath = CompressedLogPath l in
      case gget fs srcPath of
        None \<Rightarrow> (fs, None)
      | Some c \<Rightarrow>
          if \<not> io_open_src io then (fs, Some ''failed to open source file'')
          else if \<not> io_open_dst io then (fs, Some ''failed to create compressed file'')
          else if \<not> io_copy io then (gdel dstPath fs, Some ''failed to compress'')
          else if \<not> io_gz_close io then (gdel dstPath fs, Some ''failed to close gzip writer'')
          else
            let fs = gput dstPath (case c of RawLog d \<Rightarrow> GzLog d | GzLog d \<Rightarrow> GzLog d) fs;
                fs = (if io_remove_src io then gdel srcPath fs else fs)
            in (fs, if io_dst_close io then None else Some ''failed to close compressed file''))"

definition logger_Close ::
  "(bytes \<Rightarrow> nat) \<Rightarrow> compress_io \<Rightarrow> session_logger \<times> log_fs \<Rightarrow> session_logger \<times> log_fs" where
  "logger_Close wr io s =
     (if sl_closed (fst s) then s
      else
        let (l, fs) = s;
            ((l, fs), _) = bufio_flush wr (l\<lparr>sl_closed := True, sl_flushTimer := False\<rparr>, fs)
        in (l, fst (compressLog io l fs)))"

section \<open>Reading, sizing and deleting a log by session id\<close>

definition validateLogPath :: "string \<Rightarrow> string \<Rightarrow> bool" where
  "validateLogPath logDir sessionID \<longleftrightarrow>
     (let cleanDir = clean_path logDir @ ''/'';
          testPath = clean_path (join_paths [logDir, sessionID])
      in has_prefix testPath cleanDir)"

text \<open>
  The bytes of a file as they are on disk; \<open>enc\<close> is gzip's encoding of the contents, which the
  model leaves open.
\<close>

fun raw_bytes :: "(bytes \<Rightarrow> bytes) \<Rightarrow> log_content \<Rightarrow> bytes" where
  "raw_bytes enc (RawLog d) = d"
| "raw_bytes enc (GzLog d) = enc d"

definition ReadLog :: "(bytes \<Rightarrow> bytes) \<Rightarrow> string \<Rightarrow> string \<Rightarrow> log_fs \<Rightarrow> string + bytes" where
  "ReadLog enc logDir sessionID fs =
     (if \<not> validateLogPath logDir sessionID then Inl ''invalid session ID''
      else
        case gget fs (join_paths [logDir, sessionID @ ''.log.gz'']) of
          Some (GzLog d) \<Rightarrow> Inr d
        | Some (RawLog _) \<Rightarrow> Inl ''failed to create gzip reader''
        | None \<Rightarrow>
            (case gget fs (join_paths [logDir, sessionID @ ''.log'']) of
               Some c \<Rightarrow> Inr (raw_bytes enc c)
             | None \<Rightarrow> Inl ''failed to open log''))"

definition GetLogSize :: "(bytes \<Rightarrow> bytes) \<Rightarrow> string \<Rightarrow> string \<Rightarrow> log_fs \<Rightarrow> string + int" where
  "GetLogSize enc logDir sessionID fs =
     (if \<not> validateLogPath logDir sessionID then Inl ''invalid session ID''
      else
        case gget fs (join_paths [logDir, sessionID @ ''.log.gz'']) of
          Some c \<Rightarrow> Inr (int (length (raw_bytes enc c)))
        | None \<Rightarrow>
            (case gget fs (join_paths [logDir, sessionID @ ''.log'']) of
               Some c \<Rightarrow> Inr (int (length (raw_bytes enc c)))
             | None \<Rightarrow> Inl ''log file not found''))"

text \<open>\<open>rm\<close> says whether removing an existing file succeeds; a missing file is no error.\<close>

definition fs_remove :: "(string \<Rightarrow> bool) \<Rightarrow> string \<Rightarrow> log_fs \<Rightarrow> log_fs \<times> bool" where
  "fs_remove rm path fs =
     (case gget fs path of
        None \<Rightarrow> (fs, True)
      | Some _ \<Rightarrow> if rm path then (gdel path fs, True) else (fs, False))"

definition DeleteLog :: "(string \<Rightarrow> bool) \<Rightarrow> string \<Rightarrow> string \<Rightarrow> log_fs \<Rightarrow> log_fs \<times> string option" where
  "DeleteLog rm logDir sessionID fs =
     (if \<not> validateLogPath logDir sessionID then (fs, Some ''invalid session ID'')
      else
        let gzPath = join_paths [logDir, sessionID @ ''.log.gz''];
            logPath = join_paths [logDir, sessionID @ ''.log''];
            (fs, ok1) = fs_remove rm gzPath fs;
            (fs, ok2) = fs_remove rm logPath fs
        in (fs, if ok1 \<and> ok2 then None else Some ''remove failed''))"

section \<open>A session id cannot leave the log directory\<close>

lemma validateLogPath_iff:
  "dir \<noteq> [] \<Longrightarrow> validateLogPath dir sid = has_prefix (join_paths [dir, sid]) (clean_path dir @ ''/'')"
  by (simp add: validateLogPath_def join_paths_2 clean_path_idem)

lemma clean_not_dot_slash: "\<not> has_prefix (clean_path p) ''./''"
proof
  assume *: "has_prefix (clean_path p) ''./''"
  then have nabs: "\<not> is_abs p"
    by (auto simp: clean_path_def render_path_def has_prefix_def split: if_splits)
  with * have "has_prefix (render_path False (clean_comps p)) (render_path False [] @ ''/'')"
    by (simp add: clean_path_def render_path_def)
  moreover have "clean_comps p \<noteq> [] \<Longrightarrow> hd (clean_comps p) \<noteq> ''.''"
    using clean_comps_no_dot [of p] by (metis hd_in_set)
  ultimately show False
    using render_under_iff [of "[]" "clean_comps p" False] by (simp add: clean_comps_good)
qed

lemma validateLogPath_dir: "validateLogPath dir sid \<Longrightarrow> dir \<noteq> []"
proof
  assume v: "validateLogPath dir sid" "dir = []"
  then have "has_prefix (clean_path (join_paths [[], sid])) ''./''"
    by (simp add: validateLogPath_def clean_path_def clean_comps_def clean_stack_def
        clean_step_def render_path_def is_abs_def has_prefix_def)
  then show False by (simp add: clean_not_dot_slash)
qed

lemma log_files_below:
  assumes "validateLogPath dir sid"
  shows "has_prefix (join_paths [dir, sid @ ''.log'']) (clean_path dir @ ''/'')"
    and "has_prefix (join_paths [dir, sid @ ''.log.gz'']) (clean_path dir @ ''/'')"
  using assms validateLogPath_dir [OF assms]
  by (auto simp: validateLogPath_iff intro!: under_dir_suffix)

lemma validateLogPath_component:
  assumes "clean_comps dir \<noteq> []" and "CHR ''/'' \<notin> set sid" and "sid \<notin> {[], ''.'', ''..''}"
  shows "validateLogPath dir sid"
proof -
  have "dir \<noteq> []" using assms(1) by (auto simp: clean_comps_def clean_stack_def clean_step_def)
  then show ?thesis using under_dir_component(1) [OF assms] by (simp add: validateLogPath_iff)
qed

section \<open>What is written is what is read\<close>

definition disk_ok :: "(bytes \<Rightarrow> nat) \<Rightarrow> bool" where
  "disk_ok wr \<longleftrightarrow> (\<forall>p. length p \<le> wr p)"

text \<open>The log of an open logger is the file and, after it, the buffer.\<close>

definition log_holds :: "bytes \<Rightarrow> session_logger \<times> log_fs \<Rightarrow> bool" where
  "log_holds d s \<longleftrightarrow> \<not> sl_failed (fst s) \<and>
     (\<exists>f. gget (snd s) (LogPath (fst s)) = Some (RawLog f) \<and> d = f @ sl_buffer (fst s))"

text \<open>Two states of the same log: nothing but the log file and the buffer may differ.\<close>

definition log_frame :: "session_logger \<times> log_fs \<Rightarrow> session_logger \<times> log_fs \<Rightarrow> bool" where
  "log_frame s s' \<longleftrightarrow> sl_sessionID (fst s') = sl_sessionID (fst s) \<and> sl_logDir (fst s') = sl_logDir (fst s)
     \<and> sl_closed (fst s') = sl_closed (fst s)
     \<and> (\<forall>p. p \<noteq> LogPath (fst s) \<longrightarrow> gget (snd s') p = gget (snd s) p)"

lemma LogPath_frame [simp]:
  "log_frame s s' \<Longrightarrow> LogPath (fst s') = LogPath (fst s)"
  "log_frame s s' \<Longrightarrow> CompressedLogPath (fst s') = CompressedLogPath (fst s)"
  by (simp_all add: log_frame_def LogPath_def CompressedLogPath_def)

lemma LogPath_fields [simp]:
  "LogPath (l\<lparr>sl_buffer := b\<rparr>) = LogPath l" "LogPath (l\<lparr>sl_failed := e\<rparr>) = LogPath l"
  "LogPath (l\<lparr>sl_bytesWritten := n\<rparr>) = LogPath l" "LogPath (l\<lparr>sl_flushTimer := e\<rparr>) = LogPath l"
  "LogPath (l\<lparr>sl_closed := e\<rparr>) = LogPath l"
  by (simp_all add: LogPath_def)

lemma log_frame_refl [simp]: "log_frame s s"
  by (simp add: log_frame_def)

lemma log_frame_trans: "log_frame s t \<Longrightarrow> log_frame t u \<Longrightarrow> log_frame s u"
  by (auto simp: log_frame_def LogPath_def)

lemma fs_append_get:
  "gget fs path = Some (RawLog f) \<Longrightarrow> gget (fs_append path data fs) path = Some (RawLog (f @ data))"
  "p \<noteq> path \<Longrightarrow> gget (fs_append path data fs) p = gget fs p"
  by (simp_all add: fs_append_def gomap_simps)

lemma bufio_flush_healthy:
  assumes "disk_ok wr" and "log_holds d s"
  shows "log_holds d (fst (bufio_flush wr s)) \<and> log_frame s (fst (bufio_flush wr s))
    \<and> sl_buffer (fst (fst (bufio_flush wr s))) = [] \<and> snd (bufio_flush wr s)"
proof -
  have "min (wr p) (length p) = length p" for p
    using assms(1) by (simp add: disk_ok_def min_absorb2)
  then show ?thesis
    using assms(2)
    by (cases s) (auto simp: bufio_flush_def log_holds_def log_frame_def fs_append_get Let_def)
qed

lemma bufio_write_healthy:
  assumes "disk_ok wr" and "log_holds d (l, fs)"
  shows "log_holds (d @ p) (fst (bufio_write wr p nn (l, fs)))
    \<and> log_frame (l, fs) (fst (bufio_write wr p nn (l, fs)))
    \<and> snd (bufio_write wr p nn (l, fs)) = (nn + length p, True)"
  using assms
proof (induction wr p nn "(l, fs)" arbitrary: d l fs rule: bufio_write.induct)
  case (1 wr p nn l fs)
  have mn: "min (wr q) (length q) = length q" for q
    using "1.prems"(1) by (simp add: disk_ok_def min_absorb2)
  have nf: "\<not> sl_failed l" using "1.prems"(2) by (simp add: log_holds_def)
  show ?case
  proof (cases "logBufferSize - length (sl_buffer l) < length p")
    case False
    then show ?thesis
      using "1.prems"(2) nf by (subst (1 2 3) bufio_write.simps) (auto simp: log_holds_def log_frame_def)
  next
    case True
    show ?thesis
    proof (cases "sl_buffer l = []")
      case e: True
      let ?s = "(l\<lparr>sl_failed := False\<rparr>, fs_append (LogPath l) p fs)"
      have step: "bufio_write wr p nn (l, fs) = bufio_write wr [] (nn + length p) ?s"
        using True nf e mn by (subst bufio_write.simps) simp
      have *: "log_holds (d @ p) ?s" "log_frame (l, fs) ?s"
        using "1.prems"(2) e by (auto simp: log_holds_def log_frame_def fs_append_get)
      have "bufio_write wr [] (nn + length p) ?s = (?s, nn + length p, True)"
        using e by (subst bufio_write.simps) simp
      then show ?thesis using * step by simp
    next
      case ne: False
      let ?n = "min (logBufferSize - length (sl_buffer l)) (length p)"
      let ?s = "(l\<lparr>sl_buffer := sl_buffer l @ take ?n p\<rparr>, fs)"
      obtain s' b where s': "bufio_flush wr ?s = (s', b)" by fastforce
      obtain l' fs' where lf: "s' = (l', fs')" by fastforce
      have h: "log_holds (d @ take ?n p) ?s" "log_frame (l, fs) ?s"
        using "1.prems"(2) by (auto simp: log_holds_def log_frame_def)
      have h': "log_holds (d @ take ?n p) (l', fs')" "log_frame ?s (l', fs')"
        using bufio_flush_healthy [OF "1.prems"(1) h(1)] s' lf by auto
      have step: "bufio_write wr p nn (l, fs) = bufio_write wr (drop ?n p) (nn + ?n) (l', fs')"
        using True nf ne s' lf by (subst bufio_write.simps) (simp add: Let_def)
      have IH: "log_holds ((d @ take ?n p) @ drop ?n p) (fst (bufio_write wr (drop ?n p) (nn + ?n) (l', fs')))
          \<and> log_frame (l', fs') (fst (bufio_write wr (drop ?n p) (nn + ?n) (l', fs')))
          \<and> snd (bufio_write wr (drop ?n p) (nn + ?n) (l', fs')) = (nn + ?n + length (drop ?n p), True)"
        by (rule "1.hyps"(2) [where y = b, OF _ ne refl refl _ "1.prems"(1) h'(1)])
          (use True nf s' lf in simp_all)
      have "(d @ take ?n p) @ drop ?n p = d @ p" "nn + ?n + length (drop ?n p) = nn + length p"
        by simp_all
      note IH' = IH [unfolded this]
      have "log_frame (l, fs) (l', fs')" using h(2) h'(2) by (rule log_frame_trans)
      then show ?thesis using IH' log_frame_trans unfolding step by blast
    qed
  qed
qed

text \<open>The operations on an open logger, and a run of them.\<close>

datatype log_op = LWrite bytes | LFlush | LTick

fun log_step :: "(bytes \<Rightarrow> nat) \<Rightarrow> log_op \<Rightarrow> session_logger \<times> log_fs \<Rightarrow> session_logger \<times> log_fs" where
  "log_step wr (LWrite data) s = fst (logger_Write wr data s)"
| "log_step wr LFlush s = fst (logger_Flush wr s)"
| "log_step wr LTick s = periodicFlush wr s"

definition log_run :: "(bytes \<Rightarrow> nat) \<Rightarrow> log_op list \<Rightarrow> session_logger \<times> log_fs \<Rightarrow> session_logger \<times> log_fs" where
  "log_run wr ops s = fold (log_step wr) ops s"

fun log_data :: "log_op list \<Rightarrow> bytes" where
  "log_data [] = []"
| "log_data (LWrite d # ops) = d @ log_data ops"
| "log_data (LFlush # ops) = log_data ops"
| "log_data (LTick # ops) = log_data ops"

lemma logger_Write_healthy:
  assumes "disk_ok wr" and "log_holds d s" and "\<not> sl_closed (fst s)"
  shows "log_holds (d @ p) (fst (logger_Write wr p s)) \<and> log_frame s (fst (logger_Write wr p s))
    \<and> snd (logger_Write wr p s) = Inr (length p)"
proof -
  obtain l fs where s: "s = (l, fs)" by fastforce
  obtain l' fs' where w: "bufio_write wr p 0 (l, fs) = ((l', fs'), length p, True)"
    and h: "log_holds (d @ p) (l', fs')" "log_frame (l, fs) (l', fs')"
    using bufio_write_healthy [OF assms(1), of d l fs p 0] assms(2) s
    by (cases "bufio_write wr p 0 (l, fs)") auto
  let ?l = "l'\<lparr>sl_bytesWritten := sl_bytesWritten l' + int (length p)\<rparr>"
  have h2: "log_holds (d @ p) (?l, fs')" "log_frame (l, fs) (?l, fs')"
    using h by (simp_all add: log_holds_def log_frame_def)
  show ?thesis
    using assms(3) w h2 bufio_flush_healthy [OF assms(1) h2(1)]
    by (auto simp: logger_Write_def s Let_def split_def intro: log_frame_trans)
qed

lemma log_step_healthy:
  assumes "disk_ok wr" and "log_holds d s" and "\<not> sl_closed (fst s)"
  shows "log_holds (d @ log_data [op]) (log_step wr op s) \<and> log_frame s (log_step wr op s)"
proof (cases op)
  case (LWrite p)
  then show ?thesis using logger_Write_healthy [OF assms] by simp
next
  case LFlush
  then show ?thesis using bufio_flush_healthy [OF assms(1,2)] assms(3)
    by (auto simp: logger_Flush_def split_def)
next
  case LTick
  have "log_holds d (l\<lparr>sl_flushTimer := True\<rparr>, fs) \<and> log_frame s (l\<lparr>sl_flushTimer := True\<rparr>, fs)"
    if "log_holds d (l, fs)" "log_frame s (l, fs)" for l fs
    using that by (simp add: log_holds_def log_frame_def)
  then show ?thesis using LTick bufio_flush_healthy [OF assms(1,2)] assms(2,3)
    by (cases "bufio_flush wr s"; cases s) (auto simp: periodicFlush_def split_def)
qed

lemma log_run_healthy:
  assumes "disk_ok wr" and "log_holds d s" and "\<not> sl_closed (fst s)"
  shows "log_holds (d @ log_data ops) (log_run wr ops s) \<and> log_frame s (log_run wr ops s)"
  using assms(2,3)
proof (induction ops arbitrary: d s)
  case (Cons op ops)
  let ?s = "log_step wr op s"
  have st: "log_holds (d @ log_data [op]) ?s" "log_frame s ?s"
    using log_step_healthy [OF assms(1) Cons.prems] by blast+
  moreover have "\<not> sl_closed (fst ?s)" using st(2) Cons.prems(2) by (simp add: log_frame_def)
  moreover have "log_data (op # ops) = log_data [op] @ log_data ops" by (cases op) auto
  ultimately show ?case using Cons.IH [of "d @ log_data [op]" ?s]
    by (auto simp: log_run_def intro: log_frame_trans)
qed (simp add: log_run_def)

lemma log_paths_differ:
  assumes "dir \<noteq> []" "CHR ''/'' \<notin> set x" "CHR ''/'' \<notin> set y" "2 < length x" "2 < length y" "x \<noteq> y"
  shows "join_paths [dir, name @ x] \<noteq> join_paths [dir, name @ y]"
proof -
  obtain ps l where sp: "split_on CHR ''/'' name = ps @ [l]" "split_on CHR ''/'' (name @ x) = ps @ [l @ x]"
    using split_last assms(2) by blast
  obtain ps' l' where sp': "split_on CHR ''/'' name = ps' @ [l']" "split_on CHR ''/'' (name @ y) = ps' @ [l' @ y]"
    using split_last assms(3) by blast
  have eq: "ps' = ps" "l' = l" using sp(1) sp'(1) by auto
  let ?S = "clean_stack (is_abs dir) ps (rev (clean_comps dir))"
  have "clean_comps (join_paths [dir, name @ z]) = rev ?S @ [l @ z]"
    if "split_on CHR ''/'' (name @ z) = ps @ [l @ z]" "2 < length z" for z
  proof -
    have "l @ z \<noteq> []" "l @ z \<noteq> ''.''" "l @ z \<noteq> ''..''"
      using that(2) by (auto dest!: arg_cong [of _ _ length])
    then have "clean_step (is_abs dir) (l @ z) ?S = (l @ z) # ?S" by (simp add: clean_step_def)
    then show ?thesis
      by (simp add: join_paths_2 assms(1) clean_comps_clean clean_comps_join that(1) clean_stack_append)
        (simp add: clean_stack_def)
  qed
  then have "clean_comps (join_paths [dir, name @ x]) = rev ?S @ [l @ x]"
    "clean_comps (join_paths [dir, name @ y]) = rev ?S @ [l @ y]"
    using sp sp' eq assms(4,5) by auto
  then show ?thesis using assms(6) by auto
qed

text \<open>
  Closing keeps the log readable: whatever goes wrong while compressing, the data is in the
  compressed file or still in the original.
\<close>

lemma logger_Close_reads:
  assumes "disk_ok wr" and "log_holds d s" and "\<not> sl_closed (fst s)"
    and "validateLogPath (sl_logDir (fst s)) (sl_sessionID (fst s))"
    and "gget (snd s) (CompressedLogPath (fst s)) = None"
  shows "ReadLog enc (sl_logDir (fst s)) (sl_sessionID (fst s)) (snd (logger_Close wr io s)) = Inr d"
proof -
  obtain l fs where s: "s = (l, fs)" by fastforce
  let ?l = "l\<lparr>sl_closed := True, sl_flushTimer := False\<rparr>"
  have ne: "LogPath l \<noteq> CompressedLogPath l"
    using log_paths_differ [of "sl_logDir l" "''.log''" "''.log.gz''"] validateLogPath_dir assms(4) s
    by (simp add: LogPath_def CompressedLogPath_def)
  have "log_holds d (?l, fs)" using assms(2) s by (simp add: log_holds_def)
  then obtain l' fs' where f: "fst (bufio_flush wr (?l, fs)) = (l', fs')"
    "log_holds d (l', fs')" "log_frame (?l, fs) (l', fs')" "sl_buffer l' = []"
    using bufio_flush_healthy [OF assms(1), of d "(?l, fs)"]
    by (cases "fst (bufio_flush wr (?l, fs))") auto
  have src: "LogPath l' = LogPath l" and dst: "CompressedLogPath l' = CompressedLogPath l"
    using f(3) by (auto simp: log_frame_def LogPath_def CompressedLogPath_def)
  have g: "gget fs' (LogPath l) = Some (RawLog d)"
    using f(2,4) src by (auto simp: log_holds_def)
  have "CompressedLogPath l \<noteq> LogPath ?l" using ne by simp
  with f(3) s assms(5) have gz: "gget fs' (CompressedLogPath l) = None"
    unfolding log_frame_def by (metis fst_conv snd_conv)
  have paths: "join_paths [sl_logDir l, sl_sessionID l @ ''.log''] = LogPath l"
    "join_paths [sl_logDir l, sl_sessionID l @ ''.log.gz''] = CompressedLogPath l"
    by (simp_all add: LogPath_def CompressedLogPath_def)
  have "snd (logger_Close wr io s) = fst (compressLog io l' fs')"
    using assms(3) s f(1) by (simp add: logger_Close_def split_def)
  then show ?thesis
    using g gz ne assms(4) s src dst
    by (simp add: ReadLog_def paths compressLog_def Let_def gomap_simps)
qed

lemma NewSessionLogger_holds:
  assumes "gget fs (join_paths [dir, sid @ ''.log'']) = None"
  shows "\<exists>l fs'. NewSessionLogger True True sid dir fs = (Inr l, fs') \<and> log_holds [] (l, fs')
    \<and> \<not> sl_closed l \<and> sl_sessionID l = sid \<and> sl_logDir l = dir
    \<and> (\<forall>p. p \<noteq> LogPath l \<longrightarrow> gget fs' p = gget fs p)"
  using assms by (simp add: NewSessionLogger_def log_holds_def LogPath_def gomap_simps)

lemma DeleteLog_other:
  assumes "\<not> has_prefix p (clean_path dir @ ''/'')"
  shows "gget (fst (DeleteLog rm dir sid fs)) p = gget fs p"
proof (cases "validateLogPath dir sid")
  case True
  have "p \<noteq> join_paths [dir, sid @ ''.log'']" "p \<noteq> join_paths [dir, sid @ ''.log.gz'']"
    using log_files_below [OF True] assms by auto
  then show ?thesis
    by (auto simp: DeleteLog_def fs_remove_def Let_def split_def gomap_simps split: option.splits)
qed (simp add: DeleteLog_def)

lemma DeleteLog_gone:
  assumes "validateLogPath dir sid" and "\<forall>p. rm p"
  shows "\<exists>e. ReadLog enc dir sid (fst (DeleteLog rm dir sid fs)) = Inl e"
  using assms
  by (auto simp: DeleteLog_def ReadLog_def fs_remove_def Let_def split_def gomap_simps
      split: option.splits)

section \<open>Properties\<close>



text \<open>
  Deleting a session log never touches a file outside the log directory, whatever id
  the client sends; and an accepted id has no readable log afterwards.
\<close>
lemma session_log_delete_confined:
  "(\<forall>p. has_prefix p (clean_path logDir @ ''/'')
      \<or> gget (fst (DeleteLog rm logDir sid fs)) p = gget fs p)
   \<and> (validateLogPath logDir sid \<longrightarrow> (\<forall>p. rm p) \<longrightarrow>
        (\<exists>e. ReadLog enc logDir sid (fst (DeleteLog rm logDir sid fs)) = Inl e))"
  using DeleteLog_other DeleteLog_gone by blast

lemma session_log_delete_confined_witness:
  "\<exists>e. ReadLog id ''/log'' ''a'' (fst (DeleteLog (\<lambda>_. True) ''/log'' ''a''
      [(''/log/a.log'', RawLog ''x''), (''/log/b.log'', RawLog ''y'')])) = Inl e"
proof -
  have "validateLogPath ''/log'' ''a''" by code_simp
  then show ?thesis
    using session_log_delete_confined [where rm = "\<lambda>_. True" and logDir = "''/log''" and sid = "''a''"]
    by blast
qed

text \<open>
  C10: the session log is a faithful record. Over a disk that accepts writes, any sequence of
  writes, flushes and timer ticks followed by \<open>Close\<close> leaves a log that reads back as exactly
  the bytes written, in order, whichever of the steps of the compression fail.
\<close>
theorem session_log_roundtrip:
  assumes "disk_ok wr" and "validateLogPath logDir sid"
    and "gget fs (join_paths [logDir, sid @ ''.log'']) = None"
    and "gget fs (join_paths [logDir, sid @ ''.log.gz'']) = None"
    and "NewSessionLogger True True sid logDir fs = (Inr l, fs')"
  shows "ReadLog enc logDir sid (snd (logger_Close wr io (log_run wr ops (l, fs')))) = Inr (log_data ops)"
proof -
  have new: "log_holds [] (l, fs')" "\<not> sl_closed l" "sl_sessionID l = sid" "sl_logDir l = logDir"
    "\<forall>p. p \<noteq> LogPath l \<longrightarrow> gget fs' p = gget fs p"
    using NewSessionLogger_holds [OF assms(3)] assms(5) by auto
  have ne: "CompressedLogPath l \<noteq> LogPath l"
    using log_paths_differ [of logDir "''.log.gz''" "''.log''"] validateLogPath_dir [OF assms(2)] new
    by (simp add: LogPath_def CompressedLogPath_def)
  have run: "log_holds (log_data ops) (log_run wr ops (l, fs'))" "log_frame (l, fs') (log_run wr ops (l, fs'))"
    using log_run_healthy [OF assms(1) new(1), of ops] new(2) by simp_all
  have "gget fs' (CompressedLogPath l) = None"
    using new ne assms(4) by (metis CompressedLogPath_def)
  then have "gget (snd (log_run wr ops (l, fs'))) (CompressedLogPath l) = None"
    using run(2) ne unfolding log_frame_def by simp
  then show ?thesis
    using logger_Close_reads [OF assms(1) run(1)] run(2) new assms(2) LogPath_frame(2) [OF run(2)]
    by (simp add: log_frame_def)
qed

lemma session_log_roundtrip_witness:
  "ReadLog id ''/log'' ''a'' (snd (logger_Close length
       \<lparr>io_open_src = True, io_open_dst = True, io_copy = True, io_gz_close = True,
        io_dst_close = True, io_remove_src = False\<rparr>
       (log_run length [LWrite ''ab'', LTick, LWrite ''c'']
          (case NewSessionLogger True True ''a'' ''/log'' [] of (Inr l, fs') \<Rightarrow> (l, fs')))))
    = Inr ''abc''"
proof -
  obtain l fs' where n: "NewSessionLogger True True ''a'' ''/log'' [] = (Inr l, fs')"
    using NewSessionLogger_holds [of "[]" "''/log''" "''a''"] by auto
  have "disk_ok length" by (simp add: disk_ok_def)
  moreover have "validateLogPath ''/log'' ''a''" by code_simp
  ultimately show ?thesis
    using session_log_roundtrip [of length "''/log''" "''a''" "[]" l fs' id _ "[LWrite ''ab'', LTick, LWrite ''c'']"] n
    by simp
qed

end
