(* ===== verification/Config.thy ===== *)
theory Config
  imports Paths
begin

text \<open>
  The daemon's configuration (\<open>internal/config/config.go\<close>): its data, its defaults, the
  loading of \<open>daemon.yaml\<close> over the defaults, and the validation that keeps tool names and
  commands free of shell syntax. The YAML decoder and encoder are third-party code and
  arguments of the functions that use them.
\<close>

record session_config =
  IdleTimeout :: int
  MaxSessions :: int
  HistorySize :: int
  LogRetentionDays :: int
  LogDirectory :: string
  ClientBufferSize :: int
  MaxScrollbackSize :: int

record task_config =
  MaxOutputSize :: int
  MaxRunsPerTask :: int
  MaxTimeout :: int

record project_config =
  ScanDirectories :: "string list"
  MaxDepth :: int
  Exclude :: "string list"

record tool_config =
  tc_Name :: string
  tc_Command :: string
  tc_Detect :: string

record log_config =
  lc_Level :: string
  lc_Format :: string
  lc_File :: string

record events_config =
  WebhookURL :: string

record config =
  Socket :: string
  TCPPort :: int
  AuthToken :: string
  EnableReflection :: bool
  EnableShellTool :: bool
  Sessions :: session_config
  Projects :: project_config
  Tools :: "tool_config list"
  Tasks :: task_config
  LogConf :: log_config
  EventsConf :: events_config

definition DefaultSocketPath :: string where "DefaultSocketPath = ''/tmp/hqssh.sock''"
definition DefaultTCPPort :: int where "DefaultTCPPort = 50051"
definition DefaultConfigDir :: string where "DefaultConfigDir = ''.hqssh''"
definition DefaultConfigFile :: string where "DefaultConfigFile = ''daemon.yaml''"

text \<open>\<open>homeDir\<close> is the empty string where \<open>os.UserHomeDir\<close> fails.\<close>

definition DefaultConfig :: "string \<Rightarrow> config" where
  "DefaultConfig homeDir =
     \<lparr>Socket = DefaultSocketPath, TCPPort = DefaultTCPPort, AuthToken = [],
      EnableReflection = False, EnableShellTool = False,
      Sessions = \<lparr>IdleTimeout = 86400, MaxSessions = 20, HistorySize = 10000,
                  LogRetentionDays = 30, LogDirectory = [], ClientBufferSize = 1024,
                  MaxScrollbackSize = 10 * 1024 * 1024\<rparr>,
      Projects = \<lparr>ScanDirectories =
                    [homeDir, join_paths [homeDir, ''projects''], join_paths [homeDir, ''code''],
                     join_paths [homeDir, ''repos''], join_paths [homeDir, ''src''],
                     join_paths [homeDir, ''work'']],
                  MaxDepth = 3,
                  Exclude = [''node_modules'', ''.git'', ''vendor'', ''target'', ''build'']\<rparr>,
      Tools = [\<lparr>tc_Name = ''claude'', tc_Command = ''claude'', tc_Detect = ''which claude''\<rparr>,
               \<lparr>tc_Name = ''codex'', tc_Command = ''codex'', tc_Detect = ''which codex''\<rparr>,
               \<lparr>tc_Name = ''aider'', tc_Command = ''aider'', tc_Detect = ''which aider''\<rparr>],
      Tasks = \<lparr>MaxOutputSize = 1024 * 1024, MaxRunsPerTask = 10, MaxTimeout = 3600\<rparr>,
      LogConf = \<lparr>lc_Level = ''info'', lc_Format = ''text'', lc_File = []\<rparr>,
      EventsConf = \<lparr>WebhookURL = []\<rparr>\<rparr>"

definition DataDirFor :: "string \<Rightarrow> string" where
  "DataDirFor homeDir = join_paths [homeDir, DefaultConfigDir]"

definition DataDir :: "string option \<Rightarrow> string option" where
  "DataDir home = (case home of None \<Rightarrow> None | Some h \<Rightarrow> Some (DataDirFor h))"

definition DefaultConfigPath :: "string option \<Rightarrow> string option" where
  "DefaultConfigPath home =
     (case DataDir home of None \<Rightarrow> None | Some dir \<Rightarrow> Some (join_paths [dir, DefaultConfigFile]))"

text \<open>What reading a file gives.\<close>

datatype file_read = FileMissing | FileUnreadable string | FileData bytes

definition LoadFromPath ::
  "(bytes \<Rightarrow> config \<Rightarrow> string + config) \<Rightarrow> (string \<Rightarrow> file_read) \<Rightarrow> string \<Rightarrow> string \<Rightarrow> string + config" where
  "LoadFromPath unmarshal read homeDir path =
     (let c = DefaultConfig homeDir in
      case read path of
        FileMissing \<Rightarrow> Inr c
      | FileUnreadable e \<Rightarrow> Inl e
      | FileData d \<Rightarrow> unmarshal d c)"

definition LoadConfig ::
  "(bytes \<Rightarrow> config \<Rightarrow> string + config) \<Rightarrow> (string \<Rightarrow> file_read) \<Rightarrow> string option \<Rightarrow> string + config" where
  "LoadConfig unmarshal read home =
     (case DefaultConfigPath home of
        None \<Rightarrow> Inr (DefaultConfig [])
      | Some path \<Rightarrow> LoadFromPath unmarshal read (case home of Some h \<Rightarrow> h | None \<Rightarrow> []) path)"

text \<open>The regular expression \<open>^[a-zA-Z0-9_-]+$\<close>.\<close>

definition tool_char :: "char \<Rightarrow> bool" where
  "tool_char c \<longleftrightarrow> (65 \<le> bval c \<and> bval c \<le> 90) \<or> (97 \<le> bval c \<and> bval c \<le> 122)
     \<or> (48 \<le> bval c \<and> bval c \<le> 57) \<or> c = CHR ''_'' \<or> c = CHR ''-''"

definition ValidateToolName :: "string \<Rightarrow> bool" where
  "ValidateToolName name \<longleftrightarrow> name \<noteq> [] \<and> list_all tool_char name"

fun validate_tools :: "tool_config list \<Rightarrow> string option" where
  "validate_tools [] = None"
| "validate_tools (t # ts) =
     (if \<not> ValidateToolName (tc_Name t) then Some ''invalid tool name''
      else if tc_Command t \<noteq> [] \<and> \<not> ValidateToolName (tc_Command t) then Some ''invalid tool command''
      else validate_tools ts)"

definition ValidateConfig :: "config \<Rightarrow> string option" where
  "ValidateConfig c =
     (case validate_tools (Tools c) of
        Some e \<Rightarrow> Some e
      | None \<Rightarrow> if MaxTimeout (Tasks c) < 0 then Some ''tasks.max_timeout must be >= 0'' else None)"

text \<open>\<open>mode\<close> is the file's permission bits, \<open>None\<close> where the file cannot be inspected.\<close>

definition CheckFilePermissions :: "16 word option \<Rightarrow> bool" where
  "CheckFilePermissions mode = (case mode of None \<Rightarrow> True | Some m \<Rightarrow> and m 0x3F = 0)"

section \<open>Facts about validated configurations\<close>

lemma validate_tools_iff:
  "validate_tools ts = None \<longleftrightarrow>
    (\<forall>t \<in> set ts. ValidateToolName (tc_Name t) \<and> (tc_Command t = [] \<or> ValidateToolName (tc_Command t)))"
  by (induction ts) auto

lemma ValidateConfig_iff:
  "ValidateConfig c = None \<longleftrightarrow>
    (\<forall>t \<in> set (Tools c). ValidateToolName (tc_Name t)
        \<and> (tc_Command t = [] \<or> ValidateToolName (tc_Command t)))
    \<and> 0 \<le> MaxTimeout (Tasks c)"
  by (auto simp: ValidateConfig_def validate_tools_iff split: option.splits)
     (metis not_None_eq validate_tools_iff)+

lemma tool_char_no_shell_syntax:
  "tool_char c \<Longrightarrow>
    c \<notin> {CHR '' '', CHR 0x09, CHR 0x0A, CHR 0x22, CHR 0x27, CHR 0x5C, CHR 0x60, CHR ''$'', CHR '';'', CHR ''&'',
         CHR ''|'', CHR ''<'', CHR ''>'', CHR ''('', CHR '')'', CHR ''*'', CHR ''?'', CHR ''~'', CHR ''#'',
         CHR ''='', CHR ''/''}"
  by (auto simp: tool_char_def bval_def)

lemma ValidateConfig_default: "ValidateConfig (DefaultConfig homeDir) = None"
  by (simp add: ValidateConfig_iff DefaultConfig_def)
    (simp add: ValidateToolName_def tool_char_def bval_def)

section \<open>Properties\<close>

text \<open>
  A configuration that validates cannot inject shell syntax: no tool name and no tool command
  holds a character that is special to a shell, a space, a quote or a path separator, and the
  timeout is not negative. The default configuration validates.
\<close>
lemma config_valid_tools_are_shell_safe:
  assumes "ValidateConfig c = None" and "t \<in> set (Tools c)"
    and "x \<in> set (tc_Name t) \<union> set (tc_Command t)"
  shows "x \<notin> set '' ;&|<>()*?~#=/$'' \<union> {CHR 0x09, CHR 0x0A, CHR 0x22, CHR 0x27, CHR 0x5C, CHR 0x60}
    \<and> tc_Name t \<noteq> [] \<and> 0 \<le> MaxTimeout (Tasks c)
    \<and> ValidateConfig (DefaultConfig homeDir) = None"
proof -
  have "tool_char x" "tc_Name t \<noteq> []" "0 \<le> MaxTimeout (Tasks c)"
    using assms by (auto simp: ValidateConfig_iff ValidateToolName_def list_all_iff)
  then show ?thesis using tool_char_no_shell_syntax [of x] by (simp add: ValidateConfig_default)
qed

lemma config_valid_tools_are_shell_safe_witness:
  "\<exists>(c :: config) t. t \<in> set (Tools c) \<and> CHR ''c'' \<in> set (tc_Name t) \<and> CHR ''c'' \<noteq> CHR ''$'' \<and> tc_Name t \<noteq> []"
proof -
  have t: "\<exists>t \<in> set (Tools (DefaultConfig ''/h'')). CHR ''c'' \<in> set (tc_Name t)"
    by (simp add: DefaultConfig_def)
  then obtain t where "t \<in> set (Tools (DefaultConfig ''/h''))" "CHR ''c'' \<in> set (tc_Name t)" by blast
  note t = this
  have "CHR ''c'' \<notin> set '' ;&|<>()*?~#=/$''" "tc_Name t \<noteq> []"
    using config_valid_tools_are_shell_safe [OF ValidateConfig_default t(1) UnI1 [OF t(2)], of "''/h''"]
    by simp_all
  with t show ?thesis by (intro exI [of _ "DefaultConfig ''/h''"] exI [of _ t]) simp
qed

end
