(* ===== verification/ShellUtil.thy ===== *)
theory ShellUtil
  imports Paths
begin

text \<open>
  \<open>internal/shellutil\<close>: which shell commands run in, and the \<open>PATH\<close> they run with. The
  environment, the file system and the platform are arguments.
\<close>

definition UserShell :: "string \<Rightarrow> (string \<Rightarrow> bool) \<Rightarrow> string \<Rightarrow> string" where
  "UserShell shell_env path_exists goos =
     (if shell_env \<noteq> [] \<and> path_exists shell_env then shell_env
      else
        let fallback = (if goos = ''darwin'' then ''/bin/zsh'' else ''/bin/bash'') in
        if path_exists fallback then fallback else ''/bin/sh'')"

fun add_missing_dirs :: "(string \<Rightarrow> bool) \<Rightarrow> string list \<Rightarrow> string list \<Rightarrow> string \<times> string list \<Rightarrow> string \<times> string list" where
  "add_missing_dirs is_dir have_dirs [] acc = acc"
| "add_missing_dirs is_dir have_dirs (d # ds) (path, added) =
     (if d \<in> set have_dirs \<or> \<not> is_dir d then add_missing_dirs is_dir have_dirs ds (path, added)
      else add_missing_dirs is_dir have_dirs ds (path @ '':'' @ d, added @ [d]))"

text \<open>The new value of \<open>PATH\<close>, when the function sets one.\<close>

definition EnsureUserPATH :: "string option \<Rightarrow> (string \<Rightarrow> bool) \<Rightarrow> string \<Rightarrow> string option" where
  "EnsureUserPATH home is_dir path =
     (case home of
        None \<Rightarrow> None
      | Some h \<Rightarrow>
          let candidates = [join_paths [h, ''.local'', ''bin''], join_paths [h, ''bin''],
                            ''/opt/homebrew/bin'', ''/usr/local/bin''];
              (path', added) = add_missing_dirs is_dir (split_on CHR '':'' path) candidates (path, [])
          in if length added = 0 then None else Some path')"

text \<open>\<open>filepath.SplitList\<close> on Unix.\<close>

definition SplitList :: "string \<Rightarrow> string list" where
  "SplitList l = (if l = [] then [] else split_on CHR '':'' l)"

fun merge_dirs :: "string list \<Rightarrow> string list \<times> string list \<Rightarrow> string list \<times> string list" where
  "merge_dirs [] acc = acc"
| "merge_dirs (d # ds) (seen, merged) =
     (if d = [] \<or> d \<in> set seen then merge_dirs ds (seen, merged)
      else merge_dirs ds (d # seen, merged @ [d]))"

definition MergePATH :: "string \<Rightarrow> string \<Rightarrow> string" where
  "MergePATH primary secondary =
     (let acc = merge_dirs (SplitList primary) ([], []);
          acc = merge_dirs (SplitList secondary) acc
      in join_with '':'' (snd acc))"

definition interactivePathMarker :: string where
  "interactivePathMarker = ''__HQSSH_PATH__=''"

definition trim_right :: "char \<Rightarrow> string \<Rightarrow> string" where
  "trim_right c s = rev (dropWhile (\<lambda>x. x = c) (rev s))"

text \<open>The loop runs over the lines from the last to the first.\<close>

fun last_marker :: "string list \<Rightarrow> (string \<times> bool)" where
  "last_marker [] = ([], False)"
| "last_marker (line # rest) =
     (case cut_prefix line interactivePathMarker of
        Some v \<Rightarrow> let v = trim_right (CHR 0x0D) v in (v, v \<noteq> [])
      | None \<Rightarrow> last_marker rest)"

definition parseInteractivePATH :: "string \<Rightarrow> string \<times> bool" where
  "parseInteractivePATH out = last_marker (rev (split_on (CHR 0x0A) out))"

text \<open>
  The probe: \<open>run shell\<close> is what the probe shell printed, or \<open>None\<close> when it failed or timed
  out.
\<close>

definition InteractivePATH :: "(string \<Rightarrow> string option) \<Rightarrow> string \<Rightarrow> string \<times> bool" where
  "InteractivePATH run shell =
     (case run shell of None \<Rightarrow> ([], False) | Some out \<Rightarrow> parseInteractivePATH out)"

section \<open>Merged search paths\<close>

lemma merge_dirs_append: "merge_dirs (xs @ ys) acc = merge_dirs ys (merge_dirs xs acc)"
  by (induction xs acc rule: merge_dirs.induct) auto

definition search_dirs :: "string \<Rightarrow> string list" where
  "search_dirs path = filter (\<lambda>d. d \<noteq> []) (SplitList path)"

lemma find_append:
  "List.find P (xs @ ys) = (case List.find P xs of Some d \<Rightarrow> Some d | None \<Rightarrow> List.find P ys)"
  by (induction xs) auto

lemma merge_dirs_inv:
  assumes "set seen = set merged" and "distinct merged" and "[] \<notin> set merged"
  shows "distinct (snd (merge_dirs ds (seen, merged))) \<and> [] \<notin> set (snd (merge_dirs ds (seen, merged)))
    \<and> set (snd (merge_dirs ds (seen, merged))) = set merged \<union> {d \<in> set ds. d \<noteq> []}
    \<and> List.find P (snd (merge_dirs ds (seen, merged))) = List.find P (merged @ filter (\<lambda>d. d \<noteq> []) ds)
    \<and> (\<exists>r. snd (merge_dirs ds (seen, merged)) = merged @ r)"
  using assms
proof (induction ds arbitrary: seen merged)
  case (Cons d ds)
  show ?case
  proof (cases "d = [] \<or> d \<in> set seen")
    case True
    have "List.find P (merged @ d # xs) = List.find P (merged @ xs)" if "d \<in> set merged" for xs
    proof -
      have "P d \<Longrightarrow> List.find P merged \<noteq> None" using that by (auto simp: find_None_iff)
      then show ?thesis by (cases "List.find P merged") (auto simp: find_append)
    qed
    then show ?thesis using True Cons.IH [OF Cons.prems] Cons.prems(1) by auto
  next
    case False
    have "distinct (merged @ [d])" "[] \<notin> set (merged @ [d])" "set (d # seen) = set (merged @ [d])"
      using False Cons.prems by auto
    from Cons.IH [OF this(3,1,2)] show ?thesis using False by auto
  qed
qed auto

lemma SplitList_join:
  assumes "[] \<notin> set ds" and "\<forall>d \<in> set ds. CHR '':'' \<notin> set d"
  shows "SplitList (join_with '':'' ds) = ds"
proof (cases "ds = []")
  case False
  then have "split_on CHR '':'' (join_with '':'' ds) = ds" using assms(2) by (rule split_join)
  moreover from this False assms(1) have "join_with '':'' ds \<noteq> []"
    by (cases ds) (auto dest: arg_cong [of _ _ "split_on CHR '':''"])
  ultimately show ?thesis by (simp add: SplitList_def)
qed (simp add: SplitList_def)

lemma SplitList_parts: "d \<in> set (SplitList p) \<Longrightarrow> CHR '':'' \<notin> set d"
  by (auto simp: SplitList_def dest: split_on_parts split: if_splits)

lemma MergePATH_dirs:
  "SplitList (MergePATH p s) = snd (merge_dirs (SplitList p @ SplitList s) ([], []))"
proof -
  let ?m = "snd (merge_dirs (SplitList p @ SplitList s) ([], []))"
  have "[] \<notin> set ?m" "set ?m \<subseteq> set (SplitList p @ SplitList s)"
    using merge_dirs_inv [of "[]" "[]" "SplitList p @ SplitList s"] by auto
  then show ?thesis
    by (simp add: MergePATH_def merge_dirs_append [symmetric])
       (rule SplitList_join, auto dest: SplitList_parts)
qed

section \<open>Properties\<close>

text \<open>
  A merged \<open>PATH\<close> finds every command where the primary path finds it, and otherwise where
  the secondary path does; its entries are non-empty and distinct, and are exactly the
  non-empty entries of the two.
\<close>
lemma MergePATH_lookup:
  "List.find has_cmd (SplitList (MergePATH p s)) =
      (case List.find has_cmd (search_dirs p) of Some d \<Rightarrow> Some d | None \<Rightarrow> List.find has_cmd (search_dirs s))
   \<and> distinct (SplitList (MergePATH p s))
   \<and> set (SplitList (MergePATH p s)) = set (search_dirs p) \<union> set (search_dirs s)"
proof -
  let ?m = "snd (merge_dirs (SplitList p @ SplitList s) ([], []))"
  have m: "distinct ?m" "set ?m = {d \<in> set (SplitList p @ SplitList s). d \<noteq> []}"
    "List.find has_cmd ?m = List.find has_cmd (search_dirs p @ search_dirs s)"
    using merge_dirs_inv [of "[]" "[]" "SplitList p @ SplitList s" has_cmd]
    by (simp_all add: search_dirs_def)
  have "set ?m = set (search_dirs p) \<union> set (search_dirs s)"
    unfolding m(2) by (auto simp: search_dirs_def)
  with m(1,3) show ?thesis by (simp only: MergePATH_dirs find_append simp_thms)
qed

lemma marker_no_newline: "CHR 0x0A \<notin> set interactivePathMarker"
  by (simp add: interactivePathMarker_def)

text \<open>
  The probe's answer is read back exactly: whatever the shell's initialisation prints
  before it, the value that \<open>printf '\n%s%s\n' "$1" "$PATH"\<close> prints is the one parsed, provided
  it has no line break and the shell prints no further marker line.
\<close>
lemma parseInteractivePATH_roundtrip:
  assumes "CHR 0x0A \<notin> set path" and "path \<noteq> []" and "last path \<noteq> CHR 0x0D"
  shows "parseInteractivePATH (banner @ [CHR 0x0A] @ interactivePathMarker @ path @ [CHR 0x0A]) = (path, True)"
proof -
  have "CHR 0x0A \<notin> set (interactivePathMarker @ path)" using assms(1) marker_no_newline by simp
  note split_on_no_sep [OF this]
  then have "split_on (CHR 0x0A) (banner @ CHR 0x0A # (interactivePathMarker @ path) @ CHR 0x0A # [])
      = split_on (CHR 0x0A) banner @ [interactivePathMarker @ path, []]"
    by (simp only: split_on_append_sep split_on.simps(1) append_Cons append_Nil)
  then have "split_on (CHR 0x0A) (banner @ [CHR 0x0A] @ interactivePathMarker @ path @ [CHR 0x0A])
      = split_on (CHR 0x0A) banner @ [interactivePathMarker @ path, []]"
    by simp
  moreover have "cut_prefix [] interactivePathMarker = None"
    by (simp add: cut_prefix_def has_prefix_def interactivePathMarker_def)
  moreover have "cut_prefix (interactivePathMarker @ path) interactivePathMarker = Some path"
    by (simp add: cut_prefix_Some)
  moreover have "trim_right (CHR 0x0D) path = path"
    using assms(2,3) by (cases path rule: rev_cases) (auto simp: trim_right_def)
  ultimately show ?thesis using assms(2) by (simp add: parseInteractivePATH_def)
qed

lemma parseInteractivePATH_roundtrip_witness:
  "parseInteractivePATH (''Welcome!'' @ [CHR 0x0A] @ interactivePathMarker @ ''/usr/bin:/bin'' @ [CHR 0x0A])
    = (''/usr/bin:/bin'', True)"
  by (rule parseInteractivePATH_roundtrip) simp_all

end
