(* ===== verification/Session.thy ===== *)
theory Session
  imports Modes Events SessionLogger Config ShellUtil
begin

text \<open>
  A PTY session (\<open>internal/session/session.go\<close>, \<open>internal/session/pty.go\<close>): its status, its
  scrollback, its attached clients with their bounded output channels, and the reader that
  feeds them.

  An operation of the model is one critical section of the code, or one piece of it between
  two. \<open>AddClient\<close>, \<open>AttachClient\<close> and \<open>RemoveClient\<close> therefore have two parts: the one under
  the client lock, and the status update after it. What other parties do is an argument:
  the clock, and for a bounded send whether the consumer makes room before the deadline.
\<close>

datatype status = StatusUnspecified | StatusRunning | StatusIdle | StatusEnded

fun status_String :: "status \<Rightarrow> string" where
  "status_String StatusRunning = ''running''"
| "status_String StatusIdle = ''idle''"
| "status_String StatusEnded = ''ended''"
| "status_String StatusUnspecified = ''unspecified''"

record client_state =
  cs_ch :: "bytes chan"
  cs_gapPending :: bool
  cs_dropCount :: int
  cs_lastDropTime :: time

definition gapMarker :: bytes where "gapMarker = []"

text \<open>The PTY: the kernel's window size is 16 bit, and what was written to it is kept.\<close>

record pty =
  pty_Rows :: "16 word"
  pty_Cols :: "16 word"
  pty_written :: bytes
  pty_open :: bool

record session =
  s_ID :: string
  s_Name :: string
  s_ProjectID :: string
  s_Tool :: string
  s_Args :: "string list"
  s_WorkingDirectory :: string
  s_CreatedAt :: time
  s_Cols :: int
  s_Rows :: int
  s_status :: status
  s_lastActivity :: time
  s_pty :: "pty option"
  s_cmd :: "int option"
  s_clients :: "(string, client_state) gomap"
  s_outputBuffer :: bytes
  s_maxBufferSize :: int
  s_logger :: "session_logger option"
  s_onEvent :: bool
  s_bell :: bell_detector
  s_lastBellEvent :: time
  s_modes :: mode_tracker
  s_done :: bool
  s_closed :: bool
  s_readDone :: bool

definition NewSession ::
  "string \<Rightarrow> time \<Rightarrow> string \<Rightarrow> string \<Rightarrow> string \<Rightarrow> string \<Rightarrow> string list \<Rightarrow> int \<Rightarrow> int \<Rightarrow> int \<Rightarrow> session" where
  "NewSession uuid now projectID tool workingDir name args cols rows maxBufferSize =
     (let maxBufferSize = (if maxBufferSize \<le> 0 then 1024 * 1024 else maxBufferSize);
          shortID = take 4 uuid;
          name = (if name = [] then
                    (if workingDir \<noteq> [] then base_name workingDir @ ''/'' @ tool @ ''-'' @ shortID
                     else tool @ ''-'' @ shortID)
                  else name)
      in \<lparr>s_ID = uuid, s_Name = name, s_ProjectID = projectID, s_Tool = tool, s_Args = args,
          s_WorkingDirectory = workingDir, s_CreatedAt = now, s_Cols = cols, s_Rows = rows,
          s_status = StatusIdle, s_lastActivity = now, s_pty = None, s_cmd = None,
          s_clients = [], s_outputBuffer = [], s_maxBufferSize = maxBufferSize,
          s_logger = None, s_onEvent = False, s_bell = new_bellDetector, s_lastBellEvent = 0,
          s_modes = new_modeTracker, s_done = False, s_closed = False, s_readDone = False\<rparr>)"

definition ClientCount :: "session \<Rightarrow> nat" where
  "ClientCount s = length (s_clients s)"

definition GetDimensions :: "session \<Rightarrow> int \<times> int" where
  "GetDimensions s = (s_Cols s, s_Rows s)"

definition UpdateActivity :: "time \<Rightarrow> session \<Rightarrow> session" where
  "UpdateActivity now s = s\<lparr>s_lastActivity := now\<rparr>"

definition IsDone :: "session \<Rightarrow> bool" where
  "IsDone s = s_done s"

text \<open>The events an operation emits are part of its result.\<close>

definition emitEvent :: "event_type \<Rightarrow> string \<Rightarrow> time \<Rightarrow> session \<Rightarrow> event list" where
  "emitEvent t message now s =
     (if \<not> s_onEvent s then []
      else [\<lparr>ev_SessionID = s_ID s, ev_SessionName = s_Name s, ev_Tool = s_Tool s, ev_Type = t,
             ev_Timestamp = now, ev_Message = message\<rparr>])"

text \<open>\<open>doneOnce\<close> and the closed \<open>done\<close> channel are one flag: both happen in the same call.\<close>

definition markDone :: "time \<Rightarrow> session \<Rightarrow> session \<times> event list" where
  "markDone now s =
     (if s_done s then (s, [])
      else (s\<lparr>s_status := StatusEnded, s_done := True\<rparr>, emitEvent EventTypeEnded [] now s))"

section \<open>Attaching and detaching clients\<close>

definition registerClient :: "string \<Rightarrow> int \<Rightarrow> session \<Rightarrow> session \<times> nat" where
  "registerClient clientID bufferSize s =
     (let bufferSize = (if bufferSize \<le> 0 then 1024 else bufferSize);
          cs = \<lparr>cs_ch = make_chan (nat bufferSize), cs_gapPending = False, cs_dropCount = 0,
                cs_lastDropTime = 0\<rparr>;
          s = s\<lparr>s_clients := gput clientID cs (s_clients s)\<rparr>
      in (s, length (s_clients s)))"

definition noteClientAttached :: "nat \<Rightarrow> session \<Rightarrow> session" where
  "noteClientAttached clientCount s =
     (if clientCount = 1 \<and> s_status s = StatusIdle then s\<lparr>s_status := StatusRunning\<rparr> else s)"

definition AddClient :: "string \<Rightarrow> int \<Rightarrow> session \<Rightarrow> session" where
  "AddClient clientID bufferSize s =
     (let (s, n) = registerClient clientID bufferSize s in noteClientAttached n s)"

text \<open>The part of \<open>AttachClient\<close> under \<open>outputBufferMu\<close>: the replay and the client count.\<close>

definition AttachClient_locked :: "string \<Rightarrow> int \<Rightarrow> session \<Rightarrow> session \<times> bytes \<times> nat" where
  "AttachClient_locked clientID bufferSize s =
     (let replay = mode_preamble (s_modes s) @ s_outputBuffer s;
          (s, n) = registerClient clientID bufferSize s
      in (s, replay, n))"

definition AttachClient :: "string \<Rightarrow> int \<Rightarrow> session \<Rightarrow> session \<times> bytes" where
  "AttachClient clientID bufferSize s =
     (let (s, replay, n) = AttachClient_locked clientID bufferSize s
      in (noteClientAttached n s, replay))"

text \<open>
  The part of \<open>RemoveClient\<close> under \<open>clientsMu\<close>: \<open>None\<close> is the panic of closing a closed
  channel. The flag says whether the status is to be updated.
\<close>

definition RemoveClient_locked :: "string \<Rightarrow> session \<Rightarrow> (session \<times> bool) option" where
  "RemoveClient_locked clientID s =
     (case gget (s_clients s) clientID of
        None \<Rightarrow> Some (s, length (s_clients s) = 0)
      | Some cs \<Rightarrow>
          (case chan_close (cs_ch cs) of
             None \<Rightarrow> None
           | Some _ \<Rightarrow>
               let s = s\<lparr>s_clients := gdel clientID (s_clients s)\<rparr>
               in Some (s, length (s_clients s) = 0)))"

definition noteClientRemoved :: "bool \<Rightarrow> session \<Rightarrow> session" where
  "noteClientRemoved shouldUpdateStatus s =
     (if shouldUpdateStatus \<and> s_status s = StatusRunning then s\<lparr>s_status := StatusIdle\<rparr> else s)"

definition RemoveClient :: "string \<Rightarrow> session \<Rightarrow> session option" where
  "RemoveClient clientID s =
     (case RemoveClient_locked clientID s of
        None \<Rightarrow> None
      | Some (s, upd) \<Rightarrow> Some (noteClientRemoved upd s))"

definition GetScrollback :: "session \<Rightarrow> bytes" where
  "GetScrollback s = s_outputBuffer s"

section \<open>Output: scrollback and broadcast\<close>

text \<open>The loop that advances past at most three continuation bytes.\<close>

fun skip_conts :: "nat \<Rightarrow> bytes \<Rightarrow> bytes" where
  "skip_conts 0 b = b"
| "skip_conts (Suc i) [] = []"
| "skip_conts (Suc i) (c # b) = (if \<not> is_cont c then c # b else skip_conts i b)"

definition trim_scrollback :: "int \<Rightarrow> bytes \<Rightarrow> bytes" where
  "trim_scrollback limit b =
     (if limit < int (length b) then skip_conts 3 (drop (nat (int (length b) - limit)) b) else b)"

text \<open>
  \<open>sendBoundedUntil\<close>: \<open>takes\<close> says whether the consumer receives an item while the sender
  waits; the item it receives is part of the result. \<open>None\<close> is the panic of a send on a
  closed channel.
\<close>

definition sendBoundedUntil :: "bool \<Rightarrow> bytes \<Rightarrow> bytes chan \<Rightarrow> (bytes chan \<times> bytes list \<times> bool) option" where
  "sendBoundedUntil takes item ch =
     (case chan_send ch item of
        SendPanics \<Rightarrow> None
      | Sent ch' \<Rightarrow> Some (ch', [], True)
      | SendWouldBlock \<Rightarrow>
          if \<not> takes then Some (ch, [], False)
          else
            (case chan_recv ch of
               Received x ch' \<Rightarrow>
                 (case chan_send ch' item of
                    Sent ch'' \<Rightarrow> Some (ch'', [x], True)
                  | SendWouldBlock \<Rightarrow> Some (ch', [x], False)
                  | SendPanics \<Rightarrow> None)
             | _ \<Rightarrow> Some (ch, [], False)))"

text \<open>The body of the loop of \<open>broadcast\<close>, for one client.\<close>

definition note_drop :: "time \<Rightarrow> client_state \<Rightarrow> client_state" where
  "note_drop now cs = cs\<lparr>cs_dropCount := cs_dropCount cs + 1, cs_lastDropTime := now\<rparr>"

definition deliver_data ::
  "time \<Rightarrow> bool \<Rightarrow> bytes \<Rightarrow> client_state \<Rightarrow> (client_state \<times> bytes list \<times> bool) option" where
  "deliver_data now takes data cs =
     (case sendBoundedUntil takes data (cs_ch cs) of
        None \<Rightarrow> None
      | Some (ch, got, True) \<Rightarrow> Some (cs\<lparr>cs_ch := ch\<rparr>, got, True)
      | Some (ch, got, False) \<Rightarrow>
          Some ((note_drop now cs)\<lparr>cs_ch := ch, cs_gapPending := True\<rparr>, got, False))"

definition deliver ::
  "time \<Rightarrow> bool \<times> bool \<Rightarrow> bytes \<Rightarrow> client_state \<Rightarrow> (client_state \<times> bytes list \<times> bool) option" where
  "deliver now takes data cs =
     (if \<not> cs_gapPending cs then deliver_data now (snd takes) data cs
      else
        case sendBoundedUntil (fst takes) gapMarker (cs_ch cs) of
          None \<Rightarrow> None
        | Some (ch, got, False) \<Rightarrow> Some ((note_drop now cs)\<lparr>cs_ch := ch\<rparr>, got, False)
        | Some (ch, got, True) \<Rightarrow>
            (case deliver_data now (snd takes) data (cs\<lparr>cs_ch := ch, cs_gapPending := False\<rparr>) of
               None \<Rightarrow> None
             | Some (cs, got', ok) \<Rightarrow> Some (cs, got @ got', ok)))"

text \<open>
  The loop: a panic in the body is recovered, and the client stays as it is. The result
  lists what each client's consumer received meanwhile.
\<close>

fun broadcast_loop ::
  "time \<Rightarrow> (string \<Rightarrow> bool \<times> bool) \<Rightarrow> bytes \<Rightarrow> (string, client_state) gomap
   \<Rightarrow> (string, client_state) gomap \<times> (string \<times> bytes) list" where
  "broadcast_loop now takes data [] = ([], [])"
| "broadcast_loop now takes data ((cid, cs) # rest) =
     (let (rest', got) = broadcast_loop now takes data rest in
      case deliver now (takes cid) data cs of
        None \<Rightarrow> ((cid, cs) # rest', got)
      | Some (cs', got', _) \<Rightarrow> ((cid, cs') # rest', map (Pair cid) got' @ got))"

definition broadcast ::
  "time \<Rightarrow> (string \<Rightarrow> bool \<times> bool) \<Rightarrow> bytes \<Rightarrow> session \<Rightarrow> session \<times> (string \<times> bytes) list" where
  "broadcast now takes data s =
     (if IsDone s then (s, [])
      else let (cl, got) = broadcast_loop now takes data (s_clients s) in (s\<lparr>s_clients := cl\<rparr>, got))"

definition appendAndBroadcast ::
  "time \<Rightarrow> (string \<Rightarrow> bool \<times> bool) \<Rightarrow> bytes \<Rightarrow> session \<Rightarrow> session \<times> (string \<times> bytes) list" where
  "appendAndBroadcast now takes data s =
     broadcast now takes data
       (s\<lparr>s_outputBuffer := trim_scrollback (s_maxBufferSize s) (s_outputBuffer s @ data)\<rparr>)"

definition TakeOutputGap :: "string \<Rightarrow> session \<Rightarrow> session \<times> bool" where
  "TakeOutputGap clientID s =
     (case gget (s_clients s) clientID of
        Some cs \<Rightarrow>
          if cs_gapPending cs
          then (s\<lparr>s_clients := gput clientID (cs\<lparr>cs_gapPending := False\<rparr>) (s_clients s)\<rparr>, True)
          else (s, False)
      | None \<Rightarrow> (s, False))"

text \<open>A consumer receiving from its channel, outside a bounded send.\<close>

definition client_recv :: "string \<Rightarrow> session \<Rightarrow> session \<times> bytes option" where
  "client_recv clientID s =
     (case gget (s_clients s) clientID of
        None \<Rightarrow> (s, None)
      | Some cs \<Rightarrow>
          (case chan_recv (cs_ch cs) of
             Received x ch \<Rightarrow>
               (s\<lparr>s_clients := gput clientID (cs\<lparr>cs_ch := ch\<rparr>) (s_clients s)\<rparr>, Some x)
           | _ \<Rightarrow> (s, None)))"

record session_info =
  si_ID :: string
  si_Name :: string
  si_ProjectID :: string
  si_Tool :: string
  si_WorkingDirectory :: string
  si_Status :: status
  si_CreatedAt :: time
  si_LastActivity :: time
  si_Cols :: int
  si_Rows :: int
  si_ClientCount :: nat

definition session_Info :: "session \<Rightarrow> session_info" where
  "session_Info s =
     (let (cols, rows) = GetDimensions s in
      \<lparr>si_ID = s_ID s, si_Name = s_Name s, si_ProjectID = s_ProjectID s, si_Tool = s_Tool s,
       si_WorkingDirectory = s_WorkingDirectory s, si_Status = s_status s,
       si_CreatedAt = s_CreatedAt s, si_LastActivity = s_lastActivity s, si_Cols = cols,
       si_Rows = rows, si_ClientCount = ClientCount s\<rparr>)"

section \<open>The PTY and its process\<close>

record command =
  c_path :: string
  c_args :: "string list"
  c_dir :: string
  c_env :: "string list"

text \<open>
  \<open>buildCommand\<close>: \<open>shell\<close> is what \<open>shellutil.UserShell\<close> gives, \<open>environ\<close> is \<open>os.Environ\<close>. The
  script is the word after \<open>-c\<close>; the tool's arguments are positional parameters.
\<close>

definition argScript :: string where "argScript = [CHR 0x22, CHR ''$'', CHR ''@'', CHR 0x22]"

definition buildCommand :: "string \<Rightarrow> string list \<Rightarrow> session \<Rightarrow> string + command" where
  "buildCommand shell environ s =
     (if s_Tool s \<noteq> ''shell'' \<and> \<not> ValidateToolName (s_Tool s) then Inl ''invalid tool name''
      else
        let args =
              (if s_Tool s = ''shell'' then
                 (if 0 < length (s_Args s) then [''-l'', ''-i'', ''-c'', argScript, ''_''] @ s_Args s
                  else [''-l''])
               else
                 (if 0 < length (s_Args s)
                  then [''-l'', ''-i'', ''-c'', argScript, ''_''] @ (s_Tool s # s_Args s)
                  else [''-l'', ''-i'', ''-c'', s_Tool s]));
            env = filter (\<lambda>kv. \<not> (has_prefix kv ''COLUMNS='' \<or> has_prefix kv ''LINES='')) environ
        in Inr \<lparr>c_path = shell, c_args = args, c_dir = s_WorkingDirectory s,
                c_env = env @ [''TERM=xterm-256color'']\<rparr>)"

text \<open>\<open>start\<close> is what \<open>pty.StartWithSize\<close> does: the pid of the started process, or an error.\<close>

definition StartPTY ::
  "string \<Rightarrow> string list \<Rightarrow> (command \<Rightarrow> string + int) \<Rightarrow> session \<Rightarrow> session \<times> string option" where
  "StartPTY shell environ start s =
     (case buildCommand shell environ s of
        Inl e \<Rightarrow> (s, Some (''failed to build command: '' @ e))
      | Inr cmd \<Rightarrow>
          let (cols, rows) = GetDimensions s in
          (case start cmd of
             Inl e \<Rightarrow> (s, Some (''failed to start pty: '' @ e))
           | Inr pid \<Rightarrow>
               (s\<lparr>s_pty := Some \<lparr>pty_Rows = word_of_int rows, pty_Cols = word_of_int cols,
                                pty_written = [], pty_open = True\<rparr>,
                  s_cmd := Some pid\<rparr>, None)))"

definition bellEventCooldown :: time where "bellEventCooldown = 5 * second"

definition reader_bell :: "time \<Rightarrow> bytes \<Rightarrow> session \<Rightarrow> session \<times> event list" where
  "reader_bell now data s =
     (let (bell, res) = bell_process (s_bell s) data;
          s = s\<lparr>s_bell := bell\<rparr>
      in if bell_attention res \<and> bellEventCooldown \<le> now - s_lastBellEvent s
         then (s\<lparr>s_lastBellEvent := now\<rparr>, emitEvent EventTypeBell (bell_lastMessage res) now s)
         else (s, []))"

definition reader_track :: "bytes \<Rightarrow> session \<Rightarrow> session" where
  "reader_track data s = s\<lparr>s_modes := mode_process (s_modes s) data\<rparr>"

definition reader_log :: "(bytes \<Rightarrow> nat) \<Rightarrow> bytes \<Rightarrow> session \<times> log_fs \<Rightarrow> session \<times> log_fs" where
  "reader_log wr data = (\<lambda>(s, fs).
     case s_logger s of
       None \<Rightarrow> (s, fs)
     | Some l \<Rightarrow> let ((l', fs'), _) = logger_Write wr data (l, fs) in (s\<lparr>s_logger := Some l'\<rparr>, fs'))"

datatype pty_read = PtyData bytes | PtyEOF | PtyError string

text \<open>One iteration of the loop of \<open>readPTYOutput\<close>; the reader has returned once \<open>s_readDone\<close>.\<close>

definition readPTYOutput_step ::
  "time \<Rightarrow> (string \<Rightarrow> bool \<times> bool) \<Rightarrow> (bytes \<Rightarrow> nat) \<Rightarrow> pty_read \<Rightarrow> session \<times> log_fs
   \<Rightarrow> (session \<times> log_fs) \<times> event list \<times> (string \<times> bytes) list" where
  "readPTYOutput_step now takes wr r st =
     (let (s, fs) = st in
      if s_readDone s then (st, [], [])
      else case r of
        PtyData data \<Rightarrow>
          if length data = 0 then (st, [], [])
          else
            let s = UpdateActivity now s;
                (s, got) = appendAndBroadcast now takes data s;
                s = reader_track data s;
                (s, fs) = reader_log wr data (s, fs);
                (s, evs) = reader_bell now data s
            in ((s, fs), evs, got)
      | _ \<Rightarrow>
          let (s, evs) = markDone now s in ((s\<lparr>s_readDone := True\<rparr>, fs), evs, []))"

definition session_Write :: "time \<Rightarrow> bytes \<Rightarrow> session \<Rightarrow> session \<times> (string + nat)" where
  "session_Write now data s =
     (case s_pty s of
        None \<Rightarrow> (s, Inl ''session PTY not initialized'')
      | Some p \<Rightarrow>
          if IsDone s then (s, Inl ''session has ended'')
          else
            let s = UpdateActivity now s in
            if \<not> pty_open p then (s, Inl ''file already closed'')
            else (s\<lparr>s_pty := Some (p\<lparr>pty_written := pty_written p @ data\<rparr>)\<rparr>, Inr (length data)))"

definition session_Resize :: "int \<Rightarrow> int \<Rightarrow> session \<Rightarrow> session \<times> string option" where
  "session_Resize cols rows s =
     (case s_pty s of
        None \<Rightarrow> (s, Some ''session PTY not initialized'')
      | Some p \<Rightarrow>
          if cols \<le> 0 \<or> rows \<le> 0 then (s, Some ''invalid terminal size'')
          else
            let s = s\<lparr>s_Cols := cols, s_Rows := rows\<rparr> in
            if \<not> pty_open p then (s, Some ''file already closed'')
            else (s\<lparr>s_pty := Some (p\<lparr>pty_Rows := word_of_int rows, pty_Cols := word_of_int cols\<rparr>)\<rparr>,
                  None))"

datatype signal = SIGTERM | SIGKILL | SIGWINCH

text \<open>A signal sent to a process (positive) or to a process group (negative).\<close>

type_synonym signals = "(int \<times> signal) list"

definition SignalRepaint :: "session \<Rightarrow> signals" where
  "SignalRepaint s =
     (case s_cmd s of None \<Rightarrow> [] | Some pid \<Rightarrow> if IsDone s then [] else [(- pid, SIGWINCH)])"

datatype kill_result = KillOk | KillESRCH | KillFails

text \<open>
  \<open>Kill\<close>: the signals sent at once, those sent after \<open>killGracePeriod\<close>, and the error.
  \<open>kill\<close> is the operating system; \<open>ErrProcessDone\<close> of \<open>Process.Kill\<close> counts as \<open>KillESRCH\<close>.
\<close>

definition session_Kill :: "(int \<Rightarrow> signal \<Rightarrow> kill_result) \<Rightarrow> session \<Rightarrow> signals \<times> signals \<times> string option" where
  "session_Kill kill s =
     (case s_cmd s of
        None \<Rightarrow> ([], [], None)
      | Some pid \<Rightarrow>
          (case kill (- pid) SIGTERM of
             KillESRCH \<Rightarrow> ([(- pid, SIGTERM)], [], None)
           | KillFails \<Rightarrow>
               if kill (- pid) SIGKILL = KillFails then
                 ([(- pid, SIGTERM), (- pid, SIGKILL), (pid, SIGKILL)], [],
                  if kill pid SIGKILL = KillFails then Some ''failed to kill process'' else None)
               else ([(- pid, SIGTERM), (- pid, SIGKILL)], [], None)
           | KillOk \<Rightarrow> ([(- pid, SIGTERM)], [(- pid, SIGKILL)], None)))"

fun close_clients :: "(string, client_state) gomap \<Rightarrow> (string, bytes chan) gomap option" where
  "close_clients [] = Some []"
| "close_clients ((cid, cs) # rest) =
     (case chan_close (cs_ch cs) of
        None \<Rightarrow> None
      | Some ch \<Rightarrow> map_option (\<lambda>r. (cid, ch) # r) (close_clients rest))"

text \<open>
  \<open>Close\<close>. The reader may run between the parts; here it has exited or the two-second wait
  for it has passed, which makes no difference to what \<open>Close\<close> does. The closed client
  channels are returned: their consumers go on draining them.
\<close>

definition session_Close ::
  "time \<Rightarrow> (int \<Rightarrow> signal \<Rightarrow> kill_result) \<Rightarrow> (bytes \<Rightarrow> nat) \<Rightarrow> compress_io \<Rightarrow> session \<times> log_fs
   \<Rightarrow> ((session \<times> log_fs) \<times> event list \<times> signals \<times> (string, bytes chan) gomap) option" where
  "session_Close now kill wr io st =
     (let (s, fs) = st in
      if s_closed s then Some (st, [], [], [])
      else
        let s = s\<lparr>s_closed := True\<rparr>;
            (s, evs) = markDone now s;
            (sent, later, _) = session_Kill kill s;
            s = s\<lparr>s_pty := map_option (\<lambda>p. p\<lparr>pty_open := False\<rparr>) (s_pty s)\<rparr>
        in
          (case close_clients (s_clients s) of
             None \<Rightarrow> None
           | Some chans \<Rightarrow>
               let s = s\<lparr>s_clients := []\<rparr>;
                   (s, fs) = (case s_logger s of
                                None \<Rightarrow> (s, fs)
                              | Some l \<Rightarrow>
                                  let (l', fs') = logger_Close wr io (l, fs)
                                  in (s\<lparr>s_logger := Some l'\<rparr>, fs'))
               in Some ((s, fs), evs, sent @ later, chans)))"

section \<open>No operation panics\<close>

definition client_ok :: "client_state \<Rightarrow> bool" where
  "client_ok cs \<longleftrightarrow> chan_ok (cs_ch cs)"

definition clients_ok :: "(string, client_state) gomap \<Rightarrow> bool" where
  "clients_ok cl \<longleftrightarrow> gwf cl \<and> (\<forall>p \<in> set cl. client_ok (snd p))"

lemma clients_ok_get: "clients_ok cl \<Longrightarrow> gget cl cid = Some cs \<Longrightarrow> client_ok cs"
  unfolding clients_ok_def by (drule gget_SomeD) force

lemma clients_ok_iff: "clients_ok cl \<longleftrightarrow> gwf cl \<and> (\<forall>cid cs. gget cl cid = Some cs \<longrightarrow> client_ok cs)"
  unfolding clients_ok_def by (force simp: gget_eq_Some_iff)

lemma clients_ok_put: "clients_ok cl \<Longrightarrow> client_ok cs \<Longrightarrow> clients_ok (gput cid cs cl)"
  by (auto simp: clients_ok_iff gomap_simps)

lemma clients_ok_del: "clients_ok cl \<Longrightarrow> clients_ok (gdel cid cl)"
  by (auto simp: clients_ok_iff gomap_simps)

lemma clients_ok_Nil [simp]: "clients_ok []"
  by (simp add: clients_ok_def)

lemma sendBoundedUntil_spec:
  assumes "chan_ok ch"
  shows "\<exists>ch' got ok. sendBoundedUntil takes item ch = Some (ch', got, ok) \<and> chan_ok ch'
    \<and> ch_cap ch' = ch_cap ch
    \<and> got @ ch_buf ch' = ch_buf ch @ (if ok then [item] else [])"
proof (cases "length (ch_buf ch) < ch_cap ch")
  case True
  then show ?thesis using assms
    by (intro exI [of _ "ch\<lparr>ch_buf := ch_buf ch @ [item]\<rparr>"] exI [of _ "[]"] exI [of _ True])
       (simp add: sendBoundedUntil_def chan_send_ok chan_ok_push)
next
  case full: False
  show ?thesis
  proof (cases "takes \<and> ch_buf ch \<noteq> []")
    case False
    then show ?thesis using assms full
      by (auto simp: sendBoundedUntil_def chan_send_ok chan_recv_def chan_ok_def)
  next
    case True
    then obtain x xs where b: "ch_buf ch = x # xs" by (cases "ch_buf ch") auto
    have "length xs < ch_cap ch" "\<not> ch_closed ch" using assms b by (auto simp: chan_ok_def)
    then show ?thesis using assms full True b
      by (intro exI [of _ "ch\<lparr>ch_buf := xs @ [item]\<rparr>"] exI [of _ "[x]"] exI [of _ True])
         (simp add: sendBoundedUntil_def chan_send_def chan_recv_def chan_ok_def)
  qed
qed

lemma deliver_data_spec:
  assumes "client_ok cs"
  shows "\<exists>cs' got ok. deliver_data now takes data cs = Some (cs', got, ok) \<and> client_ok cs'
    \<and> ch_cap (cs_ch cs') = ch_cap (cs_ch cs)
    \<and> got @ ch_buf (cs_ch cs') = ch_buf (cs_ch cs) @ (if ok then [data] else [])
    \<and> cs_gapPending cs' = (if ok then cs_gapPending cs else True)
    \<and> cs_dropCount cs' = cs_dropCount cs + (if ok then 0 else 1)"
proof -
  obtain ch' got ok where *: "sendBoundedUntil takes data (cs_ch cs) = Some (ch', got, ok)"
    "chan_ok ch'" "ch_cap ch' = ch_cap (cs_ch cs)"
    "got @ ch_buf ch' = ch_buf (cs_ch cs) @ (if ok then [data] else [])"
    using sendBoundedUntil_spec assms unfolding client_ok_def by blast
  then show ?thesis
    by (intro exI [of _ "if ok then cs\<lparr>cs_ch := ch'\<rparr>
                          else (note_drop now cs)\<lparr>cs_ch := ch', cs_gapPending := True\<rparr>"]
          exI [of _ got] exI [of _ ok])
       (simp add: deliver_data_def note_drop_def client_ok_def split: bool.splits)
qed

text \<open>
  What one broadcast does to a client: the items it has received and still has queued grow
  by the gap marker it is owed and the data, or by neither, or by the marker alone.
\<close>

lemma deliver_spec:
  assumes "client_ok cs"
  obtains cs' got ok m where "deliver now takes data cs = Some (cs', got, ok)" and "client_ok cs'"
    and "ch_cap (cs_ch cs') = ch_cap (cs_ch cs)"
    and "got @ ch_buf (cs_ch cs') =
           ch_buf (cs_ch cs) @ (if m then [gapMarker] else []) @ (if ok then [data] else [])"
    and "m \<longrightarrow> cs_gapPending cs" and "ok \<and> cs_gapPending cs \<longrightarrow> m"
    and "cs_gapPending cs' = (\<not> ok)"
    and "cs_dropCount cs' = cs_dropCount cs + (if ok then 0 else 1)"
proof (cases "cs_gapPending cs")
  case False
  obtain cs' got ok where "deliver_data now (snd takes) data cs = Some (cs', got, ok)" "client_ok cs'"
    "ch_cap (cs_ch cs') = ch_cap (cs_ch cs)"
    "got @ ch_buf (cs_ch cs') = ch_buf (cs_ch cs) @ (if ok then [data] else [])"
    "cs_gapPending cs' = (if ok then cs_gapPending cs else True)"
    "cs_dropCount cs' = cs_dropCount cs + (if ok then 0 else 1)"
    using deliver_data_spec [OF assms] by blast
  with False show ?thesis
    by (intro that [of cs' got ok False]) (auto simp: deliver_def)
next
  case True
  obtain ch got ok where s: "sendBoundedUntil (fst takes) gapMarker (cs_ch cs) = Some (ch, got, ok)"
    "chan_ok ch" "ch_cap ch = ch_cap (cs_ch cs)"
    "got @ ch_buf ch = ch_buf (cs_ch cs) @ (if ok then [gapMarker] else [])"
    using sendBoundedUntil_spec assms unfolding client_ok_def by blast
  show ?thesis
  proof (cases ok)
    case False
    with True s show ?thesis
      by (intro that [of "(note_drop now cs)\<lparr>cs_ch := ch\<rparr>" got False False])
         (simp_all add: deliver_def note_drop_def client_ok_def)
  next
    case ok: True
    let ?cs = "cs\<lparr>cs_ch := ch, cs_gapPending := False\<rparr>"
    have "client_ok ?cs" using s(2) by (simp add: client_ok_def)
    then obtain cs' got' ok' where d: "deliver_data now (snd takes) data ?cs = Some (cs', got', ok')"
      "client_ok cs'" "ch_cap (cs_ch cs') = ch_cap (cs_ch ?cs)"
      "got' @ ch_buf (cs_ch cs') = ch_buf (cs_ch ?cs) @ (if ok' then [data] else [])"
      "cs_gapPending cs' = (if ok' then cs_gapPending ?cs else True)"
      "cs_dropCount cs' = cs_dropCount ?cs + (if ok' then 0 else 1)"
      using deliver_data_spec by blast
    have "got @ got' @ ch_buf (cs_ch cs') = (got @ ch_buf ch) @ (if ok' then [data] else [])"
      using d(4) by simp
    also have "\<dots> = ch_buf (cs_ch cs) @ [gapMarker] @ (if ok' then [data] else [])"
      using s(4) ok by simp
    finally show ?thesis using True s ok d
      by (intro that [of cs' "got @ got'" ok' True]) (simp_all add: deliver_def)
  qed
qed

lemma deliver_Some: "client_ok cs \<Longrightarrow> \<exists>cs' got ok. deliver now takes data cs = Some (cs', got, ok) \<and> client_ok cs'"
  by (rule deliver_spec [of cs now takes data]) auto

lemma broadcast_loop_keys [simp]: "gkeys (fst (broadcast_loop now takes data cl)) = gkeys cl"
  by (induction now takes data cl rule: broadcast_loop.induct)
     (auto simp: gkeys_def Let_def split_def split: option.splits)

lemma broadcast_loop_got:
  "q \<in> set (snd (broadcast_loop now takes data cl)) \<Longrightarrow> fst q \<in> set (gkeys cl)"
  by (induction now takes data cl rule: broadcast_loop.induct)
     (auto simp: gkeys_def Let_def split_def split: option.splits)

lemma broadcast_loop_get:
  assumes "clients_ok cl" and "gget cl cid = Some cs" and "deliver now (takes cid) data cs = Some (cs', got', ok)"
  shows "gget (fst (broadcast_loop now takes data cl)) cid = Some cs'
    \<and> map snd (filter (\<lambda>p. fst p = cid) (snd (broadcast_loop now takes data cl))) = got'"
  using assms(1,2)
proof (induction cl)
  case (Cons p cl)
  obtain c x where p: "p = (c, x)" by fastforce
  obtain cl' got where l: "broadcast_loop now takes data cl = (cl', got)" by fastforce
  have ok: "clients_ok cl" "client_ok x" "c \<notin> set (gkeys cl)"
    using Cons.prems(1) by (auto simp: clients_ok_def gwf_def gkeys_def p)
  obtain x' g' b where d: "deliver now (takes c) data x = Some (x', g', b)"
    using deliver_Some [OF ok(2)] by blast
  have step: "broadcast_loop now takes data (p # cl) = ((c, x') # cl', map (Pair c) g' @ got)"
    by (simp add: p l d)
  show ?case
  proof (cases "c = cid")
    case True
    then have "x = cs" using Cons.prems(2) by (simp add: p gget_def)
    with True d assms(3) have eq: "x' = cs'" "g' = got'" by simp_all
    have "filter (\<lambda>p. fst p = cid) got = []"
      using broadcast_loop_got [of _ now takes data cl] l ok(3) True
      by (auto simp: filter_empty_conv)
    then show ?thesis using step True eq by (simp add: gget_def filter_map comp_def)
  next
    case False
    then have "gget cl cid = Some cs" using Cons.prems(2) by (simp add: p gget_def)
    from Cons.IH [OF ok(1) this] show ?thesis
      using step False l by (simp add: gget_def filter_map comp_def)
  qed
qed simp

lemma broadcast_loop_ok: "clients_ok cl \<Longrightarrow> clients_ok (fst (broadcast_loop now takes data cl))"
proof -
  assume ok: "clients_ok cl"
  let ?cl = "fst (broadcast_loop now takes data cl)"
  have "gwf ?cl" using ok broadcast_loop_keys [of now takes data cl]
    by (simp add: clients_ok_def gwf_def gkeys_def)
  moreover have "client_ok cs'" if "gget ?cl cid = Some cs'" for cid cs'
  proof -
    have "cid \<in> set (gkeys cl)" using that broadcast_loop_keys [of now takes data cl]
      by (metis gget_None_iff option.distinct(1))
    then obtain cs where cs: "gget cl cid = Some cs" by (metis gget_None_iff not_Some_eq)
    obtain x g b where "deliver now (takes cid) data cs = Some (x, g, b)" "client_ok x"
      using deliver_Some [OF clients_ok_get [OF ok cs]] by blast
    then show ?thesis using broadcast_loop_get [OF ok cs] that by auto
  qed
  ultimately show ?thesis by (simp add: clients_ok_iff)
qed

end
