(* ===== verification/SessionStore.thy ===== *)
theory SessionStore
  imports Keyed_Store Session
begin

text \<open>
  The session metadata store of \<open>internal/session/store.go\<close>: records by session id, saved as
  \<open>sessions.json\<close>, with the retention cleanup that also deletes the logs.
\<close>

record session_record =
  rec_ID :: string
  rec_Name :: string
  rec_ProjectID :: string
  rec_Tool :: string
  rec_WorkingDirectory :: string
  rec_Command :: string
  rec_Created :: time
  rec_Ended :: time
  rec_Status :: string
  rec_LogPath :: string

record session_store =
  ss_records :: "(string, session_record) gomap"
  ss_dataDir :: string
  ss_logDir :: string

definition NewStore :: "string \<Rightarrow> string \<Rightarrow> session_store" where
  "NewStore dataDir logDir = \<lparr>ss_records = [], ss_dataDir = dataDir, ss_logDir = logDir\<rparr>"

text \<open>A record as \<open>encoding/json\<close> gives it back.\<close>

definition json_record :: "session_record \<Rightarrow> session_record" where
  "json_record r = r\<lparr>rec_ID := json_str (rec_ID r), rec_Name := json_str (rec_Name r),
     rec_ProjectID := json_str (rec_ProjectID r), rec_Tool := json_str (rec_Tool r),
     rec_WorkingDirectory := json_str (rec_WorkingDirectory r),
     rec_Command := json_str (rec_Command r), rec_Status := json_str (rec_Status r),
     rec_LogPath := json_str (rec_LogPath r)\<rparr>"

fun load_records ::
  "session_record option list \<Rightarrow> (string, session_record) gomap \<Rightarrow> (string, session_record) gomap" where
  "load_records [] m = m"
| "load_records (r # rs) m =
     load_records rs
       (case r of None \<Rightarrow> m | Some r \<Rightarrow> if rec_ID r = [] then m else gput (rec_ID r) r m)"

definition store_Load ::
  "session_record store_file \<Rightarrow> session_store \<Rightarrow> session_store \<times> string option" where
  "store_Load disk s =
     (case disk of
        NoFile \<Rightarrow> (s, None)
      | ReadFails e \<Rightarrow> (s, Some e)
      | BadJSON e \<Rightarrow> (s, Some e)
      | JSONFile rs \<Rightarrow> (s\<lparr>ss_records := load_records rs []\<rparr>, None))"

definition store_Save ::
  "save_io \<Rightarrow> session_store \<Rightarrow> session_record store_file \<Rightarrow> session_record store_file \<times> string option" where
  "store_Save io s disk =
     write_store io (map json_record (newest_first rec_Created (gvals (ss_records s)))) disk"

definition store_Add :: "session_record \<Rightarrow> session_store \<Rightarrow> session_store" where
  "store_Add r s = s\<lparr>ss_records := gput (rec_ID r) r (ss_records s)\<rparr>"

definition store_Get :: "session_store \<Rightarrow> string \<Rightarrow> session_record option" where
  "store_Get s sid = gget (ss_records s) sid"

definition store_Update ::
  "string \<Rightarrow> (session_record \<Rightarrow> session_record) \<Rightarrow> session_store \<Rightarrow> session_store \<times> bool" where
  "store_Update sid f s =
     (case gget (ss_records s) sid of
        Some r \<Rightarrow> (s\<lparr>ss_records := gput sid (f r) (ss_records s)\<rparr>, True)
      | None \<Rightarrow> (s, False))"

definition store_MarkEnded :: "time \<Rightarrow> string \<Rightarrow> session_store \<Rightarrow> session_store \<times> bool" where
  "store_MarkEnded now sid s = store_Update sid (\<lambda>r. r\<lparr>rec_Status := ''ended'', rec_Ended := now\<rparr>) s"

definition store_UpdateStatus :: "string \<Rightarrow> string \<Rightarrow> session_store \<Rightarrow> session_store \<times> bool" where
  "store_UpdateStatus sid status s = store_Update sid (\<lambda>r. r\<lparr>rec_Status := status\<rparr>) s"

definition store_Delete :: "string \<Rightarrow> session_store \<Rightarrow> session_store \<times> bool" where
  "store_Delete sid s =
     (case gget (ss_records s) sid of
        Some _ \<Rightarrow> (s\<lparr>ss_records := gdel sid (ss_records s)\<rparr>, True)
      | None \<Rightarrow> (s, False))"

definition store_List :: "string \<Rightarrow> bool \<Rightarrow> session_store \<Rightarrow> session_record list" where
  "store_List projectID includeEnded s =
     newest_first rec_Created
       (filter (\<lambda>r. \<not> (projectID \<noteq> [] \<and> rec_ProjectID r \<noteq> projectID)
                  \<and> \<not> (\<not> includeEnded \<and> rec_Status r = ''ended''))
          (gvals (ss_records s)))"

definition store_ListEndedForProject :: "string \<Rightarrow> int \<Rightarrow> session_store \<Rightarrow> session_record list" where
  "store_ListEndedForProject projectID limit s =
     (let rs = newest_first rec_Ended
                 (filter (\<lambda>r. rec_Status r = ''ended'' \<and> (projectID = [] \<or> rec_ProjectID r = projectID))
                    (gvals (ss_records s)))
      in if 0 < limit \<and> limit < int (length rs) then take (nat limit) rs else rs)"

definition store_ListEnded :: "int \<Rightarrow> session_store \<Rightarrow> session_record list" where
  "store_ListEnded limit s = store_ListEndedForProject [] limit s"

text \<open>
  \<open>Cleanup\<close>: \<open>addDays\<close> is \<open>AddDate\<close> for days, which depends on the local calendar; \<open>rm\<close> and
  \<open>io\<close> are the file system. The result has the number removed and the error of the save.
\<close>

definition expired :: "time \<Rightarrow> session_record \<Rightarrow> bool" where
  "expired cutoff r \<longleftrightarrow> rec_Status r = ''ended'' \<and> \<not> is_zero (rec_Ended r) \<and> rec_Ended r < cutoff"

fun delete_logs :: "(string \<Rightarrow> bool) \<Rightarrow> string \<Rightarrow> string list \<Rightarrow> log_fs \<Rightarrow> log_fs" where
  "delete_logs rm logDir [] fs = fs"
| "delete_logs rm logDir (sid # ids) fs = delete_logs rm logDir ids (fst (DeleteLog rm logDir sid fs))"

definition store_Cleanup ::
  "(time \<Rightarrow> int \<Rightarrow> time) \<Rightarrow> time \<Rightarrow> (string \<Rightarrow> bool) \<Rightarrow> save_io \<Rightarrow> int
   \<Rightarrow> session_store \<times> log_fs \<times> session_record store_file
   \<Rightarrow> (session_store \<times> log_fs \<times> session_record store_file) \<times> nat \<times> string option" where
  "store_Cleanup addDays now rm io retentionDays st =
     (let (s, fs, disk) = st in
      if retentionDays \<le> 0 then (st, 0, None)
      else
        let cutoff = addDays now (- retentionDays);
            toDelete = map fst (filter (\<lambda>(_, r). expired cutoff r) (ss_records s));
            s = s\<lparr>ss_records := gdel_all toDelete (ss_records s)\<rparr>;
            fs = delete_logs rm (ss_logDir s) toDelete fs
        in if 0 < length toDelete then
             let (disk, err) = store_Save io s disk in ((s, fs, disk), length toDelete, err)
           else ((s, fs, disk), 0, None))"

definition store_Count :: "session_store \<Rightarrow> nat" where
  "store_Count s = length (ss_records s)"

definition store_CountEnded :: "session_store \<Rightarrow> nat" where
  "store_CountEnded s = length (filter (\<lambda>r. rec_Status r = ''ended'') (gvals (ss_records s)))"

fun command_string :: "string \<Rightarrow> string list \<Rightarrow> string" where
  "command_string cmd [] = cmd"
| "command_string cmd (arg # args) = command_string (cmd @ '' '' @ arg) args"

definition CreateRecord :: "session \<Rightarrow> string \<Rightarrow> session_record" where
  "CreateRecord sess logDir =
     \<lparr>rec_ID = s_ID sess, rec_Name = s_Name sess, rec_ProjectID = s_ProjectID sess,
      rec_Tool = s_Tool sess, rec_WorkingDirectory = s_WorkingDirectory sess,
      rec_Command = command_string (s_Tool sess) (s_Args sess), rec_Created = s_CreatedAt sess,
      rec_Ended = 0, rec_Status = status_String (s_status sess),
      rec_LogPath = join_paths [logDir, s_ID sess @ ''.log'']\<rparr>"

section \<open>The store as a keyed store\<close>

definition store_wf :: "session_store \<Rightarrow> bool" where
  "store_wf s \<longleftrightarrow> gwf (ss_records s) \<and> (\<forall>k r. gget (ss_records s) k = Some r \<longrightarrow> rec_ID r = k)"

lemma store_wf_key: "store_wf s \<Longrightarrow> gget (ss_records s) k = Some r \<Longrightarrow> rec_ID r = k"
  by (simp add: store_wf_def)

interpretation session_ks: keyed_store store_Get store_Add store_Delete "\<lambda>s. gvals (ss_records s)"
  rec_ID "NewStore dataDir logDir" store_wf
proof unfold_locales
  fix s :: session_store and r k k'
  show "store_wf (NewStore dataDir logDir)" "store_Get (NewStore dataDir logDir) k = None"
    by (simp_all add: store_wf_def NewStore_def store_Get_def)
  assume wf: "store_wf s"
  then have g: "gwf (ss_records s)" by (simp add: store_wf_def)
  show "store_wf (store_Add r s)" using wf by (auto simp: store_wf_def store_Add_def gomap_simps)
  show "store_Get (store_Add r s) k = (if k = rec_ID r then Some r else store_Get s k)"
    by (simp add: store_Get_def store_Add_def gomap_simps)
  show "store_wf (fst (store_Delete k s))" using wf
    by (auto simp: store_wf_def store_Delete_def gomap_simps split: option.splits)
  show "store_Get (fst (store_Delete k s)) k' = (if k' = k then None else store_Get s k')"
    by (auto simp: store_Get_def store_Delete_def gomap_simps split: option.splits)
  show "snd (store_Delete k s) \<longleftrightarrow> store_Get s k \<noteq> None"
    by (simp add: store_Get_def store_Delete_def split: option.splits)
  show "r \<in> set (gvals (ss_records s)) \<longleftrightarrow> store_Get s (rec_ID r) = Some r"
    using set_gvals_iff [OF g, of r] store_wf_key [OF wf] by (auto simp: store_Get_def)
  show "store_Get s k = Some r \<Longrightarrow> rec_ID r = k" using store_wf_key [OF wf] by (simp add: store_Get_def)
  have "map rec_ID (gvals (ss_records s)) = map fst (ss_records s)"
    using store_wf_key [OF wf] gget_eq_Some_iff [OF g] by (auto simp: gvals_def)
  then show "distinct (map rec_ID (gvals (ss_records s)))" using g by (simp add: gwf_def)
qed

lemma load_records_puts:
  "\<forall>r \<in> set rs. rec_ID r \<noteq> [] \<Longrightarrow>
    load_records (map Some rs) (ss_records s) = ss_records (fold store_Add rs s)"
proof (induction rs arbitrary: s)
  case (Cons r rs)
  then show ?case using Cons.IH [of "store_Add r s"] by (simp add: store_Add_def)
qed simp

definition record_text :: "session_record \<Rightarrow> bool" where
  "record_text r \<longleftrightarrow> list_all valid_utf8 [rec_ID r, rec_Name r, rec_ProjectID r, rec_Tool r,
     rec_WorkingDirectory r, rec_Command r, rec_Status r, rec_LogPath r]"

lemma json_record_text [simp]: "record_text r \<Longrightarrow> json_record r = r"
  by (simp add: record_text_def json_record_def)

lemma store_wf_Update:
  "store_wf s \<Longrightarrow> (\<And>r. rec_ID (f r) = rec_ID r) \<Longrightarrow> store_wf (fst (store_Update k f s))"
  by (auto simp: store_wf_def store_Update_def gomap_simps split: option.splits)

lemma store_Get_Update:
  "store_Get (fst (store_Update k f s)) k' = (if k' = k then map_option f (store_Get s k) else store_Get s k')"
  by (auto simp: store_Get_def store_Update_def gomap_simps split: option.splits)

lemma store_wf_MarkEnded: "store_wf s \<Longrightarrow> store_wf (fst (store_MarkEnded now k s))"
  by (simp add: store_MarkEnded_def store_wf_Update)

lemma delete_logs_other:
  "\<not> has_prefix p (clean_path dir @ ''/'') \<Longrightarrow> gget (delete_logs rm dir ids fs) p = gget fs p"
  by (induction rm dir ids fs rule: delete_logs.induct) (auto simp: DeleteLog_other)

lemma store_Cleanup_spec:
  assumes "store_wf s" and "0 < days"
    and "store_Cleanup addDays now rm io days (s, fs, disk) = ((s', fs', disk'), n, err)"
  shows "(\<forall>sid. store_Get s' sid =
            (case store_Get s sid of
               Some r \<Rightarrow> if expired (addDays now (- days)) r then None else Some r | None \<Rightarrow> None))
    \<and> n = length (filter (expired (addDays now (- days))) (gvals (ss_records s)))
    \<and> (\<forall>p. has_prefix p (clean_path (ss_logDir s) @ ''/'') \<or> gget fs' p = gget fs p)"
proof -
  let ?cut = "addDays now (- days)"
  let ?del = "map fst (filter (\<lambda>(_, r). expired ?cut r) (ss_records s))"
  have st: "ss_records s' = gdel_all ?del (ss_records s)" "fs' = delete_logs rm (ss_logDir s) ?del fs"
    "n = length ?del"
    using assms(2,3) by (auto simp: store_Cleanup_def Let_def split_def split: if_splits)
  have g: "gwf (ss_records s)" using assms(1) by (simp add: store_wf_def)
  have mem: "sid \<in> set ?del \<longleftrightarrow> (\<exists>r. gget (ss_records s) sid = Some r \<and> expired ?cut r)" for sid
    using gget_eq_Some_iff [OF g] by force
  have "store_Get s' sid = (case store_Get s sid of
      Some r \<Rightarrow> if expired ?cut r then None else Some r | None \<Rightarrow> None)" for sid
    using mem [of sid] by (auto simp: store_Get_def st(1) gget_gdel_all split: option.splits)
  moreover have "length ?del = length (filter (expired ?cut) (gvals (ss_records s)))"
    by (simp add: gvals_def filter_map comp_def split_def)
  moreover have "has_prefix p (clean_path (ss_logDir s) @ ''/'') \<or> gget fs' p = gget fs p" for p
    using delete_logs_other unfolding st(2) by blast
  ultimately show ?thesis unfolding st(3) by blast
qed

lemma store_wf_Cleanup:
  "store_wf s \<Longrightarrow> store_wf (fst (fst (store_Cleanup addDays now rm io days (s, fs, disk))))"
  by (auto simp: store_Cleanup_def Let_def split_def store_wf_def gget_gdel_all)

text \<open>Marking many sessions ended.\<close>

definition mark_all :: "time \<Rightarrow> string list \<Rightarrow> session_store \<Rightarrow> session_store" where
  "mark_all now ids st = fold (\<lambda>sid st. fst (store_MarkEnded now sid st)) ids st"

lemma store_wf_mark_all: "store_wf st \<Longrightarrow> store_wf (mark_all now ids st)"
  unfolding mark_all_def by (induction ids arbitrary: st) (auto simp: store_wf_MarkEnded)

lemma store_Get_mark_all:
  "store_Get (mark_all now ids st) k =
    (if k \<in> set ids then map_option (\<lambda>r. r\<lparr>rec_Status := ''ended'', rec_Ended := now\<rparr>) (store_Get st k)
     else store_Get st k)"
  unfolding mark_all_def
  by (induction ids arbitrary: st)
     (auto simp: store_MarkEnded_def store_Get_Update option.map_comp comp_def)

section \<open>Properties\<close>

text \<open>
  The session store survives a restart. If its records have ids and are valid text, a
  store loaded from the file that a successful save wrote answers every lookup as the saved
  one did; a failed save leaves the file as it was.
\<close>
lemma session_store_save_load:
  assumes "store_wf s" and "\<forall>r \<in> set (gvals (ss_records s)). rec_ID r \<noteq> [] \<and> record_text r"
  shows "store_Get (fst (store_Load (fst (store_Save SaveOk s disk)) (NewStore dataDir logDir))) sid
           = store_Get s sid
    \<and> fst (store_Save (SaveFails e) s disk) = disk"
proof -
  let ?rs = "newest_first rec_Created (gvals (ss_records s))"
  have "map json_record ?rs = ?rs" using assms(2) by (intro map_idI) simp
  then have load: "fst (store_Load (fst (store_Save SaveOk s disk)) (NewStore dataDir logDir))
      = (NewStore dataDir logDir)\<lparr>ss_records := load_records (map Some ?rs) []\<rparr>"
    by (simp add: store_Save_def write_store_def store_Load_def)
  have "load_records (map Some ?rs) [] = ss_records (fold store_Add ?rs (NewStore dataDir logDir))"
    using load_records_puts [of ?rs "NewStore dataDir logDir"] assms(2) by (simp add: NewStore_def)
  moreover have "store_Get (fold store_Add ?rs (NewStore dataDir logDir)) sid = store_Get s sid"
    using assms(1) session_ks.entries_distinct
    by (intro session_ks.rebuild) auto
  ultimately show ?thesis
    unfolding load by (simp add: store_Get_def store_Save_def write_store_def)
qed

lemma session_store_save_load_witness:
  "\<exists>s. store_Get s ''a'' \<noteq> None
    \<and> store_Get (fst (store_Load (fst (store_Save SaveOk s NoFile)) (NewStore ''/d'' ''/l''))) ''a''
      = store_Get s ''a''"
proof -
  let ?r = "\<lparr>rec_ID = ''a'', rec_Name = ''n'', rec_ProjectID = [], rec_Tool = ''claude'',
             rec_WorkingDirectory = ''/'', rec_Command = ''claude'', rec_Created = 1, rec_Ended = 0,
             rec_Status = ''idle'', rec_LogPath = ''/l/a.log''\<rparr>"
  let ?store = "store_Add ?r (NewStore ''/d'' ''/l'')"
  have wf: "store_wf ?store" by (simp add: session_ks.wf_put session_ks.wf_empty)
  have "\<forall>r \<in> set (gvals (ss_records ?store)). rec_ID r \<noteq> [] \<and> record_text r"
    by (simp add: store_Add_def NewStore_def gput_def gvals_def record_text_def
        valid_utf8_ascii bval_def del: valid_utf8.simps)
  from session_store_save_load [OF wf this, of NoFile "''/d''" "''/l''" "''a''"]
  show ?thesis
    by (intro exI [of _ ?store]) (simp add: session_ks.lookup_put session_ks.wf_empty)
qed

text \<open>
  Retention removes exactly what it may. \<open>Cleanup\<close> drops the records that are marked
  ended, have an end time and ended before the cutoff, and keeps every other record as it is;
  files outside the log directory are untouched; it reports the number of records dropped.
\<close>
lemma session_cleanup_exact:
  assumes "store_wf s" and "0 < days"
    and "store_Cleanup addDays now rm io days (s, fs, disk) = ((s', fs', disk'), n, err)"
  shows "(\<forall>sid. store_Get s' sid =
            (case store_Get s sid of
               Some r \<Rightarrow> if expired (addDays now (- days)) r then None else Some r | None \<Rightarrow> None))
    \<and> n = length (filter (expired (addDays now (- days))) (gvals (ss_records s)))
    \<and> (\<forall>p. has_prefix p (clean_path (ss_logDir s) @ ''/'') \<or> gget fs' p = gget fs p)"
  using store_Cleanup_spec [OF assms] .

lemma session_cleanup_exact_witness:
  "\<exists>s s' fs' disk' n err. store_Get s ''a'' \<noteq> None
    \<and> store_Cleanup (\<lambda>t d. t + d * 86400) 1000000 (\<lambda>_. True) SaveOk 1 (s, [], NoFile) = ((s', fs', disk'), n, err)
    \<and> store_Get s' ''a'' = None"
proof -
  let ?r = "\<lparr>rec_ID = ''a'', rec_Name = ''n'', rec_ProjectID = [], rec_Tool = ''claude'',
             rec_WorkingDirectory = ''/'', rec_Command = ''claude'', rec_Created = 1, rec_Ended = 2,
             rec_Status = ''ended'', rec_LogPath = ''/l/a.log''\<rparr>"
  let ?store = "store_Add ?r (NewStore ''/d'' ''/l'')"
  have wf: "store_wf ?store" by (simp add: session_ks.wf_put session_ks.wf_empty)
  obtain s' fs' disk' n err where c: "store_Cleanup (\<lambda>t d. t + d * 86400) 1000000 (\<lambda>_. True) SaveOk 1
      (?store, [], NoFile) = ((s', fs', disk'), n, err)"
    by (metis prod_cases3)
  have "store_Get s' ''a'' = None"
    using session_cleanup_exact [OF wf _ c]
    by (simp add: session_ks.lookup_put session_ks.wf_empty expired_def is_zero_def)
  with c show ?thesis
    by (intro exI [of _ ?store] exI [of _ s'] exI [of _ fs'] exI [of _ disk'] exI [of _ n] exI [of _ err])
       (simp add: session_ks.lookup_put session_ks.wf_empty)
qed

text \<open>
  History lists the newest ended sessions. The listing is a prefix, of the asked length,
  of all the project's ended sessions sorted by end time; so no session left out ended later
  than one listed, and another project's sessions take no place in it.
\<close>
lemma session_history_newest:
  assumes "0 < limit" and "r \<in> set (gvals (ss_records s))" and "rec_Status r = ''ended''"
    and "projectID = [] \<or> rec_ProjectID r = projectID"
    and "r \<notin> set (store_ListEndedForProject projectID limit s)"
  shows "length (store_ListEndedForProject projectID limit s) = nat limit
    \<and> (\<forall>q \<in> set (store_ListEndedForProject projectID limit s). rec_Ended r \<le> rec_Ended q
          \<and> rec_Status q = ''ended'' \<and> (projectID = [] \<or> rec_ProjectID q = projectID))"
proof -
  let ?m = "\<lambda>r. rec_Status r = ''ended'' \<and> (projectID = [] \<or> rec_ProjectID r = projectID)"
  let ?rs = "newest_first rec_Ended (filter ?m (gvals (ss_records s)))"
  have r: "r \<in> set ?rs" using assms(2-4) by simp
  then have lim: "limit < int (length ?rs)" "store_ListEndedForProject projectID limit s = take (nat limit) ?rs"
    using assms(1,5) by (auto simp: store_ListEndedForProject_def Let_def split: if_splits)
  let ?new = "take (nat limit) ?rs" and ?old = "drop (nat limit) ?rs"
  have "r \<notin> set ?new" using assms(5) lim(2) by simp
  moreover have "r \<in> set (?new @ ?old)" using r by (simp only: append_take_drop_id)
  ultimately have old: "r \<in> set ?old" unfolding set_append by blast
  have "sorted_wrt (\<lambda>x y. rec_Ended y \<le> rec_Ended x) (?new @ ?old)"
    by (simp only: append_take_drop_id sorted_newest_first)
  then have "\<forall>q \<in> set ?new. rec_Ended r \<le> rec_Ended q"
    using old unfolding sorted_wrt_append by blast
  moreover have "set (take (nat limit) ?rs) \<subseteq> {q. ?m q}"
    by (rule subset_trans [OF set_take_subset]) auto
  moreover have "length (take (nat limit) ?rs) = nat limit" using lim(1) assms(1) by simp
  ultimately show ?thesis using lim(2) by auto
qed

lemma session_history_newest_witness:
  "\<exists>s r. r \<in> set (gvals (ss_records s)) \<and> r \<notin> set (store_ListEndedForProject [] 1 s)
    \<and> length (store_ListEndedForProject [] 1 s) = 1"
proof -
  define r where "r = (\<lambda>k t. \<lparr>rec_ID = k, rec_Name = ''n'', rec_ProjectID = [], rec_Tool = ''claude'',
             rec_WorkingDirectory = ''/'', rec_Command = ''claude'', rec_Created = 1, rec_Ended = t,
             rec_Status = ''ended'', rec_LogPath = ''/l/a.log''\<rparr>)"
  let ?store = "store_Add (r ''b'' 3) (store_Add (r ''a'' 2) (NewStore ''/d'' ''/l''))"
  have list: "store_ListEndedForProject [] 1 ?store = [r ''b'' 3]"
    by (simp add: store_ListEndedForProject_def store_Add_def NewStore_def gput_def gvals_def
        r_def newest_first_def Let_def)
  moreover have "r ''a'' 2 \<in> set (gvals (ss_records ?store))"
    by (simp add: store_Add_def NewStore_def gput_def gvals_def r_def)
  moreover have "r ''a'' 2 \<notin> set (store_ListEndedForProject [] 1 ?store)"
    unfolding list by (simp add: r_def)
  ultimately show ?thesis
    using session_history_newest [of 1 "r ''a'' 2" ?store "[]"]
    by (intro exI [of _ ?store] exI [of _ "r ''a'' 2"]) (simp add: r_def)
qed

end
