(* ===== verification/Mode_Replay.thy ===== *)
theory Mode_Replay
  imports Modes
begin

text \<open>
  Replaying to a fresh terminal: the preamble for the current modes, then a suffix of the
  output. Wherever the suffix starts (even inside an escape sequence), the terminal ends in
  the current modes.
\<close>

text \<open>
  A replaying tracker \<open>f\<close> and the real one \<open>r\<close>, with \<open>e\<close> the modes to be reached: each mode
  of \<open>f\<close> is that of \<open>r\<close>, or still the one the preamble set.
\<close>

definition modes_between :: "mode_tracker \<Rightarrow> mode_tracker \<Rightarrow> mode_tracker \<Rightarrow> bool" where
  "modes_between e f r \<longleftrightarrow>
     mt_altBuffer f \<in> {mt_altBuffer r, mt_altBuffer e}
     \<and> mt_mouseTracking f \<in> {mt_mouseTracking r, mt_mouseTracking e}
     \<and> mt_mouseEncoding f \<in> {mt_mouseEncoding r, mt_mouseEncoding e}
     \<and> (\<forall>m. mode_bool f m \<in> {mode_bool r m, mode_bool e m})"

definition same_modes :: "mode_tracker \<Rightarrow> mode_tracker \<Rightarrow> bool" where
  "same_modes f e \<longleftrightarrow> mt_altBuffer f = mt_altBuffer e \<and> mt_mouseTracking f = mt_mouseTracking e
     \<and> mt_mouseEncoding f = mt_mouseEncoding e \<and> (\<forall>m. mode_bool f m = mode_bool e m)"

lemma mode_bool_put [simp]:
  "mode_bool (t\<lparr>mt_bools := gput m v (mt_bools t)\<rparr>) k = (if k = m then v else mode_bool t k)"
  by (simp add: mode_bool_def gomap_simps)

lemma mode_bool_fields [simp]:
  "mode_bool (t\<lparr>mt_altBuffer := x\<rparr>) k = mode_bool t k"
  "mode_bool (t\<lparr>mt_mouseTracking := x\<rparr>) k = mode_bool t k"
  "mode_bool (t\<lparr>mt_mouseEncoding := x\<rparr>) k = mode_bool t k"
  "mode_bool (t\<lparr>mt_state := s\<rparr>) k = mode_bool t k"
  "mode_bool (t\<lparr>mt_params := ps\<rparr>) k = mode_bool t k"
  "mode_bool (t\<lparr>mt_overflow := b\<rparr>) k = mode_bool t k"
  by (simp_all add: mode_bool_def)

lemma modes_between_parser [simp]:
  "modes_between e (f\<lparr>mt_state := s\<rparr>) r = modes_between e f r"
  "modes_between e f (r\<lparr>mt_state := s\<rparr>) = modes_between e f r"
  "modes_between e (f\<lparr>mt_params := ps\<rparr>) r = modes_between e f r"
  "modes_between e f (r\<lparr>mt_params := ps\<rparr>) = modes_between e f r"
  "modes_between e (f\<lparr>mt_overflow := b\<rparr>) r = modes_between e f r"
  "modes_between e f (r\<lparr>mt_overflow := b\<rparr>) = modes_between e f r"
  by (simp_all add: modes_between_def)

lemma same_modes_parser [simp]:
  "same_modes (f\<lparr>mt_state := s\<rparr>) e = same_modes f e"
  by (simp add: same_modes_def)

lemma same_modes_between: "same_modes f e \<Longrightarrow> modes_between e f r"
  by (simp add: modes_between_def same_modes_def)

lemma modes_between_set: "modes_between e f r \<Longrightarrow> modes_between e (mode_set b m f) (mode_set b m r)"
  by (simp add: mode_set_def modes_between_def)

lemma modes_between_params:
  "modes_between e f r \<Longrightarrow> modes_between e (mode_params b ps f) (mode_params b ps r)"
  by (induction ps arbitrary: f r) (auto simp: modes_between_set split: option.splits)

lemma modes_between_apply:
  "modes_between e f r \<Longrightarrow> modes_between e (mode_apply ps b f) (mode_apply ps b r)"
  by (simp add: mode_apply_def modes_between_params)

lemma mode_apply_parser [simp]:
  "mt_state (mode_apply ps b t) = mt_state t"
proof -
  have set: "mt_state (mode_set b m t) = mt_state t" for m t by (simp add: mode_set_def)
  have "mt_state (mode_params b qs t) = mt_state t" for qs
    by (induction qs arbitrary: t) (auto simp: set split: option.splits)
  then show ?thesis by (simp add: mode_apply_def)
qed

text \<open>
  The replay is out of step (the suffix started inside a sequence the replay does not know
  of), or in step with the real parser.
\<close>

definition replay_rel :: "mode_tracker \<Rightarrow> mode_tracker \<Rightarrow> mode_tracker \<Rightarrow> bool" where
  "replay_rel e f r \<longleftrightarrow>
     (mt_state f = MsGround \<and> mt_state r \<noteq> MsGround \<and> same_modes f e)
     \<or> (mt_state f = mt_state r \<and> modes_between e f r
        \<and> (mt_state r = MsCSI \<longrightarrow> mt_params f = mt_params r \<and> mt_overflow f = mt_overflow r))"

lemma replay_rel_byte: "replay_rel e f r \<Longrightarrow> replay_rel e (mode_byte b f) (mode_byte b r)"
proof -
  assume rel: "replay_rel e f r"
  then consider (out) "mt_state f = MsGround" "mt_state r \<noteq> MsGround" "same_modes f e"
    | (step) "mt_state f = mt_state r" "modes_between e f r"
        "mt_state r = MsCSI \<longrightarrow> mt_params f = mt_params r \<and> mt_overflow f = mt_overflow r"
    by (auto simp: replay_rel_def)
  then show ?thesis
  proof cases
    case out
    have "modes_between e f t" for t using out(3) by (rule same_modes_between)
    with out show ?thesis
      by (cases "mt_state r") (auto simp: replay_rel_def mode_byte_def Let_def escByte_def)
  next
    case step
    then show ?thesis
      by (cases "mt_state r")
         (auto simp: replay_rel_def mode_byte_def Let_def modes_between_apply)
  qed
qed

lemma replay_rel_process: "replay_rel e f r \<Longrightarrow> replay_rel e (mode_process f data) (mode_process r data)"
  unfolding mode_process_def by (induction data arbitrary: f r) (auto simp: replay_rel_byte)

lemma mode_bool_untracked:
  "mode_wf t \<Longrightarrow> m \<notin> set trackedBoolModes \<Longrightarrow> mode_bool t m = defaultOnModes m"
  using gget_None_iff [of "mt_bools t" m] by (auto simp: mode_wf_def mode_bool_def split: option.splits)

lemma same_modes_view:
  assumes "mode_wf f" and "mode_wf e"
  shows "same_modes f e \<longleftrightarrow> mode_view f = mode_view e"
proof
  assume "mode_view f = mode_view e"
  then have *: "mode_bool f m = mode_bool e m" if "m \<in> set trackedBoolModes" for m
    using that by (auto simp: mode_view_def)
  have "mode_bool f m = mode_bool e m" for m
    using * [of m] mode_bool_untracked [OF assms(1), of m] mode_bool_untracked [OF assms(2), of m]
    by (cases "m \<in> set trackedBoolModes") auto
  with \<open>mode_view f = mode_view e\<close> show "same_modes f e"
    by (simp add: same_modes_def mode_view_def)
qed (simp add: same_modes_def mode_view_def)

lemma replay_restores:
  assumes "e = mode_process new_modeTracker (old @ recent)"
  shows "mode_view (mode_process new_modeTracker (mode_preamble e @ recent)) = mode_view e"
proof -
  let ?f = "mode_process new_modeTracker (mode_preamble e)"
  let ?r = "mode_process new_modeTracker old"
  have wf: "mode_wf e" "mode_wf ?f" using assms by (simp_all add: mode_wf_process mode_wf_new)
  have "same_modes ?f e" "mt_state ?f = MsGround"
    using mode_preamble_restores [OF wf(1)] same_modes_view [OF wf(2,1)] by simp_all
  then have "replay_rel e ?f ?r"
    using same_modes_between by (auto simp: replay_rel_def)
  then have "replay_rel e (mode_process ?f recent) (mode_process ?r recent)"
    by (rule replay_rel_process)
  moreover have "mode_process ?r recent = e" by (simp add: assms mode_process_append)
  ultimately have "same_modes (mode_process ?f recent) e"
    by (auto simp: replay_rel_def modes_between_def same_modes_def)
  then show ?thesis
    using same_modes_view [of "mode_process ?f recent" e] wf
    by (simp add: mode_process_append mode_wf_process)
qed

end
