(* ===== verification/Session_Stream.thy ===== *)
theory Session_Stream
  imports Session Mode_Replay
begin

text \<open>
  What attached clients see of a session's output. An execution is a sequence of the
  session's operations, interleaved in any order (\<open>session_op\<close>); the theorems say that a
  client's replay and its live stream together are the whole output, with a gap marker at
  exactly the places where output was dropped for it, and that scrollback stays within its
  bound and on a rune boundary.
\<close>

section \<open>Executions\<close>

text \<open>
  A consumer's view: a chunk, or a gap. An empty item is the in-band gap marker
  (\<open>server.Attach\<close>'s \<open>deliver\<close>); a pending gap is surfaced once the queue is empty.
\<close>

datatype view = Chunk bytes | Gap

definition as_view :: "bytes \<Rightarrow> view" where
  "as_view b = (if length b = 0 then Gap else Chunk b)"

definition surface_gap :: "string \<Rightarrow> session \<Rightarrow> session \<times> view list" where
  "surface_gap cid s =
     (case gget (s_clients s) cid of
        None \<Rightarrow> (s, [])
      | Some cs \<Rightarrow>
          if length (ch_buf (cs_ch cs)) = 0
          then let (s, gap) = TakeOutputGap cid s in (s, if gap then [Gap] else [])
          else (s, []))"

datatype session_op =
    OpOutput time "string \<Rightarrow> bool \<times> bool" bytes
  | OpTrack bytes
  | OpAttach string int
  | OpNoteAttached nat
  | OpDetach string
  | OpNoteDetached bool
  | OpRecv string
  | OpSurfaceGap string
  | OpResize int int
  | OpInput time bytes
  | OpEnd time

text \<open>\<open>None\<close> is a panic. The result lists what consumers saw, with the client's id.\<close>

fun session_step :: "session_op \<Rightarrow> session \<Rightarrow> (session \<times> (string \<times> view) list) option" where
  "session_step (OpOutput now takes data) s =
     (let (s, got) = appendAndBroadcast now takes data s in Some (s, map (\<lambda>(c, x). (c, as_view x)) got))"
| "session_step (OpTrack data) s = Some (reader_track data s, [])"
| "session_step (OpAttach cid n) s = Some (fst (AttachClient_locked cid n s), [])"
| "session_step (OpNoteAttached n) s = Some (noteClientAttached n s, [])"
| "session_step (OpDetach cid) s = map_option (\<lambda>(s, _). (s, [])) (RemoveClient_locked cid s)"
| "session_step (OpNoteDetached upd) s = Some (noteClientRemoved upd s, [])"
| "session_step (OpRecv cid) s =
     (let (s, x) = client_recv cid s in
      Some (s, case x of None \<Rightarrow> [] | Some x \<Rightarrow> [(cid, as_view x)]))"
| "session_step (OpSurfaceGap cid) s =
     (let (s, v) = surface_gap cid s in Some (s, map (Pair cid) v))"
| "session_step (OpResize cols rows) s = Some (fst (session_Resize cols rows s), [])"
| "session_step (OpInput now data) s = Some (fst (session_Write now data s), [])"
| "session_step (OpEnd now) s = Some (fst (markDone now s), [])"

fun session_run :: "session_op list \<Rightarrow> session \<Rightarrow> (session \<times> (string \<times> view) list) option" where
  "session_run [] s = Some (s, [])"
| "session_run (op # ops) s =
     (case session_step op s of
        None \<Rightarrow> None
      | Some (s', seen) \<Rightarrow> map_option (\<lambda>(s'', seen'). (s'', seen @ seen')) (session_run ops s'))"

fun outputs :: "session_op list \<Rightarrow> bytes list" where
  "outputs [] = []"
| "outputs (OpOutput now takes data # ops) = data # outputs ops"
| "outputs (_ # ops) = outputs ops"

definition seen_by :: "string \<Rightarrow> (string \<times> view) list \<Rightarrow> view list" where
  "seen_by cid seen = map snd (filter (\<lambda>p. fst p = cid) seen)"

lemma seen_by_append [simp]: "seen_by cid (xs @ ys) = seen_by cid xs @ seen_by cid ys"
  by (simp add: seen_by_def)

lemma seen_by_Nil [simp]: "seen_by cid [] = []"
  by (simp add: seen_by_def)

section \<open>No execution panics\<close>

lemma session_step_ok:
  assumes "clients_ok (s_clients s)"
  shows "\<exists>s' seen. session_step op s = Some (s', seen) \<and> clients_ok (s_clients s')"
proof (cases op)
  case (OpOutput now takes data)
  then show ?thesis using assms broadcast_loop_ok [OF assms, of now takes data]
    by (simp add: appendAndBroadcast_def broadcast_def split_def Let_def)
next
  case (OpAttach cid n)
  then show ?thesis using assms
    by (simp add: AttachClient_locked_def registerClient_def Let_def clients_ok_put client_ok_def)
next
  case (OpDetach cid)
  then show ?thesis
    using assms clients_ok_get [OF assms, of cid] clients_ok_del [OF assms]
    by (auto simp: RemoveClient_locked_def client_ok_def chan_close_ok split: option.splits)
next
  case (OpRecv cid)
  show ?thesis
  proof (cases "gget (s_clients s) cid")
    case None
    then show ?thesis using assms OpRecv by (simp add: client_recv_def)
  next
    case (Some cs)
    then have "client_ok cs" using assms by (rule clients_ok_get [rotated])
    then show ?thesis using assms OpRecv Some
      by (cases "ch_buf (cs_ch cs)")
         (auto simp: client_recv_def chan_recv_def client_ok_def chan_ok_def intro!: clients_ok_put)
  qed
next
  case (OpSurfaceGap cid)
  have "client_ok (cs\<lparr>cs_gapPending := False\<rparr>)" if "gget (s_clients s) cid = Some cs" for cs
    using clients_ok_get [OF assms that] by (simp add: client_ok_def)
  then show ?thesis using assms OpSurfaceGap
    by (auto simp: surface_gap_def TakeOutputGap_def Let_def clients_ok_put split: option.splits)
qed (use assms in \<open>auto simp: reader_track_def noteClientAttached_def noteClientRemoved_def
      session_Resize_def session_Write_def markDone_def UpdateActivity_def Let_def
      split: option.splits if_splits\<close>)

lemma session_run_ok:
  assumes "clients_ok (s_clients s)"
  shows "\<exists>s' seen. session_run ops s = Some (s', seen) \<and> clients_ok (s_clients s')"
  using assms
proof (induction ops arbitrary: s)
  case (Cons op ops)
  obtain s1 seen where s1: "session_step op s = Some (s1, seen)" "clients_ok (s_clients s1)"
    using session_step_ok [OF Cons.prems] by blast
  obtain s2 seen' where "session_run ops s1 = Some (s2, seen')" "clients_ok (s_clients s2)"
    using Cons.IH [OF s1(2)] by blast
  then show ?case using s1(1) by simp
qed simp

section \<open>Gaps in a stream of chunks\<close>

text \<open>Adjacent gaps are one gap: \<open>merge_gaps\<close> is the stream up to that.\<close>

definition add_view :: "view \<Rightarrow> view list \<Rightarrow> view list" where
  "add_view x xs = (if x = Gap \<and> xs \<noteq> [] \<and> hd xs = Gap then xs else x # xs)"

definition merge_gaps :: "view list \<Rightarrow> view list" where
  "merge_gaps xs = foldr add_view xs []"

lemma foldr_add_view: "foldr add_view (add_view x xs) ys = add_view x (foldr add_view xs ys)"
  by (cases xs) (auto simp: add_view_def)

lemma merge_gaps_append: "merge_gaps (merge_gaps xs @ ys) = merge_gaps (xs @ ys)"
proof (induction xs)
  case (Cons x xs)
  have "merge_gaps (merge_gaps (x # xs) @ ys) = foldr add_view (add_view x (merge_gaps xs)) (merge_gaps ys)"
    by (simp add: merge_gaps_def)
  also have "\<dots> = add_view x (merge_gaps (merge_gaps xs @ ys))"
    by (simp add: foldr_add_view) (simp add: merge_gaps_def)
  finally show ?case using Cons.IH by (simp add: merge_gaps_def)
qed (simp add: merge_gaps_def)

lemma merge_gaps_cong: "merge_gaps xs = merge_gaps ys \<Longrightarrow> merge_gaps (xs @ zs) = merge_gaps (ys @ zs)"
  by (metis merge_gaps_append)

lemma merge_gaps_twice: "merge_gaps (xs @ [Gap, Gap]) = merge_gaps (xs @ [Gap])"
  by (simp add: merge_gaps_def add_view_def)

lemma merge_gaps_no_gap: "Gap \<notin> set xs \<Longrightarrow> merge_gaps xs = xs"
  by (induction xs) (auto simp: merge_gaps_def add_view_def)

lemma set_merge_gaps [simp]: "set (merge_gaps xs) = set xs"
proof (induction xs)
  case (Cons x xs)
  have "set (add_view x ys) = insert x (set ys)" for ys
    by (cases ys) (auto simp: add_view_def)
  then show ?case using Cons.IH by (simp add: merge_gaps_def)
qed (simp add: merge_gaps_def)

section \<open>What one client sees\<close>

text \<open>What was broadcast to a client, with a flag for each chunk that was queued for it.\<close>

type_synonym deliveries = "(bytes \<times> bool) list"

definition stream_view :: "deliveries \<Rightarrow> view list" where
  "stream_view hist = map (\<lambda>(d, ok). if ok then Chunk d else Gap) hist"

text \<open>What the consumer has seen, what is queued for it, and the gap it is still owed.\<close>

definition client_view :: "view list \<Rightarrow> client_state \<Rightarrow> view list" where
  "client_view seen cs =
     seen @ map as_view (ch_buf (cs_ch cs)) @ (if cs_gapPending cs then [Gap] else [])"

definition client_tracks :: "deliveries \<Rightarrow> view list \<Rightarrow> client_state \<Rightarrow> bool" where
  "client_tracks hist seen cs \<longleftrightarrow> merge_gaps (client_view seen cs) = merge_gaps (stream_view hist)
     \<and> cs_dropCount cs = int (length (filter (\<lambda>p. \<not> snd p) hist))"

lemma stream_view_append [simp]: "stream_view (xs @ ys) = stream_view xs @ stream_view ys"
  by (simp add: stream_view_def)

lemma as_view_marker [simp]: "as_view gapMarker = Gap"
  by (simp add: as_view_def gapMarker_def)

lemma client_tracks_deliver:
  assumes "client_ok cs" and "client_tracks hist seen cs" and "data \<noteq> []"
  shows "\<exists>cs' got ok. deliver now takes data cs = Some (cs', got, ok) \<and> client_ok cs'
    \<and> client_tracks (hist @ [(data, ok)]) (seen @ map as_view got) cs'"
proof -
  obtain cs' got ok m where d: "deliver now takes data cs = Some (cs', got, ok)" "client_ok cs'"
    "got @ ch_buf (cs_ch cs') =
           ch_buf (cs_ch cs) @ (if m then [gapMarker] else []) @ (if ok then [data] else [])"
    "m \<longrightarrow> cs_gapPending cs" "ok \<and> cs_gapPending cs \<longrightarrow> m" "cs_gapPending cs' = (\<not> ok)"
    "cs_dropCount cs' = cs_dropCount cs + (if ok then 0 else 1)"
    by (rule deliver_spec [OF assms(1), of now takes data])
  let ?S = "seen @ map as_view (ch_buf (cs_ch cs))"
  let ?p = "if cs_gapPending cs then [Gap] else []" and ?m = "if m then [Gap] else []"
  let ?e = "if ok then [Chunk data] else [Gap]"
  have "(seen @ map as_view got) @ map as_view (ch_buf (cs_ch cs'))
      = seen @ map as_view (got @ ch_buf (cs_ch cs'))" by simp
  also have "\<dots> = ?S @ ?m @ (if ok then [Chunk data] else [])"
    unfolding d(3) using assms(3) by (simp add: as_view_def gapMarker_def)
  finally have "client_view (seen @ map as_view got) cs' = ?S @ ?m @ ?e"
    using d(6) by (simp add: client_view_def)
  moreover have "merge_gaps (?S @ ?m @ ?e) = merge_gaps ((?S @ ?p) @ ?e)"
  proof (cases "m = cs_gapPending cs")
    case False
    with d(4,5) have "\<not> m" "cs_gapPending cs" "\<not> ok" by auto
    then show ?thesis using merge_gaps_twice [of ?S] by simp
  qed simp
  moreover have "merge_gaps ((?S @ ?p) @ ?e) = merge_gaps (stream_view hist @ ?e)"
    using assms(2) by (intro merge_gaps_cong) (simp add: client_tracks_def client_view_def)
  moreover have "stream_view (hist @ [(data, ok)]) = stream_view hist @ ?e"
    by (simp add: stream_view_def)
  ultimately have "client_tracks (hist @ [(data, ok)]) (seen @ map as_view got) cs'"
    using assms(2) d(7) by (simp add: client_tracks_def)
  with d(1,2) show ?thesis by blast
qed

text \<open>The operations that leave a client attached and the session running.\<close>

fun keeps_client :: "string \<Rightarrow> session_op \<Rightarrow> bool" where
  "keeps_client cid (OpAttach c n) \<longleftrightarrow> c \<noteq> cid"
| "keeps_client cid (OpDetach c) \<longleftrightarrow> c \<noteq> cid"
| "keeps_client cid (OpEnd now) \<longleftrightarrow> False"
| "keeps_client cid (OpOutput now takes data) \<longleftrightarrow> data \<noteq> []"
| "keeps_client cid op \<longleftrightarrow> True"

definition tracked :: "string \<Rightarrow> deliveries \<Rightarrow> view list \<Rightarrow> session \<Rightarrow> bool" where
  "tracked cid hist seen s \<longleftrightarrow> clients_ok (s_clients s) \<and> \<not> s_done s
     \<and> (\<exists>cs. gget (s_clients s) cid = Some cs \<and> client_tracks hist seen cs)"

lemma tracked_step:
  assumes "tracked cid hist seen s" and "keeps_client cid op" and "session_step op s = Some (s', new)"
  shows "\<exists>hist'. map fst hist' = outputs [op] \<and> tracked cid (hist @ hist') (seen @ seen_by cid new) s'"
proof -
  obtain cs where cs: "gget (s_clients s) cid = Some cs" "client_tracks hist seen cs"
    and ok: "clients_ok (s_clients s)" "\<not> s_done s"
    using assms(1) by (auto simp: tracked_def)
  have cok: "client_ok cs" using ok(1) cs(1) by (rule clients_ok_get)
  have s'ok: "clients_ok (s_clients s')"
    using session_step_ok [OF ok(1), of op] assms(3) by auto
  have same: ?thesis if "outputs [op] = []" "seen_by cid new = []" "\<not> s_done s'"
    "gget (s_clients s') cid = Some cs"
    using that cs s'ok by (intro exI [of _ "[]"]) (simp add: tracked_def)
  show ?thesis
  proof (cases op)
    case (OpOutput now takes data)
    with assms(2) have "data \<noteq> []" by simp
    then obtain cs' got b where d: "deliver now (takes cid) data cs = Some (cs', got, b)"
      "client_tracks (hist @ [(data, b)]) (seen @ map as_view got) cs'"
      using client_tracks_deliver [OF cok cs(2)] by blast
    note g = broadcast_loop_get [where takes = takes, OF ok(1) cs(1) d(1)]
    have "seen_by cid new = map as_view got"
      using g assms(3) OpOutput ok(2)
      by (auto simp: appendAndBroadcast_def broadcast_def IsDone_def split_def Let_def seen_by_def
          filter_map comp_def)
    moreover have "gget (s_clients s') cid = Some cs'" "\<not> s_done s'"
      using g assms(3) OpOutput ok(2)
      by (auto simp: appendAndBroadcast_def broadcast_def IsDone_def split_def Let_def)
    ultimately show ?thesis using OpOutput d(2) s'ok
      by (intro exI [of _ "[(data, b)]"]) (simp add: tracked_def)
  next
    case (OpRecv c)
    show ?thesis
    proof (cases "c = cid \<and> ch_buf (cs_ch cs) \<noteq> []")
      case True
      then obtain x xs where b: "ch_buf (cs_ch cs) = x # xs" by (cases "ch_buf (cs_ch cs)") auto
      let ?cs = "cs\<lparr>cs_ch := (cs_ch cs)\<lparr>ch_buf := xs\<rparr>\<rparr>"
      have "client_view (seen @ [as_view x]) ?cs = client_view seen cs"
        by (simp add: client_view_def b)
      then have "client_tracks hist (seen @ [as_view x]) ?cs"
        using cs(2) by (simp add: client_tracks_def)
      moreover have "gget (s_clients s') cid = Some ?cs" "seen_by cid new = [as_view x]" "\<not> s_done s'"
        using assms(3) OpRecv True cs(1) b ok(2)
        by (auto simp: client_recv_def chan_recv_def gomap_simps seen_by_def)
      ultimately show ?thesis using OpRecv s'ok
        by (intro exI [of _ "[]"]) (simp add: tracked_def)
    next
      case False
      then show ?thesis
        using assms(3) OpRecv cs(1) ok(2)
        by (intro same)
           (auto simp: client_recv_def chan_recv_def gomap_simps seen_by_def
             split: option.splits recv_result.splits list.splits if_splits)
    qed
  next
    case (OpSurfaceGap c)
    show ?thesis
    proof (cases "c = cid \<and> ch_buf (cs_ch cs) = [] \<and> cs_gapPending cs")
      case True
      let ?cs = "cs\<lparr>cs_gapPending := False\<rparr>"
      have "client_view (seen @ [Gap]) ?cs = client_view seen cs"
        using True by (simp add: client_view_def)
      then have "client_tracks hist (seen @ [Gap]) ?cs"
        using cs(2) by (simp add: client_tracks_def)
      moreover have "gget (s_clients s') cid = Some ?cs" "seen_by cid new = [Gap]" "\<not> s_done s'"
        using assms(3) OpSurfaceGap True cs(1) ok(2)
        by (auto simp: surface_gap_def TakeOutputGap_def gomap_simps seen_by_def)
      ultimately show ?thesis using OpSurfaceGap s'ok
        by (intro exI [of _ "[]"]) (simp add: tracked_def)
    next
      case False
      then show ?thesis
        using assms(3) OpSurfaceGap cs(1) ok(2)
        by (intro same)
           (auto simp: surface_gap_def TakeOutputGap_def gomap_simps seen_by_def Let_def
             split: option.splits if_splits)
    qed
  next
    case (OpAttach c n)
    then show ?thesis using assms(2,3) cs(1) ok(2)
      by (intro same) (auto simp: AttachClient_locked_def registerClient_def gomap_simps Let_def)
  next
    case (OpDetach c)
    then show ?thesis using assms(2,3) cs(1) ok(2)
      by (intro same)
         (auto simp: RemoveClient_locked_def gomap_simps Let_def split: option.splits)
  qed (use assms(2,3) cs(1) ok(2) in \<open>(intro same; auto simp: reader_track_def
        noteClientAttached_def noteClientRemoved_def session_Resize_def session_Write_def
        UpdateActivity_def Let_def split: option.splits if_splits)+\<close>)
qed

lemma tracked_run:
  assumes "tracked cid hist seen s" and "list_all (keeps_client cid) ops"
    and "session_run ops s = Some (s', new)"
  shows "\<exists>hist'. map fst hist' = outputs ops \<and> tracked cid (hist @ hist') (seen @ seen_by cid new) s'"
  using assms
proof (induction ops arbitrary: hist seen s new)
  case (Cons op ops)
  obtain s1 n1 where s1: "session_step op s = Some (s1, n1)"
    using Cons.prems(3) by (auto split: option.splits)
  then obtain n2 where n2: "session_run ops s1 = Some (s', n2)" "new = n1 @ n2"
    using Cons.prems(3) by auto
  obtain h1 where h1: "map fst h1 = outputs [op]" "tracked cid (hist @ h1) (seen @ seen_by cid n1) s1"
    using tracked_step [OF Cons.prems(1) _ s1] Cons.prems(2) by auto
  obtain h2 where "map fst h2 = outputs ops"
    "tracked cid ((hist @ h1) @ h2) ((seen @ seen_by cid n1) @ seen_by cid n2) s'"
    using Cons.IH [OF h1(2) _ n2(1)] Cons.prems(2) by auto
  moreover have "outputs (op # ops) = outputs [op] @ outputs ops" by (cases op) auto
  ultimately show ?case using h1(1) n2(2) by (intro exI [of _ "h1 @ h2"]) simp
qed simp

section \<open>Scrollback\<close>

lemma skip_conts_drop:
  "\<exists>k \<le> n. k \<le> length y \<and> skip_conts n y = drop k y \<and> (\<forall>c \<in> set (take k y). is_cont c)
     \<and> (k < n \<and> k < length y \<longrightarrow> \<not> is_cont (y ! k))"
proof (induction n y rule: skip_conts.induct)
  case (3 i c b)
  show ?case
  proof (cases "is_cont c")
    case False
    then show ?thesis by (intro exI [of _ 0]) simp
  next
    case True
    with 3 obtain k where "k \<le> i" "k \<le> length b" "skip_conts i b = drop k b"
      "\<forall>c \<in> set (take k b). is_cont c" "k < i \<and> k < length b \<longrightarrow> \<not> is_cont (b ! k)" by auto
    with True show ?thesis by (intro exI [of _ "Suc k"]) auto
  qed
qed (auto intro: exI [of _ 0])

lemma skip_conts_valid:
  assumes "valid_utf8 (x @ y @ z)" and "3 \<le> length y"
  shows "valid_utf8 (skip_conts 3 y @ z)"
proof -
  obtain k where k: "k \<le> 3" "\<forall>c \<in> set (take k (y @ z)). is_cont c"
    "k < length (y @ z) \<longrightarrow> \<not> is_cont ((y @ z) ! k)" "valid_utf8 (drop k (y @ z))"
    using valid_utf8_cut [OF assms(1)] by blast
  obtain j where j: "j \<le> 3" "j \<le> length y" "skip_conts 3 y = drop j y"
    "\<forall>c \<in> set (take j y). is_cont c" "j < 3 \<and> j < length y \<longrightarrow> \<not> is_cont (y ! j)"
    using skip_conts_drop by blast
  have ky: "k \<le> length y" using k(1) assms(2) by linarith
  have "k = j"
  proof (rule ccontr)
    assume "k \<noteq> j"
    then consider (less) "k < j" | (greater) "j < k" by linarith
    then show False
    proof cases
      case less
      then have "k < length y" using j(2) by linarith
      then have "y ! k \<in> set (take j y)" using less j(2) by (auto simp: in_set_conv_nth)
      then show False using k(3) j(4) \<open>k < length y\<close> by (simp add: nth_append)
    next
      case greater
      then have "j < length y" "j < 3" using ky k(1) by linarith+
      moreover have "y ! j \<in> set (take k (y @ z))"
        using greater ky by (auto simp: in_set_conv_nth nth_append intro: exI [of _ j])
      ultimately show False using k(2) j(5) by blast
    qed
  qed
  then show ?thesis using k(4) j(3) ky by simp
qed

text \<open>
  The scrollback of an output history: its most recent bytes, within the limit, at most three
  bytes short of it, and on a rune boundary whenever the history is valid UTF-8.
\<close>

definition scrollback_of :: "int \<Rightarrow> bytes \<Rightarrow> bytes \<Rightarrow> bool" where
  "scrollback_of limit out buf \<longleftrightarrow> int (length buf) \<le> limit
     \<and> (\<exists>old. out = old @ buf \<and> (old = [] \<or> limit - 3 \<le> int (length buf)))
     \<and> (\<forall>z. valid_utf8 (out @ z) \<longrightarrow> valid_utf8 (buf @ z))"

lemma scrollback_of_trim:
  assumes "scrollback_of limit out buf" and "3 \<le> limit"
  shows "scrollback_of limit (out @ data) (trim_scrollback limit (buf @ data))"
proof (cases "limit < int (length (buf @ data))")
  case False
  then show ?thesis using assms(1) by (auto simp: scrollback_of_def trim_scrollback_def)
next
  case True
  obtain old where old: "out = old @ buf" "\<forall>z. valid_utf8 (out @ z) \<longrightarrow> valid_utf8 (buf @ z)"
    using assms(1) by (auto simp: scrollback_of_def)
  define n where "n = nat (int (length (buf @ data)) - limit)"
  define y where "y = drop n (buf @ data)"
  have len: "int (length y) = limit" using True assms(2) by (simp add: y_def n_def)
  have split: "buf @ data = take n (buf @ data) @ y"
    unfolding y_def by (simp only: append_take_drop_id)
  have trim: "trim_scrollback limit (buf @ data) = skip_conts 3 y"
    using True by (simp add: trim_scrollback_def y_def n_def)
  obtain k where k: "k \<le> 3" "k \<le> length y" "skip_conts 3 y = drop k y"
    using skip_conts_drop [of 3 y] by blast
  have "out @ data = (old @ take n (buf @ data) @ take k y) @ drop k y"
    using old(1) split by (metis append_assoc append_take_drop_id)
  moreover have "limit - 3 \<le> int (length (drop k y))" "int (length (drop k y)) \<le> limit"
    using len k by simp_all
  moreover have "valid_utf8 (skip_conts 3 y @ z)" if "valid_utf8 ((out @ data) @ z)" for z
  proof -
    have "valid_utf8 (take n (buf @ data) @ y @ z)"
      using old(2) that split by (metis append_assoc)
    then show ?thesis by (rule skip_conts_valid) (use len assms(2) in linarith)
  qed
  ultimately show ?thesis unfolding scrollback_of_def trim k(3) by blast
qed

lemma scrollback_step:
  assumes "session_step op s = Some (s', seen)" and "3 \<le> s_maxBufferSize s"
    and "scrollback_of (s_maxBufferSize s) out (s_outputBuffer s)"
  shows "s_maxBufferSize s' = s_maxBufferSize s
    \<and> scrollback_of (s_maxBufferSize s) (out @ concat (outputs [op])) (s_outputBuffer s')"
proof (cases op)
  case (OpOutput now takes data)
  have "s_maxBufferSize s' = s_maxBufferSize s"
    "s_outputBuffer s' = trim_scrollback (s_maxBufferSize s) (s_outputBuffer s @ data)"
    using assms(1) OpOutput
    by (auto simp: appendAndBroadcast_def broadcast_def split_def Let_def split: if_splits)
  then show ?thesis using scrollback_of_trim [OF assms(3,2)] OpOutput by simp
qed (use assms in \<open>auto simp: reader_track_def AttachClient_locked_def registerClient_def
      RemoveClient_locked_def client_recv_def surface_gap_def TakeOutputGap_def
      noteClientAttached_def noteClientRemoved_def session_Resize_def session_Write_def
      markDone_def UpdateActivity_def Let_def
      split: option.splits recv_result.splits if_splits\<close>)

lemma scrollback_run:
  assumes "session_run ops s = Some (s', seen)" and "3 \<le> s_maxBufferSize s"
    and "scrollback_of (s_maxBufferSize s) out (s_outputBuffer s)"
  shows "s_maxBufferSize s' = s_maxBufferSize s
    \<and> scrollback_of (s_maxBufferSize s) (out @ concat (outputs ops)) (s_outputBuffer s')"
  using assms
proof (induction ops arbitrary: s out seen)
  case (Cons op ops)
  obtain s1 n1 where s1: "session_step op s = Some (s1, n1)"
    using Cons.prems(1) by (auto split: option.splits)
  then obtain n2 where n2: "session_run ops s1 = Some (s', n2)"
    using Cons.prems(1) by auto
  have st: "s_maxBufferSize s1 = s_maxBufferSize s"
    "scrollback_of (s_maxBufferSize s) (out @ concat (outputs [op])) (s_outputBuffer s1)"
    using scrollback_step [OF s1 Cons.prems(2,3)] by blast+
  have "outputs (op # ops) = outputs [op] @ outputs ops" by (cases op) auto
  then show ?case
    using Cons.IH [OF n2, of "out @ concat (outputs [op])"] st Cons.prems(2) by simp
qed simp

lemma session_step_max: "session_step op s = Some (s', seen) \<Longrightarrow> s_maxBufferSize s' = s_maxBufferSize s"
  by (cases op)
     (auto simp: appendAndBroadcast_def broadcast_def split_def reader_track_def
        AttachClient_locked_def registerClient_def RemoveClient_locked_def client_recv_def
        surface_gap_def TakeOutputGap_def noteClientAttached_def noteClientRemoved_def
        session_Resize_def session_Write_def markDone_def UpdateActivity_def Let_def
        split: option.splits recv_result.splits if_splits)

lemma session_run_max: "session_run ops s = Some (s', seen) \<Longrightarrow> s_maxBufferSize s' = s_maxBufferSize s"
  by (induction ops arbitrary: s seen) (fastforce dest: session_step_max split: option.splits)+

lemma NewSession_start:
  assumes "s = NewSession uuid now projectID tool workingDir name args cols rows n"
  shows "clients_ok (s_clients s) \<and> \<not> s_done s \<and> s_modes s = new_modeTracker
    \<and> 0 < s_maxBufferSize s \<and> scrollback_of (s_maxBufferSize s) [] (s_outputBuffer s)"
  using assms by (simp add: NewSession_def Let_def scrollback_of_def)

lemma tracked_attach:
  assumes "clients_ok (s_clients s)" and "\<not> s_done s"
  shows "tracked cid [] [] (fst (AttachClient_locked cid n s))"
  using assms
  by (simp add: tracked_def AttachClient_locked_def registerClient_def Let_def clients_ok_put
      client_ok_def gomap_simps client_tracks_def client_view_def stream_view_def make_chan_def
      chan_ok_def)

text \<open>What the mode tracker has been fed.\<close>

fun tracks :: "session_op list \<Rightarrow> bytes list" where
  "tracks [] = []"
| "tracks (OpTrack data # ops) = data # tracks ops"
| "tracks (_ # ops) = tracks ops"

lemma session_step_modes:
  "session_step op s = Some (s', seen) \<Longrightarrow> s_modes s' = mode_process (s_modes s) (concat (tracks [op]))"
  by (cases op)
     (auto simp: appendAndBroadcast_def broadcast_def split_def reader_track_def
        AttachClient_locked_def registerClient_def RemoveClient_locked_def client_recv_def
        surface_gap_def TakeOutputGap_def noteClientAttached_def noteClientRemoved_def
        session_Resize_def session_Write_def markDone_def UpdateActivity_def Let_def
        mode_process_def
        split: option.splits recv_result.splits if_splits)

lemma session_run_modes:
  "session_run ops s = Some (s', seen) \<Longrightarrow> s_modes s' = mode_process (s_modes s) (concat (tracks ops))"
proof (induction ops arbitrary: s seen)
  case (Cons op ops)
  then obtain s1 n1 n2 where s1: "session_step op s = Some (s1, n1)" "session_run ops s1 = Some (s', n2)"
    by (auto split: option.splits)
  have "tracks (op # ops) = tracks [op] @ tracks ops" by (cases op) auto
  then show ?case using Cons.IH [OF s1(2)] session_step_modes [OF s1(1)]
    by (simp add: mode_process_append)
qed (simp add: mode_process_def)

lemmas session_eval = appendAndBroadcast_def broadcast_def IsDone_def NewSession_def Let_def
  trim_scrollback_def AttachClient_locked_def registerClient_def client_recv_def surface_gap_def
  TakeOutputGap_def reader_track_def gget_def gput_def make_chan_def deliver_def deliver_data_def
  sendBoundedUntil_def chan_send_def chan_recv_def note_drop_def gapMarker_def as_view_def

section \<open>Properties\<close>

lemma scrollback_is_recent:
  assumes "session_run before (NewSession uuid now projectID tool workingDir name args cols rows limit)
             = Some (s, seen0)"
    and "3 \<le> s_maxBufferSize s"
  shows "\<exists>old. concat (outputs before) = old @ s_outputBuffer s
    \<and> (old = [] \<or> s_maxBufferSize s - 3 \<le> int (length (s_outputBuffer s)))"
proof -
  let ?new = "NewSession uuid now projectID tool workingDir name args cols rows limit"
  note s0 = NewSession_start [OF refl, of uuid now projectID tool workingDir name args cols rows limit]
  have max0: "s_maxBufferSize s = s_maxBufferSize ?new"
    using assms(1) by (rule session_run_max)
  have "scrollback_of (s_maxBufferSize s) (concat (outputs before)) (s_outputBuffer s)"
    using scrollback_run [OF assms(1), of "[]"] s0 assms(2) max0 by simp
  then show ?thesis by (auto simp: scrollback_of_def)
qed

lemma new_run_clients_ok:
  assumes "session_run before (NewSession uuid now projectID tool workingDir name args cols rows limit)
             = Some (s, seen0)"
  shows "clients_ok (s_clients s)"
  using session_run_ok [of "NewSession uuid now projectID tool workingDir name args cols rows limit" before]
    NewSession_start [OF refl, of uuid now projectID tool workingDir name args cols rows limit] assms by auto



text \<open>
  C7: scrollback is bounded and stays readable. After any execution from a new session, the
  scrollback is a suffix of the whole output, is at most \<open>maxBufferSize\<close> bytes and at most
  three short of it once anything has been discarded, and if the output is valid UTF-8 so is
  the scrollback: discarding never leaves it starting in the middle of a character.
\<close>
theorem scrollback_bounded_on_rune_boundary:
  assumes "3 \<le> limit"
    and "session_run ops (NewSession uuid now projectID tool workingDir name args cols rows limit) = Some (s, seen)"
  shows "int (length (GetScrollback s)) \<le> limit
    \<and> (\<exists>old. concat (outputs ops) = old @ GetScrollback s
          \<and> (old = [] \<or> limit - 3 \<le> int (length (GetScrollback s))))
    \<and> (valid_utf8 (concat (outputs ops)) \<longrightarrow> valid_utf8 (GetScrollback s))"
proof -
  let ?new = "NewSession uuid now projectID tool workingDir name args cols rows limit"
  have max0: "s_maxBufferSize ?new = limit" using assms(1) by (simp add: NewSession_def Let_def)
  have "scrollback_of limit (concat (outputs ops)) (GetScrollback s)"
    using scrollback_run [OF assms(2), of "[]"] NewSession_start [OF refl, of uuid now projectID tool
        workingDir name args cols rows limit] assms(1) max0
    by (simp add: GetScrollback_def)
  then show ?thesis unfolding scrollback_of_def by (metis append_Nil2)
qed

lemma scrollback_bounded_on_rune_boundary_witness:
  "\<exists>s seen. session_run [OpOutput 1 (\<lambda>_. (True, True)) [CHR 0xE2, CHR 0x82],
                         OpOutput 2 (\<lambda>_. (True, True)) [CHR 0xAC, CHR 0x61, CHR 0x62]]
       (NewSession ''abcd'' 1 [] ''claude'' [] ''n'' [] 80 24 4) = Some (s, seen)
     \<and> int (length (GetScrollback s)) \<le> 4 \<and> valid_utf8 (GetScrollback s)"
proof -
  let ?ops = "[OpOutput 1 (\<lambda>_. (True, True)) [CHR 0xE2, CHR 0x82],
               OpOutput 2 (\<lambda>_. (True, True)) [CHR 0xAC, CHR 0x61, CHR 0x62]]"
  let ?new = "NewSession ''abcd'' 1 [] ''claude'' [] ''n'' [] 80 24 4"
  obtain s seen where run: "session_run ?ops ?new = Some (s, seen)"
    using session_run_ok [of ?new ?ops] by (auto simp: NewSession_def Let_def)
  have "valid_utf8 (concat (outputs ?ops))"
    by code_simp
  then show ?thesis
    using run scrollback_bounded_on_rune_boundary [OF _ run] by auto
qed

text \<open>
  C9: no execution of a session panics on its channels. Whatever operations clients, the
  reader and the consumers perform, in any order (attaching under an id in use, detaching
  twice, output after the end), and whenever the session is then closed, no channel is sent
  on or closed after it was closed.
\<close>
theorem session_never_panics:
  "\<exists>s seen. session_run ops (NewSession uuid now projectID tool workingDir name args cols rows limit)
       = Some (s, seen)
     \<and> session_Close t kill wr io (s, fs) \<noteq> None"
proof -
  obtain s seen where run: "session_run ops (NewSession uuid now projectID tool workingDir name args cols rows limit)
       = Some (s, seen)" "clients_ok (s_clients s)"
    using session_run_ok NewSession_start by blast
  have "close_clients cl \<noteq> None" if "\<forall>p \<in> set cl. client_ok (snd p)" for cl
    using that by (induction cl rule: close_clients.induct) (auto simp: client_ok_def chan_close_ok)
  then have "close_clients (s_clients s) \<noteq> None" using run(2) by (simp add: clients_ok_def)
  then have "session_Close t kill wr io (s, fs) \<noteq> None"
    by (auto simp: session_Close_def markDone_def Let_def split_def split: option.splits)
  with run(1) show ?thesis by blast
qed

text \<open>
  C6: a replay restores the terminal's modes. When the mode tracker has read the session's
  output, a fresh terminal that reads what \<open>AttachClient\<close> hands out (preamble and scrollback)
  ends in the session's current modes, even though the sequences that set them may have been
  discarded and scrollback may start inside an escape sequence.
\<close>
theorem attach_replay_restores_modes:
  assumes "session_run ops (NewSession uuid now projectID tool workingDir name args cols rows limit) = Some (s, seen)"
    and "concat (tracks ops) = concat (outputs ops)" and "3 \<le> limit"
    and "AttachClient_locked cid n s = (s1, replay, cnt)"
  shows "mode_view (mode_process new_modeTracker replay) = mode_view (s_modes s)"
proof -
  let ?new = "NewSession uuid now projectID tool workingDir name args cols rows limit"
  note s0 = NewSession_start [OF refl, of uuid now projectID tool workingDir name args cols rows limit]
  have "s_maxBufferSize ?new = limit" using assms(3) by (simp add: NewSession_def Let_def)
  then have "scrollback_of limit (concat (outputs ops)) (s_outputBuffer s)"
    using scrollback_run [OF assms(1), of "[]"] s0 assms(3) by simp
  then obtain old where "concat (outputs ops) = old @ s_outputBuffer s"
    by (auto simp: scrollback_of_def)
  then have "s_modes s = mode_process new_modeTracker (old @ s_outputBuffer s)"
    using session_run_modes [OF assms(1)] s0 assms(2) by simp
  moreover have "replay = mode_preamble (s_modes s) @ s_outputBuffer s"
    using assms(4) by (auto simp: AttachClient_locked_def split_def Let_def)
  ultimately show ?thesis using replay_restores by simp
qed

lemma attach_replay_restores_modes_witness:
  "\<exists>s s1 replay cnt.
     session_run [OpOutput 1 (\<lambda>_. (True, True)) ([CHR 0x1B] @ ''[?1049h''), OpTrack ([CHR 0x1B] @ ''[?1049h''),
                  OpOutput 2 (\<lambda>_. (True, True)) ''abc'', OpTrack ''abc'']
       (NewSession ''abcd'' 1 [] ''claude'' [] ''n'' [] 80 24 3) = Some (s, [])
   \<and> AttachClient_locked ''c'' 0 s = (s1, replay, cnt) \<and> s_outputBuffer s = ''abc''
   \<and> mode_view (mode_process new_modeTracker replay) = mode_view (s_modes s)"
proof -
  let ?ops = "[OpOutput 1 (\<lambda>_. (True, True)) ([CHR 0x1B] @ ''[?1049h''), OpTrack ([CHR 0x1B] @ ''[?1049h''),
                  OpOutput 2 (\<lambda>_. (True, True)) ''abc'', OpTrack ''abc'']"
  let ?new = "NewSession ''abcd'' 1 [] ''claude'' [] ''n'' [] 80 24 3"
  have run: "\<exists>s. session_run ?ops ?new = Some (s, []) \<and> s_outputBuffer s = ''abc''"
    by (simp add: session_eval numeral_3_eq_3 is_cont_def bval_def)
  then obtain s where s: "session_run ?ops ?new = Some (s, [])" "s_outputBuffer s = ''abc''" by blast
  obtain s1 replay cnt where at: "AttachClient_locked ''c'' 0 s = (s1, replay, cnt)"
    by (cases "AttachClient_locked ''c'' 0 s") auto
  have "concat (tracks ?ops) = concat (outputs ?ops)" by simp
  then have "mode_view (mode_process new_modeTracker replay) = mode_view (s_modes s)"
    using attach_replay_restores_modes [OF s(1) _ _ at] by simp
  with s at show ?thesis by blast
qed

end
