(* ===== verification/Session_Status.thy ===== *)
theory Session_Status
  imports Session_Stream
begin

text \<open>
  The life of a session: its status machine and the end of the session, the rate limit on
  attention events, the command a session runs, and what input and resizing do.
\<close>

section \<open>The status machine\<close>

text \<open>The status changes that some step of the code makes.\<close>

inductive status_step :: "status \<Rightarrow> status \<Rightarrow> bool" where
  attached: "status_step StatusIdle StatusRunning"
| detached: "status_step StatusRunning StatusIdle"
| ended: "st \<noteq> StatusEnded \<Longrightarrow> status_step st StatusEnded"

code_pred status_step .

inductive_cases status_from_ended: "status_step StatusEnded st"

definition status_inv :: "session \<Rightarrow> bool" where
  "status_inv s \<longleftrightarrow> (s_status s = StatusEnded \<longleftrightarrow> s_done s) \<and> s_status s \<noteq> StatusUnspecified"

lemma session_step_status:
  assumes "session_step op s = Some (s', seen)"
  shows "(case op of
        OpNoteAttached n \<Rightarrow> s_status s' = s_status (noteClientAttached n s) \<and> s_done s' = s_done s
      | OpNoteDetached u \<Rightarrow> s_status s' = s_status (noteClientRemoved u s) \<and> s_done s' = s_done s
      | OpEnd now \<Rightarrow> s' = fst (markDone now s)
      | _ \<Rightarrow> s_status s' = s_status s \<and> s_done s' = s_done s)"
  using assms
  by (cases op)
     (auto simp: appendAndBroadcast_def broadcast_def split_def reader_track_def
        AttachClient_locked_def registerClient_def RemoveClient_locked_def client_recv_def
        surface_gap_def TakeOutputGap_def noteClientAttached_def noteClientRemoved_def
        session_Resize_def session_Write_def UpdateActivity_def Let_def
        split: option.splits recv_result.splits if_splits)

lemma status_inv_step:
  assumes "session_step op s = Some (s', seen)" and "status_inv s"
  shows "status_inv s' \<and> (s_status s' = s_status s \<or> status_step (s_status s) (s_status s'))"
  using session_step_status [OF assms(1)] assms(2)
  by (cases op)
     (auto simp: status_inv_def noteClientAttached_def noteClientRemoved_def markDone_def
        intro: status_step.intros split: if_splits)

lemma status_inv_run:
  "session_run ops s = Some (s', seen) \<Longrightarrow> status_inv s \<Longrightarrow> status_inv s'"
  by (induction ops arbitrary: s seen) (fastforce dest: status_inv_step split: option.splits)+

lemma status_inv_New: "status_inv (NewSession uuid now projectID tool workingDir name args cols rows limit)"
  by (simp add: status_inv_def NewSession_def Let_def)

lemma done_stays: "session_run ops s = Some (s', seen) \<Longrightarrow> s_done s \<Longrightarrow> s_done s'"
proof (induction ops arbitrary: s seen)
  case (Cons op ops)
  then obtain s1 n1 n2 where s1: "session_step op s = Some (s1, n1)" "session_run ops s1 = Some (s', n2)"
    by (auto split: option.splits)
  have "s_done s1" using session_step_status [OF s1(1)] Cons.prems(2)
    by (cases op) (auto simp: markDone_def)
  with Cons.IH s1(2) show ?case by blast
qed simp

text \<open>The events of an execution.\<close>

fun op_events :: "session_op \<Rightarrow> session \<Rightarrow> event list" where
  "op_events (OpEnd now) s = snd (markDone now s)"
| "op_events _ s = []"

fun run_events :: "session_op list \<Rightarrow> session \<Rightarrow> event list" where
  "run_events [] s = []"
| "run_events (op # ops) s =
     op_events op s @ (case session_step op s of Some (s', _) \<Rightarrow> run_events ops s' | None \<Rightarrow> [])"

lemma onEvent_step: "session_step op s = Some (s', seen) \<Longrightarrow> s_onEvent s' = s_onEvent s"
  by (cases op)
     (auto simp: appendAndBroadcast_def broadcast_def split_def reader_track_def
        AttachClient_locked_def registerClient_def RemoveClient_locked_def client_recv_def
        surface_gap_def TakeOutputGap_def noteClientAttached_def noteClientRemoved_def markDone_def
        session_Resize_def session_Write_def UpdateActivity_def Let_def
        split: option.splits recv_result.splits if_splits)

lemma run_events_length:
  assumes "session_run ops s = Some (s', seen)" and "s_onEvent s"
  shows "length (run_events ops s) = (if s_done s' \<and> \<not> s_done s then 1 else 0)
    \<and> (\<forall>ev \<in> set (run_events ops s). ev_Type ev = EventTypeEnded)"
  using assms
proof (induction ops arbitrary: s seen)
  case (Cons op ops)
  then obtain s1 n1 n2 where s1: "session_step op s = Some (s1, n1)" "session_run ops s1 = Some (s', n2)"
    by (auto split: option.splits)
  have IH: "length (run_events ops s1) = (if s_done s' \<and> \<not> s_done s1 then 1 else 0)
    \<and> (\<forall>ev \<in> set (run_events ops s1). ev_Type ev = EventTypeEnded)"
    using Cons.IH [OF s1(2)] onEvent_step [OF s1(1)] Cons.prems(2) by simp
  show ?case
  proof (cases "\<exists>now. op = OpEnd now")
    case True
    then show ?thesis using IH s1 done_stays [OF s1(2)] Cons.prems(2)
      by (auto simp: markDone_def emitEvent_def split: if_splits)
  next
    case False
    then have "s_done s1 = s_done s" using session_step_status [OF s1(1)] by (cases op) auto
    moreover have "op_events op s = []" using False by (cases op) auto
    ultimately show ?thesis using IH s1(1) by simp
  qed
qed simp

section \<open>Attaching and detaching one at a time\<close>

text \<open>Executions in which attaching and detaching are not interleaved with each other.\<close>

datatype client_op = AttachOp string int | DetachOp string

fun client_step :: "client_op \<Rightarrow> session \<Rightarrow> session option" where
  "client_step (AttachOp cid n) s = Some (fst (AttachClient cid n s))"
| "client_step (DetachOp cid) s = RemoveClient cid s"

fun client_run :: "client_op list \<Rightarrow> session \<Rightarrow> session option" where
  "client_run [] s = Some s"
| "client_run (op # ops) s = (case client_step op s of None \<Rightarrow> None | Some s' \<Rightarrow> client_run ops s')"

definition attached_inv :: "session \<Rightarrow> bool" where
  "attached_inv s \<longleftrightarrow> clients_ok (s_clients s)
     \<and> s_status s = (if s_clients s = [] then StatusIdle else StatusRunning)"

lemma attached_step:
  assumes "attached_inv s"
  shows "\<exists>s'. client_step op s = Some s' \<and> attached_inv s'"
proof (cases op)
  case (AttachOp cid n)
  have ne: "gput cid cs m \<noteq> []" for cs :: client_state and m
    using length_gput [of cid cs m] by (metis length_0_conv nat.distinct(1) gget_empty)
  have one: "length (gput cid cs m) = 1" if "m = []" for cs :: client_state and m
    using that by (simp add: length_gput)
  define cs where "cs = \<lparr>cs_ch = make_chan (nat (if n \<le> 0 then 1024 else n)), cs_gapPending = False,
      cs_dropCount = 0, cs_lastDropTime = 0\<rparr>"
  let ?s = "fst (AttachClient cid n s)"
  have cl: "s_clients ?s = gput cid cs (s_clients s)"
    and st: "s_status ?s = (if length (gput cid cs (s_clients s)) = 1 \<and> s_status s = StatusIdle
                            then StatusRunning else s_status s)"
    by (simp_all add: AttachClient_def AttachClient_locked_def registerClient_def
        noteClientAttached_def Let_def cs_def)
  have "client_ok cs" by (simp add: client_ok_def cs_def)
  then have "clients_ok (s_clients ?s)" using assms by (simp add: cl attached_inv_def clients_ok_put)
  moreover have "s_status ?s = StatusRunning"
  proof (cases "s_clients s = []")
    case True
    then have "s_status s = StatusIdle" using assms by (simp add: attached_inv_def)
    then show ?thesis using one [OF True] unfolding st by simp
  next
    case False
    then have "s_status s = StatusRunning" using assms by (simp add: attached_inv_def)
    then show ?thesis unfolding st by simp
  qed
  ultimately have "attached_inv ?s" using ne by (simp add: attached_inv_def cl)
  then show ?thesis using AttachOp by simp
next
  case (DetachOp cid)
  have "chan_ok (cs_ch cs)" if "gget (s_clients s) cid = Some cs" for cs
    using assms clients_ok_get [OF _ that] by (simp add: attached_inv_def client_ok_def)
  note ch = this
  show ?thesis
  proof (cases "gget (s_clients s) cid")
    case None
    then have "RemoveClient cid s = Some (noteClientRemoved (length (s_clients s) = 0) s)"
      by (simp add: RemoveClient_def RemoveClient_locked_def)
    moreover have "attached_inv (noteClientRemoved (length (s_clients s) = 0) s)"
      using assms by (cases "s_clients s = []") (simp_all add: attached_inv_def noteClientRemoved_def)
    ultimately show ?thesis using DetachOp by simp
  next
    case (Some cs)
    let ?s = "s\<lparr>s_clients := gdel cid (s_clients s)\<rparr>"
    let ?u = "length (gdel cid (s_clients s)) = 0"
    have run: "s_status s = StatusRunning" using assms Some by (auto simp: attached_inv_def)
    have "RemoveClient cid s = Some (noteClientRemoved ?u ?s)"
      using ch [OF Some] by (simp add: RemoveClient_def RemoveClient_locked_def Some chan_close_ok Let_def)
    moreover have "clients_ok (gdel cid (s_clients s))"
      using assms by (simp add: attached_inv_def clients_ok_del)
    then have "attached_inv (noteClientRemoved ?u ?s)"
      using run by (simp add: attached_inv_def noteClientRemoved_def)
    ultimately show ?thesis using DetachOp by simp
  qed
qed

lemma attached_run:
  assumes "attached_inv s"
  shows "\<exists>s'. client_run ops s = Some s' \<and> attached_inv s'"
  using assms
proof (induction ops arbitrary: s)
  case (Cons op ops)
  then show ?case using attached_step [of s op] by (auto split: option.splits)
qed simp

section \<open>Properties\<close>

text \<open>
  C12: the status machine. In every execution from a new session, in any interleaving of its
  steps, the status is \<open>ended\<close> exactly when the session is done, and each step leaves the
  status or makes one of the transitions idle to running, running to idle, or live to ended.
\<close>
theorem session_status_machine:
  assumes "session_run ops (NewSession uuid now projectID tool workingDir name args cols rows limit) = Some (s, seen)"
    and "session_step op s = Some (s', seen')"
  shows "(s_status s' = StatusEnded \<longleftrightarrow> IsDone s')
    \<and> (s_status s' = s_status s \<or> status_step (s_status s) (s_status s'))
    \<and> (s_status s = StatusEnded \<longrightarrow> s_status s' = StatusEnded)"
proof -
  have inv: "status_inv s" using status_inv_run [OF assms(1) status_inv_New] .
  note st = status_inv_step [OF assms(2) inv]
  have "s_status s = StatusEnded \<longrightarrow> s_status s' = StatusEnded"
    using st by (auto elim: status_from_ended)
  with st show ?thesis by (auto simp: status_inv_def IsDone_def)
qed

lemma session_status_machine_witness:
  "\<exists>s s'. session_run [OpAttach ''c'' 0, OpNoteAttached 1]
       (NewSession ''abcd'' 1 [] ''claude'' [] ''n'' [] 80 24 0) = Some (s, [])
     \<and> session_step (OpEnd 5) s = Some (s', []) \<and> s_status s = StatusRunning
     \<and> status_step (s_status s) (s_status s')"
proof -
  let ?new = "NewSession ''abcd'' 1 [] ''claude'' [] ''n'' [] 80 24 0"
  have "\<exists>s. session_run [OpAttach ''c'' 0, OpNoteAttached 1] ?new = Some (s, [])
      \<and> s_status s = StatusRunning \<and> \<not> s_done s"
    by (simp add: session_eval noteClientAttached_def)
  then obtain s where s: "session_run [OpAttach ''c'' 0, OpNoteAttached 1] ?new = Some (s, [])"
    "s_status s = StatusRunning" "\<not> s_done s" by blast
  have e: "session_step (OpEnd 5) s = Some (fst (markDone 5 s), [])" by simp
  have "s_status (fst (markDone 5 s)) \<noteq> StatusRunning" using s(3) by (simp add: markDone_def)
  then have "status_step (s_status s) (s_status (fst (markDone 5 s)))"
    using session_status_machine [OF s(1) e] s(2) by auto
  with s e show ?thesis by blast
qed

text \<open>
  The end of a session is announced once. However often the reader, \<open>Kill\<close> and \<open>Close\<close>
  mark a session as done, and in any interleaving, exactly one \<open>ended\<close> event is emitted if
  the session ends and none if it does not.
\<close>
lemma session_ended_event_once:
  assumes "s = (NewSession uuid now projectID tool workingDir name args cols rows limit)\<lparr>s_onEvent := True\<rparr>"
    and "session_run ops s = Some (s', seen)"
  shows "length (run_events ops s) = (if IsDone s' then 1 else 0)
    \<and> (\<forall>ev \<in> set (run_events ops s). ev_Type ev = EventTypeEnded)"
  using run_events_length [OF assms(2)] assms(1)
  by (simp add: NewSession_def Let_def IsDone_def)

lemma session_ended_event_once_witness:
  "length (run_events [OpEnd 5, OpEnd 6]
     ((NewSession ''abcd'' 1 [] ''claude'' [] ''n'' [] 80 24 0)\<lparr>s_onEvent := True\<rparr>)) = 1"
proof -
  let ?new = "(NewSession ''abcd'' 1 [] ''claude'' [] ''n'' [] 80 24 0)\<lparr>s_onEvent := True\<rparr>"
  have "\<exists>s'. session_run [OpEnd 5, OpEnd 6] ?new = Some (s', []) \<and> s_done s'"
    by (simp add: markDone_def NewSession_def Let_def)
  then obtain s' where "session_run [OpEnd 5, OpEnd 6] ?new = Some (s', [])" "s_done s'" by blast
  then show ?thesis
    using session_ended_event_once [OF refl, of "[OpEnd 5, OpEnd 6]"] by (simp add: IsDone_def)
qed

text \<open>
  When clients attach and detach one at a time, a live session is \<open>running\<close> exactly while
  a client is attached and \<open>idle\<close> otherwise.
\<close>
lemma session_running_iff_attached:
  "\<exists>s. client_run ops (NewSession uuid now projectID tool workingDir name args cols rows limit) = Some s
     \<and> s_status s = (if ClientCount s = 0 then StatusIdle else StatusRunning)"
proof -
  have "attached_inv (NewSession uuid now projectID tool workingDir name args cols rows limit)"
    by (simp add: attached_inv_def NewSession_def Let_def)
  from attached_run [OF this, of ops] show ?thesis
    by (auto simp: attached_inv_def ClientCount_def)
qed


end
