(* ===== verification/Manager.thy ===== *)
theory Manager
  imports SessionStore Session_Status "HOL-Library.Monad_Syntax"
begin

text \<open>
  The session manager of \<open>internal/session/manager.go\<close>: the map of live sessions, the limit
  on their number, idle cleanup, and the persistent store and event hub it keeps in step with
  them. The state includes the parts of the file system the manager owns: the session logs
  and \<open>sessions.json\<close>. \<open>None\<close> is a panic; the theorems show that there is none.
\<close>

text \<open>Go's \<open>int\<close> arithmetic on a 64-bit platform.\<close>

definition int64 :: "int \<Rightarrow> int" where
  "int64 i = (i + 2 ^ 63) mod 2 ^ 64 - 2 ^ 63"

record manager =
  m_sessions :: "(string, session) gomap"
  m_idleTimeout :: time
  m_maxSessions :: int
  m_maxBufferSize :: int
  m_clientBufferSize :: int
  m_closed :: bool
  m_store :: session_store
  m_logDir :: string
  m_retentionDays :: int
  m_events :: event_hub
  m_logs :: log_fs
  m_disk :: "session_record store_file"

text \<open>What the world does during an operation: each argument is used where the code calls it.\<close>

record env =
  e_now :: time
  e_kill :: "int \<Rightarrow> signal \<Rightarrow> kill_result"
  e_write :: "bytes \<Rightarrow> nat"
  e_compress :: compress_io
  e_save :: save_io
  e_remove :: "string \<Rightarrow> bool"
  e_addDays :: "time \<Rightarrow> int \<Rightarrow> time"
  e_mkdir_log :: bool
  e_open_log :: bool
  e_shell :: string
  e_environ :: "string list"
  e_start :: "command \<Rightarrow> string + int"

section \<open>Operations\<close>

fun mark_stale :: "time \<Rightarrow> session_record list \<Rightarrow> session_store \<Rightarrow> session_store" where
  "mark_stale now [] st = st"
| "mark_stale now (r # rs) st =
     mark_stale now rs
       (if rec_Status r = ''running'' \<or> rec_Status r = ''idle''
        then fst (store_MarkEnded now (rec_ID r) st) else st)"

definition NewManager ::
  "env \<Rightarrow> log_fs \<Rightarrow> session_record store_file \<Rightarrow> int \<Rightarrow> int \<Rightarrow> int \<Rightarrow> string \<Rightarrow> string
   \<Rightarrow> int \<Rightarrow> int \<Rightarrow> int \<Rightarrow> manager" where
  "NewManager e logs disk idleTimeoutSec maxSessions historySize dataDir logDir
     retentionDays clientBufferSize maxScrollbackSize =
     (let maxBufferSize =
            (if maxScrollbackSize \<le> 0 then
               (let n = int64 (historySize * 100) in if n \<le> 0 then 10 * 1024 * 1024 else n)
             else maxScrollbackSize);
          clientBufferSize = (if clientBufferSize \<le> 0 then 1024 else clientBufferSize);
          logDir = (if logDir = [] then dataDir @ ''/logs/sessions'' else logDir);
          store = fst (store_Load disk (NewStore dataDir logDir));
          store = mark_stale (e_now e) (store_List [] True store) store
      in \<lparr>m_sessions = [], m_idleTimeout = int64 (idleTimeoutSec * second),
          m_maxSessions = maxSessions, m_maxBufferSize = maxBufferSize,
          m_clientBufferSize = clientBufferSize, m_closed = False, m_store = store,
          m_logDir = logDir, m_retentionDays = retentionDays, m_events = NewEventHub,
          m_logs = logs, m_disk = fst (store_Save (e_save e) store disk)\<rparr>)"

text \<open>A session's events go to the hub (\<open>SetEventCallback(m.events.Publish)\<close>).\<close>

fun publish_all :: "event list \<Rightarrow> event_hub \<Rightarrow> event_hub option" where
  "publish_all [] h = Some h"
| "publish_all (ev # evs) h = do { h' \<leftarrow> hub_Publish ev h; publish_all evs h' }"

text \<open>\<open>sess.Close()\<close> for a session the manager holds or has just removed from its map.\<close>

definition close_session :: "env \<Rightarrow> session \<Rightarrow> manager \<Rightarrow> (session \<times> manager) option" where
  "close_session e sess m = do {
     ((sess', logs), evs, _) \<leftarrow>
       session_Close (e_now e) (e_kill e) (e_write e) (e_compress e) (sess, m_logs m);
     hub \<leftarrow> publish_all evs (m_events m);
     Some (sess', m\<lparr>m_logs := logs, m_events := hub\<rparr>)
   }"

definition mgr_MarkEnded :: "env \<Rightarrow> string \<Rightarrow> manager \<Rightarrow> manager" where
  "mgr_MarkEnded e sid m = m\<lparr>m_store := fst (store_MarkEnded (e_now e) sid (m_store m))\<rparr>"

definition mgr_Save :: "env \<Rightarrow> manager \<Rightarrow> manager" where
  "mgr_Save e m = m\<lparr>m_disk := fst (store_Save (e_save e) (m_store m) (m_disk m))\<rparr>"

text \<open>The choice of phase 1 of \<open>cleanup\<close>.\<close>

definition to_close :: "time \<Rightarrow> manager \<Rightarrow> session \<Rightarrow> bool" where
  "to_close now m sess \<longleftrightarrow> s_status sess = StatusEnded
     \<or> (0 < m_idleTimeout m \<and> s_status sess = StatusIdle
         \<and> m_idleTimeout m < now - s_lastActivity sess)"

fun close_each :: "env \<Rightarrow> (string \<times> session) list \<Rightarrow> manager \<Rightarrow> manager option" where
  "close_each e [] m = Some m"
| "close_each e ((sid, sess) # rest) m = do {
     (_, m') \<leftarrow> close_session e sess m;
     close_each e rest (mgr_MarkEnded e sid m')
   }"

definition mgr_cleanup :: "env \<Rightarrow> manager \<Rightarrow> manager option" where
  "mgr_cleanup e m =
     (let toClose = filter (\<lambda>(_, sess). to_close (e_now e) m sess) (m_sessions m) in do {
        m \<leftarrow> close_each e toClose (m\<lparr>m_sessions := gdel_all (map fst toClose) (m_sessions m)\<rparr>);
        let m = (if 0 < length toClose then mgr_Save e m else m);
        Some
          (if 0 < m_retentionDays m then
             let ((st, logs, disk), removed, err) =
                   store_Cleanup (e_addDays e) (e_now e) (e_remove e) (e_save e) (m_retentionDays m)
                     (m_store m, m_logs m, m_disk m);
                 m = m\<lparr>m_store := st, m_logs := logs, m_disk := disk\<rparr>
             in if err = None \<and> 0 < removed then mgr_Save e m else m
           else m)
      })"

definition live_count :: "(string, session) gomap \<Rightarrow> nat" where
  "live_count ss = length (filter (\<lambda>s. s_status s \<noteq> StatusEnded) (gvals ss))"

definition mgr_Create ::
  "env \<Rightarrow> string \<Rightarrow> string \<Rightarrow> string \<Rightarrow> string \<Rightarrow> string \<Rightarrow> string list \<Rightarrow> int \<Rightarrow> int \<Rightarrow> manager
   \<Rightarrow> manager \<times> (string + session)" where
  "mgr_Create e uuid projectID tool workingDir name args cols rows m =
     (if m_closed m then (m, Inl ''session manager is shut down'')
      else if 0 < m_maxSessions m \<and> m_maxSessions m \<le> int (live_count (m_sessions m))
      then (m, Inl ''maximum sessions limit reached'')
      else
        let sess = NewSession uuid (e_now e) projectID tool workingDir name args cols rows
                     (m_maxBufferSize m);
            sess = sess\<lparr>s_onEvent := True\<rparr>;
            (lg, logs) = NewSessionLogger (e_mkdir_log e) (e_open_log e) uuid (m_logDir m) (m_logs m);
            sess = (case lg of Inl _ \<Rightarrow> sess | Inr l \<Rightarrow> sess\<lparr>s_logger := Some l\<rparr>);
            (sess, err) = StartPTY (e_shell e) (e_environ e) (e_start e) sess
        in
          (case err of
             Some msg \<Rightarrow>
               let logs = (case s_logger sess of
                             None \<Rightarrow> logs
                           | Some l \<Rightarrow> snd (logger_Close (e_write e) (e_compress e) (l, logs)))
               in (m\<lparr>m_logs := logs\<rparr>, Inl (''failed to start PTY: '' @ msg))
           | None \<Rightarrow>
               let m = m\<lparr>m_sessions := gput (s_ID sess) sess (m_sessions m), m_logs := logs,
                         m_store := store_Add (CreateRecord sess (m_logDir m)) (m_store m)\<rparr>
               in (mgr_Save e m, Inr sess)))"

definition mgr_Get :: "manager \<Rightarrow> string \<Rightarrow> session option" where
  "mgr_Get m sid = gget (m_sessions m) sid"

definition mgr_GetScrollback :: "manager \<Rightarrow> string \<Rightarrow> string + bytes" where
  "mgr_GetScrollback m sid =
     (case mgr_Get m sid of
        None \<Rightarrow> Inl (''session not found: '' @ sid)
      | Some sess \<Rightarrow> Inr (GetScrollback sess))"

definition mgr_List :: "string \<Rightarrow> bool \<Rightarrow> manager \<Rightarrow> session list" where
  "mgr_List projectID includeEnded m =
     filter (\<lambda>s. \<not> (projectID \<noteq> [] \<and> s_ProjectID s \<noteq> projectID)
               \<and> \<not> (\<not> includeEnded \<and> s_status s = StatusEnded))
       (gvals (m_sessions m))"

text \<open>Replacing the session an operation has changed.\<close>

definition set_session :: "string \<Rightarrow> session \<Rightarrow> manager \<Rightarrow> manager" where
  "set_session sid sess m = m\<lparr>m_sessions := gput sid sess (m_sessions m)\<rparr>"

text \<open>\<open>Attach\<close> returns the replay; the client's id is the fresh \<open>uuid\<close>.\<close>

definition mgr_Attach ::
  "string \<Rightarrow> string \<Rightarrow> int \<Rightarrow> int \<Rightarrow> manager \<Rightarrow> manager \<times> (string + bytes \<times> signals)" where
  "mgr_Attach uuid sid cols rows m =
     (case gget (m_sessions m) sid of
        None \<Rightarrow> (m, Inl (''session not found: '' @ sid))
      | Some sess \<Rightarrow>
          if IsDone sess then (m, Inl (''session has ended: '' @ sid))
          else
            let sess = (if 0 < cols \<and> 0 < rows then fst (session_Resize cols rows sess) else sess);
                (sess, scrollback) = AttachClient uuid (m_clientBufferSize m) sess
            in (set_session sid sess m, Inr (scrollback, SignalRepaint sess)))"

definition mgr_Detach :: "string \<Rightarrow> string \<Rightarrow> manager \<Rightarrow> (manager \<times> string option) option" where
  "mgr_Detach sid cid m =
     (case gget (m_sessions m) sid of
        None \<Rightarrow> Some (m, Some (''session not found: '' @ sid))
      | Some sess \<Rightarrow> map_option (\<lambda>s. (set_session sid s m, None)) (RemoveClient cid sess))"

definition mgr_Input :: "env \<Rightarrow> string \<Rightarrow> bytes \<Rightarrow> manager \<Rightarrow> manager \<times> string option" where
  "mgr_Input e sid data m =
     (case gget (m_sessions m) sid of
        None \<Rightarrow> (m, Some (''session not found: '' @ sid))
      | Some sess \<Rightarrow>
          if IsDone sess then (m, Some (''session has ended: '' @ sid))
          else
            let (sess, r) = session_Write (e_now e) data sess
            in (set_session sid sess m, case r of Inl err \<Rightarrow> Some err | Inr _ \<Rightarrow> None))"

definition mgr_Resize :: "string \<Rightarrow> int \<Rightarrow> int \<Rightarrow> manager \<Rightarrow> manager \<times> string option" where
  "mgr_Resize sid cols rows m =
     (case gget (m_sessions m) sid of
        None \<Rightarrow> (m, Some (''session not found: '' @ sid))
      | Some sess \<Rightarrow>
          let (sess, err) = session_Resize cols rows sess in (set_session sid sess m, err))"

definition mgr_Kill :: "env \<Rightarrow> string \<Rightarrow> manager \<Rightarrow> (manager \<times> string option) option" where
  "mgr_Kill e sid m =
     (case gget (m_sessions m) sid of
        None \<Rightarrow> Some (m, Some (''session not found: '' @ sid))
      | Some sess \<Rightarrow> do {
          (_, m') \<leftarrow> close_session e sess (m\<lparr>m_sessions := gdel sid (m_sessions m)\<rparr>);
          Some (mgr_Save e (mgr_MarkEnded e sid m'), None)
        })"

definition mgr_Count :: "manager \<Rightarrow> nat" where
  "mgr_Count m = live_count (m_sessions m)"

text \<open>\<open>Close\<close> closes the sessions concurrently; the model closes them one after the other.\<close>

fun close_in_place :: "env \<Rightarrow> string list \<Rightarrow> manager \<Rightarrow> manager option" where
  "close_in_place e [] m = Some m"
| "close_in_place e (sid # ids) m =
     (case gget (m_sessions m) sid of
        None \<Rightarrow> close_in_place e ids m
      | Some sess \<Rightarrow> do {
          (sess', m') \<leftarrow> close_session e sess m;
          close_in_place e ids (set_session sid sess' m')
        })"

definition mgr_Close :: "env \<Rightarrow> manager \<Rightarrow> manager option" where
  "mgr_Close e m =
     (if m_closed m then Some m
      else do {
        let ids = gkeys (m_sessions m);
        m \<leftarrow> close_in_place e ids (m\<lparr>m_closed := True\<rparr>);
        Some (mgr_Save e (fold (mgr_MarkEnded e) ids m))
      })"

text \<open>A step of one of the manager's sessions by itself: its reader, a consumer, its end.\<close>

definition mgr_session_step :: "string \<Rightarrow> session_op \<Rightarrow> manager \<Rightarrow> manager option" where
  "mgr_session_step sid op m =
     (case gget (m_sessions m) sid of
        None \<Rightarrow> Some m
      | Some sess \<Rightarrow> do {
          (sess', _) \<leftarrow> session_step op sess;
          hub \<leftarrow> publish_all (op_events op sess) (m_events m);
          Some (set_session sid sess' m\<lparr>m_events := hub\<rparr>)
        })"

end
