(* ===== verification/Manager_Props.thy ===== *)
theory Manager_Props
  imports Manager
begin

text \<open>
  The invariant of the session manager and what follows from it: no operation panics, the
  limit on live sessions holds, and \<open>sessions.json\<close> never claims a session that does not
  exist.
\<close>

section \<open>Sessions inside the manager\<close>

definition session_ok :: "session \<Rightarrow> bool" where
  "session_ok s \<longleftrightarrow> clients_ok (s_clients s) \<and> status_inv s \<and> (s_closed s \<longrightarrow> s_done s)"

text \<open>What an operation on one session keeps.\<close>

definition session_kept :: "session \<Rightarrow> session \<Rightarrow> bool" where
  "session_kept s s' \<longleftrightarrow> session_ok s' \<and> s_ID s' = s_ID s \<and> (s_done s \<longrightarrow> s_done s')"

lemma session_step_ID:
  "session_step op s = Some (s', seen) \<Longrightarrow> s_ID s' = s_ID s \<and> s_closed s' = s_closed s"
  by (cases op)
     (auto simp: appendAndBroadcast_def broadcast_def split_def reader_track_def
        AttachClient_locked_def registerClient_def RemoveClient_locked_def client_recv_def
        surface_gap_def TakeOutputGap_def noteClientAttached_def noteClientRemoved_def markDone_def
        session_Resize_def session_Write_def UpdateActivity_def Let_def
        split: option.splits recv_result.splits if_splits)

lemma session_run_kept:
  assumes "session_ok s" and "session_run ops s = Some (s', seen)"
  shows "session_kept s s'"
proof -
  have "s_ID s' = s_ID s \<and> s_closed s' = s_closed s"
    using assms(2) by (induction ops arbitrary: s seen) (auto dest: session_step_ID split: option.splits)
  moreover have "clients_ok (s_clients s')"
    using session_run_ok [of s ops] assms by (auto simp: session_ok_def)
  moreover have "status_inv s'" using status_inv_run [OF assms(2)] assms(1) by (simp add: session_ok_def)
  ultimately show ?thesis using done_stays [OF assms(2)] assms(1)
    by (auto simp: session_kept_def session_ok_def)
qed

lemma attach_as_run:
  "\<exists>cnt. session_run [OpAttach cid n, OpNoteAttached cnt] s = Some (fst (AttachClient cid n s), [])"
  by (auto simp: AttachClient_def split_def Let_def)

lemma remove_as_run:
  "RemoveClient cid s = Some s' \<Longrightarrow> \<exists>u. session_run [OpDetach cid, OpNoteDetached u] s = Some (s', [])"
  by (auto simp: RemoveClient_def split: option.splits)

lemma session_Resize_kept: "session_ok s \<Longrightarrow> session_kept s (fst (session_Resize cols rows s))"
  by (rule session_run_kept [where ops = "[OpResize cols rows]"]) simp_all

lemma session_Write_kept: "session_ok s \<Longrightarrow> session_kept s (fst (session_Write now data s))"
  by (rule session_run_kept [where ops = "[OpInput now data]"]) simp_all

lemma AttachClient_kept: "session_ok s \<Longrightarrow> session_kept s (fst (AttachClient cid n s))"
  using attach_as_run session_run_kept by blast

lemma RemoveClient_kept:
  assumes "session_ok s"
  shows "\<exists>s'. RemoveClient cid s = Some s' \<and> session_kept s s'"
proof -
  obtain s1 u where "RemoveClient_locked cid s = Some (s1, u)"
    using session_step_ok [of s "OpDetach cid"] assms by (auto simp: session_ok_def)
  then have "RemoveClient cid s = Some (noteClientRemoved u s1)" by (simp add: RemoveClient_def)
  then show ?thesis using remove_as_run session_run_kept [OF assms] by blast
qed

lemma session_kept_trans: "session_kept s t \<Longrightarrow> session_kept t u \<Longrightarrow> session_kept s u"
  by (simp add: session_kept_def)

lemma session_kept_ended:
  "session_ok s \<Longrightarrow> session_kept s s' \<Longrightarrow> s_status s = StatusEnded \<Longrightarrow> s_status s' = StatusEnded"
  by (simp add: session_kept_def session_ok_def status_inv_def)

lemma session_Close_kept:
  assumes "session_ok s"
  shows "\<exists>s' fs' evs sent chans. session_Close now kill wr io (s, fs) = Some ((s', fs'), evs, sent, chans)
    \<and> session_kept s s' \<and> s_done s'"
proof (cases "s_closed s")
  case True
  then show ?thesis using assms by (simp add: session_Close_def session_kept_def session_ok_def)
next
  case False
  have "close_clients cl \<noteq> None" if "\<forall>p \<in> set cl. client_ok (snd p)" for cl
    using that by (induction cl rule: close_clients.induct) (auto simp: client_ok_def chan_close_ok)
  then obtain chans where "close_clients (s_clients s) = Some chans"
    using assms(1) by (auto simp: session_ok_def clients_ok_def)
  then show ?thesis using assms False
    by (auto simp: session_Close_def markDone_def Let_def split_def session_kept_def session_ok_def
        status_inv_def split: option.splits)
qed

section \<open>The manager's invariant\<close>

definition live_record :: "session_record \<Rightarrow> bool" where
  "live_record r \<longleftrightarrow> rec_Status r = ''running'' \<or> rec_Status r = ''idle''"

definition sessions_ok :: "(string, session) gomap \<Rightarrow> bool" where
  "sessions_ok ss \<longleftrightarrow> gwf ss
     \<and> (\<forall>sid s. gget ss sid = Some s \<longrightarrow> session_ok s \<and> s_ID s = sid)"

text \<open>While the manager is open, the live records are those of the sessions it holds.\<close>

definition in_step :: "(string, session) gomap \<Rightarrow> session_store \<Rightarrow> bool" where
  "in_step ss st \<longleftrightarrow>
     (\<forall>sid. gget ss sid \<noteq> None \<longleftrightarrow> (\<exists>r. store_Get st sid = Some r \<and> live_record r))"

definition mgr_inv :: "manager \<Rightarrow> bool" where
  "mgr_inv m \<longleftrightarrow> sessions_ok (m_sessions m) \<and> store_wf (m_store m) \<and> hub_inv (m_events m)
     \<and> (0 < m_maxSessions m \<longrightarrow> int (live_count (m_sessions m)) \<le> m_maxSessions m)
     \<and> (if m_closed m
        then (\<forall>sid s. gget (m_sessions m) sid = Some s \<longrightarrow> s_done s)
             \<and> (\<forall>sid r. store_Get (m_store m) sid = Some r \<longrightarrow> \<not> live_record r)
        else in_step (m_sessions m) (m_store m))"

definition live_ids :: "(string, session) gomap \<Rightarrow> string set" where
  "live_ids ss = {sid. \<exists>s. gget ss sid = Some s \<and> s_status s \<noteq> StatusEnded}"

lemma live_ids_finite [simp]: "finite (live_ids ss)"
proof -
  have "live_ids ss \<subseteq> set (gkeys ss)"
    by (auto simp: live_ids_def) (metis gget_None_iff option.distinct(1))
  then show ?thesis by (rule finite_subset) simp
qed

lemma live_count_card: "gwf ss \<Longrightarrow> live_count ss = card (live_ids ss)"
proof -
  assume g: "gwf ss"
  let ?L = "filter (\<lambda>p. s_status (snd p) \<noteq> StatusEnded) ss"
  have "distinct (map fst ?L)" using g unfolding gwf_def by (rule distinct_map_filter)
  then have "length (map fst ?L) = card (set (map fst ?L))" by (simp only: distinct_card)
  moreover have "set (map fst ?L) = live_ids ss"
    using gget_eq_Some_iff [OF g] by (force simp: live_ids_def)
  moreover have "live_count ss = length ?L" by (simp add: live_count_def gvals_def filter_map comp_def)
  ultimately show ?thesis by simp
qed

lemma live_count_mono: "gwf ss \<Longrightarrow> gwf ss' \<Longrightarrow> live_ids ss' \<subseteq> live_ids ss \<Longrightarrow> live_count ss' \<le> live_count ss"
  by (simp add: live_count_card card_mono)

lemma live_count_put:
  assumes "gwf ss"
  shows "live_count (gput sid s ss) \<le> Suc (live_count ss)"
proof -
  have "live_ids (gput sid s ss) \<subseteq> insert sid (live_ids ss)"
    by (auto simp: live_ids_def gomap_simps)
  then have "card (live_ids (gput sid s ss)) \<le> card (insert sid (live_ids ss))"
    by (intro card_mono) simp_all
  also have "\<dots> \<le> Suc (card (live_ids ss))" by (simp add: card_insert_if)
  finally show ?thesis by (simp add: live_count_card assms)
qed

lemma mgr_inv_set_session:
  assumes "mgr_inv m" and "gget (m_sessions m) sid = Some s" and "session_kept s s'"
    and "hub_inv hub"
  shows "mgr_inv (set_session sid s' m\<lparr>m_events := hub, m_logs := logs\<rparr>)"
proof -
  let ?ss = "gput sid s' (m_sessions m)"
  have s: "session_ok s" "s_ID s = sid" and g: "gwf (m_sessions m)"
    using assms(1,2) by (auto simp: mgr_inv_def sessions_ok_def)
  have "live_ids ?ss \<subseteq> live_ids (m_sessions m)"
    using assms(2) session_kept_ended [OF s(1) assms(3)] by (auto simp: live_ids_def gomap_simps)
  then have cnt: "live_count ?ss \<le> live_count (m_sessions m)" using g by (intro live_count_mono) simp_all
  have "sessions_ok ?ss"
    using assms(1,3) s(2) by (auto simp: mgr_inv_def sessions_ok_def gomap_simps session_kept_def)
  moreover have "in_step (m_sessions m) (m_store m) \<Longrightarrow> in_step ?ss (m_store m)"
  proof -
    have "gget ?ss k \<noteq> None \<longleftrightarrow> gget (m_sessions m) k \<noteq> None" for k
      using assms(2) by (simp add: gomap_simps)
    then show "in_step (m_sessions m) (m_store m) \<Longrightarrow> in_step ?ss (m_store m)"
      unfolding in_step_def by blast
  qed
  moreover have "s_done s \<Longrightarrow> s_done s'" using assms(3) by (simp add: session_kept_def)
  ultimately show ?thesis
    using assms(1,2,4) cnt by (auto simp: mgr_inv_def set_session_def gomap_simps split: if_splits)
qed

lemma publish_all_ok: "hub_inv h \<Longrightarrow> \<exists>h'. publish_all evs h = Some h' \<and> hub_inv h'"
proof (induction evs arbitrary: h)
  case (Cons ev evs)
  obtain h1 where "hub_Publish ev h = Some h1" "hub_inv h1"
    using hub_step_ok [OF Cons.prems, of "HPublish ev"] by auto
  then show ?case using Cons.IH by auto
qed simp

lemma close_session_ok:
  assumes "session_ok s" and "hub_inv (m_events m)"
  shows "\<exists>s' hub logs. close_session e s m = Some (s', m\<lparr>m_logs := logs, m_events := hub\<rparr>)
    \<and> session_kept s s' \<and> s_done s' \<and> hub_inv hub"
proof -
  obtain s' fs' evs sent chans where c:
    "session_Close (e_now e) (e_kill e) (e_write e) (e_compress e) (s, m_logs m) = Some ((s', fs'), evs, sent, chans)"
    "session_kept s s'" "s_done s'"
    using session_Close_kept [OF assms(1)] by blast
  obtain hub where "publish_all evs (m_events m) = Some hub" "hub_inv hub"
    using publish_all_ok [OF assms(2)] by blast
  with c have "close_session e s m = Some (s', m\<lparr>m_logs := fs', m_events := hub\<rparr>)"
    by (simp add: close_session_def)
  with c(2,3) \<open>hub_inv hub\<close> show ?thesis by blast
qed

section \<open>Every operation keeps the invariant\<close>

datatype mgr_op =
    MCreate env string string string string string "string list" int int
  | MAttach string string int int
  | MDetach string string
  | MInput env string bytes
  | MResize string int int
  | MKill env string
  | MCleanup env
  | MClose env
  | MSession string session_op

text \<open>The cleanup loop ends when the manager is closed.\<close>

fun mgr_step :: "mgr_op \<Rightarrow> manager \<Rightarrow> manager option" where
  "mgr_step (MCreate e uuid projectID tool workingDir name args cols rows) m =
     Some (fst (mgr_Create e uuid projectID tool workingDir name args cols rows m))"
| "mgr_step (MAttach uuid sid cols rows) m = Some (fst (mgr_Attach uuid sid cols rows m))"
| "mgr_step (MDetach sid cid) m = map_option fst (mgr_Detach sid cid m)"
| "mgr_step (MInput e sid data) m = Some (fst (mgr_Input e sid data m))"
| "mgr_step (MResize sid cols rows) m = Some (fst (mgr_Resize sid cols rows m))"
| "mgr_step (MKill e sid) m = map_option fst (mgr_Kill e sid m)"
| "mgr_step (MCleanup e) m = (if m_closed m then Some m else mgr_cleanup e m)"
| "mgr_step (MClose e) m = mgr_Close e m"
| "mgr_step (MSession sid op) m = mgr_session_step sid op m"

fun mgr_run :: "mgr_op list \<Rightarrow> manager \<Rightarrow> manager option" where
  "mgr_run [] m = Some m"
| "mgr_run (op # ops) m = (case mgr_step op m of None \<Rightarrow> None | Some m' \<Rightarrow> mgr_run ops m')"

lemma mgr_inv_session: "mgr_inv m \<Longrightarrow> gget (m_sessions m) sid = Some s \<Longrightarrow> session_ok s \<and> s_ID s = sid"
  by (simp add: mgr_inv_def sessions_ok_def)

lemma mgr_inv_hub: "mgr_inv m \<Longrightarrow> hub_inv (m_events m)"
  by (simp add: mgr_inv_def)

lemma mgr_inv_files [simp]:
  "mgr_inv (m\<lparr>m_logs := logs\<rparr>) = mgr_inv m" "mgr_inv (m\<lparr>m_disk := disk\<rparr>) = mgr_inv m"
  by (simp_all add: mgr_inv_def)

lemma mgr_inv_Save [simp]: "mgr_inv (mgr_Save e m) = mgr_inv m"
  by (simp add: mgr_Save_def)

lemma mgr_inv_set_session':
  assumes "mgr_inv m" and "gget (m_sessions m) sid = Some s" and "session_kept s s'"
  shows "mgr_inv (set_session sid s' m)"
  using mgr_inv_set_session [OF assms mgr_inv_hub [OF assms(1)], of "m_logs m"]
  by (simp add: set_session_def)

text \<open>Ending records and dropping their sessions from the map at the same time.\<close>

lemma mgr_inv_end_sessions:
  assumes "mgr_inv m" and "hub_inv hub"
  shows "mgr_inv (m\<lparr>m_sessions := gdel_all ids (m_sessions m), m_logs := logs, m_events := hub,
                    m_store := mark_all now ids (m_store m)\<rparr>)"
proof -
  let ?ss = "gdel_all ids (m_sessions m)" and ?st = "mark_all now ids (m_store m)"
  have g: "gwf (m_sessions m)" using assms(1) by (simp add: mgr_inv_def sessions_ok_def)
  have "live_ids ?ss \<subseteq> live_ids (m_sessions m)"
    by (auto simp: live_ids_def gget_gdel_all split: if_splits)
  then have cnt: "live_count ?ss \<le> live_count (m_sessions m)" using g by (intro live_count_mono) simp_all
  then have lim: "0 < m_maxSessions m \<longrightarrow> int (live_count ?ss) \<le> m_maxSessions m"
    using assms(1) by (auto simp: mgr_inv_def)
  have ok: "sessions_ok ?ss"
    using assms(1) by (auto simp: mgr_inv_def sessions_ok_def gget_gdel_all split: if_splits)
  have live: "(\<exists>r. store_Get ?st sid = Some r \<and> live_record r) \<longleftrightarrow>
      sid \<notin> set ids \<and> (\<exists>r. store_Get (m_store m) sid = Some r \<and> live_record r)" for sid
    by (auto simp: store_Get_mark_all live_record_def)
  have get: "gget ?ss sid \<noteq> None \<longleftrightarrow> sid \<notin> set ids \<and> gget (m_sessions m) sid \<noteq> None" for sid
    by (simp add: gget_gdel_all)
  have "in_step (m_sessions m) (m_store m) \<Longrightarrow> in_step ?ss ?st"
    unfolding in_step_def live get by blast
  moreover have "\<not> (\<exists>r. store_Get ?st sid = Some r \<and> live_record r)"
    if "\<forall>sid r. store_Get (m_store m) sid = Some r \<longrightarrow> \<not> live_record r" for sid
    unfolding live using that by blast
  moreover have "s_done s"
    if "\<forall>sid s. gget (m_sessions m) sid = Some s \<longrightarrow> s_done s" "gget ?ss sid = Some s" for sid s
    using that by (simp add: gget_gdel_all split: if_splits)
  ultimately show ?thesis
    using assms ok lim unfolding mgr_inv_def
    by (simp add: store_wf_mark_all split: if_splits)
qed

lemma close_each_ok:
  assumes "\<forall>p \<in> set l. session_ok (snd p)" and "hub_inv (m_events m)"
  shows "\<exists>hub logs. close_each e l m =
      Some (m\<lparr>m_logs := logs, m_events := hub, m_store := mark_all (e_now e) (map fst l) (m_store m)\<rparr>)
    \<and> hub_inv hub"
  using assms
proof (induction l arbitrary: m)
  case Nil
  show ?case by (rule exI [of _ "m_events m"], rule exI [of _ "m_logs m"])
      (simp add: mark_all_def Nil.prems(2))
next
  case (Cons p l)
  obtain sid s where p: "p = (sid, s)" by fastforce
  obtain s' hub1 logs1 where c: "close_session e s m = Some (s', m\<lparr>m_logs := logs1, m_events := hub1\<rparr>)"
    "hub_inv hub1"
    using close_session_ok [of s m e] Cons.prems p by auto
  let ?m = "mgr_MarkEnded e sid (m\<lparr>m_logs := logs1, m_events := hub1\<rparr>)"
  have "\<forall>q \<in> set l. session_ok (snd q)" "hub_inv (m_events ?m)"
    using Cons.prems(1) c(2) by (simp_all add: mgr_MarkEnded_def)
  from Cons.IH [OF this] obtain hub logs where IH: "close_each e l ?m =
      Some (?m\<lparr>m_logs := logs, m_events := hub, m_store := mark_all (e_now e) (map fst l) (m_store ?m)\<rparr>)"
    "hub_inv hub" by blast
  have "close_each e (p # l) m = close_each e l ?m" by (simp add: p c(1))
  moreover have "?m\<lparr>m_logs := logs, m_events := hub, m_store := mark_all (e_now e) (map fst l) (m_store ?m)\<rparr>
      = m\<lparr>m_logs := logs, m_events := hub, m_store := mark_all (e_now e) (map fst (p # l)) (m_store m)\<rparr>"
    by (simp add: mgr_MarkEnded_def mark_all_def p)
  ultimately show ?case using IH by auto
qed

lemma retention_inv:
  assumes "mgr_inv m"
    and "store_Cleanup ad now rm io days (m_store m, m_logs m, m_disk m) = ((st, logs, disk), removed, err)"
  shows "mgr_inv (m\<lparr>m_store := st, m_logs := logs, m_disk := disk\<rparr>)"
proof (cases "0 < days")
  case False
  then have "st = m_store m" using assms(2) by (auto simp: store_Cleanup_def)
  then show ?thesis using assms(1) by (simp add: mgr_inv_def)
next
  case True
  have wf: "store_wf (m_store m)" using assms(1) by (simp add: mgr_inv_def)
  have wf': "store_wf st" using store_wf_Cleanup [OF wf, of ad now rm io days] assms(2) by (metis fst_conv)
  note spec = store_Cleanup_spec [OF wf True assms(2)]
  have live: "(\<exists>r. store_Get st sid = Some r \<and> live_record r) \<longleftrightarrow>
      (\<exists>r. store_Get (m_store m) sid = Some r \<and> live_record r)" for sid
    using spec by (auto simp: live_record_def expired_def split: option.splits if_splits)
  then have "in_step (m_sessions m) (m_store m) \<Longrightarrow> in_step (m_sessions m) st"
    by (simp add: in_step_def)
  moreover have "\<forall>sid r. store_Get (m_store m) sid = Some r \<longrightarrow> \<not> live_record r \<Longrightarrow>
      \<forall>sid r. store_Get st sid = Some r \<longrightarrow> \<not> live_record r"
    using live by blast
  ultimately show ?thesis using assms(1) wf' by (auto simp: mgr_inv_def)
qed

lemma mgr_cleanup_ok:
  assumes "mgr_inv m"
  shows "\<exists>m'. mgr_cleanup e m = Some m' \<and> mgr_inv m'"
proof -
  let ?l = "filter (\<lambda>(_, s). to_close (e_now e) m s) (m_sessions m)"
  let ?m1 = "m\<lparr>m_sessions := gdel_all (map fst ?l) (m_sessions m)\<rparr>"
  have g: "gwf (m_sessions m)" using assms by (simp add: mgr_inv_def sessions_ok_def)
  have "\<forall>p \<in> set ?l. session_ok (snd p)"
    using mgr_inv_session [OF assms] gget_eq_Some_iff [OF g] by auto
  then obtain hub logs where c: "close_each e ?l ?m1 =
      Some (?m1\<lparr>m_logs := logs, m_events := hub, m_store := mark_all (e_now e) (map fst ?l) (m_store ?m1)\<rparr>)"
    "hub_inv hub"
    using close_each_ok [of ?l ?m1 e] mgr_inv_hub [OF assms] by auto
  let ?m2 = "?m1\<lparr>m_logs := logs, m_events := hub, m_store := mark_all (e_now e) (map fst ?l) (m_store ?m1)\<rparr>"
  have inv: "mgr_inv ?m2" using mgr_inv_end_sessions [OF assms c(2), where ids = "map fst ?l"] by simp
  define m3 where "m3 = (if 0 < length ?l then mgr_Save e ?m2 else ?m2)"
  have inv3: "mgr_inv m3" unfolding m3_def using inv mgr_inv_Save by (cases "0 < length ?l") auto
  obtain st logs' disk removed err where r: "store_Cleanup (e_addDays e) (e_now e) (e_remove e) (e_save e)
      (m_retentionDays m3) (m_store m3, m_logs m3, m_disk m3) = ((st, logs', disk), removed, err)"
    by (metis prod_cases3)
  let ?m4 = "m3\<lparr>m_store := st, m_logs := logs', m_disk := disk\<rparr>"
  have inv4: "mgr_inv ?m4" using retention_inv [OF inv3 r] .
  have "mgr_cleanup e m = Some (if 0 < m_retentionDays m3 then
      (if err = None \<and> 0 < removed then mgr_Save e ?m4 else ?m4) else m3)"
    unfolding mgr_cleanup_def Let_def c(1) Option.bind.simps m3_def [symmetric] r by simp
  then show ?thesis using inv3 inv4 by auto
qed

lemma mgr_Kill_ok:
  assumes "mgr_inv m"
  shows "\<exists>m' err. mgr_Kill e sid m = Some (m', err) \<and> mgr_inv m'"
proof (cases "gget (m_sessions m) sid")
  case None
  then show ?thesis using assms by (simp add: mgr_Kill_def)
next
  case (Some s)
  let ?m1 = "m\<lparr>m_sessions := gdel sid (m_sessions m)\<rparr>"
  obtain s' hub logs where c: "close_session e s ?m1 = Some (s', ?m1\<lparr>m_logs := logs, m_events := hub\<rparr>)" "hub_inv hub"
    using close_session_ok [of s ?m1 e] mgr_inv_session [OF assms Some] mgr_inv_hub [OF assms] by auto
  have "mgr_inv (m\<lparr>m_sessions := gdel_all [sid] (m_sessions m), m_logs := logs, m_events := hub,
                    m_store := mark_all (e_now e) [sid] (m_store m)\<rparr>)"
    using mgr_inv_end_sessions [OF assms c(2)] .
  then have "mgr_inv (mgr_MarkEnded e sid (?m1\<lparr>m_logs := logs, m_events := hub\<rparr>))"
    by (simp add: mgr_MarkEnded_def mark_all_def)
  then show ?thesis using c(1) Some by (simp add: mgr_Kill_def)
qed

lemma mgr_Create_ok: "mgr_inv m \<Longrightarrow> mgr_inv (fst (mgr_Create e uuid projectID tool workingDir name args cols rows m))"
proof -
  assume inv: "mgr_inv m"
  let ?new = "(NewSession uuid (e_now e) projectID tool workingDir name args cols rows (m_maxBufferSize m))\<lparr>s_onEvent := True\<rparr>"
  obtain lg logs where lg: "NewSessionLogger (e_mkdir_log e) (e_open_log e) uuid (m_logDir m) (m_logs m) = (lg, logs)"
    by fastforce
  define s0 where "s0 = (case lg of Inl _ \<Rightarrow> ?new | Inr l \<Rightarrow> ?new\<lparr>s_logger := Some l\<rparr>)"
  obtain s err where s: "StartPTY (e_shell e) (e_environ e) (e_start e) s0 = (s, err)" by fastforce
  show ?thesis
  proof (cases "m_closed m \<or> (0 < m_maxSessions m \<and> m_maxSessions m \<le> int (live_count (m_sessions m))) \<or> err \<noteq> None")
    case True
    then show ?thesis
      using inv by (auto simp: mgr_Create_def Let_def lg s s0_def [symmetric] split: option.splits)
  next
    case False
    then have opn: "\<not> m_closed m" "err = None"
      "0 < m_maxSessions m \<longrightarrow> int (live_count (m_sessions m)) < m_maxSessions m" by auto
    have s_facts: "s_ID s = uuid" "s_status s = StatusIdle" "s_clients s = []" "\<not> s_done s" "\<not> s_closed s"
    proof -
      have "s_ID s0 = uuid \<and> s_status s0 = StatusIdle \<and> s_clients s0 = [] \<and> \<not> s_done s0 \<and> \<not> s_closed s0"
        by (simp add: s0_def NewSession_def Let_def split: sum.splits)
      then show "s_ID s = uuid" "s_status s = StatusIdle" "s_clients s = []" "\<not> s_done s" "\<not> s_closed s"
        using s by (auto simp: StartPTY_def Let_def split: sum.splits prod.splits)
    qed
    let ?m = "m\<lparr>m_sessions := gput uuid s (m_sessions m), m_logs := logs,
                m_store := store_Add (CreateRecord s (m_logDir m)) (m_store m)\<rparr>"
    have "fst (mgr_Create e uuid projectID tool workingDir name args cols rows m) = mgr_Save e ?m"
    proof -
      have "\<not> (0 < m_maxSessions m \<and> m_maxSessions m \<le> int (live_count (m_sessions m)))"
        using opn(3) by linarith
      then show ?thesis
        using opn(1,2) s_facts(1) by (auto simp: mgr_Create_def Let_def lg s s0_def [symmetric])
    qed
    moreover have "mgr_inv ?m"
    proof -
      have g: "gwf (m_sessions m)" and wf: "store_wf (m_store m)"
        using inv by (auto simp: mgr_inv_def sessions_ok_def)
      have "session_ok s" using s_facts by (simp add: session_ok_def status_inv_def)
      then have 1: "sessions_ok (gput uuid s (m_sessions m))"
        using inv s_facts(1) by (auto simp: mgr_inv_def sessions_ok_def gomap_simps)
      have 2: "store_wf (m_store ?m)" using wf by (simp add: session_ks.wf_put)
      have 3: "0 < m_maxSessions m \<longrightarrow> int (live_count (gput uuid s (m_sessions m))) \<le> m_maxSessions m"
        using live_count_put [OF g, of uuid s] opn(3) by linarith
      have rec: "rec_ID (CreateRecord s (m_logDir m)) = uuid" "live_record (CreateRecord s (m_logDir m))"
        using s_facts by (simp_all add: CreateRecord_def live_record_def)
      have "in_step (m_sessions m) (m_store m)" using inv opn(1) by (simp add: mgr_inv_def)
      then have 4: "in_step (m_sessions ?m) (m_store ?m)"
        unfolding in_step_def using rec wf by (auto simp: gomap_simps session_ks.lookup_put)
      show ?thesis using inv 1 2 3 4 opn(1) by (simp add: mgr_inv_def)
    qed
    ultimately show ?thesis by simp
  qed
qed

lemma close_in_place_ok:
  assumes "sessions_ok (m_sessions m)" and "hub_inv (m_events m)"
  shows "\<exists>ss hub logs. close_in_place e ids m = Some (m\<lparr>m_sessions := ss, m_logs := logs, m_events := hub\<rparr>)
    \<and> sessions_ok ss \<and> hub_inv hub \<and> set (gkeys ss) = set (gkeys (m_sessions m))
    \<and> (\<forall>sid s. gget ss sid = Some s \<longrightarrow> s_done s \<or> (sid \<notin> set ids \<and> gget (m_sessions m) sid = Some s))
    \<and> live_ids ss \<subseteq> live_ids (m_sessions m)"
  using assms
proof (induction ids arbitrary: m)
  case Nil
  then show ?case
    by (intro exI [of _ "m_sessions m"] exI [of _ "m_events m"] exI [of _ "m_logs m"]) simp
next
  case (Cons sid ids)
  show ?case
  proof (cases "gget (m_sessions m) sid")
    case None
    obtain ss hub logs where IH: "close_in_place e ids m = Some (m\<lparr>m_sessions := ss, m_logs := logs, m_events := hub\<rparr>)"
      "sessions_ok ss" "hub_inv hub" "set (gkeys ss) = set (gkeys (m_sessions m))"
      "\<forall>k t. gget ss k = Some t \<longrightarrow> s_done t \<or> (k \<notin> set ids \<and> gget (m_sessions m) k = Some t)"
      "live_ids ss \<subseteq> live_ids (m_sessions m)"
      using Cons.IH [OF Cons.prems] by blast
    have "close_in_place e (sid # ids) m = Some (m\<lparr>m_sessions := ss, m_logs := logs, m_events := hub\<rparr>)"
      using None IH(1) by simp
    moreover have "s_done t \<or> (k \<notin> set (sid # ids) \<and> gget (m_sessions m) k = Some t)"
      if "gget ss k = Some t" for k t
      using IH(5) [rule_format, OF that] None by auto
    ultimately show ?thesis using IH(2-4,6) by blast
  next
    case (Some s)
    have s: "session_ok s" "s_ID s = sid" using Some Cons.prems(1) by (auto simp: sessions_ok_def)
    obtain s' hub1 logs1 where c: "close_session e s m = Some (s', m\<lparr>m_logs := logs1, m_events := hub1\<rparr>)"
      "session_kept s s'" "s_done s'" "hub_inv hub1"
      using close_session_ok [OF s(1) Cons.prems(2)] by blast
    let ?m = "set_session sid s' (m\<lparr>m_logs := logs1, m_events := hub1\<rparr>)"
    have ss: "m_sessions ?m = gput sid s' (m_sessions m)" by (simp add: set_session_def)
    have "sessions_ok (m_sessions ?m)"
      using Cons.prems(1) c(2) s(2) by (auto simp: ss sessions_ok_def gomap_simps session_kept_def)
    moreover have "hub_inv (m_events ?m)" using c(4) by (simp add: set_session_def)
    ultimately obtain ss hub logs where IH: "close_in_place e ids ?m =
        Some (?m\<lparr>m_sessions := ss, m_logs := logs, m_events := hub\<rparr>)"
      "sessions_ok ss" "hub_inv hub" "set (gkeys ss) = set (gkeys (m_sessions ?m))"
      "\<forall>k t. gget ss k = Some t \<longrightarrow> s_done t \<or> (k \<notin> set ids \<and> gget (m_sessions ?m) k = Some t)"
      "live_ids ss \<subseteq> live_ids (m_sessions ?m)"
      using Cons.IH by blast
    have "sid \<in> set (gkeys (m_sessions m))" using Some by (metis gget_None_iff option.distinct(1))
    then have keys: "set (gkeys ss) = set (gkeys (m_sessions m))" using IH(4) by (auto simp: ss)
    have "s_status s' = StatusEnded"
      using c(2,3) by (simp add: session_kept_def session_ok_def status_inv_def)
    then have live: "live_ids ss \<subseteq> live_ids (m_sessions m)"
      using IH(6) unfolding ss by (auto simp: live_ids_def gomap_simps split: if_splits)
    have fin: "s_done t \<or> (k \<notin> set (sid # ids) \<and> gget (m_sessions m) k = Some t)"
      if "gget ss k = Some t" for k t
      using IH(5) that c(3) unfolding ss by (auto simp: gomap_simps split: if_splits)
    have "close_in_place e (sid # ids) m = Some (m\<lparr>m_sessions := ss, m_logs := logs, m_events := hub\<rparr>)"
      using Some c(1) IH(1) by (simp add: set_session_def)
    then show ?thesis using IH(2,3) keys live fin by blast
  qed
qed

lemma fold_MarkEnded: "fold (mgr_MarkEnded e) ids m = m\<lparr>m_store := mark_all (e_now e) ids (m_store m)\<rparr>"
  by (induction ids arbitrary: m) (simp_all add: mgr_MarkEnded_def mark_all_def)

lemma mgr_Close_ok:
  assumes "mgr_inv m"
  shows "\<exists>m'. mgr_Close e m = Some m' \<and> mgr_inv m' \<and> m_closed m' \<and> m_maxSessions m' = m_maxSessions m"
proof (cases "m_closed m")
  case True
  then show ?thesis using assms by (simp add: mgr_Close_def)
next
  case False
  let ?ids = "gkeys (m_sessions m)" and ?m1 = "m\<lparr>m_closed := True\<rparr>"
  have ok: "sessions_ok (m_sessions m)" "hub_inv (m_events m)" "store_wf (m_store m)"
    "in_step (m_sessions m) (m_store m)"
    using assms False by (auto simp: mgr_inv_def)
  obtain ss hub logs where c: "close_in_place e ?ids ?m1 = Some (?m1\<lparr>m_sessions := ss, m_logs := logs, m_events := hub\<rparr>)"
    "sessions_ok ss" "hub_inv hub" "set (gkeys ss) = set ?ids"
    "\<forall>sid s. gget ss sid = Some s \<longrightarrow> s_done s \<or> (sid \<notin> set ?ids \<and> gget (m_sessions m) sid = Some s)"
    "live_ids ss \<subseteq> live_ids (m_sessions m)"
    using close_in_place_ok [of ?m1 e ?ids] ok by auto
  let ?st = "mark_all (e_now e) ?ids (m_store m)"
  let ?m2 = "?m1\<lparr>m_sessions := ss, m_logs := logs, m_events := hub, m_store := ?st\<rparr>"
  have "live_count ss \<le> live_count (m_sessions m)"
    using c(2,6) ok(1) by (intro live_count_mono) (auto simp: sessions_ok_def)
  then have lim: "0 < m_maxSessions m \<longrightarrow> int (live_count ss) \<le> m_maxSessions m"
    using assms by (auto simp: mgr_inv_def)
  have fin: "s_done s" if "gget ss sid = Some s" for sid s
  proof -
    have "sid \<in> set ?ids" using that c(4) by (metis gget_None_iff option.distinct(1))
    then show ?thesis using c(5) that by blast
  qed
  have "\<not> live_record r" if "store_Get ?st sid = Some r" for sid r
  proof (cases "sid \<in> set ?ids")
    case True
    then show ?thesis using that by (auto simp: store_Get_mark_all live_record_def)
  next
    case False
    then have "gget (m_sessions m) sid = None" by (simp add: gget_None_iff)
    then have "\<not> (\<exists>r. store_Get (m_store m) sid = Some r \<and> live_record r)"
      using ok(4) unfolding in_step_def by blast
    then show ?thesis using that False by (auto simp: store_Get_mark_all)
  qed
  then have "mgr_inv ?m2"
    using assms c(2,3) lim fin ok(3) unfolding mgr_inv_def
    by (simp add: store_wf_mark_all)
  moreover have "mgr_Close e m = Some (mgr_Save e ?m2)"
    using False c(1) by (simp add: mgr_Close_def fold_MarkEnded Let_def)
  ultimately show ?thesis by (auto simp: mgr_Save_def)
qed

lemma mgr_Attach_ok:
  assumes "mgr_inv m"
  shows "mgr_inv (fst (mgr_Attach uuid sid cols rows m))"
proof (cases "gget (m_sessions m) sid")
  case None
  then show ?thesis using assms by (simp add: mgr_Attach_def)
next
  case (Some s)
  define s1 where "s1 = (if 0 < cols \<and> 0 < rows then fst (session_Resize cols rows s) else s)"
  have s: "session_ok s" using mgr_inv_session [OF assms Some] by simp
  then have k1: "session_kept s s1"
    using session_Resize_kept [OF s] by (simp add: s1_def session_kept_def)
  then have "session_kept s1 (fst (AttachClient uuid (m_clientBufferSize m) s1))"
    by (intro AttachClient_kept) (simp add: session_kept_def)
  then have "session_kept s (fst (AttachClient uuid (m_clientBufferSize m) s1))"
    using session_kept_trans [OF k1] by blast
  from mgr_inv_set_session' [OF assms Some this] show ?thesis
    using assms by (simp add: mgr_Attach_def Some s1_def [symmetric] Let_def split_def)
qed

lemma mgr_session_step_ok:
  assumes "mgr_inv m"
  shows "\<exists>m'. mgr_session_step sid op m = Some m' \<and> mgr_inv m'"
proof (cases "gget (m_sessions m) sid")
  case None
  then show ?thesis using assms by (simp add: mgr_session_step_def)
next
  case (Some s)
  have s: "session_ok s" using mgr_inv_session [OF assms Some] by simp
  obtain s' seen where st: "session_step op s = Some (s', seen)"
    using session_step_ok [of s op] s by (auto simp: session_ok_def)
  have "session_kept s s'" by (rule session_run_kept [OF s, where ops = "[op]"]) (simp add: st)
  moreover obtain hub where hub: "publish_all (op_events op s) (m_events m) = Some hub" "hub_inv hub"
    using publish_all_ok [OF mgr_inv_hub [OF assms]] by blast
  ultimately have "mgr_inv (set_session sid s' m\<lparr>m_events := hub\<rparr>)"
    using mgr_inv_set_session [OF assms Some, of s' hub "m_logs m"] by (simp add: set_session_def)
  then show ?thesis by (simp add: mgr_session_step_def Some st hub(1))
qed

lemma mgr_step_ok:
  assumes "mgr_inv m"
  shows "\<exists>m'. mgr_step op m = Some m' \<and> mgr_inv m'"
proof (cases op)
  case (MDetach sid cid)
  show ?thesis
  proof (cases "gget (m_sessions m) sid")
    case (Some s)
    then obtain s' where "RemoveClient cid s = Some s'" "session_kept s s'"
      using RemoveClient_kept mgr_inv_session [OF assms] by blast
    then show ?thesis using mgr_inv_set_session' [OF assms Some, of s'] by (simp add: MDetach mgr_Detach_def Some)
  qed (simp add: MDetach mgr_Detach_def assms)
next
  case (MInput e sid data)
  show ?thesis
  proof (cases "gget (m_sessions m) sid")
    case (Some s)
    have "session_kept s (fst (session_Write (e_now e) data s))"
      using session_Write_kept mgr_inv_session [OF assms Some] by blast
    from mgr_inv_set_session' [OF assms Some this] show ?thesis
      by (simp add: MInput mgr_Input_def Some Let_def split_def assms)
  qed (simp add: MInput mgr_Input_def assms)
next
  case (MResize sid cols rows)
  show ?thesis
  proof (cases "gget (m_sessions m) sid")
    case (Some s)
    have "session_kept s (fst (session_Resize cols rows s))"
      using session_Resize_kept mgr_inv_session [OF assms Some] by blast
    from mgr_inv_set_session' [OF assms Some this] show ?thesis
      by (simp add: MResize mgr_Resize_def Some Let_def split_def)
  qed (simp add: MResize mgr_Resize_def assms)
next
  case (MKill e sid)
  then show ?thesis using mgr_Kill_ok [OF assms, of e sid] by auto
next
  case (MCleanup e)
  then show ?thesis using mgr_cleanup_ok [OF assms, of e] assms by auto
next
  case (MClose e)
  then show ?thesis using mgr_Close_ok [OF assms, of e] by auto
qed (simp_all add: assms mgr_Create_ok mgr_Attach_ok mgr_session_step_ok)

lemma mgr_run_ok: "mgr_inv m \<Longrightarrow> \<exists>m'. mgr_run ops m = Some m' \<and> mgr_inv m'"
proof (induction ops arbitrary: m)
  case (Cons op ops)
  obtain m1 where "mgr_step op m = Some m1" "mgr_inv m1" using mgr_step_ok [OF Cons.prems] by blast
  then show ?case using Cons.IH by simp
qed simp

section \<open>Starting the manager\<close>

lemma load_record_get:
  "gget (if rec_ID r = [] then m else gput (rec_ID r) r m) k = Some q \<Longrightarrow>
    gget m k = Some q \<or> k = rec_ID r \<and> q = r"
  by (cases "rec_ID r = []", simp, simp only: if_False gget_gput, metis option.inject)

lemma load_records_wf:
  "gwf m \<Longrightarrow> \<forall>k r. gget m k = Some r \<longrightarrow> rec_ID r = k \<Longrightarrow>
    gwf (load_records rs m) \<and> (\<forall>k r. gget (load_records rs m) k = Some r \<longrightarrow> rec_ID r = k)"
proof (induction rs arbitrary: m)
  case (Cons r rs)
  show ?case
  proof (cases r)
    case None
    then show ?thesis using Cons.IH [OF Cons.prems] by simp
  next
    case (Some r1)
    let ?m = "if rec_ID r1 = [] then m else gput (rec_ID r1) r1 m"
    have "gwf ?m" using Cons.prems(1) by simp
    moreover have "\<forall>k q. gget ?m k = Some q \<longrightarrow> rec_ID q = k"
    proof (intro allI impI)
      fix k q assume "gget ?m k = Some q"
      from load_record_get [OF this] show "rec_ID q = k"
        by (elim disjE conjE) (rule Cons.prems(2) [rule_format], assumption, simp only:)
    qed
    moreover have eq: "load_records (r # rs) m = load_records rs ?m" by (simp add: Some)
    ultimately show ?thesis unfolding eq by (intro Cons.IH)
  qed
qed simp

lemma store_wf_Load: "store_wf st \<Longrightarrow> store_wf (fst (store_Load disk st))"
proof -
  assume st: "store_wf st"
  have "store_wf (st\<lparr>ss_records := load_records rs []\<rparr>)" for rs
    using load_records_wf [of "[]" rs] unfolding store_wf_def by simp
  then show ?thesis using st by (cases disk) (simp_all add: store_Load_def)
qed

lemma mark_stale_eq: "mark_stale now rs st = mark_all now (map rec_ID (filter live_record rs)) st"
  by (induction now rs st rule: mark_stale.induct) (auto simp: mark_all_def live_record_def)

lemma mark_stale_none_live:
  assumes "store_wf st" and "store_Get (mark_stale now (store_List [] True st) st) sid = Some r"
  shows "\<not> live_record r"
proof -
  let ?ids = "map rec_ID (filter live_record (store_List [] True st))"
  have g: "store_Get (mark_all now ?ids st) sid = Some r" using assms(2) unfolding mark_stale_eq .
  show ?thesis
  proof (cases "sid \<in> set ?ids")
    case True
    with g obtain r0 where "r = r0\<lparr>rec_Status := ''ended'', rec_Ended := now\<rparr>"
      unfolding store_Get_mark_all by (cases "store_Get st sid") (simp_all add: that [OF sym])
    then show ?thesis by (simp add: live_record_def)
  next
    case False
    then have r: "store_Get st sid = Some r" using g by (simp only: store_Get_mark_all if_False)
    then have k: "rec_ID r = sid" using session_ks.lookup_key [OF assms(1)] by blast
    have "r \<in> set (store_List [] True st)"
      using r k session_ks.entries_lookup [OF assms(1), of r] by (simp add: store_List_def)
    then show ?thesis using False unfolding k [symmetric] by auto
  qed
qed

lemma NewManager_inv:
  "mgr_inv (NewManager e logs disk idle maxS hist dataDir logDir days cbuf msb)"
proof -
  define st where "st = fst (store_Load disk (NewStore dataDir (if logDir = [] then dataDir @ ''/logs/sessions'' else logDir)))"
  have wf: "store_wf st" unfolding st_def by (intro store_wf_Load session_ks.wf_empty)
  define m where "m = NewManager e logs disk idle maxS hist dataDir logDir days cbuf msb"
  have m: "m_sessions m = []" "\<not> m_closed m" "m_events m = NewEventHub"
    "m_store m = mark_stale (e_now e) (store_List [] True st) st"
    by (simp_all add: m_def NewManager_def Let_def st_def)
  have "store_wf (m_store m)" using wf by (simp add: m(4) mark_stale_eq store_wf_mark_all)
  moreover have "in_step (m_sessions m) (m_store m)"
    using mark_stale_none_live [OF wf, of "e_now e"] by (auto simp: in_step_def m(1,4))
  moreover have "hub_inv (m_events m)" by (simp add: m(3) NewEventHub_def hub_inv_def)
  ultimately have "mgr_inv m" by (simp add: mgr_inv_def m sessions_ok_def live_count_def gvals_def)
  then show ?thesis unfolding m_def .
qed

text \<open>The limit is part of the configuration: no operation changes it.\<close>

lemma close_session_config:
  "close_session e s m = Some (s', m') \<Longrightarrow>
    m_maxSessions m' = m_maxSessions m \<and> m_closed m' = m_closed m \<and> m_sessions m' = m_sessions m"
  by (auto simp: close_session_def split: bind_splits prod.splits)

lemma close_each_config:
  "close_each e l m = Some m' \<Longrightarrow>
    m_maxSessions m' = m_maxSessions m \<and> m_closed m' = m_closed m \<and> m_sessions m' = m_sessions m"
  by (induction e l m rule: close_each.induct)
     (auto simp: mgr_MarkEnded_def split: bind_splits dest!: close_session_config)

lemma close_in_place_config:
  "close_in_place e ids m = Some m' \<Longrightarrow> m_maxSessions m' = m_maxSessions m \<and> m_closed m' = m_closed m"
proof (induction ids arbitrary: m)
  case (Cons sid ids)
  show ?case
  proof (cases "gget (m_sessions m) sid")
    case None
    then show ?thesis using Cons by simp
  next
    case (Some s)
    obtain s' m1 where c: "close_session e s m = Some (s', m1)"
      "close_in_place e ids (set_session sid s' m1) = Some m'"
      using Cons.prems Some by (auto split: bind_splits)
    show ?thesis using Cons.IH [OF c(2)] close_session_config [OF c(1)] by (simp add: set_session_def)
  qed
qed simp

lemma mgr_cleanup_config:
  "mgr_cleanup e m = Some m' \<Longrightarrow> m_maxSessions m' = m_maxSessions m \<and> m_closed m' = m_closed m
     \<and> m_sessions m' = gdel_all (map fst (filter (\<lambda>(_, s). to_close (e_now e) m s) (m_sessions m))) (m_sessions m)"
  by (auto simp: mgr_cleanup_def Let_def mgr_Save_def split: bind_splits prod.splits if_splits
      dest!: close_each_config)

lemma mgr_step_config:
  assumes "mgr_step op m = Some m'"
  shows "m_maxSessions m' = m_maxSessions m \<and> (m_closed m \<longrightarrow> m_closed m')"
proof (cases op)
  case (MCreate e uuid projectID tool workingDir name args cols rows)
  then show ?thesis using assms
    by (auto simp: mgr_Create_def Let_def mgr_Save_def split: prod.splits option.splits)
next
  case (MClose e)
  then show ?thesis using assms
    by (auto simp: mgr_Close_def fold_MarkEnded mgr_Save_def Let_def
        split: if_splits bind_splits dest!: close_in_place_config)
next
  case (MCleanup e)
  then show ?thesis using assms by (auto split: if_splits dest: mgr_cleanup_config)
next
  case (MKill e sid)
  then show ?thesis using assms
    by (auto simp: mgr_Kill_def mgr_MarkEnded_def mgr_Save_def
        split: option.splits bind_splits dest!: close_session_config)
next
  case (MAttach uuid sid cols rows)
  then show ?thesis using assms
    by (auto simp: mgr_Attach_def set_session_def Let_def split_def split: option.splits)
qed (use assms in \<open>auto simp: mgr_Detach_def mgr_Input_def mgr_Resize_def mgr_session_step_def
      set_session_def Let_def split_def split: option.splits bind_splits\<close>)

lemma mgr_run_config:
  "mgr_run ops m = Some m' \<Longrightarrow> m_maxSessions m' = m_maxSessions m \<and> (m_closed m \<longrightarrow> m_closed m')"
  by (induction ops arbitrary: m) (auto dest: mgr_step_config split: option.splits)

section \<open>Properties\<close>

lemma manager_run_inv:
  assumes "mgr_run ops (NewManager e logs disk idle maxS hist dataDir logDir days cbuf msb) = Some m"
  shows "mgr_inv m \<and> m_maxSessions m = maxS"
proof -
  let ?m0 = "NewManager e logs disk idle maxS hist dataDir logDir days cbuf msb"
  have "mgr_inv m" using mgr_run_ok [OF NewManager_inv [of e logs disk idle maxS hist dataDir logDir days cbuf msb], of ops] assms by simp
  moreover have "m_maxSessions m = m_maxSessions ?m0" using mgr_run_config [OF assms] by simp
  ultimately show ?thesis by (simp add: NewManager_def Let_def)
qed

text \<open>
  C2: the session manager never panics, whatever its clients, its sessions' readers and
  consumers, the cleanup loop and a shutdown do and in whatever order, and the number of live
  sessions never exceeds a positive limit.
\<close>
theorem manager_never_panics_and_keeps_limit:
  "\<exists>m. mgr_run ops (NewManager e logs disk idle maxS hist dataDir logDir days cbuf msb) = Some m
     \<and> (maxS \<le> 0 \<or> int (mgr_Count m) \<le> maxS)"
proof -
  obtain m where m: "mgr_run ops (NewManager e logs disk idle maxS hist dataDir logDir days cbuf msb) = Some m"
    using mgr_run_ok [OF NewManager_inv] by blast
  then show ?thesis using manager_run_inv [OF m]
    by (intro exI [of _ m]) (auto simp: mgr_inv_def mgr_Count_def)
qed


abbreviation (input) sample_env :: env where
  "sample_env \<equiv> \<lparr>e_now = 5, e_kill = (\<lambda>_ _. KillOk), e_write = length, 
     e_compress = \<lparr>io_open_src = True, io_open_dst = True, io_copy = True, io_gz_close = True,
       io_dst_close = True, io_remove_src = True\<rparr>,
     e_save = SaveOk, e_remove = (\<lambda>_. True), e_addDays = (\<lambda>t d. t + d), e_mkdir_log = True,
     e_open_log = True, e_shell = ''/bin/sh'', e_environ = [], e_start = (\<lambda>_. Inr 7)\<rparr>"

abbreviation (input) sample_stale :: session_record where
  "sample_stale \<equiv> \<lparr>rec_ID = ''old'', rec_Name = [], rec_ProjectID = [], rec_Tool = ''claude'',
     rec_WorkingDirectory = ''/'', rec_Command = ''claude'', rec_Created = 1, rec_Ended = 0,
     rec_Status = ''running'', rec_LogPath = []\<rparr>"

text \<open>A manager that starts on a stale file and creates a session.\<close>

abbreviation (input) sample_start :: manager where
  "sample_start \<equiv> NewManager sample_env [] (JSONFile [Some sample_stale]) 60 2 0 ''/d'' [] 0 0 0"

lemma sample_run:
  "\<exists>m. mgr_run [MCreate sample_env ''u'' [] ''shell'' ''/'' [] [] 80 24] sample_start = Some m
     \<and> \<not> m_closed m \<and> m_idleTimeout m = 60 * 1000000000 \<and> mgr_Get m ''old'' = None
     \<and> (\<exists>s. mgr_Get m ''u'' = Some s \<and> s_status s = StatusIdle \<and> s_lastActivity s = 5)"
  by (simp add: mgr_Create_def NewManager_def Let_def NewSession_def StartPTY_def live_count_def
      gvals_def mgr_Save_def mgr_Get_def gomap_simps int64_def NewSessionLogger_def buildCommand_def
      GetDimensions_def split: prod.split sum.split)




text \<open>
  After a shutdown the manager is inert. Whatever runs after \<open>Close\<close>, every session it still
  holds has ended, no record is running or idle, creating a session is refused, and input to a
  session fails.
\<close>
lemma manager_shutdown:
  assumes "mgr_run (ops @ MClose e' # later) (NewManager e logs disk idle maxS hist dataDir logDir days cbuf msb) = Some m"
  shows "(\<forall>s \<in> set (gvals (m_sessions m)). IsDone s)
    \<and> (\<forall>sid r. store_Get (m_store m) sid = Some r \<longrightarrow> rec_Status r \<noteq> ''running'' \<and> rec_Status r \<noteq> ''idle'')
    \<and> mgr_Create e2 uuid projectID tool workingDir name args cols rows m = (m, Inl ''session manager is shut down'')
    \<and> snd (mgr_Input e2 sid data m) \<noteq> None"
proof -
  let ?m0 = "NewManager e logs disk idle maxS hist dataDir logDir days cbuf msb"
  have split: "\<exists>m1. mgr_run xs m0 = Some m1 \<and> mgr_run ys m1 = Some m2" if "mgr_run (xs @ ys) m0 = Some m2"
    for xs ys m0 m2
    using that by (induction xs arbitrary: m0) (auto split: option.splits)
  obtain m1 where m1: "mgr_run ops ?m0 = Some m1" "mgr_run (MClose e' # later) m1 = Some m"
    using split [OF assms] by blast
  then obtain m2 where m2: "mgr_Close e' m1 = Some m2" "mgr_run later m2 = Some m"
    by (auto split: option.splits)
  have "m_closed m2" using mgr_Close_ok [of m1 e'] manager_run_inv [OF m1(1)] m2(1) by auto
  then have closed: "m_closed m" using mgr_run_config [OF m2(2)] by simp
  have inv: "mgr_inv m" using manager_run_inv [OF assms] by simp
  then have g: "gwf (m_sessions m)" by (simp add: mgr_inv_def sessions_ok_def)
  have fin: "s_done s" if "gget (m_sessions m) k = Some s" for k s
    using inv closed that by (auto simp: mgr_inv_def)
  have "\<not> live_record r" if "store_Get (m_store m) k = Some r" for k r
    using inv closed that by (auto simp: mgr_inv_def)
  moreover have "\<forall>s \<in> set (gvals (m_sessions m)). IsDone s"
    using fin by (auto simp: set_gvals_iff [OF g] IsDone_def)
  moreover have "snd (mgr_Input e2 sid data m) \<noteq> None"
    using fin by (auto simp: mgr_Input_def IsDone_def split: option.split)
  ultimately show ?thesis using closed by (auto simp: mgr_Create_def live_record_def)
qed

lemma manager_shutdown_witness:
  "\<exists>m. mgr_run ([MCreate sample_env ''u'' [] ''shell'' ''/'' [] [] 80 24] @ MClose sample_env # []) sample_start = Some m
     \<and> (\<forall>s \<in> set (gvals (m_sessions m)). IsDone s) \<and> snd (mgr_Input sample_env ''u'' ''x'' m) \<noteq> None"
proof -
  obtain m where m: "mgr_run ([MCreate sample_env ''u'' [] ''shell'' ''/'' [] [] 80 24] @ MClose sample_env # []) sample_start = Some m"
    using mgr_run_ok [OF NewManager_inv] by blast
  from manager_shutdown [OF m, where ?e2.0 = sample_env and sid = "''u''" and data = "''x''"]
  show ?thesis using m by (intro exI [of _ m]) blast
qed

end
