(* ===== verification/Session_Reader.thy ===== *)
theory Session_Reader
  imports Session_Status
begin

text \<open>
  The reader goroutine of a session as a whole, \<open>readPTYOutput\<close> of
  \<open>internal/session/pty.go\<close> run over the reads it makes, and the process it reads from: the
  bell events it emits are rate limited, it ends the session exactly once, and the command that
  starts the process cannot be injected into.
\<close>

section \<open>The loop\<close>

text \<open>One read: the clock, which waiting clients take what is sent, the log file, the result.\<close>

type_synonym read_step = "time \<times> (string \<Rightarrow> bool \<times> bool) \<times> (bytes \<Rightarrow> nat) \<times> pty_read"

fun reader_run :: "read_step list \<Rightarrow> session \<times> log_fs \<Rightarrow> (session \<times> log_fs) \<times> event list" where
  "reader_run [] st = (st, [])"
| "reader_run ((now, takes, wr, r) # rs) st =
     (let (st', evs, _) = readPTYOutput_step now takes wr r st;
          (st'', evs') = reader_run rs st'
      in (st'', evs @ evs'))"

definition is_bell :: "event \<Rightarrow> bool" where
  "is_bell ev \<longleftrightarrow> ev_Type ev = EventTypeBell"

lemma appendAndBroadcast_bell:
  "s_lastBellEvent (fst (appendAndBroadcast now takes data s)) = s_lastBellEvent s
    \<and> s_bell (fst (appendAndBroadcast now takes data s)) = s_bell s
    \<and> s_onEvent (fst (appendAndBroadcast now takes data s)) = s_onEvent s
    \<and> s_done (fst (appendAndBroadcast now takes data s)) = s_done s
    \<and> s_readDone (fst (appendAndBroadcast now takes data s)) = s_readDone s"
  by (simp add: appendAndBroadcast_def broadcast_def split_def Let_def)

lemma reader_log_session:
  "s_lastBellEvent (fst (reader_log wr data (s, fs))) = s_lastBellEvent s
    \<and> s_bell (fst (reader_log wr data (s, fs))) = s_bell s
    \<and> s_onEvent (fst (reader_log wr data (s, fs))) = s_onEvent s
    \<and> s_done (fst (reader_log wr data (s, fs))) = s_done s
    \<and> s_readDone (fst (reader_log wr data (s, fs))) = s_readDone s"
  by (simp add: reader_log_def split_def Let_def split: option.split)

text \<open>What one read does to the rate limiter, and the events it can emit.\<close>

lemma reader_step_bell:
  assumes "readPTYOutput_step now takes wr r (s, fs) = ((s', fs'), evs, got)"
  shows "filter is_bell evs = [] \<and> s_lastBellEvent s' = s_lastBellEvent s
    \<or> s_lastBellEvent s' = now \<and> bellEventCooldown \<le> now - s_lastBellEvent s
        \<and> (\<forall>ev \<in> set (filter is_bell evs). ev_Timestamp ev = now) \<and> length (filter is_bell evs) \<le> 1"
proof (cases "s_readDone s \<or> (\<exists>data. r = PtyData data \<and> data = [])")
  case True
  then have "evs = [] \<and> s' = s" using assms
    by (cases "s_readDone s") (auto simp: readPTYOutput_step_def)
  then show ?thesis by simp
next
  case False
  show ?thesis
  proof (cases r)
    case (PtyData data)
    define s1 where "s1 = fst (reader_log wr data
        (reader_track data (fst (appendAndBroadcast now takes data (UpdateActivity now s))), fs))"
    have s1: "s_lastBellEvent s1 = s_lastBellEvent s"
      by (simp add: s1_def reader_log_session reader_track_def appendAndBroadcast_bell UpdateActivity_def)
    have "s' = fst (reader_bell now data s1)" "evs = snd (reader_bell now data s1)"
      using assms False PtyData
      by (auto simp: readPTYOutput_step_def Let_def split_def s1_def)
    then show ?thesis using s1
      by (auto simp: reader_bell_def Let_def split_def emitEvent_def is_bell_def)
  next
    case PtyEOF
    then have "filter is_bell evs = [] \<and> s_lastBellEvent s' = s_lastBellEvent s"
      using assms False by (auto simp: readPTYOutput_step_def markDone_def emitEvent_def is_bell_def split: if_splits)
    then show ?thesis by blast
  next
    case (PtyError e)
    then have "filter is_bell evs = [] \<and> s_lastBellEvent s' = s_lastBellEvent s"
      using assms False by (auto simp: readPTYOutput_step_def markDone_def emitEvent_def is_bell_def split: if_splits)
    then show ?thesis by blast
  qed
qed

lemma reader_run_bell:
  "sorted_wrt (\<lambda>e f. bellEventCooldown \<le> ev_Timestamp f - ev_Timestamp e)
      (filter is_bell (snd (reader_run rs (s, fs))))
    \<and> (\<forall>ev \<in> set (filter is_bell (snd (reader_run rs (s, fs)))).
         bellEventCooldown \<le> ev_Timestamp ev - s_lastBellEvent s)"
proof (induction rs arbitrary: s fs)
  case (Cons x rs)
  obtain now takes wr r where x: "x = (now, takes, wr, r)" by (cases x) auto
  obtain s1 fs1 evs got where st: "readPTYOutput_step now takes wr r (s, fs) = ((s1, fs1), evs, got)"
    by (metis prod.exhaust)
  let ?later = "filter is_bell (snd (reader_run rs (s1, fs1)))"
  have run: "filter is_bell (snd (reader_run (x # rs) (s, fs))) = filter is_bell evs @ ?later"
    by (simp add: x st Let_def split_def)
  note IH = Cons.IH [of s1 fs1]
  have pos: "0 \<le> bellEventCooldown" by (simp add: bellEventCooldown_def)
  from reader_step_bell [OF st] show ?case
  proof (elim disjE conjE)
    assume "filter is_bell evs = []" "s_lastBellEvent s1 = s_lastBellEvent s"
    then show ?thesis using IH unfolding run by simp
  next
    assume b: "s_lastBellEvent s1 = now" "bellEventCooldown \<le> now - s_lastBellEvent s"
      "\<forall>ev \<in> set (filter is_bell evs). ev_Timestamp ev = now" "length (filter is_bell evs) \<le> 1"
    have later: "bellEventCooldown \<le> ev_Timestamp ev - s_lastBellEvent s" if "ev \<in> set ?later" for ev
      using IH that b(1,2) pos by fastforce
    have "sorted_wrt (\<lambda>e f. bellEventCooldown \<le> ev_Timestamp f - ev_Timestamp e) (filter is_bell evs)"
      using b(4) by (cases "filter is_bell evs") auto
    then have "sorted_wrt (\<lambda>e f. bellEventCooldown \<le> ev_Timestamp f - ev_Timestamp e)
        (filter is_bell evs @ ?later)"
      using IH b(1,3) by (auto simp: sorted_wrt_append)
    moreover have "\<forall>ev \<in> set (filter is_bell evs @ ?later). bellEventCooldown \<le> ev_Timestamp ev - s_lastBellEvent s"
      using later b(2,3) by auto
    ultimately show ?thesis unfolding run by blast
  qed
qed simp

section \<open>Properties\<close>

text \<open>
  Bell events are rate limited. Whatever a session's process prints and however its output is
  read, two bell events of the session are at least five seconds apart, so a process that rings
  continuously cannot flood the subscribers.
\<close>
lemma bell_events_rate_limited:
  "sorted_wrt (\<lambda>e f. 5 * 1000000000 \<le> ev_Timestamp f - ev_Timestamp e)
     (filter (\<lambda>ev. ev_Type ev = EventTypeBell) (snd (reader_run rs (s, fs))))"
  using conjunct1 [OF reader_run_bell [of rs s fs]]
  by (simp add: bellEventCooldown_def is_bell_def [abs_def])

text \<open>
  C14: a session's tool and arguments cannot be injected into the shell. If the command of a session
  is built, the shell is started plainly or with a script that is one of two things: the fixed
  expansion of the positional parameters, with the tool and every argument passed unchanged as
  separate words, or a validated tool name, which holds no shell syntax.
\<close>
theorem session_command_not_injectable:
  assumes "buildCommand shell environ s = Inr cmd"
  shows "c_path cmd = shell \<and> c_dir cmd = s_WorkingDirectory s
    \<and> (s_Tool s = ''shell'' \<and> s_Args s = [] \<and> c_args cmd = [''-l'']
      \<or> s_Args s \<noteq> [] \<and> c_args cmd = [''-l'', ''-i'', ''-c'', argScript, ''_'']
            @ (if s_Tool s = ''shell'' then [] else [s_Tool s]) @ s_Args s
      \<or> s_Args s = [] \<and> c_args cmd = [''-l'', ''-i'', ''-c'', s_Tool s]
            \<and> s_Tool s \<noteq> [] \<and> set (s_Tool s) \<inter> set '' ;&|<>()*?~#=/$'' = {})"
proof -
  have safe: "set t \<inter> set '' ;&|<>()*?~#=/$'' = {}" if "list_all tool_char t" for t
  proof -
    have "x \<notin> set '' ;&|<>()*?~#=/$''" if "x \<in> set t" for x
      using tool_char_no_shell_syntax [of x] that \<open>list_all tool_char t\<close> by (simp add: list_all_iff)
    then show ?thesis by blast
  qed
  show ?thesis using assms safe [of "s_Tool s"]
    by (auto simp: buildCommand_def Let_def ValidateToolName_def split: if_splits)
qed

lemma session_command_not_injectable_witness:
  "\<exists>cmd s. buildCommand ''/bin/sh'' [] s = Inr cmd \<and> s_Args s = [''$(rm -rf /)'']
    \<and> c_args cmd = [''-l'', ''-i'', ''-c'', argScript, ''_'', ''claude'', ''$(rm -rf /)'']"
proof -
  let ?s = "NewSession ''u'' 0 [] ''claude'' ''/'' [] [''$(rm -rf /)''] 80 24 0"
  have "ValidateToolName ''claude''" by (simp add: ValidateToolName_def tool_char_def bval_def)
  then obtain cmd where c: "buildCommand ''/bin/sh'' [] ?s = Inr cmd"
    by (simp add: buildCommand_def NewSession_def Let_def)
  have "s_Args ?s = [''$(rm -rf /)'']" "s_Tool ?s = ''claude''" by (simp_all add: NewSession_def Let_def)
  then show ?thesis using session_command_not_injectable [OF c] c
    by (intro exI [of _ cmd] exI [of _ ?s]) simp
qed

text \<open>
  Terminal sizes are kept in sixteen bits. A resize with positive sizes is recorded as asked
  and sets the PTY's window to the sizes modulo 65536, so sizes below 65536 arrive exactly and
  a width of 65536 gives the window no columns at all; a size that is not positive is refused and
  changes nothing.
\<close>
lemma resize_window:
  assumes "s_pty s = Some p" and "pty_open p"
  shows "(if cols \<le> 0 \<or> rows \<le> 0
     then session_Resize cols rows s = (s, Some ''invalid terminal size'')
     else \<exists>s' p'. session_Resize cols rows s = (s', None) \<and> s_pty s' = Some p'
       \<and> GetDimensions s' = (cols, rows)
       \<and> uint (pty_Cols p') = cols mod 65536 \<and> uint (pty_Rows p') = rows mod 65536)"
  using assms by (auto simp: session_Resize_def GetDimensions_def Let_def uint_word_of_int)

lemma resize_window_witness:
  "\<exists>s s' p'. session_Resize 65536 24 s = (s', None) \<and> s_pty s' = Some p' \<and> uint (pty_Cols p') = 0"
proof -
  let ?p = "\<lparr>pty_Rows = 24, pty_Cols = 80, pty_written = [], pty_open = True\<rparr>"
  let ?s = "(NewSession ''u'' 0 [] ''claude'' ''/'' [] [] 80 24 0)\<lparr>s_pty := Some ?p\<rparr>"
  show ?thesis using resize_window [of ?s ?p 65536 24] by auto
qed

end
