(* ===== verification/TaskStore.thy ===== *)
theory TaskStore
  imports Keyed_Store
begin

text \<open>
  The task definitions of \<open>internal/task/store.go\<close>: a map from task ids to tasks, saved as
  \<open>tasks.json\<close>, with partial updates. The hash that makes an id and the printing of a time are
  parameters of the standard library. \<open>None\<close> of \<open>task_Load\<close> is a panic.
\<close>

type_synonym task_scope = int

definition TaskScopeUnspecified :: task_scope where "TaskScopeUnspecified = 0"
definition TaskScopeGlobal :: task_scope where "TaskScopeGlobal = 1"
definition TaskScopeSystem :: task_scope where "TaskScopeSystem = 2"
definition TaskScopeProject :: task_scope where "TaskScopeProject = 3"

record task =
  t_ID :: string
  t_Name :: string
  t_Description :: string
  t_Tool :: string
  t_Scope :: task_scope
  t_ProjectID :: string
  t_Prompt :: string
  t_Interactive :: bool
  t_TimeoutSeconds :: int
  t_CreatedAt :: time
  t_UpdatedAt :: time

record task_store =
  ts_tasks :: "(string, task) gomap"
  ts_dataDir :: string

definition NewTaskStore :: "string \<Rightarrow> task_store" where
  "NewTaskStore dataDir = \<lparr>ts_tasks = [], ts_dataDir = dataDir\<rparr>"

section \<open>The file\<close>

definition json_task :: "task \<Rightarrow> task" where
  "json_task t = t\<lparr>t_ID := json_str (t_ID t), t_Name := json_str (t_Name t),
     t_Description := json_str (t_Description t), t_Tool := json_str (t_Tool t),
     t_ProjectID := json_str (t_ProjectID t), t_Prompt := json_str (t_Prompt t)\<rparr>"

text \<open>The loop of \<open>Load\<close>; a \<open>null\<close> in the list is a nil pointer it dereferences.\<close>

fun load_tasks :: "task option list \<Rightarrow> (string, task) gomap \<Rightarrow> (string, task) gomap option" where
  "load_tasks [] m = Some m"
| "load_tasks (None # ts) m = None"
| "load_tasks (Some t # ts) m = load_tasks ts (gput (t_ID t) t m)"

definition task_Load :: "task store_file \<Rightarrow> task_store \<Rightarrow> (task_store \<times> string option) option" where
  "task_Load disk s =
     (case disk of
        NoFile \<Rightarrow> Some (s, None)
      | ReadFails e \<Rightarrow> Some (s, Some e)
      | BadJSON e \<Rightarrow> Some (s, Some e)
      | JSONFile ts \<Rightarrow> map_option (\<lambda>m. (s\<lparr>ts_tasks := m\<rparr>, None)) (load_tasks ts []))"

definition task_Save ::
  "save_io \<Rightarrow> task_store \<Rightarrow> task store_file \<Rightarrow> task store_file \<times> string option" where
  "task_Save io s disk = write_store io (map json_task (gvals (ts_tasks s))) disk"

section \<open>Operations\<close>

definition hex_digit :: "nat \<Rightarrow> char" where
  "hex_digit d = char_of (if d < 10 then 48 + d else 87 + d)"

definition hex_encode :: "bytes \<Rightarrow> string" where
  "hex_encode bs = concat (map (\<lambda>b. [hex_digit (bval b div 16), hex_digit (bval b mod 16)]) bs)"

definition generateTaskID ::
  "(bytes \<Rightarrow> bytes) \<Rightarrow> (time \<Rightarrow> string) \<Rightarrow> string \<Rightarrow> string \<Rightarrow> time \<Rightarrow> string" where
  "generateTaskID sha256 time_String name projectID created =
     hex_encode (take 8 (sha256 (name @ projectID @ time_String created)))"

definition task_put :: "task \<Rightarrow> task_store \<Rightarrow> task_store" where
  "task_put t s = s\<lparr>ts_tasks := gput (t_ID t) t (ts_tasks s)\<rparr>"

definition task_Create ::
  "(bytes \<Rightarrow> bytes) \<Rightarrow> (time \<Rightarrow> string) \<Rightarrow> time \<Rightarrow> string \<Rightarrow> string \<Rightarrow> string \<Rightarrow> task_scope \<Rightarrow> string
   \<Rightarrow> string \<Rightarrow> bool \<Rightarrow> int \<Rightarrow> task_store \<Rightarrow> task_store \<times> task" where
  "task_Create sha256 time_String now name description tool scope projectID prompt interactive
     timeoutSeconds s =
     (let t = \<lparr>t_ID = generateTaskID sha256 time_String name projectID now, t_Name = name,
               t_Description = description, t_Tool = tool, t_Scope = scope,
               t_ProjectID = projectID, t_Prompt = prompt, t_Interactive = interactive,
               t_TimeoutSeconds = timeoutSeconds, t_CreatedAt = now, t_UpdatedAt = now\<rparr>
      in (task_put t s, t))"

definition task_Get :: "task_store \<Rightarrow> string \<Rightarrow> task option" where
  "task_Get s k = gget (ts_tasks s) k"

record patch =
  p_Name :: "string option"
  p_Description :: "string option"
  p_Tool :: "string option"
  p_Scope :: "task_scope option"
  p_ProjectID :: "string option"
  p_Prompt :: "string option"
  p_Interactive :: "bool option"
  p_TimeoutSeconds :: "int option"

text \<open>The value of a patched field: a nil field leaves the old one.\<close>

fun patched :: "'a option \<Rightarrow> 'a \<Rightarrow> 'a" where
  "patched None old = old"
| "patched (Some new) old = new"

definition apply_patch :: "time \<Rightarrow> patch \<Rightarrow> task \<Rightarrow> task" where
  "apply_patch now p t =
     t\<lparr>t_Name := patched (p_Name p) (t_Name t),
       t_Description := patched (p_Description p) (t_Description t),
       t_Tool := patched (p_Tool p) (t_Tool t),
       t_Scope := patched (p_Scope p) (t_Scope t),
       t_ProjectID := patched (p_ProjectID p) (t_ProjectID t),
       t_Prompt := patched (p_Prompt p) (t_Prompt t),
       t_Interactive := patched (p_Interactive p) (t_Interactive t),
       t_TimeoutSeconds := patched (p_TimeoutSeconds p) (t_TimeoutSeconds t),
       t_UpdatedAt := now\<rparr>"

definition task_Update :: "time \<Rightarrow> string \<Rightarrow> patch \<Rightarrow> task_store \<Rightarrow> task_store \<times> task option" where
  "task_Update now k p s =
     (case gget (ts_tasks s) k of
        None \<Rightarrow> (s, None)
      | Some t \<Rightarrow>
          let t' = apply_patch now p t in (s\<lparr>ts_tasks := gput k t' (ts_tasks s)\<rparr>, Some t'))"

definition task_Delete :: "string \<Rightarrow> task_store \<Rightarrow> task_store \<times> bool" where
  "task_Delete k s =
     (case gget (ts_tasks s) k of
        Some _ \<Rightarrow> (s\<lparr>ts_tasks := gdel k (ts_tasks s)\<rparr>, True)
      | None \<Rightarrow> (s, False))"

definition task_List :: "task_scope \<Rightarrow> string \<Rightarrow> task_store \<Rightarrow> task list" where
  "task_List scope projectID s =
     filter (\<lambda>t. \<not> (scope \<noteq> TaskScopeUnspecified \<and> t_Scope t \<noteq> scope)
               \<and> \<not> (projectID \<noteq> [] \<and> t_ProjectID t \<noteq> projectID)) (gvals (ts_tasks s))"

definition task_Count :: "task_store \<Rightarrow> nat" where
  "task_Count s = length (ts_tasks s)"

section \<open>The store as a keyed store\<close>

definition task_wf :: "task_store \<Rightarrow> bool" where
  "task_wf = map_wf ts_tasks t_ID"

lemma task_wf_key: "task_wf s \<Longrightarrow> gget (ts_tasks s) k = Some t \<Longrightarrow> t_ID t = k"
  unfolding task_wf_def by (rule map_wf_key)

interpretation task_ks: keyed_store task_Get task_put task_Delete "\<lambda>s. gvals (ts_tasks s)"
  t_ID "NewTaskStore dataDir" task_wf
proof -
  have eqs: "task_Get = (\<lambda>s. gget (ts_tasks s))"
    "task_put = (\<lambda>t s. s\<lparr>ts_tasks := gput (t_ID t) t (ts_tasks s)\<rparr>)"
    "task_Delete = (\<lambda>k s. case gget (ts_tasks s) k of
       Some _ \<Rightarrow> (s\<lparr>ts_tasks := gdel k (ts_tasks s)\<rparr>, True) | None \<Rightarrow> (s, False))"
    by (simp_all add: fun_eq_iff task_Get_def task_put_def task_Delete_def)
  show "keyed_store task_Get task_put task_Delete (\<lambda>s. gvals (ts_tasks s)) t_ID
      (NewTaskStore dataDir) task_wf"
    unfolding eqs task_wf_def by (rule map_store [where set_map = "\<lambda>m s. s\<lparr>ts_tasks := m\<rparr>"]) (simp_all add: NewTaskStore_def)
qed

lemma load_tasks_puts:
  "load_tasks (map Some ts) (ts_tasks s) = Some (ts_tasks (fold task_put ts s))"
proof (induction ts arbitrary: s)
  case (Cons t ts)
  then show ?case using Cons.IH [of "task_put t s"] by (simp add: task_put_def)
qed simp

lemma load_tasks_None_iff: "load_tasks ts m = None \<longleftrightarrow> None \<in> set ts"
  by (induction ts m rule: load_tasks.induct) auto

lemma task_wf_Update: "task_wf s \<Longrightarrow> task_wf (fst (task_Update now k p s))"
proof (cases "gget (ts_tasks s) k")
  case (Some t)
  assume wf: "task_wf s"
  have "t_ID (apply_patch now p t) = k" using task_wf_key [OF wf Some] by (simp add: apply_patch_def)
  then show ?thesis
    using wf Some map_wf_put [of ts_tasks t_ID s _ "apply_patch now p t"]
    by (simp add: task_wf_def task_Update_def Let_def)
qed (simp add: task_Update_def)

lemma task_Get_Update:
  "task_Get (fst (task_Update now k p s)) k' =
    (if k' = k then map_option (apply_patch now p) (task_Get s k) else task_Get s k')"
  by (auto simp: task_Get_def task_Update_def Let_def gget_gput split: option.splits)

definition task_text :: "task \<Rightarrow> bool" where
  "task_text t \<longleftrightarrow> list_all valid_utf8 [t_ID t, t_Name t, t_Description t, t_Tool t, t_ProjectID t, t_Prompt t]"

lemma json_task_text [simp]: "task_text t \<Longrightarrow> json_task t = t"
  by (simp add: task_text_def json_task_def)

end
