(* ===== verification/RunStore.thy ===== *)
theory RunStore
  imports Keyed_Store
begin

text \<open>
  The history of task runs of \<open>internal/task/runs.go\<close>. The store has two indexes, by run id and
  by task, that point to the same \<open>Run\<close> objects, and an update through one is seen through the
  other; so the objects live in a heap and the indexes hold addresses. \<open>None\<close> of \<open>run_Load\<close> is a
  panic.
\<close>

type_synonym run_status = int

definition RunStatusPending :: run_status where "RunStatusPending = 1"
definition RunStatusRunning :: run_status where "RunStatusRunning = 2"
definition RunStatusCompleted :: run_status where "RunStatusCompleted = 3"
definition RunStatusFailed :: run_status where "RunStatusFailed = 4"
definition RunStatusCancelled :: run_status where "RunStatusCancelled = 5"

lemmas run_status_defs = RunStatusPending_def RunStatusRunning_def RunStatusCompleted_def
  RunStatusFailed_def RunStatusCancelled_def

record run =
  r_ID :: string
  r_TaskID :: string
  r_Status :: run_status
  r_StartedAt :: time
  r_CompletedAt :: time
  r_Output :: string
  r_Error :: string
  r_SessionID :: string

text \<open>A pending or a running run.\<close>

definition active :: "run \<Rightarrow> bool" where
  "active r \<longleftrightarrow> r_Status r = RunStatusPending \<or> r_Status r = RunStatusRunning"

record run_store =
  rs_heap :: "run list"
  rs_runs :: "(string, nat) gomap"
  rs_byTask :: "(string, nat list) gomap"
  rs_dataDir :: string
  rs_maxRunsPerTask :: int

definition NewRunStore :: "string \<Rightarrow> int \<Rightarrow> run_store" where
  "NewRunStore dataDir maxRunsPerTask =
     \<lparr>rs_heap = [], rs_runs = [], rs_byTask = [], rs_dataDir = dataDir,
      rs_maxRunsPerTask = (if maxRunsPerTask \<le> 0 then 10 else maxRunsPerTask)\<rparr>"

definition by_task :: "string \<Rightarrow> run_store \<Rightarrow> nat list" where
  "by_task tid s = (case gget (rs_byTask s) tid of None \<Rightarrow> [] | Some as \<Rightarrow> as)"

definition sortRuns :: "string \<Rightarrow> run_store \<Rightarrow> run_store" where
  "sortRuns tid s =
     s\<lparr>rs_byTask := gmod tid (newest_first (\<lambda>a. r_StartedAt (rs_heap s ! a))) (rs_byTask s)\<rparr>"

definition pruneRuns :: "string \<Rightarrow> run_store \<Rightarrow> run_store" where
  "pruneRuns tid s =
     (let runs = by_task tid s in
      if int (length runs) \<le> rs_maxRunsPerTask s then s
      else
        let toRemove = drop (nat (rs_maxRunsPerTask s)) runs
        in s\<lparr>rs_byTask := gput tid (take (nat (rs_maxRunsPerTask s)) runs) (rs_byTask s),
             rs_runs := gdel_all (map (\<lambda>a. r_ID (rs_heap s ! a)) toRemove) (rs_runs s)\<rparr>)"

text \<open>A new object, in both indexes.\<close>

definition add_run :: "run \<Rightarrow> run_store \<Rightarrow> run_store" where
  "add_run r s =
     (let a = length (rs_heap s)
      in s\<lparr>rs_heap := rs_heap s @ [r], rs_runs := gput (r_ID r) a (rs_runs s),
           rs_byTask := gput (r_TaskID r) (by_task (r_TaskID r) s @ [a]) (rs_byTask s)\<rparr>)"

section \<open>The file\<close>

definition json_run :: "run \<Rightarrow> run" where
  "json_run r = r\<lparr>r_ID := json_str (r_ID r), r_TaskID := json_str (r_TaskID r),
     r_Output := json_str (r_Output r), r_Error := json_str (r_Error r),
     r_SessionID := json_str (r_SessionID r)\<rparr>"

definition fail_stale :: "time \<Rightarrow> run \<Rightarrow> run" where
  "fail_stale now r =
     (if r_Status r = RunStatusPending \<or> r_Status r = RunStatusRunning then
        let r = r\<lparr>r_Status := RunStatusFailed, r_Error := ''daemon stopped before the run finished''\<rparr>
        in if is_zero (r_CompletedAt r) then r\<lparr>r_CompletedAt := now\<rparr> else r
      else r)"

fun load_runs :: "time \<Rightarrow> run option list \<Rightarrow> run_store \<Rightarrow> run_store option" where
  "load_runs now [] s = Some s"
| "load_runs now (None # rs) s = None"
| "load_runs now (Some r # rs) s = load_runs now rs (add_run (fail_stale now r) s)"

definition run_Load :: "time \<Rightarrow> run store_file \<Rightarrow> run_store \<Rightarrow> (run_store \<times> string option) option" where
  "run_Load now disk s =
     (case disk of
        NoFile \<Rightarrow> Some (s, None)
      | ReadFails e \<Rightarrow> Some (s, Some e)
      | BadJSON e \<Rightarrow> Some (s, Some e)
      | JSONFile rs \<Rightarrow>
          map_option (\<lambda>s. (fold sortRuns (gkeys (rs_byTask s)) s, None))
            (load_runs now rs (s\<lparr>rs_runs := [], rs_byTask := []\<rparr>)))"

definition run_Save :: "save_io \<Rightarrow> run_store \<Rightarrow> run store_file \<Rightarrow> run store_file \<times> string option" where
  "run_Save io s disk = write_store io (map (\<lambda>a. json_run (rs_heap s ! a)) (gvals (rs_runs s))) disk"

section \<open>Operations\<close>

text \<open>\<open>uuid\<close> is the fresh id the library makes.\<close>

definition run_Create :: "string \<Rightarrow> time \<Rightarrow> string \<Rightarrow> run_store \<Rightarrow> run_store" where
  "run_Create uuid now taskID s =
     (let run = \<lparr>r_ID = uuid, r_TaskID = taskID, r_Status = RunStatusPending, r_StartedAt = now,
                 r_CompletedAt = 0, r_Output = [], r_Error = [], r_SessionID = []\<rparr>
      in pruneRuns taskID (sortRuns taskID (add_run run s)))"

definition run_Get :: "run_store \<Rightarrow> string \<Rightarrow> run option" where
  "run_Get s runID = map_option (\<lambda>a. rs_heap s ! a) (gget (rs_runs s) runID)"

text \<open>Changing the run with an id, if there is one.\<close>

definition modify_run :: "string \<Rightarrow> (run \<Rightarrow> run) \<Rightarrow> run_store \<Rightarrow> run_store" where
  "modify_run runID f s =
     (case gget (rs_runs s) runID of
        None \<Rightarrow> s
      | Some a \<Rightarrow> s\<lparr>rs_heap := (rs_heap s)[a := f (rs_heap s ! a)]\<rparr>)"

definition run_UpdateStatus :: "time \<Rightarrow> string \<Rightarrow> run_status \<Rightarrow> run_store \<Rightarrow> run_store" where
  "run_UpdateStatus now runID status =
     modify_run runID (\<lambda>r.
       let r = r\<lparr>r_Status := status\<rparr>
       in if status = RunStatusCompleted \<or> status = RunStatusFailed \<or> status = RunStatusCancelled
          then r\<lparr>r_CompletedAt := now\<rparr> else r)"

definition run_SetOutput :: "string \<Rightarrow> string \<Rightarrow> run_store \<Rightarrow> run_store" where
  "run_SetOutput runID output = modify_run runID (\<lambda>r. r\<lparr>r_Output := output\<rparr>)"

definition run_SetError :: "string \<Rightarrow> string \<Rightarrow> run_store \<Rightarrow> run_store" where
  "run_SetError runID errMsg = modify_run runID (\<lambda>r. r\<lparr>r_Error := errMsg\<rparr>)"

definition run_SetSessionID :: "string \<Rightarrow> string \<Rightarrow> run_store \<Rightarrow> run_store" where
  "run_SetSessionID runID sessionID = modify_run runID (\<lambda>r. r\<lparr>r_SessionID := sessionID\<rparr>)"

definition run_MarkRunning :: "string \<Rightarrow> run_store \<Rightarrow> run_store \<times> bool" where
  "run_MarkRunning runID s =
     (case run_Get s runID of
        Some r \<Rightarrow>
          if r_Status r = RunStatusPending
          then (modify_run runID (\<lambda>r. r\<lparr>r_Status := RunStatusRunning\<rparr>) s, True) else (s, False)
      | None \<Rightarrow> (s, False))"

definition run_Complete :: "time \<Rightarrow> string \<Rightarrow> string \<Rightarrow> run_store \<Rightarrow> run_store" where
  "run_Complete now runID output =
     modify_run runID (\<lambda>r.
       if r_Status r \<noteq> RunStatusCancelled
       then r\<lparr>r_Status := RunStatusCompleted, r_Output := output, r_CompletedAt := now\<rparr> else r)"

definition run_Fail :: "time \<Rightarrow> string \<Rightarrow> string \<Rightarrow> run_store \<Rightarrow> run_store" where
  "run_Fail now runID errMsg =
     modify_run runID (\<lambda>r.
       if r_Status r \<noteq> RunStatusCancelled
       then r\<lparr>r_Status := RunStatusFailed, r_Error := errMsg, r_CompletedAt := now\<rparr> else r)"

definition run_Cancel :: "time \<Rightarrow> string \<Rightarrow> run_store \<Rightarrow> run_store \<times> bool" where
  "run_Cancel now runID s =
     (case run_Get s runID of
        Some r \<Rightarrow>
          if r_Status r = RunStatusPending \<or> r_Status r = RunStatusRunning
          then (modify_run runID (\<lambda>r. r\<lparr>r_Status := RunStatusCancelled, r_CompletedAt := now\<rparr>) s, True)
          else (s, False)
      | None \<Rightarrow> (s, False))"

definition run_ListByTask :: "string \<Rightarrow> int \<Rightarrow> run_store \<Rightarrow> run list" where
  "run_ListByTask taskID limit s =
     (let runs = by_task taskID s;
          limit = (if limit \<le> 0 \<or> int (length runs) < limit then int (length runs) else limit)
      in map (\<lambda>i. rs_heap s ! (runs ! i)) [0..<nat limit])"

definition run_ListAll :: "int \<Rightarrow> run_store \<Rightarrow> run list" where
  "run_ListAll limit s =
     (let runs = newest_first r_StartedAt (map (\<lambda>a. rs_heap s ! a) (gvals (rs_runs s)))
      in if 0 < limit \<and> limit < int (length runs) then take (nat limit) runs else runs)"

definition run_GetRunning :: "string \<Rightarrow> run_store \<Rightarrow> run option" where
  "run_GetRunning taskID s =
     List.find (\<lambda>r. r_Status r = RunStatusRunning \<or> r_Status r = RunStatusPending)
       (map (\<lambda>a. rs_heap s ! a) (by_task taskID s))"

definition run_DeleteByTask :: "string \<Rightarrow> run_store \<Rightarrow> run_store" where
  "run_DeleteByTask taskID s =
     s\<lparr>rs_runs := gdel_all (map (\<lambda>a. r_ID (rs_heap s ! a)) (by_task taskID s)) (rs_runs s),
       rs_byTask := gdel taskID (rs_byTask s)\<rparr>"

section \<open>The indexes agree\<close>

text \<open>Both indexes point to the same objects, each filed under its own id and its own task.\<close>

definition run_inv :: "run_store \<Rightarrow> bool" where
  "run_inv s \<longleftrightarrow> gwf (rs_runs s) \<and> gwf (rs_byTask s) \<and> 0 < rs_maxRunsPerTask s
     \<and> (\<forall>k a. gget (rs_runs s) k = Some a \<longrightarrow>
          a < length (rs_heap s) \<and> r_ID (rs_heap s ! a) = k
          \<and> a \<in> set (by_task (r_TaskID (rs_heap s ! a)) s))
     \<and> (\<forall>tid. distinct (by_task tid s))
     \<and> (\<forall>tid a. a \<in> set (by_task tid s) \<longrightarrow>
          r_TaskID (rs_heap s ! a) = tid \<and> gget (rs_runs s) (r_ID (rs_heap s ! a)) = Some a)"

lemma run_invD:
  assumes "run_inv s"
  shows run_inv_runs: "gget (rs_runs s) k = Some a \<Longrightarrow>
      a < length (rs_heap s) \<and> r_ID (rs_heap s ! a) = k \<and> a \<in> set (by_task (r_TaskID (rs_heap s ! a)) s)"
    and run_inv_byTask: "a \<in> set (by_task tid s) \<Longrightarrow>
      r_TaskID (rs_heap s ! a) = tid \<and> gget (rs_runs s) (r_ID (rs_heap s ! a)) = Some a"
    and run_inv_gwf: "gwf (rs_runs s)" "gwf (rs_byTask s)" "0 < rs_maxRunsPerTask s"
    and run_inv_distinct: "distinct (by_task tid s)"
  using assms unfolding run_inv_def by blast+

lemma run_invI:
  assumes "gwf (rs_runs s)" and "gwf (rs_byTask s)" and "0 < rs_maxRunsPerTask s"
    and "\<And>k a. gget (rs_runs s) k = Some a \<Longrightarrow>
      a < length (rs_heap s) \<and> r_ID (rs_heap s ! a) = k \<and> a \<in> set (by_task (r_TaskID (rs_heap s ! a)) s)"
    and "\<And>tid. distinct (by_task tid s)"
    and "\<And>tid a. a \<in> set (by_task tid s) \<Longrightarrow>
      r_TaskID (rs_heap s ! a) = tid \<and> gget (rs_runs s) (r_ID (rs_heap s ! a)) = Some a"
  shows "run_inv s"
  unfolding run_inv_def using assms by blast

lemma by_task_put: "by_task tid (s\<lparr>rs_byTask := gput tid' as m\<rparr>) =
    (if tid = tid' then as else (case gget m tid of None \<Rightarrow> [] | Some as \<Rightarrow> as))"
  by (simp add: by_task_def gget_gput)

lemma by_task_fields [simp]:
  "by_task tid (s\<lparr>rs_heap := h\<rparr>) = by_task tid s" "by_task tid (s\<lparr>rs_runs := m\<rparr>) = by_task tid s"
  by (simp_all add: by_task_def)

lemma run_inv_New: "run_inv (NewRunStore dataDir n)"
  by (rule run_invI) (simp_all add: NewRunStore_def by_task_def)

text \<open>Changing an object in place leaves the indexes alone.\<close>

lemma run_inv_modify:
  assumes "run_inv s" and "\<And>r. r_ID (f r) = r_ID r" and "\<And>r. r_TaskID (f r) = r_TaskID r"
  shows "run_inv (modify_run k f s)"
proof (cases "gget (rs_runs s) k")
  case None
  then show ?thesis using assms(1) by (simp add: modify_run_def)
next
  case (Some a)
  let ?h = "(rs_heap s)[a := f (rs_heap s ! a)]"
  have same: "r_ID (?h ! b) = r_ID (rs_heap s ! b)" "r_TaskID (?h ! b) = r_TaskID (rs_heap s ! b)" for b
    using assms(2,3) run_inv_runs [OF assms(1) Some] by (cases "b = a"; simp)+
  have eq: "modify_run k f s = s\<lparr>rs_heap := ?h\<rparr>" by (simp add: modify_run_def Some)
  show ?thesis unfolding eq
  proof (rule run_invI)
    fix k' b assume "gget (rs_runs (s\<lparr>rs_heap := ?h\<rparr>)) k' = Some b"
    then have "gget (rs_runs s) k' = Some b" by simp
    from run_inv_runs [OF assms(1) this]
    show "b < length (rs_heap (s\<lparr>rs_heap := ?h\<rparr>)) \<and> r_ID (rs_heap (s\<lparr>rs_heap := ?h\<rparr>) ! b) = k'
      \<and> b \<in> set (by_task (r_TaskID (rs_heap (s\<lparr>rs_heap := ?h\<rparr>) ! b)) (s\<lparr>rs_heap := ?h\<rparr>))"
      by (simp add: same)
  next
    fix tid b assume "b \<in> set (by_task tid (s\<lparr>rs_heap := ?h\<rparr>))"
    then have "b \<in> set (by_task tid s)" by simp
    from run_inv_byTask [OF assms(1) this]
    show "r_TaskID (rs_heap (s\<lparr>rs_heap := ?h\<rparr>) ! b) = tid
      \<and> gget (rs_runs (s\<lparr>rs_heap := ?h\<rparr>)) (r_ID (rs_heap (s\<lparr>rs_heap := ?h\<rparr>) ! b)) = Some b"
      by (simp add: same)
  qed (use assms(1) in \<open>simp_all add: run_inv_gwf run_inv_distinct\<close>)
qed

text \<open>Through \<open>run_Get\<close> the store is a map: an update is seen under its own id only.\<close>

lemma run_Get_ID: "run_inv s \<Longrightarrow> run_Get s k = Some r \<Longrightarrow> r_ID r = k"
  using run_inv_runs by (auto simp: run_Get_def)

lemma run_Get_modify:
  assumes "run_inv s"
  shows "run_Get (modify_run k f s) k' = (if k' = k then map_option f (run_Get s k) else run_Get s k')"
proof (cases "gget (rs_runs s) k")
  case None
  then show ?thesis by (simp add: modify_run_def run_Get_def)
next
  case (Some a)
  note a = run_inv_runs [OF assms Some]
  have eq: "run_Get (modify_run k f s) k' =
      map_option (\<lambda>b. (rs_heap s)[a := f (rs_heap s ! a)] ! b) (gget (rs_runs s) k')"
    by (simp add: modify_run_def run_Get_def Some)
  show ?thesis
  proof (cases "k' = k")
    case True
    then show ?thesis unfolding eq using a Some by (simp add: run_Get_def)
  next
    case False
    show ?thesis
    proof (cases "gget (rs_runs s) k'")
      case None
      then show ?thesis unfolding eq using False by (simp add: run_Get_def)
    next
      case (Some b)
      have "b \<noteq> a" using run_inv_runs [OF assms Some] a False by blast
      then show ?thesis unfolding eq using False Some by (simp add: run_Get_def)
    qed
  qed
qed

text \<open>A new run enters both indexes.\<close>

lemma run_inv_add:
  assumes "run_inv s" and "run_Get s (r_ID r) = None"
  shows "run_inv (add_run r s)"
proof -
  let ?n = "length (rs_heap s)" and ?s = "add_run r s"
  have new: "gget (rs_runs s) (r_ID r) = None" using assms(2) by (simp add: run_Get_def)
  have old: "rs_heap ?s ! b = rs_heap s ! b" if "b < ?n" for b
    using that by (simp add: add_run_def Let_def nth_append)
  have old_runs: "b < ?n \<and> r_ID (rs_heap s ! b) = k \<and> k \<noteq> r_ID r
      \<and> b \<in> set (by_task (r_TaskID (rs_heap s ! b)) s)" if "gget (rs_runs s) k = Some b" for k b
    using run_inv_runs [OF assms(1) that] that new by auto
  have at: "rs_heap ?s ! ?n = r" by (simp add: add_run_def Let_def)
  have runs: "gget (rs_runs ?s) k = (if k = r_ID r then Some ?n else gget (rs_runs s) k)" for k
    by (simp add: add_run_def Let_def gget_gput)
  have tasks: "by_task tid ?s = (if tid = r_TaskID r then by_task tid s @ [?n] else by_task tid s)" for tid
    by (simp add: add_run_def Let_def by_task_def gget_gput)
  have old_task: "b < ?n \<and> r_TaskID (rs_heap s ! b) = tid \<and> gget (rs_runs s) (r_ID (rs_heap s ! b)) = Some b"
    if "b \<in> set (by_task tid s)" for tid b
    using run_inv_byTask [OF assms(1) that] old_runs by blast
  show ?thesis
  proof (rule run_invI)
    show "gwf (rs_runs ?s)" "gwf (rs_byTask ?s)" "0 < rs_maxRunsPerTask ?s"
      using run_inv_gwf [OF assms(1)] by (simp_all add: add_run_def Let_def)
    show "distinct (by_task tid ?s)" for tid
      using run_inv_distinct [OF assms(1)] old_task [of ?n tid] by (auto simp: tasks)
  next
    fix k b assume "gget (rs_runs ?s) k = Some b"
    then consider "k = r_ID r" "b = ?n" | "gget (rs_runs s) k = Some b"
      unfolding runs by (cases "k = r_ID r") simp_all
    then show "b < length (rs_heap ?s) \<and> r_ID (rs_heap ?s ! b) = k
        \<and> b \<in> set (by_task (r_TaskID (rs_heap ?s ! b)) ?s)"
    proof cases
      case 1
      then show ?thesis using at by (simp add: tasks) (simp add: add_run_def Let_def)
    next
      case 2
      from old_runs [OF this] old [of b] show ?thesis
        by (simp add: tasks) (auto simp: add_run_def Let_def)
    qed
  next
    fix tid b assume "b \<in> set (by_task tid ?s)"
    then consider "tid = r_TaskID r" "b = ?n" | "b \<in> set (by_task tid s)"
      unfolding tasks by (cases "tid = r_TaskID r") auto
    then show "r_TaskID (rs_heap ?s ! b) = tid \<and> gget (rs_runs ?s) (r_ID (rs_heap ?s ! b)) = Some b"
    proof cases
      case 1
      then show ?thesis using at by (simp add: runs)
    next
      case 2
      note b = old_task [OF this]
      then have "r_ID (rs_heap s ! b) \<noteq> r_ID r" using new by auto
      then show ?thesis using b old [of b] by (simp add: runs)
    qed
  qed
qed

lemma run_Get_add:
  assumes "run_inv s"
  shows "run_Get (add_run r s) k = (if k = r_ID r then Some r else run_Get s k)"
proof (cases "k = r_ID r")
  case False
  have "map_option (\<lambda>a. (rs_heap s @ [r]) ! a) (gget (rs_runs s) k) = map_option (\<lambda>a. rs_heap s ! a) (gget (rs_runs s) k)"
    using run_inv_runs [OF assms] by (intro option.map_cong0) (auto simp: nth_append)
  with False show ?thesis by (simp add: run_Get_def add_run_def Let_def gget_gput)
qed (simp add: run_Get_def add_run_def Let_def gget_gput)

text \<open>Sorting reorders a task's index and nothing else.\<close>

lemma by_task_sort:
  "by_task tid' (sortRuns tid s) =
    (if tid' = tid then newest_first (\<lambda>a. r_StartedAt (rs_heap s ! a)) (by_task tid s) else by_task tid' s)"
  by (simp add: by_task_def sortRuns_def gget_gmod newest_first_def split: option.split)

lemma sortRuns_fields [simp]:
  "rs_heap (sortRuns tid s) = rs_heap s" "rs_runs (sortRuns tid s) = rs_runs s"
  "rs_maxRunsPerTask (sortRuns tid s) = rs_maxRunsPerTask s" "run_Get (sortRuns tid s) k = run_Get s k"
  by (simp_all add: sortRuns_def run_Get_def)

lemma set_by_task_sort [simp]: "set (by_task tid' (sortRuns tid s)) = set (by_task tid' s)"
  by (simp add: by_task_sort)

lemma run_inv_sort: "run_inv s \<Longrightarrow> run_inv (sortRuns tid s)"
proof -
  assume inv: "run_inv s"
  have "distinct (by_task tid' (sortRuns tid s))" for tid'
    using run_inv_distinct [OF inv] by (simp add: by_task_sort)
  moreover have "gwf (rs_byTask (sortRuns tid s))" using run_inv_gwf(2) [OF inv] by (simp add: sortRuns_def)
  ultimately show ?thesis using inv unfolding run_inv_def sortRuns_fields set_by_task_sort by blast
qed

text \<open>Pruning and deleting drop runs of one task.\<close>

definition drop_runs :: "string \<Rightarrow> nat list \<Rightarrow> nat list \<Rightarrow> run_store \<Rightarrow> run_store" where
  "drop_runs tid keep del s =
     s\<lparr>rs_byTask := (if keep = [] then gdel tid (rs_byTask s) else gput tid keep (rs_byTask s)),
       rs_runs := gdel_all (map (\<lambda>a. r_ID (rs_heap s ! a)) del) (rs_runs s)\<rparr>"

lemma by_task_drop: "by_task tid' (drop_runs tid keep del s) = (if tid' = tid then keep else by_task tid' s)"
  by (auto simp: by_task_def drop_runs_def gget_gput gget_gdel)

lemma dropped_iff:
  assumes "run_inv s" and "by_task tid s = keep @ del" and "gget (rs_runs s) k = Some a"
  shows "k \<in> set (map (\<lambda>a. r_ID (rs_heap s ! a)) del) \<longleftrightarrow> a \<in> set del"
proof
  assume "a \<in> set del"
  then show "k \<in> set (map (\<lambda>a. r_ID (rs_heap s ! a)) del)"
    using run_inv_runs [OF assms(1,3)] by auto
next
  assume "k \<in> set (map (\<lambda>a. r_ID (rs_heap s ! a)) del)"
  then obtain b where b: "b \<in> set del" "k = r_ID (rs_heap s ! b)" by auto
  then have "gget (rs_runs s) k = Some b" using run_inv_byTask [OF assms(1), of b tid] assms(2) by simp
  then show "a \<in> set del" using b(1) assms(3) by simp
qed

lemma run_inv_drop:
  assumes "run_inv s" and "by_task tid s = keep @ del"
  shows "run_inv (drop_runs tid keep del s)"
proof -
  let ?s = "drop_runs tid keep del s"
  have heap: "rs_heap ?s = rs_heap s" by (simp add: drop_runs_def)
  have runs: "gget (rs_runs ?s) k =
      (if k \<in> set (map (\<lambda>a. r_ID (rs_heap s ! a)) del) then None else gget (rs_runs s) k)" for k
    by (simp add: drop_runs_def gget_gdel_all)
  have "distinct (keep @ del)" using run_inv_distinct [OF assms(1), of tid] assms(2) by simp
  then have dist: "distinct keep" "set keep \<inter> set del = {}" by simp_all
  show ?thesis
  proof (rule run_invI)
    show "gwf (rs_runs ?s)" "gwf (rs_byTask ?s)" "0 < rs_maxRunsPerTask ?s"
      using run_inv_gwf [OF assms(1)] by (simp_all add: drop_runs_def)
    show "distinct (by_task tid' ?s)" for tid'
      using dist run_inv_distinct [OF assms(1)] by (simp add: by_task_drop)
  next
    fix k a assume "gget (rs_runs ?s) k = Some a"
    then have a: "gget (rs_runs s) k = Some a" "a \<notin> set del"
      using dropped_iff [OF assms, of k a] unfolding runs by (auto split: if_splits)
    note b = run_inv_runs [OF assms(1) a(1)]
    have "a \<in> set (by_task (r_TaskID (rs_heap s ! a)) ?s)"
      using b a(2) assms(2) by (auto simp: by_task_drop)
    then show "a < length (rs_heap ?s) \<and> r_ID (rs_heap ?s ! a) = k
        \<and> a \<in> set (by_task (r_TaskID (rs_heap ?s ! a)) ?s)"
      using b unfolding heap by blast
  next
    fix tid' a assume a: "a \<in> set (by_task tid' ?s)"
    then have mem: "a \<in> set (by_task tid' s)" using assms(2) by (auto simp: by_task_drop split: if_splits)
    note b = run_inv_byTask [OF assms(1) mem]
    have "a \<notin> set del"
    proof (cases "tid' = tid")
      case True
      then show ?thesis using a dist(2) by (auto simp: by_task_drop)
    next
      case False
      then show ?thesis using b run_inv_byTask [OF assms(1), of a tid] assms(2) by auto
    qed
    then have "gget (rs_runs ?s) (r_ID (rs_heap s ! a)) = Some a"
      using b dropped_iff [OF assms, of "r_ID (rs_heap s ! a)" a] unfolding runs by auto
    then show "r_TaskID (rs_heap ?s ! a) = tid' \<and> gget (rs_runs ?s) (r_ID (rs_heap ?s ! a)) = Some a"
      using b unfolding heap by blast
  qed
qed

lemma run_Get_drop:
  assumes "run_inv s" and "by_task tid s = keep @ del"
  shows "run_Get (drop_runs tid keep del s) k =
    (case gget (rs_runs s) k of None \<Rightarrow> None | Some a \<Rightarrow> if a \<in> set del then None else run_Get s k)"
proof (cases "gget (rs_runs s) k")
  case None
  then show ?thesis by (simp add: run_Get_def drop_runs_def gget_gdel_all)
next
  case (Some a)
  then show ?thesis using dropped_iff [OF assms Some]
    by (simp add: run_Get_def drop_runs_def gget_gdel_all)
qed

lemma pruneRuns_drop:
  assumes "0 < rs_maxRunsPerTask s"
  shows "pruneRuns tid s = (if int (length (by_task tid s)) \<le> rs_maxRunsPerTask s then s
    else drop_runs tid (take (nat (rs_maxRunsPerTask s)) (by_task tid s))
           (drop (nat (rs_maxRunsPerTask s)) (by_task tid s)) s)"
  using assms by (auto simp: pruneRuns_def drop_runs_def Let_def)

lemma DeleteByTask_drop: "run_DeleteByTask tid s = drop_runs tid [] (by_task tid s) s"
  by (simp add: run_DeleteByTask_def drop_runs_def)

section \<open>The operations keep the invariant\<close>

lemma run_inv_prune: "run_inv s \<Longrightarrow> run_inv (pruneRuns tid s)"
  using run_inv_drop [of s tid "take (nat (rs_maxRunsPerTask s)) (by_task tid s)"
      "drop (nat (rs_maxRunsPerTask s)) (by_task tid s)"] run_inv_gwf(3) [of s]
  by (simp add: pruneRuns_drop)

lemma run_inv_DeleteByTask: "run_inv s \<Longrightarrow> run_inv (run_DeleteByTask tid s)"
  unfolding DeleteByTask_drop by (rule run_inv_drop) simp_all

lemma run_Get_DeleteByTask:
  assumes "run_inv s"
  shows "run_Get (run_DeleteByTask tid s) k =
    (case run_Get s k of None \<Rightarrow> None | Some r \<Rightarrow> if r_TaskID r = tid then None else Some r)"
proof (cases "gget (rs_runs s) k")
  case (Some a)
  have "a \<in> set (by_task tid s) \<longleftrightarrow> r_TaskID (rs_heap s ! a) = tid"
    using run_inv_runs [OF assms Some] run_inv_byTask [OF assms] by blast
  then show ?thesis using Some
    by (simp add: DeleteByTask_drop run_Get_drop [OF assms]) (simp add: run_Get_def)
next
  case None
  then show ?thesis by (simp add: run_Get_def run_DeleteByTask_def gget_gdel_all)
qed

text \<open>What pruning a task can take away.\<close>

lemma run_Get_prune:
  assumes "run_inv s"
  shows "run_Get (pruneRuns tid s) k = run_Get s k
    \<or> run_Get (pruneRuns tid s) k = None
      \<and> (\<exists>a. gget (rs_runs s) k = Some a \<and> a \<in> set (drop (nat (rs_maxRunsPerTask s)) (by_task tid s)))"
proof (cases "int (length (by_task tid s)) \<le> rs_maxRunsPerTask s")
  case True
  then show ?thesis using run_inv_gwf(3) [OF assms] by (simp add: pruneRuns_drop)
next
  case False
  have "by_task tid s = take (nat (rs_maxRunsPerTask s)) (by_task tid s)
      @ drop (nat (rs_maxRunsPerTask s)) (by_task tid s)" by simp
  from run_Get_drop [OF assms this, of k] show ?thesis
    using False run_inv_gwf(3) [OF assms]
    by (auto simp: pruneRuns_drop run_Get_def split: option.splits)
qed

lemma run_Get_gone: "run_inv s \<Longrightarrow> gget (rs_runs s) k = Some a \<Longrightarrow> a \<in> set (by_task tid s) \<Longrightarrow>
    \<exists>r. run_Get s k = Some r \<and> r_TaskID r = tid"
  using run_inv_byTask by (auto simp: run_Get_def)

definition new_run :: "string \<Rightarrow> time \<Rightarrow> string \<Rightarrow> run" where
  "new_run uuid now taskID =
     \<lparr>r_ID = uuid, r_TaskID = taskID, r_Status = RunStatusPending, r_StartedAt = now,
      r_CompletedAt = 0, r_Output = [], r_Error = [], r_SessionID = []\<rparr>"

lemma run_Create_eq: "run_Create uuid now tid s = pruneRuns tid (sortRuns tid (add_run (new_run uuid now tid) s))"
  by (simp add: run_Create_def new_run_def)

lemma run_inv_Create:
  assumes "run_inv s" and "run_Get s uuid = None"
  shows "run_inv (run_Create uuid now tid s)"
  unfolding run_Create_eq using assms
  by (intro run_inv_prune run_inv_sort run_inv_add) (simp_all add: new_run_def)

text \<open>
  Creating a run adds it, or prunes it away at once; it can take away other runs of its own task
  only.
\<close>

lemma run_Get_Create:
  assumes "run_inv s" and "run_Get s uuid = None"
  shows "run_Get (run_Create uuid now tid s) uuid \<in> {None, Some (new_run uuid now tid)}"
    and "k \<noteq> uuid \<Longrightarrow> run_Get (run_Create uuid now tid s) k = run_Get s k
      \<or> run_Get (run_Create uuid now tid s) k = None
        \<and> (\<exists>r. run_Get s k = Some r \<and> r_TaskID r = tid)"
proof -
  let ?s = "sortRuns tid (add_run (new_run uuid now tid) s)"
  have id: "r_ID (new_run uuid now tid) = uuid" by (simp add: new_run_def)
  have inv: "run_inv ?s" using assms by (intro run_inv_sort run_inv_add) (simp_all add: id)
  have get: "run_Get ?s k = (if k = uuid then Some (new_run uuid now tid) else run_Get s k)" for k
    by (simp add: run_Get_add [OF assms(1)] id)
  note p = run_Get_prune [OF inv, of tid]
  show "run_Get (run_Create uuid now tid s) uuid \<in> {None, Some (new_run uuid now tid)}"
    using p [of uuid] unfolding run_Create_eq get by auto
  assume k: "k \<noteq> uuid"
  from p [of k] show "run_Get (run_Create uuid now tid s) k = run_Get s k
      \<or> run_Get (run_Create uuid now tid s) k = None
        \<and> (\<exists>r. run_Get s k = Some r \<and> r_TaskID r = tid)"
  proof (elim disjE conjE exE)
    assume "run_Get (pruneRuns tid ?s) k = run_Get ?s k"
    then show ?thesis using k unfolding run_Create_eq get by simp
  next
    fix a
    assume gone: "run_Get (pruneRuns tid ?s) k = None" "gget (rs_runs ?s) k = Some a"
      and "a \<in> set (drop (nat (rs_maxRunsPerTask ?s)) (by_task tid ?s))"
    then have "a \<in> set (by_task tid ?s)" by (blast dest: in_set_dropD)
    then obtain r where "run_Get ?s k = Some r" "r_TaskID r = tid"
      using run_Get_gone [OF inv gone(2)] by blast
    then show ?thesis using k gone(1) unfolding run_Create_eq get by simp
  qed
qed

text \<open>A task that has no active run is one where no run of it is pending or running.\<close>

lemma GetRunning_None:
  assumes "run_inv s"
  shows "run_GetRunning tid s = None \<longleftrightarrow>
    (\<forall>k r. run_Get s k = Some r \<longrightarrow> r_TaskID r = tid \<longrightarrow> \<not> active r)"
proof -
  have "run_GetRunning tid s = None \<longleftrightarrow> (\<forall>a \<in> set (by_task tid s). \<not> active (rs_heap s ! a))"
    by (auto simp: run_GetRunning_def find_None_iff active_def)
  also have "\<dots> \<longleftrightarrow> (\<forall>k r. run_Get s k = Some r \<longrightarrow> r_TaskID r = tid \<longrightarrow> \<not> active r)"
  proof
    assume none: "\<forall>a \<in> set (by_task tid s). \<not> active (rs_heap s ! a)"
    show "\<forall>k r. run_Get s k = Some r \<longrightarrow> r_TaskID r = tid \<longrightarrow> \<not> active r"
    proof (intro allI impI)
      fix k r assume "run_Get s k = Some r" "r_TaskID r = tid"
      then obtain a where "gget (rs_runs s) k = Some a" "r = rs_heap s ! a" by (auto simp: run_Get_def)
      with run_inv_runs [OF assms] none \<open>r_TaskID r = tid\<close> show "\<not> active r" by blast
    qed
  next
    assume none: "\<forall>k r. run_Get s k = Some r \<longrightarrow> r_TaskID r = tid \<longrightarrow> \<not> active r"
    show "\<forall>a \<in> set (by_task tid s). \<not> active (rs_heap s ! a)"
    proof
      fix a assume "a \<in> set (by_task tid s)"
      from run_inv_byTask [OF assms this] have "r_TaskID (rs_heap s ! a) = tid"
        "run_Get s (r_ID (rs_heap s ! a)) = Some (rs_heap s ! a)" by (simp_all add: run_Get_def)
      then show "\<not> active (rs_heap s ! a)" using none by blast
    qed
  qed
  finally show ?thesis .
qed

text \<open>The first active run, when there is one, is a run of the task in the store.\<close>

lemma GetRunning_Some:
  assumes "run_inv s" and "run_GetRunning tid s = Some r"
  shows "run_Get s (r_ID r) = Some r \<and> r_TaskID r = tid \<and> active r"
proof -
  obtain a where "a \<in> set (by_task tid s)" "r = rs_heap s ! a" "active r"
  proof -
    obtain i where i: "i < length (by_task tid s)" "r = rs_heap s ! (by_task tid s ! i)"
      "r_Status r = RunStatusRunning \<or> r_Status r = RunStatusPending"
      using assms(2) by (auto simp: run_GetRunning_def find_Some_iff)
    show thesis
      by (rule that [of "by_task tid s ! i"]) (use i in \<open>auto simp: active_def\<close>)
  qed
  with run_inv_byTask [OF assms(1)] show ?thesis by (auto simp: run_Get_def)
qed

section \<open>Loading\<close>

lemma fail_stale_inactive: "\<not> active (fail_stale now r)" "r_ID (fail_stale now r) = r_ID r"
  by (auto simp: fail_stale_def active_def Let_def run_status_defs)

lemma run_inv_sort_all: "run_inv s \<Longrightarrow> run_inv (fold sortRuns ks s)"
  by (induction ks arbitrary: s) (simp_all add: run_inv_sort)

lemma run_Get_sort_all: "run_Get (fold sortRuns ks s) k = run_Get s k"
  by (induction ks arbitrary: s) simp_all

lemma load_runs_ok:
  assumes "run_inv s" and "distinct (map r_ID rs)" and "\<forall>r \<in> set rs. run_Get s (r_ID r) = None"
  shows "\<exists>s'. load_runs now (map Some rs) s = Some s' \<and> run_inv s'
    \<and> (\<forall>k. run_Get s' k = (case List.find (\<lambda>r. r_ID r = k) rs of
          Some r \<Rightarrow> Some (fail_stale now r) | None \<Rightarrow> run_Get s k))"
  using assms
proof (induction rs arbitrary: s)
  case (Cons r rs)
  let ?s = "add_run (fail_stale now r) s"
  have inv: "run_inv ?s" using Cons.prems by (intro run_inv_add) (simp_all add: fail_stale_inactive)
  have get: "run_Get ?s k = (if k = r_ID r then Some (fail_stale now r) else run_Get s k)" for k
    using run_Get_add [OF Cons.prems(1)] by (simp add: fail_stale_inactive)
  have "\<forall>q \<in> set rs. run_Get ?s (r_ID q) = None"
    using Cons.prems(2,3) distinct_map_Cons [OF Cons.prems(2)] by (simp add: get)
  then obtain s' where s': "load_runs now (map Some rs) ?s = Some s'" "run_inv s'"
    "\<forall>k. run_Get s' k = (case List.find (\<lambda>r. r_ID r = k) rs of
          Some r \<Rightarrow> Some (fail_stale now r) | None \<Rightarrow> run_Get ?s k)"
    using Cons.IH [OF inv] Cons.prems(2) by auto
  have "List.find (\<lambda>q. r_ID q = r_ID r) rs = None"
    using distinct_map_Cons [OF Cons.prems(2)] by (auto simp: find_None_iff)
  then have "run_Get s' k = (case List.find (\<lambda>r. r_ID r = k) (r # rs) of
      Some r \<Rightarrow> Some (fail_stale now r) | None \<Rightarrow> run_Get s k)" for k
    using s'(3) by (cases "k = r_ID r") (auto simp: get split: option.split)
  with s'(1,2) show ?case by auto
qed auto

end
