(* ===== verification/Executor.thy ===== *)
theory Executor
  imports TaskStore RunStore Session
begin

text \<open>
  The task executor of \<open>internal/task/executor.go\<close>. A run is executed by a goroutine of its own
  while \<open>Cancel\<close> and \<open>Close\<close> run in others, so the code is cut into its atomic steps: each
  critical section, store call, context operation and signal is one definition, and a goroutine's
  program counter says which one is next. \<open>Executor_Props\<close> interleaves them freely.
\<close>

section \<open>Commands, timeouts and output\<close>

definition formatSize :: "int \<Rightarrow> string" where
  "formatSize n =
     (if 1024 * 1024 \<le> n then itoa (n div (1024 * 1024)) @ ''MB''
      else if 1024 \<le> n then itoa (n div 1024) @ ''KB''
      else itoa n @ ''B'')"

text \<open>The word \<open>"$1"\<close> of the scripts.\<close>

definition firstArg :: string where "firstArg = [CHR 0x22, CHR ''$'', CHR ''1'', CHR 0x22]"

definition defaultCols :: int where "defaultCols = 120"
definition defaultRows :: int where "defaultRows = 40"

definition task_buildCommand :: "string \<Rightarrow> string list \<Rightarrow> task \<Rightarrow> string \<Rightarrow> command" where
  "task_buildCommand shell environ t workingDir =
     (let script = (\<lambda>s. (shell, [''-l'', ''-c'', s, ''_'', t_Prompt t]));
          (path, args) =
            (if t_Tool t = ''claude'' then script (''claude --print '' @ firstArg)
             else if t_Tool t = ''codex'' then script (''codex exec --skip-git-repo-check '' @ firstArg)
             else if t_Tool t = ''aider'' then script (''aider --yes --message '' @ firstArg)
             else if t_Tool t = ''shell'' then (shell, [''-l'', ''-c'', t_Prompt t])
             else if \<not> ValidateToolName (t_Tool t) then (''false'', [])
             else script (t_Tool t @ '' '' @ firstArg))
      in \<lparr>c_path = path, c_args = args, c_dir = workingDir,
          c_env = environ @ [''TERM=xterm-256color'', ''COLUMNS='' @ itoa defaultCols,
                             ''LINES='' @ itoa defaultRows, ''CI=true'']\<rparr>)"

definition effective_timeout :: "int \<Rightarrow> int \<Rightarrow> int" where
  "effective_timeout maxTimeout timeoutSeconds =
     (let t = timeoutSeconds;
          t = (if t \<le> 0 \<and> 0 < maxTimeout then maxTimeout else t)
      in if 0 < maxTimeout \<and> maxTimeout < t then maxTimeout else t)"

text \<open>What is kept of the bytes a process printed.\<close>

definition captured :: "int \<Rightarrow> bytes \<Rightarrow> bytes" where
  "captured maxOutputSize data =
     (let out = take (nat maxOutputSize) data
      in if maxOutputSize \<le> int (length out)
         then out @ [CHR 0x0A] @ ''[Output truncated at '' @ formatSize maxOutputSize @ '']'' else out)"

section \<open>State\<close>

text \<open>\<open>ctx.Err()\<close>: the first of a cancellation and the deadline is kept.\<close>

datatype ctx_err = CtxOk | Canceled | DeadlineExceeded

record running_task =
  rt_ctx :: ctx_err
  rt_pgid :: int

text \<open>What a run's goroutine has still to write to the run store.\<close>

datatype run_write = WOutput string | WFail string | WCancel | WComplete string

datatype exec_pc = PcMark | PcSetup | PcProbe | PcLaunch command | PcPublish int | PcCheck | PcWait
  | PcFinish "run_write list" | PcSave | PcUnregister

record exec_thread =
  th_task :: task
  th_path :: string
  th_dir :: string
  th_timeout :: int
  th_pc :: exec_pc

text \<open>How far a \<open>Cancel\<close>, or \<open>Close\<close> for one of its runs, has got.\<close>

datatype cancel_pc = CStore | CCtx | CKill | CDone

record executor =
  x_tasks :: task_store
  x_runs :: run_store
  x_maxOutputSize :: int
  x_maxTimeout :: int
  x_rts :: "(string, running_task) gomap"
  x_running :: "string list"
  x_closed :: bool
  x_threads :: "(string, exec_thread) gomap"
  x_cancels :: "(string \<times> cancel_pc) list"
  x_killed :: "int list"
  x_disk :: "run store_file"

text \<open>What the world does in a step: each field is used where the code asks for it.\<close>

datatype wait_result = ExitOk bytes | ExitErr string bytes | CtxDone bytes

record world =
  w_now :: time
  w_home :: string
  w_missing :: "string \<Rightarrow> bool"
  w_shell :: string
  w_environ :: "string list"
  w_daemonPATH :: string
  w_probe :: "string option"
  w_start :: "command \<Rightarrow> string + int"
  w_wait :: wait_result
  w_save :: save_io

definition NewExecutor :: "task_store \<Rightarrow> run_store \<Rightarrow> int \<Rightarrow> int \<Rightarrow> run store_file \<Rightarrow> executor" where
  "NewExecutor tasks runs maxOutputSize maxTimeout disk =
     \<lparr>x_tasks = tasks, x_runs = runs,
      x_maxOutputSize = (if maxOutputSize \<le> 0 then 1024 * 1024 else maxOutputSize),
      x_maxTimeout = maxTimeout, x_rts = [], x_running = [], x_closed = False, x_threads = [],
      x_cancels = [], x_killed = [], x_disk = disk\<rparr>"

section \<open>Starting a run\<close>

text \<open>The section of \<open>Run\<close> under \<open>runningMu\<close>, and the start of the goroutine.\<close>

definition exec_Run_locked ::
  "string \<Rightarrow> time \<Rightarrow> string \<Rightarrow> task \<Rightarrow> string \<Rightarrow> executor \<Rightarrow> executor \<times> (string + run)" where
  "exec_Run_locked uuid now taskID t projectPath x =
     (if x_closed x then (x, Inl ''task executor is shut down'')
      else case run_GetRunning taskID (x_runs x) of
        Some existing \<Rightarrow> (x, Inl (''task is already running (run_id: '' @ r_ID existing @ '')''))
      | None \<Rightarrow>
          (x\<lparr>x_runs := run_Create uuid now taskID (x_runs x),
             x_rts := gput uuid \<lparr>rt_ctx = CtxOk, rt_pgid = 0\<rparr> (x_rts x),
             x_running := uuid # x_running x,
             x_threads := gput uuid \<lparr>th_task = t, th_path = projectPath, th_dir = [],
                                     th_timeout = 0, th_pc = PcMark\<rparr> (x_threads x)\<rparr>,
           Inr (new_run uuid now taskID)))"

definition exec_Run ::
  "string \<Rightarrow> time \<Rightarrow> string \<Rightarrow> string \<Rightarrow> executor \<Rightarrow> executor \<times> (string + run)" where
  "exec_Run uuid now taskID projectPath x =
     (case task_Get (x_tasks x) taskID of
        None \<Rightarrow> (x, Inl (''task not found: '' @ taskID))
      | Some t \<Rightarrow>
          if t_Interactive t then (x, Inl ''interactive tasks not yet supported'')
          else exec_Run_locked uuid now taskID t projectPath x)"

section \<open>Cancelling\<close>

definition ctx_of :: "string \<Rightarrow> executor \<Rightarrow> ctx_err" where
  "ctx_of r x = (case gget (x_rts x) r of None \<Rightarrow> CtxOk | Some rt \<Rightarrow> rt_ctx rt)"

text \<open>The first cause that ends a context stays its error.\<close>

definition end_ctx :: "ctx_err \<Rightarrow> string \<Rightarrow> executor \<Rightarrow> executor" where
  "end_ctx e r x =
     x\<lparr>x_rts := gmod r (\<lambda>rt. if rt_ctx rt = CtxOk then rt\<lparr>rt_ctx := e\<rparr> else rt) (x_rts x)\<rparr>"

definition killGroup :: "string \<Rightarrow> executor \<Rightarrow> executor" where
  "killGroup r x =
     (case gget (x_rts x) r of
        None \<Rightarrow> x
      | Some rt \<Rightarrow> if 0 < rt_pgid rt then x\<lparr>x_killed := rt_pgid rt # x_killed x\<rparr> else x)"

definition setPgid :: "string \<Rightarrow> int \<Rightarrow> executor \<Rightarrow> executor" where
  "setPgid r pid x = x\<lparr>x_rts := gmod r (\<lambda>rt. rt\<lparr>rt_pgid := pid\<rparr>) (x_rts x)\<rparr>"

definition store_cancel :: "time \<Rightarrow> string \<Rightarrow> executor \<Rightarrow> executor" where
  "store_cancel now r x = x\<lparr>x_runs := fst (run_Cancel now r (x_runs x))\<rparr>"

text \<open>One step of the \<open>i\<close>-th canceller: mark the run, cancel the context, kill the group.\<close>

definition cancel_step :: "time \<Rightarrow> nat \<Rightarrow> executor \<Rightarrow> executor" where
  "cancel_step now i x =
     (let (r, pc) = x_cancels x ! i in
      case pc of
        CStore \<Rightarrow> store_cancel now r x\<lparr>x_cancels := (x_cancels x)[i := (r, CCtx)]\<rparr>
      | CCtx \<Rightarrow> end_ctx Canceled r x\<lparr>x_cancels := (x_cancels x)[i := (r, CKill)]\<rparr>
      | CKill \<Rightarrow> killGroup r x\<lparr>x_cancels := (x_cancels x)[i := (r, CDone)]\<rparr>
      | CDone \<Rightarrow> x)"

text \<open>\<open>Cancel\<close> of a run that is registered starts a canceller; of another one it decides at once.\<close>

definition exec_Cancel_unregistered :: "time \<Rightarrow> string \<Rightarrow> executor \<Rightarrow> executor \<times> string option" where
  "exec_Cancel_unregistered now runID x =
     (case run_Get (x_runs x) runID of
        None \<Rightarrow> (x, Some (''run not found: '' @ runID))
      | Some r \<Rightarrow>
          if r_Status r \<noteq> RunStatusRunning \<and> r_Status r \<noteq> RunStatusPending
          then (x, Some (''run is not cancellable (status: '' @ itoa (r_Status r) @ '')''))
          else (store_cancel now runID x,
                if snd (run_Cancel now runID (x_runs x)) then None else Some ''failed to cancel run''))"

definition start_cancel :: "string \<Rightarrow> executor \<Rightarrow> executor" where
  "start_cancel r x = x\<lparr>x_cancels := x_cancels x @ [(r, CStore)]\<rparr>"

definition exec_Cancel :: "time \<Rightarrow> string \<Rightarrow> executor \<Rightarrow> executor \<times> string option" where
  "exec_Cancel now runID x =
     (if runID \<in> set (x_running x) then
        let n = length (x_cancels x)
        in (cancel_step now n (cancel_step now n (cancel_step now n (start_cancel runID x))), None)
      else exec_Cancel_unregistered now runID x)"

text \<open>The section of \<open>Close\<close> under \<open>runningMu\<close>; its loop runs as one canceller per run.\<close>

definition exec_Close_locked :: "executor \<Rightarrow> executor" where
  "exec_Close_locked x =
     x\<lparr>x_closed := True, x_cancels := x_cancels x @ map (\<lambda>r. (r, CStore)) (x_running x)\<rparr>"

definition exec_GetRunningCount :: "executor \<Rightarrow> nat" where
  "exec_GetRunningCount x = length (x_running x)"

section \<open>The goroutine of a run\<close>

definition goto :: "string \<Rightarrow> exec_pc \<Rightarrow> executor \<Rightarrow> executor" where
  "goto r pc x = x\<lparr>x_threads := gmod r (\<lambda>th. th\<lparr>th_pc := pc\<rparr>) (x_threads x)\<rparr>"

definition step_mark :: "string \<Rightarrow> executor \<Rightarrow> executor" where
  "step_mark r x =
     (let (rs, ok) = run_MarkRunning r (x_runs x)
      in goto r (if ok then PcSetup else PcSave) (x\<lparr>x_runs := rs\<rparr>))"

definition step_setup :: "world \<Rightarrow> string \<Rightarrow> exec_thread \<Rightarrow> executor \<Rightarrow> executor" where
  "step_setup w r th x =
     (if th_path th = [] \<and> t_Scope (th_task th) \<noteq> TaskScopeSystem
      then goto r (PcFinish [WFail ''project path required for project-scoped task'']) x
      else
        let workingDir = (if th_path th = [] then w_home w else th_path th) in
        if w_missing w workingDir
        then goto r (PcFinish [WFail (''working directory does not exist: '' @ workingDir)]) x
        else x\<lparr>x_threads := gmod r (\<lambda>th. th\<lparr>th_dir := workingDir,
                 th_timeout := effective_timeout (x_maxTimeout x) (t_TimeoutSeconds (th_task th)),
                 th_pc := PcProbe\<rparr>) (x_threads x)\<rparr>)"

text \<open>What an ended context means for the run.\<close>

definition verdict :: "ctx_err \<Rightarrow> int \<Rightarrow> run_write" where
  "verdict e timeout =
     (if e = DeadlineExceeded then WFail (''task timed out after '' @ itoa timeout @ '' seconds'')
      else WCancel)"

definition step_probe :: "world \<Rightarrow> string \<Rightarrow> exec_thread \<Rightarrow> executor \<Rightarrow> executor" where
  "step_probe w r th x =
     (let cmd = task_buildCommand (w_shell w) (w_environ w) (th_task th) (th_dir th);
          cmd = (case w_probe w of
                   Some path \<Rightarrow> cmd\<lparr>c_env := c_env cmd @ [''PATH='' @ MergePATH path (w_daemonPATH w)]\<rparr>
                 | None \<Rightarrow> cmd)
      in if ctx_of r x \<noteq> CtxOk then goto r (PcFinish [verdict (ctx_of r x) (th_timeout th)]) x
         else goto r (PcLaunch cmd) x)"

definition step_launch :: "world \<Rightarrow> string \<Rightarrow> command \<Rightarrow> executor \<Rightarrow> executor" where
  "step_launch w r cmd x =
     (case w_start w cmd of
        Inl err \<Rightarrow> goto r (PcFinish [WFail (''failed to start command: '' @ err)]) x
      | Inr pid \<Rightarrow> goto r (PcPublish pid) x)"

definition step_publish :: "string \<Rightarrow> int \<Rightarrow> executor \<Rightarrow> executor" where
  "step_publish r pid x = goto r PcCheck (setPgid r pid x)"

definition step_check :: "string \<Rightarrow> executor \<Rightarrow> executor" where
  "step_check r x = goto r PcWait (if ctx_of r x \<noteq> CtxOk then killGroup r x else x)"

definition step_wait :: "world \<Rightarrow> string \<Rightarrow> exec_thread \<Rightarrow> executor \<Rightarrow> executor" where
  "step_wait w r th x =
     (let e = ctx_of r x in
      case w_wait w of
        CtxDone data \<Rightarrow>
          if e = CtxOk then x
          else goto r (PcFinish [WOutput (captured (x_maxOutputSize x) data), verdict e (th_timeout th)])
                 (killGroup r x)
      | ExitOk data \<Rightarrow>
          let out = captured (x_maxOutputSize x) data in
          if e \<noteq> CtxOk then goto r (PcFinish [WOutput out, verdict e (th_timeout th)]) x
          else goto r (PcFinish [WComplete out]) x
      | ExitErr err data \<Rightarrow>
          let out = captured (x_maxOutputSize x) data in
          if e \<noteq> CtxOk then goto r (PcFinish [WOutput out, verdict e (th_timeout th)]) x
          else goto r (PcFinish [WFail (''command failed: '' @ err), WOutput out]) x)"

fun run_write_store :: "time \<Rightarrow> string \<Rightarrow> run_write \<Rightarrow> run_store \<Rightarrow> run_store" where
  "run_write_store now r (WOutput out) s = run_SetOutput r out s"
| "run_write_store now r (WFail err) s = run_Fail now r err s"
| "run_write_store now r WCancel s = fst (run_Cancel now r s)"
| "run_write_store now r (WComplete out) s = run_Complete now r out s"

definition step_finish :: "world \<Rightarrow> string \<Rightarrow> run_write list \<Rightarrow> executor \<Rightarrow> executor" where
  "step_finish w r ops x =
     (case ops of
        [] \<Rightarrow> goto r PcSave x
      | op # ops \<Rightarrow>
          goto r (PcFinish ops) (x\<lparr>x_runs := run_write_store (w_now w) r op (x_runs x)\<rparr>))"

definition step_save :: "world \<Rightarrow> string \<Rightarrow> executor \<Rightarrow> executor" where
  "step_save w r x =
     goto r PcUnregister (x\<lparr>x_disk := fst (run_Save (w_save w) (x_runs x) (x_disk x))\<rparr>)"

text \<open>The deferred \<open>delete(e.running, run.ID)\<close>; then the goroutine is gone.\<close>

definition step_unregister :: "string \<Rightarrow> executor \<Rightarrow> executor" where
  "step_unregister r x =
     x\<lparr>x_running := filter (\<lambda>k. k \<noteq> r) (x_running x), x_threads := gdel r (x_threads x)\<rparr>"

definition thread_step :: "world \<Rightarrow> string \<Rightarrow> exec_thread \<Rightarrow> executor \<Rightarrow> executor" where
  "thread_step w r th x =
     (case th_pc th of
        PcMark \<Rightarrow> step_mark r x
      | PcSetup \<Rightarrow> step_setup w r th x
      | PcProbe \<Rightarrow> step_probe w r th x
      | PcLaunch cmd \<Rightarrow> step_launch w r cmd x
      | PcPublish pid \<Rightarrow> step_publish r pid x
      | PcCheck \<Rightarrow> step_check r x
      | PcWait \<Rightarrow> step_wait w r th x
      | PcFinish ops \<Rightarrow> step_finish w r ops x
      | PcSave \<Rightarrow> step_save w r x
      | PcUnregister \<Rightarrow> step_unregister r x)"

text \<open>The run's timer, armed from the set-up until the process is done.\<close>

definition timer_fires :: "string \<Rightarrow> exec_thread \<Rightarrow> executor \<Rightarrow> executor" where
  "timer_fires r th x = (if 0 < th_timeout th then end_ctx DeadlineExceeded r x else x)"

end
