(* ===== verification/Executor_Props.thy ===== *)
theory Executor_Props
  imports Executor
begin

text \<open>
  The executor under every interleaving of its goroutines: runs being started, executed, timed
  out, cancelled, and the daemon closing or deleting tasks in between. The invariants say that a
  task never has two active runs, that an active run can always be cancelled, and that a cancelled
  run leaves no process behind.
\<close>

section \<open>Steps\<close>

text \<open>
  \<open>Run\<close> reads the task before it takes the lock, so the task it runs may be out of date by then:
  the step takes any task. Run ids are fresh, as \<open>uuid.New\<close> promises.
\<close>

inductive exec_step :: "executor \<Rightarrow> executor \<Rightarrow> bool" where
  run: "gget (x_rts x) uuid = None \<Longrightarrow> run_Get (x_runs x) uuid = None \<Longrightarrow>
    exec_step x (fst (exec_Run_locked uuid now taskID t projectPath x))"
| thread: "gget (x_threads x) r = Some th \<Longrightarrow> exec_step x (thread_step w r th x)"
| timer: "gget (x_threads x) r = Some th \<Longrightarrow> exec_step x (timer_fires r th x)"
| cancel: "r \<in> set (x_running x) \<Longrightarrow> exec_step x (start_cancel r x)"
| cancel_step: "i < length (x_cancels x) \<Longrightarrow> exec_step x (cancel_step now i x)"
| cancel_other: "r \<notin> set (x_running x) \<Longrightarrow> exec_step x (fst (exec_Cancel_unregistered now r x))"
| close: "exec_step x (exec_Close_locked x)"
| tasks: "exec_step x (x\<lparr>x_tasks := ts\<rparr>)"
| delete_task: "exec_step x (x\<lparr>x_runs := run_DeleteByTask tid (x_runs x)\<rparr>)"

abbreviation exec_steps :: "executor \<Rightarrow> executor \<Rightarrow> bool" where
  "exec_steps \<equiv> exec_step\<^sup>*\<^sup>*"

text \<open>A daemon that has just loaded its runs: none of them is active.\<close>

definition exec_start :: "executor \<Rightarrow> bool" where
  "exec_start x \<longleftrightarrow> run_inv (x_runs x) \<and> (\<forall>k r. run_Get (x_runs x) k = Some r \<longrightarrow> \<not> active r)
     \<and> x_rts x = [] \<and> x_running x = [] \<and> x_threads x = [] \<and> x_cancels x = [] \<and> \<not> x_closed x"

section \<open>What one step does to the runs\<close>

text \<open>Every change of the run store by a step keeps it consistent and never revives a run.\<close>

definition run_status_of :: "run_store \<Rightarrow> string \<Rightarrow> run_status option" where
  "run_status_of s k = map_option r_Status (run_Get s k)"

text \<open>How a write changes the status of its own run; other runs keep theirs.\<close>

fun written :: "run_write \<Rightarrow> run_status \<Rightarrow> run_status" where
  "written (WOutput out) st = st"
| "written (WFail err) st = (if st = RunStatusCancelled then st else RunStatusFailed)"
| "written WCancel st = (if st = RunStatusPending \<or> st = RunStatusRunning then RunStatusCancelled else st)"
| "written (WComplete out) st = (if st = RunStatusCancelled then st else RunStatusCompleted)"

lemmas run_update_defs = run_SetOutput_def run_Fail_def run_Cancel_def run_Complete_def
  run_MarkRunning_def

text \<open>An update of one run that touches neither its id nor its task.\<close>

definition updates :: "string \<Rightarrow> (run_status \<Rightarrow> run_status) \<Rightarrow> run_store \<Rightarrow> run_store \<Rightarrow> bool" where
  "updates k f s s' \<longleftrightarrow> run_inv s'
     \<and> (\<forall>k'. map_option r_TaskID (run_Get s' k') = map_option r_TaskID (run_Get s k'))
     \<and> (\<forall>k'. run_status_of s' k' = (if k' = k then map_option f (run_status_of s k) else run_status_of s k'))"

lemma updates_modify:
  assumes "run_inv s" and "\<And>r. r_ID (g r) = r_ID r" and "\<And>r. r_TaskID (g r) = r_TaskID r"
    and "\<And>r. run_Get s k = Some r \<Longrightarrow> r_Status (g r) = f (r_Status r)"
  shows "updates k f s (modify_run k g s)"
proof -
  have "run_inv (modify_run k g s)" using assms(1-3) by (rule run_inv_modify)
  moreover have "map_option r_TaskID (run_Get (modify_run k g s) k') = map_option r_TaskID (run_Get s k')"
    for k'
    using assms(3) by (simp add: run_Get_modify [OF assms(1)] option.map_comp comp_def)
  moreover have "run_status_of (modify_run k g s) k' =
      (if k' = k then map_option f (run_status_of s k) else run_status_of s k')" for k'
    using assms(4) by (cases "run_Get s k") (simp_all add: run_status_of_def run_Get_modify [OF assms(1)])
  ultimately show ?thesis unfolding updates_def by blast
qed

lemma updates_refl: "run_inv s \<Longrightarrow> (\<And>st. run_status_of s k = Some st \<Longrightarrow> f st = st) \<Longrightarrow> updates k f s s"
  unfolding updates_def by (cases "run_status_of s k") simp_all

lemma updates_write:
  assumes "run_inv s"
  shows "updates k (written op) s (run_write_store now k op s)"
proof (cases op)
  case (WOutput out)
  then show ?thesis using assms by (auto simp: run_SetOutput_def intro!: updates_modify)
next
  case (WFail err)
  then show ?thesis using assms by (auto simp: run_Fail_def intro!: updates_modify)
next
  case WCancel
  show ?thesis
  proof (cases "\<exists>r. run_Get s k = Some r \<and> (r_Status r = RunStatusPending \<or> r_Status r = RunStatusRunning)")
    case True
    then have "run_write_store now k op s =
        modify_run k (\<lambda>r. r\<lparr>r_Status := RunStatusCancelled, r_CompletedAt := now\<rparr>) s"
      by (auto simp: WCancel run_Cancel_def)
    moreover have "updates k (written op) s
        (modify_run k (\<lambda>r. r\<lparr>r_Status := RunStatusCancelled, r_CompletedAt := now\<rparr>) s)"
      using assms True by (intro updates_modify) (auto simp: WCancel)
    ultimately show ?thesis by simp
  next
    case False
    then have "run_write_store now k op s = s" by (auto simp: WCancel run_Cancel_def split: option.splits)
    moreover have "updates k (written op) s s"
      using assms False by (intro updates_refl) (auto simp: WCancel run_status_of_def)
    ultimately show ?thesis by simp
  qed
next
  case (WComplete out)
  then show ?thesis using assms by (auto simp: run_Complete_def intro!: updates_modify)
qed

lemma updates_cancel: "run_inv s \<Longrightarrow> updates k (written WCancel) s (fst (run_Cancel now k s))"
  using updates_write [of s k WCancel now] by simp

text \<open>The status after \<open>MarkRunning\<close>, and its result.\<close>

definition marked :: "run_status \<Rightarrow> run_status" where
  "marked st = (if st = RunStatusPending then RunStatusRunning else st)"

lemma updates_mark: "run_inv s \<Longrightarrow> updates k marked s (fst (run_MarkRunning k s))"
proof (cases "\<exists>r. run_Get s k = Some r \<and> r_Status r = RunStatusPending")
  case True
  assume inv: "run_inv s"
  have "fst (run_MarkRunning k s) = modify_run k (\<lambda>r. r\<lparr>r_Status := RunStatusRunning\<rparr>) s"
    using True by (auto simp: run_MarkRunning_def)
  moreover have "updates k marked s (modify_run k (\<lambda>r. r\<lparr>r_Status := RunStatusRunning\<rparr>) s)"
    using inv True by (intro updates_modify) (auto simp: marked_def)
  ultimately show ?thesis by simp
next
  case False
  assume inv: "run_inv s"
  have "fst (run_MarkRunning k s) = s" using False by (auto simp: run_MarkRunning_def split: option.splits)
  moreover have "updates k marked s s"
    using inv False by (intro updates_refl) (auto simp: marked_def run_status_of_def)
  ultimately show ?thesis by simp
qed

lemma MarkRunning_result:
  "snd (run_MarkRunning k s) \<longleftrightarrow> run_status_of s k = Some RunStatusPending"
  by (auto simp: run_MarkRunning_def run_status_of_def split: option.splits)

section \<open>The invariant\<close>

definition active_in :: "run_store \<Rightarrow> string \<Rightarrow> bool" where
  "active_in s k \<longleftrightarrow> run_status_of s k \<in> {Some RunStatusPending, Some RunStatusRunning}"

lemma active_in_Get: "active_in s k \<longleftrightarrow> (\<exists>r. run_Get s k = Some r \<and> active r)"
  by (auto simp: active_in_def run_status_of_def active_def)

text \<open>Program counters from which the goroutine still gives its run a final status.\<close>

fun is_final :: "run_write \<Rightarrow> bool" where
  "is_final (WOutput out) = False"
| "is_final _ = True"

fun settles :: "exec_pc \<Rightarrow> bool" where
  "settles (PcFinish ops) = list_ex is_final ops"
| "settles PcSave = False"
| "settles PcUnregister = False"
| "settles _ = True"

text \<open>A run whose cancellation is complete has its group killed, or its goroutine will see to it.\<close>

definition group_dead :: "executor \<Rightarrow> string \<Rightarrow> bool" where
  "group_dead x r \<longleftrightarrow>
     (case gget (x_rts x) r of None \<Rightarrow> True
      | Some rt \<Rightarrow> rt_pgid rt \<le> 0 \<or> rt_pgid rt \<in> set (x_killed x))"

definition at_check :: "executor \<Rightarrow> string \<Rightarrow> bool" where
  "at_check x r \<longleftrightarrow> (\<exists>th. gget (x_threads x) r = Some th \<and> th_pc th = PcCheck)"

definition store_ok :: "executor \<Rightarrow> bool" where
  "store_ok x \<longleftrightarrow> run_inv (x_runs x)
     \<and> (\<forall>k k' r r'. run_Get (x_runs x) k = Some r \<longrightarrow> run_Get (x_runs x) k' = Some r' \<longrightarrow>
          active r \<longrightarrow> active r' \<longrightarrow> r_TaskID r = r_TaskID r' \<longrightarrow> k = k')"

definition threads_ok :: "executor \<Rightarrow> bool" where
  "threads_ok x \<longleftrightarrow>
     (\<forall>k. k \<in> set (x_running x) \<longleftrightarrow> gget (x_threads x) k \<noteq> None)
     \<and> (\<forall>k. gget (x_threads x) k \<noteq> None \<longrightarrow> gget (x_rts x) k \<noteq> None)
     \<and> (\<forall>k. active_in (x_runs x) k \<longrightarrow>
          (\<exists>th. gget (x_threads x) k = Some th \<and> settles (th_pc th)))
     \<and> (\<forall>k th. gget (x_threads x) k = Some th \<longrightarrow>
          run_status_of (x_runs x) k
            \<noteq> Some (if th_pc th = PcMark then RunStatusRunning else RunStatusPending))"

definition cancel_ok :: "executor \<Rightarrow> string \<Rightarrow> cancel_pc \<Rightarrow> bool" where
  "cancel_ok x r pc \<longleftrightarrow> gget (x_rts x) r \<noteq> None
     \<and> (pc \<noteq> CStore \<longrightarrow> \<not> active_in (x_runs x) r)
     \<and> (pc = CKill \<or> pc = CDone \<longrightarrow> ctx_of r x \<noteq> CtxOk)
     \<and> (pc = CDone \<longrightarrow> group_dead x r \<or> at_check x r)"

definition cancels_ok :: "executor \<Rightarrow> bool" where
  "cancels_ok x \<longleftrightarrow> (\<forall>p \<in> set (x_cancels x). cancel_ok x (fst p) (snd p))
     \<and> (x_closed x \<longrightarrow> set (x_running x) \<subseteq> fst ` set (x_cancels x))"

lemma cancel_ok_mono:
  assumes "cancel_ok x r pc" and "gget (x_rts x) r \<noteq> None \<Longrightarrow> gget (x_rts x') r \<noteq> None"
    and "active_in (x_runs x') r \<Longrightarrow> active_in (x_runs x) r"
    and "ctx_of r x \<noteq> CtxOk \<Longrightarrow> ctx_of r x' \<noteq> CtxOk"
    and "ctx_of r x \<noteq> CtxOk \<Longrightarrow> group_dead x r \<or> at_check x r \<Longrightarrow> group_dead x' r \<or> at_check x' r"
  shows "cancel_ok x' r pc"
  using assms by (auto simp: cancel_ok_def)

lemma cancels_okI:
  assumes "cancels_ok x" and "x_cancels x' = x_cancels x"
    and "x_closed x' = x_closed x" and "x_closed x \<Longrightarrow> set (x_running x') \<subseteq> set (x_running x)"
    and "\<And>r pc. (r, pc) \<in> set (x_cancels x) \<Longrightarrow> cancel_ok x r pc \<Longrightarrow> cancel_ok x' r pc"
  shows "cancels_ok x'"
  using assms by (fastforce simp: cancels_ok_def)

definition exec_inv :: "executor \<Rightarrow> bool" where
  "exec_inv x \<longleftrightarrow> store_ok x \<and> threads_ok x \<and> cancels_ok x"

lemma exec_inv_start: "exec_start x \<Longrightarrow> exec_inv x"
  by (auto simp: exec_start_def exec_inv_def store_ok_def threads_ok_def cancels_ok_def active_in_Get)

section \<open>Steps that leave the store alone\<close>

lemma ctx_of_fields [simp]:
  "ctx_of r (x\<lparr>x_threads := ths\<rparr>) = ctx_of r x" "ctx_of r (x\<lparr>x_runs := rs\<rparr>) = ctx_of r x"
  "ctx_of r (x\<lparr>x_killed := ks\<rparr>) = ctx_of r x" "ctx_of r (x\<lparr>x_disk := d\<rparr>) = ctx_of r x"
  "ctx_of r (x\<lparr>x_tasks := ts\<rparr>) = ctx_of r x" "ctx_of r (x\<lparr>x_cancels := cs\<rparr>) = ctx_of r x"
  "ctx_of r (x\<lparr>x_closed := b\<rparr>) = ctx_of r x" "ctx_of r (x\<lparr>x_running := rn\<rparr>) = ctx_of r x"
  by (simp_all add: ctx_of_def)

lemma group_dead_fields [simp]:
  "group_dead (x\<lparr>x_threads := ths\<rparr>) r = group_dead x r" "group_dead (x\<lparr>x_runs := rs\<rparr>) r = group_dead x r"
  "group_dead (x\<lparr>x_cancels := cs\<rparr>) r = group_dead x r" "group_dead (x\<lparr>x_closed := b\<rparr>) r = group_dead x r"
  "group_dead (x\<lparr>x_running := rn\<rparr>) r = group_dead x r" "group_dead (x\<lparr>x_disk := d\<rparr>) r = group_dead x r"
  "group_dead (x\<lparr>x_tasks := ts\<rparr>) r = group_dead x r"
  by (simp_all add: group_dead_def cong: option.case_cong)

lemma at_check_fields [simp]:
  "at_check (x\<lparr>x_runs := rs\<rparr>) r = at_check x r" "at_check (x\<lparr>x_cancels := cs\<rparr>) r = at_check x r"
  "at_check (x\<lparr>x_rts := rts\<rparr>) r = at_check x r" "at_check (x\<lparr>x_killed := ks\<rparr>) r = at_check x r"
  "at_check (x\<lparr>x_closed := b\<rparr>) r = at_check x r" "at_check (x\<lparr>x_running := rn\<rparr>) r = at_check x r"
  by (simp_all add: at_check_def)

lemma exec_inv_other [simp]:
  "exec_inv (x\<lparr>x_disk := d\<rparr>) = exec_inv x" "exec_inv (x\<lparr>x_tasks := ts\<rparr>) = exec_inv x"
  by (simp_all add: exec_inv_def store_ok_def threads_ok_def cancels_ok_def cancel_ok_def
      at_check_def)

text \<open>Moving one goroutine on.\<close>

lemma exec_inv_thread:
  assumes "exec_inv x" and "gget (x_threads x) r = Some th" and "th_pc th \<noteq> PcMark"
    and "\<And>th. th_pc (f th) = pc" and "pc \<noteq> PcMark"
    and "settles pc \<or> \<not> active_in (x_runs x) r"
    and "th_pc th = PcCheck \<Longrightarrow> ctx_of r x \<noteq> CtxOk \<Longrightarrow> group_dead x r"
  shows "exec_inv (x\<lparr>x_threads := gmod r f (x_threads x)\<rparr>)"
proof -
  let ?x = "x\<lparr>x_threads := gmod r f (x_threads x)\<rparr>"
  have th: "gget (x_threads ?x) k = (if k = r then Some (f th) else gget (x_threads x) k)" for k
    using assms(2) by (simp add: gget_gmod)
  have t: "threads_ok x" and c: "cancels_ok x" using assms(1) by (auto simp: exec_inv_def)
  have "store_ok ?x" using assms(1) by (simp add: exec_inv_def store_ok_def)
  moreover have "threads_ok ?x"
    using t assms(2-6) unfolding threads_ok_def th by (auto split: if_splits)
  moreover have "cancels_ok ?x" using c
  proof (rule cancels_okI)
    fix k cpc assume ok: "cancel_ok x k cpc"
    have at: "at_check x k \<Longrightarrow> at_check ?x k \<or> k = r \<and> th_pc th = PcCheck"
      using assms(2) unfolding at_check_def th by auto
    from ok show "cancel_ok ?x k cpc"
      by (rule cancel_ok_mono) (use at assms(7) in auto)
  qed simp_all
  ultimately show ?thesis by (simp add: exec_inv_def)
qed

lemma exec_inv_goto:
  assumes "exec_inv x" and "gget (x_threads x) r = Some th" and "th_pc th \<noteq> PcMark" and "pc \<noteq> PcMark"
    and "settles pc \<or> \<not> active_in (x_runs x) r"
    and "th_pc th = PcCheck \<Longrightarrow> ctx_of r x \<noteq> CtxOk \<Longrightarrow> group_dead x r"
  shows "exec_inv (goto r pc x)"
  unfolding goto_def using assms by (intro exec_inv_thread [where pc = pc]) simp_all

lemma killGroup_fields [simp]:
  "x_threads (killGroup r x) = x_threads x" "x_runs (killGroup r x) = x_runs x"
  "x_rts (killGroup r x) = x_rts x" "x_cancels (killGroup r x) = x_cancels x"
  "ctx_of k (killGroup r x) = ctx_of k x" "at_check (killGroup r x) k = at_check x k"
  "x_running (killGroup r x) = x_running x" "x_closed (killGroup r x) = x_closed x"
  by (simp_all add: killGroup_def ctx_of_def at_check_def split: option.split)

lemma group_dead_kill: "group_dead x k \<Longrightarrow> group_dead (killGroup r x) k" "group_dead (killGroup r x) r"
  by (auto simp: group_dead_def killGroup_def split: option.split)

lemma exec_inv_kill:
  assumes "exec_inv x"
  shows "exec_inv (killGroup r x)"
proof -
  have "cancels_ok x" using assms by (simp add: exec_inv_def)
  then have "cancels_ok (killGroup r x)"
  proof (rule cancels_okI)
    fix k pc assume "cancel_ok x k pc"
    then show "cancel_ok (killGroup r x) k pc"
      by (rule cancel_ok_mono) (use group_dead_kill(1) in auto)
  qed simp_all
  then show ?thesis using assms by (simp add: exec_inv_def store_ok_def threads_ok_def)
qed

text \<open>Ending a context.\<close>

lemma ctx_of_end: "ctx_of k (end_ctx e r x) =
    (if k = r \<and> ctx_of r x = CtxOk \<and> gget (x_rts x) r \<noteq> None then e else ctx_of k x)"
  by (auto simp: ctx_of_def end_ctx_def gget_gmod split: option.split)

lemma end_ctx_fields [simp]:
  "x_threads (end_ctx e r x) = x_threads x" "x_runs (end_ctx e r x) = x_runs x"
  "x_cancels (end_ctx e r x) = x_cancels x" "at_check (end_ctx e r x) k = at_check x k"
  "x_running (end_ctx e r x) = x_running x" "x_closed (end_ctx e r x) = x_closed x"
  "gget (x_rts (end_ctx e r x)) k = None \<longleftrightarrow> gget (x_rts x) k = None"
  by (auto simp: end_ctx_def gget_gmod at_check_def)

lemma group_dead_end [simp]: "group_dead (end_ctx e r x) k = group_dead x k"
  by (cases "gget (x_rts x) k") (auto simp: group_dead_def end_ctx_def gget_gmod split: if_splits)

lemma exec_inv_end:
  assumes "exec_inv x" and "e \<noteq> CtxOk"
  shows "exec_inv (end_ctx e r x)"
proof -
  have "cancels_ok x" using assms(1) by (simp add: exec_inv_def)
  then have "cancels_ok (end_ctx e r x)"
  proof (rule cancels_okI)
    fix k pc assume "cancel_ok x k pc"
    then show "cancel_ok (end_ctx e r x) k pc"
      by (rule cancel_ok_mono) (simp_all add: ctx_of_end assms(2))
  qed simp_all
  then show ?thesis using assms(1) by (simp add: exec_inv_def store_ok_def threads_ok_def)
qed

section \<open>Steps that change the run store\<close>

text \<open>
  A change of the store that keeps it consistent, revives no run and makes none pending; a run
  that stays active keeps its status class.
\<close>

definition tames :: "run_store \<Rightarrow> run_store \<Rightarrow> bool" where
  "tames s s' \<longleftrightarrow> run_inv s'
     \<and> (\<forall>k r'. run_Get s' k = Some r' \<longrightarrow> active r' \<longrightarrow>
          (\<exists>r. run_Get s k = Some r \<and> r_Status r = r_Status r' \<and> r_TaskID r = r_TaskID r'))"

lemma tames_active: "tames s s' \<Longrightarrow> active_in s' k \<Longrightarrow> active_in s k \<and> run_status_of s' k = run_status_of s k"
  by (fastforce simp: tames_def active_in_def run_status_of_def active_def)

lemma exec_inv_runs:
  assumes "exec_inv x" and "tames (x_runs x) s"
  shows "exec_inv (x\<lparr>x_runs := s\<rparr>)"
proof -
  let ?x = "x\<lparr>x_runs := s\<rparr>"
  have t: "threads_ok x" and c: "cancels_ok x" using assms(1) by (auto simp: exec_inv_def)
  note act = tames_active [OF assms(2)]
  have "store_ok ?x" unfolding store_ok_def
  proof (intro conjI allI impI)
    show "run_inv (x_runs ?x)" using assms(2) by (simp add: tames_def)
    fix k k' r r'
    assume g: "run_Get (x_runs ?x) k = Some r" "run_Get (x_runs ?x) k' = Some r'" "active r" "active r'"
      "r_TaskID r = r_TaskID r'"
    obtain q where q: "run_Get (x_runs x) k = Some q" "r_Status q = r_Status r" "r_TaskID q = r_TaskID r"
      using assms(2) g(1,3) by (auto simp: tames_def)
    obtain q' where q': "run_Get (x_runs x) k' = Some q'" "r_Status q' = r_Status r'" "r_TaskID q' = r_TaskID r'"
      using assms(2) g(2,4) by (auto simp: tames_def)
    have "active q" "active q'" using g(3,4) q(2) q'(2) by (simp_all add: active_def)
    then show "k = k'" using assms(1) q q' g(5) by (auto simp: exec_inv_def store_ok_def)
  qed
  moreover have "threads_ok ?x"
  proof -
    have "run_status_of s k \<noteq> Some (if b then RunStatusRunning else RunStatusPending)"
      if "run_status_of (x_runs x) k \<noteq> Some (if b then RunStatusRunning else RunStatusPending)" for k b
      using that act [of k] by (cases b) (auto simp: active_in_def)
    then have "\<forall>k th. gget (x_threads x) k = Some th \<longrightarrow>
        run_status_of s k \<noteq> Some (if th_pc th = PcMark then RunStatusRunning else RunStatusPending)"
      using t unfolding threads_ok_def by blast
    then show ?thesis using t act unfolding threads_ok_def by simp
  qed
  moreover have "cancels_ok ?x" using c
  proof (rule cancels_okI)
    fix k cpc assume ok: "cancel_ok x k cpc"
    then show "cancel_ok ?x k cpc" by (rule cancel_ok_mono) (use act in auto)
  qed simp_all
  ultimately show ?thesis by (simp add: exec_inv_def)
qed

lemma updates_tames:
  assumes "updates k f s s'" and "\<And>st. f st \<in> {RunStatusPending, RunStatusRunning} \<Longrightarrow> f st = st"
  shows "tames s s'"
  unfolding tames_def
proof (intro conjI allI impI)
  show "run_inv s'" using assms(1) by (simp add: updates_def)
  fix k' r' assume g: "run_Get s' k' = Some r'" "active r'"
  have "map_option r_TaskID (run_Get s' k') = map_option r_TaskID (run_Get s k')"
    using assms(1) unfolding updates_def by blast
  then obtain r where r: "run_Get s k' = Some r" "r_TaskID r = r_TaskID r'"
    using g(1) by (cases "run_Get s k'") simp_all
  have "run_status_of s' k' = (if k' = k then map_option f (run_status_of s k) else run_status_of s k')"
    using assms(1) unfolding updates_def by blast
  then have "r_Status r' = r_Status r \<or> r_Status r' = f (r_Status r)"
    using g(1) r(1) by (auto simp: run_status_of_def split: if_splits)
  then have "r_Status r = r_Status r'" using assms(2) [of "r_Status r"] g(2) by (auto simp: active_def)
  then show "\<exists>r. run_Get s k' = Some r \<and> r_Status r = r_Status r' \<and> r_TaskID r = r_TaskID r'"
    using r by blast
qed

lemma written_tame: "written op st \<in> {RunStatusPending, RunStatusRunning} \<Longrightarrow> written op st = st"
  by (cases op) (auto simp: run_status_defs split: if_splits)

lemma written_final: "is_final op \<Longrightarrow> written op st \<notin> {RunStatusPending, RunStatusRunning}"
  by (cases op) (auto simp: run_status_defs)

lemma exec_inv_store_inv: "exec_inv x \<Longrightarrow> run_inv (x_runs x)"
  by (simp add: exec_inv_def store_ok_def)

lemma exec_inv_write:
  "exec_inv x \<Longrightarrow> exec_inv (x\<lparr>x_runs := run_write_store now r op (x_runs x)\<rparr>)"
  using updates_tames [OF updates_write written_tame] exec_inv_store_inv by (intro exec_inv_runs) blast+

lemma write_settles:
  assumes "run_inv s" and "is_final op"
  shows "\<not> active_in (run_write_store now r op s) r"
proof -
  have "run_status_of (run_write_store now r op s) r = map_option (written op) (run_status_of s r)"
    using updates_write [OF assms(1), of r op now] by (simp add: updates_def)
  then show ?thesis using written_final [OF assms(2)] by (auto simp: active_in_def)
qed

lemma exec_inv_store_cancel: "exec_inv x \<Longrightarrow> exec_inv (store_cancel now r x)"
  using exec_inv_write [of x now r WCancel] by (simp add: store_cancel_def)

lemma store_cancel_settles: "exec_inv x \<Longrightarrow> \<not> active_in (x_runs (store_cancel now r x)) r"
  using write_settles [of "x_runs x" WCancel now r] exec_inv_store_inv by (simp add: store_cancel_def)

lemma tames_DeleteByTask: "run_inv s \<Longrightarrow> tames s (run_DeleteByTask tid s)"
  using run_inv_DeleteByTask [of s tid]
  by (auto simp: tames_def run_Get_DeleteByTask split: option.splits if_splits)

section \<open>Every step keeps the invariant\<close>

text \<open>The goroutine takes its run from pending to running, or finds it cancelled.\<close>

lemma exec_inv_mark:
  assumes "exec_inv x" and "gget (x_threads x) r = Some th" and "th_pc th = PcMark"
  shows "exec_inv (step_mark r x)"
proof -
  let ?s = "fst (run_MarkRunning r (x_runs x))"
  let ?pc = "if snd (run_MarkRunning r (x_runs x)) then PcSetup else PcSave"
  let ?f = "\<lambda>th. th\<lparr>th_pc := ?pc\<rparr>"
  let ?x = "x\<lparr>x_runs := ?s, x_threads := gmod r ?f (x_threads x)\<rparr>"
  have eq: "step_mark r x = ?x" by (simp add: step_mark_def goto_def split_def Let_def)
  have st: "store_ok x" and t: "threads_ok x" and c: "cancels_ok x" using assms(1) by (auto simp: exec_inv_def)
  have u: "updates r marked (x_runs x) ?s" using updates_mark exec_inv_store_inv [OF assms(1)] by blast
  have status: "run_status_of ?s k = (if k = r then map_option marked (run_status_of (x_runs x) r)
      else run_status_of (x_runs x) k)" for k
    using u unfolding updates_def by blast
  have tid: "map_option r_TaskID (run_Get ?s k) = map_option r_TaskID (run_Get (x_runs x) k)" for k
    using u unfolding updates_def by blast
  have not_run: "run_status_of (x_runs x) r \<noteq> Some RunStatusRunning"
    using t assms(2,3) unfolding threads_ok_def by metis
  have act: "active_in ?s k \<longleftrightarrow> active_in (x_runs x) k" for k
    unfolding active_in_def status by (cases "run_status_of (x_runs x) r") (auto simp: marked_def run_status_defs)
  have active_r: "active_in (x_runs x) r \<longleftrightarrow> snd (run_MarkRunning r (x_runs x))"
    using not_run unfolding active_in_def MarkRunning_result by blast
  have th: "gget (x_threads ?x) k = (if k = r then Some (?f th) else gget (x_threads x) k)" for k
    using assms(2) by (simp add: gget_gmod)
  have "store_ok ?x" unfolding store_ok_def
  proof (intro conjI allI impI)
    show "run_inv (x_runs ?x)" using u by (simp add: updates_def)
    fix k k' q q'
    assume g: "run_Get (x_runs ?x) k = Some q" "run_Get (x_runs ?x) k' = Some q'" "active q" "active q'"
      "r_TaskID q = r_TaskID q'"
    then have "active_in ?s k" "active_in ?s k'" by (auto simp: active_in_Get)
    then obtain p p' where p: "run_Get (x_runs x) k = Some p" "active p"
      "run_Get (x_runs x) k' = Some p'" "active p'"
      unfolding act by (auto simp: active_in_Get)
    have "r_TaskID p = r_TaskID q" "r_TaskID p' = r_TaskID q'" using tid [of k] tid [of k'] g(1,2) p by simp_all
    then show "k = k'" using st p g(5) unfolding store_ok_def by metis
  qed
  moreover have "threads_ok ?x"
    unfolding threads_ok_def
  proof (intro conjI allI impI)
    fix k
    show "k \<in> set (x_running ?x) \<longleftrightarrow> gget (x_threads ?x) k \<noteq> None"
      "gget (x_threads ?x) k \<noteq> None \<Longrightarrow> gget (x_rts ?x) k \<noteq> None"
      using t assms(2) by (cases "k = r"; auto simp: threads_ok_def gget_gmod)+
    show "\<exists>th. gget (x_threads ?x) k = Some th \<and> settles (th_pc th)" if "active_in (x_runs ?x) k"
      using that t active_r unfolding threads_ok_def th by (auto simp: act)
    show "run_status_of (x_runs ?x) k \<noteq> Some (if th_pc th' = PcMark then RunStatusRunning else RunStatusPending)"
      if "gget (x_threads ?x) k = Some th'" for th'
    proof (cases "k = r")
      case True
      have "th_pc th' = ?pc" using that th [of k] True by auto
      then have "th_pc th' \<noteq> PcMark" by simp
      then show ?thesis using True by (auto simp: status marked_def run_status_defs)
    next
      case False
      then have "gget (x_threads x) k = Some th'" using that th by simp
      then have "run_status_of (x_runs x) k \<noteq> Some (if th_pc th' = PcMark then RunStatusRunning else RunStatusPending)"
        using t unfolding threads_ok_def by blast
      then show ?thesis using False by (simp add: status)
    qed
  qed
  moreover have "cancels_ok ?x" using c
  proof (rule cancels_okI)
    fix k cpc assume ok: "cancel_ok x k cpc"
    have at: "at_check x k \<Longrightarrow> at_check ?x k"
      using assms(2,3) unfolding at_check_def th by auto
    from ok show "cancel_ok ?x k cpc"
      by (rule cancel_ok_mono) (use at act in auto)
  qed simp_all
  ultimately show ?thesis unfolding eq by (simp add: exec_inv_def)
qed

text \<open>The other steps of the goroutine.\<close>

lemma active_needs_settles:
  "exec_inv x \<Longrightarrow> gget (x_threads x) r = Some th \<Longrightarrow> \<not> settles (th_pc th) \<Longrightarrow> \<not> active_in (x_runs x) r"
  by (auto simp: exec_inv_def threads_ok_def)

lemma thread_status:
  "exec_inv x \<Longrightarrow> gget (x_threads x) r = Some th \<Longrightarrow>
    run_status_of (x_runs x) r \<noteq> Some (if th_pc th = PcMark then RunStatusRunning else RunStatusPending)"
  unfolding exec_inv_def threads_ok_def by blast

lemma goto_fields [simp]:
  "x_runs (goto r pc x) = x_runs x" "x_rts (goto r pc x) = x_rts x" "x_killed (goto r pc x) = x_killed x"
  "x_cancels (goto r pc x) = x_cancels x" "x_running (goto r pc x) = x_running x"
  "x_closed (goto r pc x) = x_closed x"
  by (simp_all add: goto_def)

lemma exec_inv_publish:
  assumes "exec_inv x" and "gget (x_threads x) r = Some th" and "th_pc th = PcPublish pid"
  shows "exec_inv (step_publish r pid x)"
proof -
  let ?x = "step_publish r pid x"
  have t: "threads_ok x" and c: "cancels_ok x" using assms(1) by (auto simp: exec_inv_def)
  have th: "gget (x_threads ?x) k = (if k = r then Some (th\<lparr>th_pc := PcCheck\<rparr>) else gget (x_threads x) k)" for k
    using assms(2) by (simp add: step_publish_def goto_def setPgid_def gget_gmod)
  have rts: "gget (x_rts ?x) k = None \<longleftrightarrow> gget (x_rts x) k = None" for k
    by (simp add: step_publish_def setPgid_def gget_gmod)
  have ctx: "ctx_of k ?x = ctx_of k x" for k
    by (auto simp: ctx_of_def step_publish_def setPgid_def gget_gmod split: option.split)
  have same: "x_runs ?x = x_runs x" "x_running ?x = x_running x" "x_cancels ?x = x_cancels x"
    "x_closed ?x = x_closed x" by (simp_all add: step_publish_def setPgid_def)
  have "store_ok ?x" using assms(1) by (simp add: exec_inv_def store_ok_def same)
  moreover have "threads_ok ?x"
  proof -
    have "run_status_of (x_runs x) r \<noteq> Some RunStatusPending"
      using thread_status [OF assms(1,2)] assms(3) by simp
    then show ?thesis using t assms(2,3) unfolding threads_ok_def th same rts by (auto split: if_splits)
  qed
  moreover have "cancels_ok ?x" using c
  proof (rule cancels_okI)
    fix k cpc assume ok: "cancel_ok x k cpc"
    have at: "at_check ?x r" by (simp add: at_check_def th)
    have dead: "group_dead x k \<Longrightarrow> k \<noteq> r \<Longrightarrow> group_dead ?x k"
      by (auto simp: group_dead_def step_publish_def setPgid_def goto_def gget_gmod cong: option.case_cong)
    have chk: "at_check x k \<Longrightarrow> at_check ?x k" using assms(2,3) by (auto simp: at_check_def th)
    from ok show "cancel_ok ?x k cpc"
    proof (rule cancel_ok_mono)
      show "group_dead ?x k \<or> at_check ?x k" if "group_dead x k \<or> at_check x k"
        using that at dead chk by (cases "k = r") auto
    qed (simp_all add: rts ctx same)
  qed (simp_all add: same)
  ultimately show ?thesis by (simp add: exec_inv_def)
qed

lemma exec_inv_unregister:
  assumes "exec_inv x" and "gget (x_threads x) r = Some th" and "th_pc th = PcUnregister"
  shows "exec_inv (step_unregister r x)"
proof -
  let ?x = "step_unregister r x"
  have t: "threads_ok x" and c: "cancels_ok x" using assms(1) by (auto simp: exec_inv_def)
  have idle: "\<not> active_in (x_runs x) r" using active_needs_settles [OF assms(1,2)] assms(3) by simp
  have th: "gget (x_threads ?x) k = (if k = r then None else gget (x_threads x) k)" for k
    by (simp add: step_unregister_def gget_gdel)
  have same: "x_runs ?x = x_runs x" "x_rts ?x = x_rts x" "x_cancels ?x = x_cancels x" "x_killed ?x = x_killed x"
    "x_closed ?x = x_closed x" "set (x_running ?x) = set (x_running x) - {r}"
    by (auto simp: step_unregister_def)
  have "store_ok ?x" using assms(1) by (simp add: exec_inv_def store_ok_def same)
  moreover have "threads_ok ?x"
  proof -
    have "\<exists>th. gget (x_threads ?x) k = Some th \<and> settles (th_pc th)" if "active_in (x_runs x) k" for k
      using t that idle unfolding threads_ok_def th by (cases "k = r") auto
    then show ?thesis using t unfolding threads_ok_def same th by auto
  qed
  moreover have "cancels_ok ?x" using c
  proof (rule cancels_okI)
    fix k cpc assume ok: "cancel_ok x k cpc"
    have "ctx_of k ?x = ctx_of k x" "group_dead ?x k = group_dead x k"
      by (simp_all add: ctx_of_def group_dead_def same cong: option.case_cong)
    moreover have "at_check x k \<Longrightarrow> at_check ?x k" using assms(2,3) by (auto simp: at_check_def th)
    ultimately show "cancel_ok ?x k cpc" by (intro cancel_ok_mono [OF ok]) (auto simp: same)
  qed (auto simp: same)
  ultimately show ?thesis by (simp add: exec_inv_def)
qed

lemma exec_inv_thread_step:
  assumes "exec_inv x" and "gget (x_threads x) r = Some th"
  shows "exec_inv (thread_step w r th x)"
proof (cases "th_pc th")
  case PcMark
  then show ?thesis using exec_inv_mark [OF assms] by (simp add: thread_step_def)
next
  case PcSetup
  then show ?thesis using assms
    by (auto simp: thread_step_def step_setup_def Let_def intro!: exec_inv_goto exec_inv_thread)
next
  case PcProbe
  have "is_final (verdict e n)" for e n by (simp add: verdict_def)
  then show ?thesis using assms PcProbe
    by (auto simp: thread_step_def step_probe_def Let_def intro!: exec_inv_goto)
next
  case (PcLaunch cmd)
  then show ?thesis using assms
    by (auto simp: thread_step_def step_launch_def split: sum.split intro!: exec_inv_goto)
next
  case (PcPublish pid)
  then show ?thesis using exec_inv_publish [OF assms] by (simp add: thread_step_def)
next
  case PcCheck
  then show ?thesis using assms exec_inv_kill [OF assms(1), of r] group_dead_kill(2)
    by (auto simp: thread_step_def step_check_def intro!: exec_inv_goto)
next
  case PcWait
  have fin: "is_final (verdict e n)" for e n by (simp add: verdict_def)
  have pcs: "exec_inv (goto r (PcFinish ops) x)" "exec_inv (goto r (PcFinish ops) (killGroup r x))"
    if "list_ex is_final ops" for ops
    using that assms PcWait exec_inv_kill [OF assms(1), of r] by (auto intro!: exec_inv_goto)
  show ?thesis using assms(1) PcWait fin
    by (auto simp: thread_step_def step_wait_def Let_def split: wait_result.split intro!: pcs)
next
  case (PcFinish ops)
  show ?thesis
  proof (cases ops)
    case Nil
    then have "\<not> active_in (x_runs x) r" using active_needs_settles [OF assms] PcFinish by simp
    then show ?thesis using assms PcFinish Nil
      by (auto simp: thread_step_def step_finish_def intro!: exec_inv_goto)
  next
    case (Cons op rest)
    let ?x = "x\<lparr>x_runs := run_write_store (w_now w) r op (x_runs x)\<rparr>"
    have "list_ex is_final rest \<or> \<not> active_in (x_runs ?x) r"
    proof (cases "is_final op")
      case True
      then show ?thesis using write_settles exec_inv_store_inv [OF assms(1)] by simp
    next
      case False
      have "active_in (x_runs ?x) r \<Longrightarrow> active_in (x_runs x) r"
        using tames_active [OF updates_tames [OF updates_write written_tame]] exec_inv_store_inv [OF assms(1)] by simp
      then show ?thesis using False active_needs_settles [OF assms] PcFinish Cons by auto
    qed
    then show ?thesis using assms PcFinish Cons exec_inv_write [OF assms(1)]
      by (auto simp: thread_step_def step_finish_def intro!: exec_inv_goto)
  qed
next
  case PcSave
  then have "\<not> active_in (x_runs x) r" using active_needs_settles [OF assms] by simp
  then show ?thesis using assms PcSave
    by (auto simp: thread_step_def step_save_def intro!: exec_inv_goto)
next
  case PcUnregister
  then show ?thesis using exec_inv_unregister [OF assms] by (simp add: thread_step_def)
qed

text \<open>Starting a run.\<close>

lemma exec_inv_run:
  assumes "exec_inv x" and "gget (x_rts x) uuid = None" and "run_Get (x_runs x) uuid = None"
  shows "exec_inv (fst (exec_Run_locked uuid now tid t path x))"
proof (cases "x_closed x \<or> run_GetRunning tid (x_runs x) \<noteq> None")
  case True
  then show ?thesis using assms(1) by (auto simp: exec_Run_locked_def split: option.split)
next
  case False
  let ?x = "fst (exec_Run_locked uuid now tid t path x)" and ?s = "run_Create uuid now tid (x_runs x)"
  have same: "x_runs ?x = ?s" "x_cancels ?x = x_cancels x" "x_killed ?x = x_killed x" "\<not> x_closed ?x"
    "x_running ?x = uuid # x_running x"
    using False by (simp_all add: exec_Run_locked_def)
  have th: "gget (x_threads ?x) k = (if k = uuid then Some \<lparr>th_task = t, th_path = path, th_dir = [],
      th_timeout = 0, th_pc = PcMark\<rparr> else gget (x_threads x) k)" for k
    using False by (simp add: exec_Run_locked_def gget_gput)
  have rts: "gget (x_rts ?x) k = (if k = uuid then Some \<lparr>rt_ctx = CtxOk, rt_pgid = 0\<rparr> else gget (x_rts x) k)" for k
    using False by (simp add: exec_Run_locked_def gget_gput)
  have t: "threads_ok x" and c: "cancels_ok x" and st: "store_ok x" using assms(1) by (auto simp: exec_inv_def)
  have inv: "run_inv (x_runs x)" using st by (simp add: store_ok_def)
  have new: "run_Get ?s uuid \<in> {None, Some (new_run uuid now tid)}" using run_Get_Create(1) [OF inv assms(3)] .
  have old: "run_Get ?s k = Some r \<Longrightarrow> k \<noteq> uuid \<Longrightarrow> run_Get (x_runs x) k = Some r" for k r
    using run_Get_Create(2) [OF inv assms(3), of k now tid] by auto
  have free: "\<not> active r" if "run_Get (x_runs x) k = Some r" "r_TaskID r = tid" for k r
    using GetRunning_None [OF inv, of tid] False that by blast
  have act: "active_in ?s k \<Longrightarrow> k \<noteq> uuid \<Longrightarrow> active_in (x_runs x) k" for k
    using old by (auto simp: active_in_Get)
  have "store_ok ?x" unfolding store_ok_def same
  proof (intro conjI allI impI)
    show "run_inv ?s" using run_inv_Create [OF inv assms(3)] .
    fix k k' r r'
    assume g: "run_Get ?s k = Some r" "run_Get ?s k' = Some r'" "active r" "active r'" "r_TaskID r = r_TaskID r'"
    have tid: "r_TaskID q = tid" if "run_Get ?s uuid = Some q" for q
      using new that by (auto simp: new_run_def)
    consider "k = uuid" "k' = uuid" | "k = uuid" "k' \<noteq> uuid" | "k \<noteq> uuid" "k' = uuid"
      | "k \<noteq> uuid" "k' \<noteq> uuid" by blast
    then show "k = k'"
    proof cases
      case 2
      then show ?thesis using free [OF old [OF g(2)]] tid g by auto
    next
      case 3
      then show ?thesis using free [OF old [OF g(1)]] tid g by auto
    next
      case 4
      then show ?thesis using old [OF g(1)] old [OF g(2)] g st unfolding store_ok_def by blast
    qed simp
  qed
  moreover have "threads_ok ?x" unfolding threads_ok_def same
  proof (intro conjI allI impI)
    fix k
    show "k \<in> set (uuid # x_running x) \<longleftrightarrow> gget (x_threads ?x) k \<noteq> None"
      "gget (x_threads ?x) k \<noteq> None \<Longrightarrow> gget (x_rts ?x) k \<noteq> None"
      using t unfolding th rts by (auto simp: threads_ok_def)
    show "\<exists>th. gget (x_threads ?x) k = Some th \<and> settles (th_pc th)" if "active_in ?s k"
      using t act [OF that] unfolding th threads_ok_def by auto
    fix th' assume th': "gget (x_threads ?x) k = Some th'"
    show "run_status_of ?s k \<noteq> Some (if th_pc th' = PcMark then RunStatusRunning else RunStatusPending)"
    proof (cases "k = uuid")
      case True
      then show ?thesis using new th' unfolding th
        by (auto simp: run_status_of_def new_run_def run_status_defs)
    next
      case False
      then have "gget (x_threads x) k = Some th'" using th' th by simp
      from thread_status [OF assms(1) this] show ?thesis
        using run_Get_Create(2) [OF inv assms(3) False, of now tid] by (auto simp: run_status_of_def)
    qed
  qed
  moreover have "cancels_ok ?x"
  proof -
    have "cancel_ok ?x k pc" if "(k, pc) \<in> set (x_cancels x)" for k pc
    proof -
      have ok: "cancel_ok x k pc" using c that unfolding cancels_ok_def by fastforce
      then have "k \<noteq> uuid" using assms(2) by (auto simp: cancel_ok_def)
      then have "ctx_of k ?x = ctx_of k x" "group_dead ?x k = group_dead x k" "at_check ?x k = at_check x k"
        "active_in ?s k \<Longrightarrow> active_in (x_runs x) k"
        using act by (simp_all add: ctx_of_def group_dead_def at_check_def th rts same cong: option.case_cong)
      then show ?thesis by (intro cancel_ok_mono [OF ok]) (auto simp: rts same)
    qed
    then show ?thesis unfolding cancels_ok_def using same by auto
  qed
  ultimately show ?thesis by (simp add: exec_inv_def)
qed

text \<open>Cancelling and closing.\<close>

lemma cancel_ok_fields [simp]: "cancel_ok (x\<lparr>x_cancels := cs\<rparr>) r pc = cancel_ok x r pc"
  by (simp add: cancel_ok_def)

lemma exec_inv_cancels:
  assumes "exec_inv x" and "\<And>r pc. (r, pc) \<in> set cs \<Longrightarrow> cancel_ok x r pc"
    and "fst ` set (x_cancels x) \<subseteq> fst ` set cs"
  shows "exec_inv (x\<lparr>x_cancels := cs\<rparr>)"
proof -
  have "cancels_ok (x\<lparr>x_cancels := cs\<rparr>)"
    using assms by (auto simp: cancels_ok_def exec_inv_def)
  then show ?thesis using assms(1) by (simp add: exec_inv_def store_ok_def threads_ok_def)
qed

lemma exec_inv_cancel_ok: "exec_inv x \<Longrightarrow> (r, pc) \<in> set (x_cancels x) \<Longrightarrow> cancel_ok x r pc"
  by (fastforce simp: exec_inv_def cancels_ok_def)

lemma exec_inv_cancel_step:
  assumes "exec_inv x" and "i < length (x_cancels x)"
  shows "exec_inv (cancel_step now i x)"
proof -
  obtain r pc where rp: "x_cancels x ! i = (r, pc)" by fastforce
  then have mem: "(r, pc) \<in> set (x_cancels x)" using assms(2) by (metis nth_mem)
  note ok = exec_inv_cancel_ok [OF assms(1) mem]
  have rt: "gget (x_rts x) r \<noteq> None" using ok by (simp add: cancel_ok_def)
  have upd: "exec_inv (y\<lparr>x_cancels := (x_cancels x)[i := (r, pc')]\<rparr>)"
    if "exec_inv y" "x_cancels y = x_cancels x" "cancel_ok y r pc'" for y pc'
  proof (rule exec_inv_cancels [OF that(1)])
    fix k c assume "(k, c) \<in> set ((x_cancels x)[i := (r, pc')])"
    then have "(k, c) = (r, pc') \<or> (k, c) \<in> set (x_cancels y)"
      using set_update_subset_insert that(2) by fastforce
    then show "cancel_ok y k c" using that(3) exec_inv_cancel_ok [OF that(1)] by auto
  next
    have "map fst ((x_cancels x)[i := (r, pc')]) = map fst (x_cancels x)"
      using rp by (simp add: map_update list_update_same_conv assms(2))
    then show "fst ` set (x_cancels y) \<subseteq> fst ` set ((x_cancels x)[i := (r, pc')])"
      unfolding that(2) by (metis list.set_map order_refl)
  qed
  show ?thesis
  proof (cases pc)
    case CStore
    have "cancel_ok (store_cancel now r x) r CCtx"
      using rt store_cancel_settles [OF assms(1)] by (simp add: cancel_ok_def) (simp add: store_cancel_def)
    then show ?thesis using upd [OF exec_inv_store_cancel [OF assms(1), of now r], of CCtx]
      by (simp add: cancel_step_def rp CStore) (simp add: store_cancel_def)
  next
    case CCtx
    have "cancel_ok (end_ctx Canceled r x) r CKill"
      using ok rt CCtx by (simp add: cancel_ok_def ctx_of_end)
    then show ?thesis using upd [OF exec_inv_end [OF assms(1), of Canceled r], of CKill]
      by (simp add: cancel_step_def rp CCtx)
  next
    case CKill
    have "cancel_ok (killGroup r x) r CDone"
      using ok CKill group_dead_kill(2) by (simp add: cancel_ok_def)
    then show ?thesis using upd [OF exec_inv_kill [OF assms(1), of r], of CDone]
      by (simp add: cancel_step_def rp CKill)
  next
    case CDone
    then show ?thesis using assms(1) by (simp add: cancel_step_def rp)
  qed
qed

lemma running_rt: "exec_inv x \<Longrightarrow> r \<in> set (x_running x) \<Longrightarrow> cancel_ok x r CStore"
  by (auto simp: exec_inv_def threads_ok_def cancel_ok_def)

lemma exec_inv_close: "exec_inv x \<Longrightarrow> exec_inv (exec_Close_locked x)"
proof -
  assume inv: "exec_inv x"
  let ?x = "exec_Close_locked x"
  have "cancel_ok ?x r pc" if "cancel_ok x r pc" for r pc
    using that by (simp add: cancel_ok_def exec_Close_locked_def)
  then have "cancels_ok ?x"
    using exec_inv_cancel_ok [OF inv] running_rt [OF inv]
    unfolding cancels_ok_def by (auto simp: exec_Close_locked_def image_Un image_image)
  then show ?thesis using inv by (simp add: exec_inv_def store_ok_def threads_ok_def exec_Close_locked_def)
qed

lemma exec_inv_step: "exec_step x x' \<Longrightarrow> exec_inv x \<Longrightarrow> exec_inv x'"
proof (induction rule: exec_step.induct)
  case (run x uuid now taskID t projectPath)
  then show ?case by (intro exec_inv_run)
next
  case (thread x r th w)
  then show ?case by (intro exec_inv_thread_step)
next
  case (timer x r th)
  then show ?case by (simp add: timer_fires_def exec_inv_end)
next
  case (cancel r x)
  then show ?case unfolding start_cancel_def
    by (intro exec_inv_cancels) (auto simp: exec_inv_cancel_ok running_rt)
next
  case (cancel_step i x now)
  then show ?case by (intro exec_inv_cancel_step)
next
  case (cancel_other r x now)
  then show ?case
    by (auto simp: exec_Cancel_unregistered_def exec_inv_store_cancel split: option.split)
next
  case (close x)
  then show ?case by (rule exec_inv_close)
next
  case (tasks x ts)
  then show ?case by simp
next
  case (delete_task x tid)
  then show ?case using tames_DeleteByTask exec_inv_store_inv by (intro exec_inv_runs) blast+
qed

lemma exec_inv_steps: "exec_steps x x' \<Longrightarrow> exec_inv x \<Longrightarrow> exec_inv x'"
  by (induction rule: rtranclp_induct) (auto intro: exec_inv_step)

lemma exec_inv_reachable: "exec_start x0 \<Longrightarrow> exec_steps x0 x \<Longrightarrow> exec_inv x"
  using exec_inv_start exec_inv_steps by blast

section \<open>Finished runs stay finished\<close>

text \<open>No step revives a run that exists, or whose goroutine exists.\<close>

lemma run_step_old:
  assumes "run_inv (x_runs x)" and "run_Get (x_runs x) uuid = None" and "k \<noteq> uuid"
  shows "run_status_of (x_runs (fst (exec_Run_locked uuid now tid t path x))) k \<in> {None, run_status_of (x_runs x) k}"
  using run_Get_Create(2) [OF assms, of now tid]
  by (auto simp: exec_Run_locked_def run_status_of_def split: option.split)

lemma thread_step_status:
  assumes "exec_inv x" and "gget (x_threads x) r = Some th"
  shows "\<exists>f. (\<forall>st. f st \<in> {RunStatusPending, RunStatusRunning} \<longrightarrow> st \<in> {RunStatusPending, RunStatusRunning})
    \<and> f RunStatusCancelled = RunStatusCancelled
    \<and> (\<forall>k. run_status_of (x_runs (thread_step w r th x)) k =
          (if k = r then map_option f (run_status_of (x_runs x) r) else run_status_of (x_runs x) k))"
proof -
  have inv: "run_inv (x_runs x)" using exec_inv_store_inv [OF assms(1)] .
  consider (mark) "th_pc th = PcMark" | (fin) op ops where "th_pc th = PcFinish (op # ops)"
    | (other) "x_runs (thread_step w r th x) = x_runs x"
  proof (cases "th_pc th")
    case (PcFinish ops)
    then show ?thesis using fin other
      by (cases ops) (auto simp: thread_step_def step_finish_def)
  qed (use mark other in \<open>auto simp: thread_step_def step_setup_def step_probe_def step_launch_def
      step_publish_def step_check_def step_wait_def step_save_def step_unregister_def setPgid_def Let_def
      split: sum.splits wait_result.splits\<close>)
  then show ?thesis
  proof cases
    case mark
    then have "x_runs (thread_step w r th x) = fst (run_MarkRunning r (x_runs x))"
      by (simp add: thread_step_def step_mark_def split_def Let_def)
    then show ?thesis using updates_mark [OF inv, of r]
      by (intro exI [of _ marked]) (auto simp: updates_def marked_def run_status_defs)
  next
    case fin
    then have "x_runs (thread_step w r th x) = run_write_store (w_now w) r op (x_runs x)"
      by (simp add: thread_step_def step_finish_def)
    moreover have "written op RunStatusCancelled = RunStatusCancelled"
      by (cases op) (auto simp: run_status_defs)
    moreover have "written op st \<in> {RunStatusPending, RunStatusRunning} \<Longrightarrow> st \<in> {RunStatusPending, RunStatusRunning}" for st
      using written_tame [of op st] by metis
    ultimately show ?thesis using updates_write [OF inv, of r op "w_now w"]
      by (intro exI [of _ "written op"]) (auto simp: updates_def)
  next
    case other
    then show ?thesis by (intro exI [of _ "\<lambda>st. st"]) (simp add: option.map_ident)
  qed
qed

lemma store_cancel_status:
  assumes "run_inv (x_runs x)"
  shows "run_status_of (x_runs (store_cancel now r x)) k =
    (if k = r then map_option (written WCancel) (run_status_of (x_runs x) r) else run_status_of (x_runs x) k)"
  using updates_cancel [OF assms, of r now] by (simp add: updates_def store_cancel_def)

definition stays :: "run_status option \<Rightarrow> run_status option \<Rightarrow> bool" where
  "stays st st' \<longleftrightarrow> (st' \<in> {Some RunStatusPending, Some RunStatusRunning} \<longrightarrow>
        st \<in> {Some RunStatusPending, Some RunStatusRunning})
     \<and> (st = Some RunStatusCancelled \<longrightarrow> st' \<in> {None, Some RunStatusCancelled})
     \<and> (st = None \<longrightarrow> st' = None)"

lemma stays_refl [simp]: "stays st st" "stays st None"
  by (simp_all add: stays_def)

lemma stays_map:
  "(\<forall>st. f st \<in> {RunStatusPending, RunStatusRunning} \<longrightarrow> st \<in> {RunStatusPending, RunStatusRunning}) \<Longrightarrow>
    f RunStatusCancelled = RunStatusCancelled \<Longrightarrow> stays st (map_option f st)"
  by (cases st) (auto simp: stays_def)

lemma stays_cancel: "stays st (map_option (written WCancel) st)"
  by (rule stays_map) (auto simp: run_status_defs)

lemma exec_step_stays:
  assumes "exec_step x x'" and "exec_inv x"
    and "gget (x_rts x) k \<noteq> None \<or> run_Get (x_runs x) k \<noteq> None"
  shows "stays (run_status_of (x_runs x) k) (run_status_of (x_runs x') k)
    \<and> (gget (x_rts x) k \<noteq> None \<longrightarrow> gget (x_rts x') k \<noteq> None)"
  using assms
proof (induction rule: exec_step.induct)
  case (run x uuid now taskID t projectPath)
  then have "k \<noteq> uuid" by auto
  then show ?case using run_step_old [of x uuid k now taskID t projectPath] run exec_inv_store_inv [of x]
    by (auto simp: exec_Run_locked_def gget_gput split: option.splits)
next
  case (thread x r th w)
  then obtain f where f: "\<forall>st. f st \<in> {RunStatusPending, RunStatusRunning} \<longrightarrow> st \<in> {RunStatusPending, RunStatusRunning}"
    "f RunStatusCancelled = RunStatusCancelled"
    "run_status_of (x_runs (thread_step w r th x)) k =
      (if k = r then map_option f (run_status_of (x_runs x) r) else run_status_of (x_runs x) k)"
    using thread_step_status [OF thread(2,1), of w] by blast
  have "gget (x_rts (thread_step w r th x)) k = None \<longleftrightarrow> gget (x_rts x) k = None"
    by (cases "th_pc th")
       (auto simp: thread_step_def step_mark_def step_setup_def step_probe_def step_launch_def step_publish_def
          step_check_def step_wait_def step_finish_def step_save_def step_unregister_def setPgid_def Let_def
          split_def gget_gmod split: list.splits sum.splits wait_result.splits)
  then show ?case using stays_map [OF f(1,2)] f(3) by simp
next
  case (timer x r th)
  then show ?case by (auto simp: timer_fires_def simp del: not_None_eq)
next
  case (cancel_step i x now)
  note inv = exec_inv_store_inv [OF cancel_step.prems(1)]
  obtain r pc where "x_cancels x ! i = (r, pc)" by fastforce
  then show ?case
    by (cases pc) (simp_all add: cancel_step_def store_cancel_status [OF inv] stays_cancel, simp add: store_cancel_def)
next
  case (cancel_other r x now)
  note inv = exec_inv_store_inv [OF cancel_other.prems(1)]
  show ?case
    by (auto simp: exec_Cancel_unregistered_def store_cancel_status [OF inv] stays_cancel split: option.split)
       (simp_all add: store_cancel_def)
next
  case (delete_task x tid)
  note inv = exec_inv_store_inv [OF delete_task.prems(1)]
  show ?case by (simp add: run_status_of_def run_Get_DeleteByTask [OF inv] split: option.split)
qed (simp_all add: start_cancel_def exec_Close_locked_def)

text \<open>A run cancelled before its goroutine got to it: it goes straight to its end.\<close>

definition never_starts :: "executor \<Rightarrow> string \<Rightarrow> bool" where
  "never_starts x r \<longleftrightarrow> gget (x_rts x) r \<noteq> None \<and> \<not> active_in (x_runs x) r
     \<and> (\<forall>th. gget (x_threads x) r = Some th \<longrightarrow> th_pc th \<in> {PcMark, PcSave, PcUnregister})
     \<and> (\<forall>rt. gget (x_rts x) r = Some rt \<longrightarrow> rt_pgid rt = 0)"

lemma step_other_thread:
  assumes "k \<noteq> r"
  shows "gget (x_threads (thread_step w k th x)) r = gget (x_threads x) r"
    and "map_option rt_pgid (gget (x_rts (thread_step w k th x)) r) = map_option rt_pgid (gget (x_rts x) r)"
  using assms
  by (cases "th_pc th";
      auto simp: thread_step_def step_mark_def step_setup_def step_probe_def step_launch_def step_publish_def
        step_check_def step_wait_def step_finish_def step_save_def step_unregister_def setPgid_def Let_def
        split_def goto_def gget_gmod gget_gdel killGroup_def
        split: list.splits sum.splits wait_result.splits option.splits)+

lemma pgid_end_ctx: "map_option rt_pgid (gget (x_rts (end_ctx e k x)) r) = map_option rt_pgid (gget (x_rts x) r)"
  by (cases "gget (x_rts x) r"; cases "r = k") (simp_all add: end_ctx_def gget_gmod)

lemma never_starts_step:
  assumes "exec_step x x'" and "exec_inv x" and "never_starts x r"
  shows "never_starts x' r"
proof -
  have rt: "gget (x_rts x) r \<noteq> None" using assms(3) by (simp add: never_starts_def)
  have st: "\<not> active_in (x_runs x') r" "gget (x_rts x') r \<noteq> None"
    using exec_step_stays [OF assms(1,2), of r] rt assms(3)
    by (auto simp: stays_def active_in_def never_starts_def)
  have keep: "never_starts x' r" if "gget (x_threads x') r = gget (x_threads x) r"
    "map_option rt_pgid (gget (x_rts x') r) = map_option rt_pgid (gget (x_rts x) r)"
    using that st assms(3) unfolding never_starts_def
    by (cases "gget (x_rts x) r"; cases "gget (x_rts x') r") simp_all
  from assms(1) show ?thesis
  proof cases
    case (run uuid now taskID t projectPath)
    then have "r \<noteq> uuid" using rt by auto
    then show ?thesis using run
      by (intro keep) (auto simp: exec_Run_locked_def gget_gput split: option.split)
  next
    case (thread k th w)
    show ?thesis
    proof (cases "k = r")
      case False
      then show ?thesis unfolding thread(1) by (intro keep [unfolded thread(1)] step_other_thread)
    next
      case True
      then have th: "gget (x_threads x) r = Some th" "th_pc th \<in> {PcMark, PcSave, PcUnregister}"
        using thread(2) assms(3) by (auto simp: never_starts_def)
      have "\<not> snd (run_MarkRunning r (x_runs x))"
        using assms(3) by (auto simp: MarkRunning_result never_starts_def active_in_def)
      then show ?thesis using th True st assms(3) unfolding thread(1) never_starts_def
        by (auto simp: thread_step_def step_mark_def step_save_def step_unregister_def split_def Let_def
            goto_def gget_gmod gget_gdel)
    qed
  next
    case (timer k th)
    then show ?thesis using pgid_end_ctx by (intro keep) (simp_all add: timer_fires_def)
  next
    case (cancel_step i now)
    obtain k pc where "x_cancels x ! i = (k, pc)" by fastforce
    then show ?thesis using cancel_step pgid_end_ctx
      by (intro keep; cases pc) (simp_all add: cancel_step_def store_cancel_def)
  next
    case (cancel_other k now)
    then show ?thesis
      by (intro keep) (auto simp: exec_Cancel_unregistered_def store_cancel_def split: option.split)
  qed (rule keep; simp add: start_cancel_def exec_Close_locked_def)+
qed

section \<open>Properties\<close>

text \<open>
  C15: a task never has two active runs, and no active run is out of reach. However runs are started,
  executed, timed out, cancelled and deleted concurrently, two pending or running runs of one task
  are the same run, and every such run is registered with a goroutine that has not yet given it its
  final status: so \<open>Cancel\<close> finds it, and a goroutine that is gone leaves no run active behind.
\<close>
theorem executor_one_active_run:
  assumes "exec_start x0" and "exec_steps x0 x"
    and "run_Get (x_runs x) k = Some r" and "active r"
  shows "(\<forall>k' r'. run_Get (x_runs x) k' = Some r' \<and> active r' \<and> r_TaskID r' = r_TaskID r \<longrightarrow> k' = k)
    \<and> k \<in> set (x_running x)
    \<and> (\<exists>th. gget (x_threads x) k = Some th \<and> settles (th_pc th))"
proof -
  have inv: "store_ok x" "threads_ok x" using exec_inv_reachable [OF assms(1,2)] by (simp_all add: exec_inv_def)
  have act: "active_in (x_runs x) k" using assms(3,4) by (auto simp: active_in_Get)
  have "\<exists>th. gget (x_threads x) k = Some th \<and> settles (th_pc th)" using inv(2) act by (auto simp: threads_ok_def)
  moreover from this have "k \<in> set (x_running x)" using inv(2) by (auto simp: threads_ok_def)
  moreover have "\<forall>k' r'. run_Get (x_runs x) k' = Some r' \<and> active r' \<and> r_TaskID r' = r_TaskID r \<longrightarrow> k' = k"
    using inv(1) assms(3,4) unfolding store_ok_def by metis
  ultimately show ?thesis by blast
qed

abbreviation (input) sample_exec :: executor where
  "sample_exec \<equiv> NewExecutor (NewTaskStore ''/d'') (NewRunStore ''/d'' 0) 0 0 NoFile"

abbreviation (input) sample_task :: task where
  "sample_task \<equiv> \<lparr>t_ID = ''t'', t_Name = ''n'', t_Description = [], t_Tool = ''claude'',
     t_Scope = 2, t_ProjectID = [], t_Prompt = ''hi'', t_Interactive = False, t_TimeoutSeconds = 0,
     t_CreatedAt = 1, t_UpdatedAt = 1\<rparr>"

lemma sample_exec_start: "exec_start sample_exec"
  using run_inv_New [of "''/d''" 0]
  by (auto simp: exec_start_def NewExecutor_def) (simp add: run_Get_def NewRunStore_def)

lemma sample_exec_run:
  "exec_steps sample_exec (fst (exec_Run_locked ''u'' 7 ''t'' sample_task [] sample_exec))
    \<and> run_Get (x_runs (fst (exec_Run_locked ''u'' 7 ''t'' sample_task [] sample_exec))) ''u'' = Some (new_run ''u'' 7 ''t'')
    \<and> gget (x_threads (fst (exec_Run_locked ''u'' 7 ''t'' sample_task [] sample_exec))) ''u'' \<noteq> None
    \<and> ''u'' \<in> set (x_running (fst (exec_Run_locked ''u'' 7 ''t'' sample_task [] sample_exec)))
    \<and> x_cancels (fst (exec_Run_locked ''u'' 7 ''t'' sample_task [] sample_exec)) = []
    \<and> x_closed (fst (exec_Run_locked ''u'' 7 ''t'' sample_task [] sample_exec)) = False"
proof -
  have "exec_step sample_exec (fst (exec_Run_locked ''u'' 7 ''t'' sample_task [] sample_exec))"
    by (rule exec_step.run) (simp_all add: NewExecutor_def run_Get_def NewRunStore_def)
  moreover have "run_Create ''u'' 7 ''t'' (NewRunStore ''/d'' 0)
      = \<lparr>rs_heap = [new_run ''u'' 7 ''t''], rs_runs = [(''u'', 0)], rs_byTask = [(''t'', [0])],
         rs_dataDir = ''/d'', rs_maxRunsPerTask = 10\<rparr>"
    by (simp add: run_Create_eq add_run_def NewRunStore_def new_run_def sortRuns_def pruneRuns_def Let_def
        by_task_def gget_def gput_def gmod_def newest_first_def)
  moreover have "run_GetRunning ''t'' (NewRunStore ''/d'' 0) = None"
    by (simp add: run_GetRunning_def NewRunStore_def by_task_def)
  ultimately show ?thesis
    by (auto simp: exec_Run_locked_def NewExecutor_def run_Get_def gget_def gput_def)
qed

lemma executor_one_active_run_witness:
  "\<exists>x. exec_steps sample_exec x \<and> run_Get (x_runs x) ''u'' = Some (new_run ''u'' 7 ''t'') \<and> ''u'' \<in> set (x_running x)"
proof -
  let ?x = "fst (exec_Run_locked ''u'' 7 ''t'' sample_task [] sample_exec)"
  have "active (new_run ''u'' 7 ''t'')" by (simp add: active_def new_run_def)
  then have "''u'' \<in> set (x_running ?x)"
    using executor_one_active_run [OF sample_exec_start, of ?x "''u''"] sample_exec_run by blast
  then show ?thesis using sample_exec_run by blast
qed


lemma sample_exec_cancelled:
  "\<exists>x. exec_steps sample_exec x \<and> (''u'', CDone) \<in> set (x_cancels x)
    \<and> (\<exists>th. gget (x_threads x) ''u'' = Some th \<and> th_pc th = PcMark)"
proof -
  let ?x = "fst (exec_Run_locked ''u'' 7 ''t'' sample_task [] sample_exec)"
  have s: "exec_step y (cancel_step 8 0 y)" if "length (x_cancels y) = 1" for y
    using that by (intro exec_step.cancel_step) simp
  define x1 where "x1 = start_cancel ''u'' ?x"
  define x2 where "x2 = cancel_step 8 0 x1"
  define x3 where "x3 = cancel_step 8 0 x2"
  define x4 where "x4 = cancel_step 8 0 x3"
  have c1: "x_cancels x1 = [(''u'', CStore)]" using sample_exec_run by (simp add: x1_def start_cancel_def)
  then have c2: "x_cancels x2 = [(''u'', CCtx)]" by (simp add: x2_def cancel_step_def)
  then have c3: "x_cancels x3 = [(''u'', CKill)]" by (simp add: x3_def cancel_step_def)
  then have c4: "x_cancels x4 = [(''u'', CDone)]" by (simp add: x4_def cancel_step_def)
  have "exec_step ?x x1" unfolding x1_def using sample_exec_run by (intro exec_step.cancel) simp
  moreover have "exec_step x1 x2" "exec_step x2 x3" "exec_step x3 x4"
    unfolding x4_def x3_def x2_def by (intro s; simp add: c1 c2 [unfolded x2_def] c3 [unfolded x3_def x2_def])+
  ultimately have "exec_steps sample_exec x4" using sample_exec_run by (meson rtranclp.rtrancl_into_rtrancl)
  moreover have "x_threads x4 = x_threads ?x"
    using c1 c2 c3 by (simp add: x4_def x3_def x2_def x1_def cancel_step_def start_cancel_def store_cancel_def)
  moreover have "\<exists>th. gget (x_threads ?x) ''u'' = Some th \<and> th_pc th = PcMark"
    using sample_exec_run
    by (auto simp: exec_Run_locked_def gget_gput NewExecutor_def split: option.splits)
  ultimately show ?thesis using c4 by (intro exI [of _ x4]) simp
qed


lemma exec_steps_stay:
  assumes "exec_steps x y" and "exec_inv x" and "gget (x_rts x) k \<noteq> None"
    and "run_status_of (x_runs x) k \<in> {None, Some RunStatusCancelled}"
  shows "run_status_of (x_runs y) k \<in> {None, Some RunStatusCancelled}"
proof -
  have "exec_inv y \<and> gget (x_rts y) k \<noteq> None \<and> run_status_of (x_runs y) k \<in> {None, Some RunStatusCancelled}"
    using assms
  proof (induction rule: rtranclp_induct)
    case (step y z)
    then have y: "exec_inv y" "gget (x_rts y) k \<noteq> None"
      "run_status_of (x_runs y) k \<in> {None, Some RunStatusCancelled}" by blast+
    then show ?case using exec_step_stays [OF step(2) y(1), of k] exec_inv_step [OF step(2) y(1)]
      by (auto simp: stays_def)
  qed simp
  then show ?thesis by blast
qed

lemma never_starts_steps:
  "exec_steps x y \<Longrightarrow> exec_inv x \<Longrightarrow> never_starts x r \<Longrightarrow> never_starts y r"
proof (induction rule: rtranclp_induct)
  case (step y z)
  then show ?case using never_starts_step exec_inv_steps by blast
qed

text \<open>
  Cancelling wins. A run of this daemon that was cancelled stays cancelled, whatever its
  goroutine still reports, until it is deleted; and if it was cancelled while its goroutine had not
  begun, it never starts a process: the goroutine goes straight to its end, and no process group is
  ever recorded for it.
\<close>
lemma executor_cancel_wins:
  assumes "exec_start x0" and "exec_steps x0 x" and "exec_steps x x'"
    and "run_Get (x_runs x) k = Some r" and "r_Status r = RunStatusCancelled"
    and "gget (x_rts x) k = Some rt"
  shows "(\<forall>r'. run_Get (x_runs x') k = Some r' \<longrightarrow> r_Status r' = RunStatusCancelled)
    \<and> ((\<exists>th. gget (x_threads x) k = Some th \<and> th_pc th = PcMark) \<and> rt_pgid rt = 0 \<longrightarrow>
        (\<forall>th'. gget (x_threads x') k = Some th' \<longrightarrow> th_pc th' \<in> {PcMark, PcSave, PcUnregister})
        \<and> (\<forall>rt'. gget (x_rts x') k = Some rt' \<longrightarrow> rt_pgid rt' = 0))"
proof -
  have inv: "exec_inv x" using exec_inv_reachable [OF assms(1,2)] .
  have c: "run_status_of (x_runs x) k = Some RunStatusCancelled" using assms(4,5) by (simp add: run_status_of_def)
  have "run_status_of (x_runs x') k \<in> {None, Some RunStatusCancelled}"
    using exec_steps_stay [OF assms(3) inv] assms(6) c by simp
  then have "\<forall>r'. run_Get (x_runs x') k = Some r' \<longrightarrow> r_Status r' = RunStatusCancelled"
    by (auto simp: run_status_of_def)
  moreover have "never_starts x' k"
    if "\<exists>th. gget (x_threads x) k = Some th \<and> th_pc th = PcMark" "rt_pgid rt = 0"
  proof -
    have "never_starts x k" using that assms(6) c
      by (auto simp: never_starts_def active_in_def run_status_defs)
    then show ?thesis by (rule never_starts_steps [OF assms(3) inv])
  qed
  ultimately show ?thesis by (auto simp: never_starts_def)
qed

lemma executor_cancel_wins_witness:
  "\<exists>x r. exec_steps sample_exec x \<and> run_Get (x_runs x) ''u'' = Some r \<and> r_Status r = RunStatusCancelled
    \<and> (\<forall>x' r'. exec_steps x x' \<longrightarrow> run_Get (x_runs x') ''u'' = Some r' \<longrightarrow> r_Status r' = RunStatusCancelled)"
proof -
  let ?x = "fst (exec_Run_locked ''u'' 7 ''t'' sample_task [] sample_exec)"
  let ?y = "start_cancel ''u'' ?x"
  let ?z = "cancel_step 8 0 ?y"
  have y: "exec_steps sample_exec ?y" "x_cancels ?y = [(''u'', CStore)]" "x_runs ?y = x_runs ?x" "x_rts ?y = x_rts ?x"
    using sample_exec_run exec_step.cancel [of "''u''" ?x]
    by (auto simp: start_cancel_def intro: rtranclp.rtrancl_into_rtrancl)
  have z: "exec_steps sample_exec ?z"
    using y(1,2) exec_step.cancel_step [of 0 ?y 8] by (auto intro: rtranclp.rtrancl_into_rtrancl)
  have inv: "run_inv (x_runs ?y)"
    using exec_inv_store_inv [OF exec_inv_reachable [OF sample_exec_start y(1)]] .
  have "run_status_of (x_runs ?y) ''u'' = Some RunStatusPending"
    using sample_exec_run by (simp add: y(3) run_status_of_def new_run_def)
  then have "run_status_of (x_runs ?z) ''u'' = Some RunStatusCancelled"
    using store_cancel_status [OF inv, of 8 "''u''" "''u''"] y(2)
    by (simp add: cancel_step_def)
  then obtain r where r: "run_Get (x_runs ?z) ''u'' = Some r" "r_Status r = RunStatusCancelled"
    by (auto simp: run_status_of_def)
  have "gget (x_rts ?x) ''u'' \<noteq> None"
    using sample_exec_run by (auto simp: exec_Run_locked_def gget_gput NewExecutor_def split: option.splits)
  then obtain rt where rt: "gget (x_rts ?z) ''u'' = Some rt"
    using y(2,4) by (auto simp: cancel_step_def store_cancel_def)
  have "r_Status r' = RunStatusCancelled" if "exec_steps ?z x'" "run_Get (x_runs x') ''u'' = Some r'" for x' r'
    using executor_cancel_wins [OF sample_exec_start z that(1) r rt] that(2) by blast
  then show ?thesis using z r by blast
qed

text \<open>
  Shutting down stops everything. Once \<open>Close\<close> has been through its runs, no run is pending or
  running, starting one is refused, and every run whose goroutine is not yet gone has its context
  ended and its process group, if started, killed or about to be by its own goroutine.
\<close>
lemma executor_close:
  assumes "exec_start x0" and "exec_steps x0 x" and "x_closed x"
    and "\<forall>p \<in> set (x_cancels x). snd p = CDone"
  shows "(\<forall>k r. run_Get (x_runs x) k = Some r \<longrightarrow> \<not> active r)
    \<and> fst (exec_Run uuid now taskID path x) = x \<and> (\<exists>e. snd (exec_Run uuid now taskID path x) = Inl e)
    \<and> (\<forall>k \<in> set (x_running x). ctx_of k x \<noteq> CtxOk \<and> (group_dead x k \<or> at_check x k))"
proof -
  have inv: "exec_inv x" using exec_inv_reachable [OF assms(1,2)] .
  then have sub: "set (x_running x) \<subseteq> fst ` set (x_cancels x)" using assms(3) by (simp add: exec_inv_def cancels_ok_def)
  have ok: "cancel_ok x k CDone" if "k \<in> set (x_running x)" for k
    using sub that assms(4) exec_inv_cancel_ok [OF inv] by fastforce
  have "\<not> active_in (x_runs x) k" for k
  proof
    assume a: "active_in (x_runs x) k"
    then have "k \<in> set (x_running x)" using inv by (auto simp: exec_inv_def threads_ok_def)
    then show False using ok [of k] a by (simp add: cancel_ok_def)
  qed
  then have "\<forall>k r. run_Get (x_runs x) k = Some r \<longrightarrow> \<not> active r" by (auto simp: active_in_Get)
  moreover have "\<forall>k \<in> set (x_running x). ctx_of k x \<noteq> CtxOk \<and> (group_dead x k \<or> at_check x k)"
    using ok by (auto simp: cancel_ok_def)
  moreover have "fst (exec_Run uuid now taskID path x) = x \<and> (\<exists>e. snd (exec_Run uuid now taskID path x) = Inl e)"
    using assms(3) by (auto simp: exec_Run_def exec_Run_locked_def split: option.split)
  ultimately show ?thesis by blast
qed

lemma executor_close_witness:
  "\<exists>x. exec_steps sample_exec x \<and> x_closed x \<and> (\<exists>e. snd (exec_Run ''u'' 7 ''t'' [] x) = Inl e)"
proof -
  let ?x = "exec_Close_locked sample_exec"
  have x: "exec_steps sample_exec ?x" by (intro r_into_rtranclp exec_step.close)
  have c: "x_closed ?x" "\<forall>p \<in> set (x_cancels ?x). snd p = CDone"
    by (simp_all add: exec_Close_locked_def NewExecutor_def)
  show ?thesis using executor_close [OF sample_exec_start x c, of "''u''" 7 "''t''" "[]"] x c(1) by blast
qed

text \<open>
  C18: a task's prompt cannot be injected into the shell. For every tool but the one meant to run the
  prompt as a command, the shell gets a script that does not depend on the prompt, holds no shell
  syntax but its reference to the first parameter and the fixed options of the tool, and the prompt
  reaches it unchanged as that parameter; a tool name that does not validate runs \<open>false\<close>.
\<close>
theorem task_prompt_not_injectable:
  assumes "t_Tool t \<noteq> ''shell''"
  shows "c_path (task_buildCommand shell environ t dir) = ''false''
      \<and> c_args (task_buildCommand shell environ t dir) = [] \<and> \<not> ValidateToolName (t_Tool t)
    \<or> (\<exists>options. c_path (task_buildCommand shell environ t dir) = shell
        \<and> c_args (task_buildCommand shell environ t dir)
            = [''-l'', ''-c'', t_Tool t @ options @ '' '' @ firstArg, ''_'', t_Prompt t]
        \<and> options \<in> {[], '' --print'', '' exec --skip-git-repo-check'', '' --yes --message''}
        \<and> set (t_Tool t) \<inter> set '' ;&|<>()*?~#=/$'' = {})"
proof -
  have safe: "set s \<inter> set '' ;&|<>()*?~#=/$'' = {}" if "ValidateToolName s" for s
  proof -
    have "x \<notin> set '' ;&|<>()*?~#=/$''" if "x \<in> set s" for x
      using tool_char_no_shell_syntax [of x] that \<open>ValidateToolName s\<close>
      by (simp add: list_all_iff ValidateToolName_def)
    then show ?thesis by blast
  qed
  have known: "ValidateToolName ''claude''" "ValidateToolName ''codex''" "ValidateToolName ''aider''"
    by (simp_all add: ValidateToolName_def tool_char_def bval_def)
  consider "t_Tool t = ''claude''" | "t_Tool t = ''codex''" | "t_Tool t = ''aider''"
    | "t_Tool t \<notin> {''claude'', ''codex'', ''aider''}" "ValidateToolName (t_Tool t)"
    | "t_Tool t \<notin> {''claude'', ''codex'', ''aider''}" "\<not> ValidateToolName (t_Tool t)" by blast
  then show ?thesis
  proof cases
    case 1
    then show ?thesis using safe [OF known(1)]
      by (intro disjI2 exI [of _ "'' --print''"]) (simp add: task_buildCommand_def)
  next
    case 2
    then show ?thesis using safe [OF known(2)]
      by (intro disjI2 exI [of _ "'' exec --skip-git-repo-check''"]) (simp add: task_buildCommand_def)
  next
    case 3
    then show ?thesis using safe [OF known(3)]
      by (intro disjI2 exI [of _ "'' --yes --message''"]) (simp add: task_buildCommand_def)
  next
    case 4
    then show ?thesis using assms safe [OF 4(2)]
      by (intro disjI2 exI [of _ "[]"]) (simp add: task_buildCommand_def)
  next
    case 5
    then show ?thesis using assms by (simp add: task_buildCommand_def)
  qed
qed

lemma task_prompt_not_injectable_witness:
  "\<exists>options. c_args (task_buildCommand ''/bin/sh'' [] (sample_task\<lparr>t_Prompt := ''$(rm -rf /)''\<rparr>) ''/'')
    = [''-l'', ''-c'', ''claude'' @ options @ '' '' @ firstArg, ''_'', ''$(rm -rf /)'']"
proof -
  let ?t = "sample_task\<lparr>t_Prompt := ''$(rm -rf /)''\<rparr>"
  have t: "t_Tool ?t \<noteq> ''shell''" "t_Tool ?t = ''claude''" "t_Prompt ?t = ''$(rm -rf /)''" by simp_all
  have "ValidateToolName ''claude''" by (simp add: ValidateToolName_def tool_char_def bval_def)
  then show ?thesis
    using task_prompt_not_injectable [OF t(1), of "''/bin/sh''" "[]" "''/''"] unfolding t(2,3) by blast
qed

end
