(* ===== verification/Task_Stores.thy ===== *)
theory Task_Stores
  imports TaskStore RunStore SessionStore
begin

text \<open>
  What the task stores of \<open>internal/task\<close> promise across a restart of the daemon, and two
  inputs on which they do not behave like the session store.
\<close>

section \<open>Saved runs\<close>

definition run_text :: "run \<Rightarrow> bool" where
  "run_text r \<longleftrightarrow> list_all valid_utf8 [r_ID r, r_TaskID r, r_Output r, r_Error r, r_SessionID r]"

lemma json_run_text [simp]: "run_text r \<Longrightarrow> json_run r = r"
  by (simp add: run_text_def json_run_def)

definition all_runs :: "run_store \<Rightarrow> run list" where
  "all_runs s = map (\<lambda>a. rs_heap s ! a) (gvals (rs_runs s))"

lemma all_runs_IDs: "run_inv s \<Longrightarrow> map r_ID (all_runs s) = gkeys (rs_runs s)"
proof -
  assume inv: "run_inv s"
  have "r_ID (rs_heap s ! a) = k" if "(k, a) \<in> set (rs_runs s)" for k a
    using run_inv_runs [OF inv] gget_eq_Some_iff [OF run_inv_gwf(1) [OF inv]] that by blast
  then show ?thesis by (auto simp: all_runs_def gvals_def gkeys_def)
qed

lemma all_runs_find:
  assumes "run_inv s"
  shows "List.find (\<lambda>r. r_ID r = k) (all_runs s) = run_Get s k"
proof (cases "run_Get s k")
  case None
  then have "k \<notin> set (map r_ID (all_runs s))"
    by (simp add: all_runs_IDs [OF assms] gget_None_iff [symmetric] run_Get_def del: set_map)
  then show ?thesis using None by (auto simp: find_None_iff)
next
  case (Some r)
  then obtain a where a: "gget (rs_runs s) k = Some a" "r = rs_heap s ! a" by (auto simp: run_Get_def)
  then have mem: "r \<in> set (all_runs s)"
    using set_gvals_iff [OF run_inv_gwf(1) [OF assms]] by (auto simp: all_runs_def)
  have "r' = r" if "r' \<in> set (all_runs s)" "r_ID r' = k" for r'
  proof -
    obtain j b where b: "gget (rs_runs s) j = Some b" "r' = rs_heap s ! b"
      using \<open>r' \<in> set (all_runs s)\<close> set_gvals_iff [OF run_inv_gwf(1) [OF assms]] by (auto simp: all_runs_def)
    from run_inv_runs [OF assms b(1)] have "r_ID (rs_heap s ! b) = j" by blast
    with b(2) that(2) have "j = k" by (elim subst) (rule refl)
    with b(1) a(1) have "b = a" by simp
    then show ?thesis unfolding a(2) b(2) by (rule arg_cong)
  qed
  with mem show ?thesis unfolding Some using run_Get_ID [OF assms Some] by (intro find_unique)
qed

section \<open>Properties\<close>

text \<open>
  The run history survives a restart. A store loaded from the file that a save wrote answers
  every lookup as the saved store did, except that a run saved as pending or running is now failed;
  so no run is active after a restart and none can block its task. A failed save leaves the file.
\<close>
lemma run_history_survives_restart:
  assumes "run_inv s" and "\<forall>k r. run_Get s k = Some r \<longrightarrow> run_text r"
  shows "(\<exists>s'. run_Load now (fst (run_Save SaveOk s disk)) (NewRunStore dataDir n) = Some (s', None)
      \<and> run_inv s'
      \<and> (\<forall>k. run_Get s' k = map_option (fail_stale now) (run_Get s k))
      \<and> (\<forall>k r. run_Get s' k = Some r \<longrightarrow> \<not> active r))
    \<and> fst (run_Save (SaveFails e) s disk) = disk"
proof -
  let ?new = "NewRunStore dataDir n"
  have text_ok: "run_text r" if "r \<in> set (all_runs s)" for r
    using that set_gvals_iff [OF run_inv_gwf(1) [OF assms(1)]] assms(2) by (fastforce simp: all_runs_def run_Get_def)
  have "map (\<lambda>a. json_run (rs_heap s ! a)) (gvals (rs_runs s)) = map json_run (all_runs s)"
    by (simp add: all_runs_def)
  also have "\<dots> = all_runs s" using text_ok by (intro map_idI) simp
  finally have saved: "fst (run_Save SaveOk s disk) = JSONFile (map Some (all_runs s))"
    by (simp add: run_Save_def write_store_def)
  have dist: "distinct (map r_ID (all_runs s))"
    using run_inv_gwf(1) [OF assms(1)] by (simp add: all_runs_IDs [OF assms(1)] gwf_def gkeys_def)
  have "?new\<lparr>rs_runs := [], rs_byTask := []\<rparr> = ?new" by (simp add: NewRunStore_def)
  then obtain s' where s': "load_runs now (map Some (all_runs s)) (?new\<lparr>rs_runs := [], rs_byTask := []\<rparr>) = Some s'"
    "run_inv s'" "\<forall>k. run_Get s' k = (case List.find (\<lambda>r. r_ID r = k) (all_runs s) of
          Some r \<Rightarrow> Some (fail_stale now r) | None \<Rightarrow> run_Get ?new k)"
    using load_runs_ok [OF run_inv_New [of dataDir n] dist, of now]
    by (auto simp: run_Get_def NewRunStore_def)
  let ?s = "fold sortRuns (gkeys (rs_byTask s')) s'"
  have get: "run_Get ?s k = map_option (fail_stale now) (run_Get s k)" for k
  proof -
    have "run_Get ?new k = None" by (simp add: run_Get_def NewRunStore_def)
    moreover have "run_Get ?s k = (case run_Get s k of Some r \<Rightarrow> Some (fail_stale now r) | None \<Rightarrow> run_Get ?new k)"
      unfolding run_Get_sort_all all_runs_find [OF assms(1), symmetric] using s'(3) by (rule spec)
    ultimately show ?thesis by (cases "run_Get s k") simp_all
  qed
  have "\<not> active r" if "run_Get ?s k = Some r" for k r
    using that by (auto simp: get fail_stale_inactive)
  moreover have "run_Load now (fst (run_Save SaveOk s disk)) ?new = Some (?s, None)"
    by (simp add: saved run_Load_def s'(1))
  ultimately show ?thesis using run_inv_sort_all [OF s'(2)] get by (auto simp: run_Save_def write_store_def)
qed

lemma run_history_survives_restart_witness:
  "\<exists>s s' r. run_Get s ''u'' = Some r \<and> active r
    \<and> run_Load 9 (fst (run_Save SaveOk s NoFile)) (NewRunStore ''/d'' 0) = Some (s', None)
    \<and> run_Get s' ''u'' = Some (fail_stale 9 r)"
proof -
  let ?r = "new_run ''u'' 7 ''t''"
  let ?s = "add_run ?r (NewRunStore ''/d'' 0)"
  have inv0: "run_inv (NewRunStore ''/d'' 0)" "run_Get (NewRunStore ''/d'' 0) k = None" for k
    by (simp_all add: run_inv_New) (simp add: run_Get_def NewRunStore_def)
  have inv: "run_inv ?s" by (rule run_inv_add) (simp_all add: inv0)
  have get: "run_Get ?s k = (if k = ''u'' then Some ?r else None)" for k
    by (simp add: run_Get_add inv0) (simp add: new_run_def)
  have "run_text ?r" by (simp add: run_text_def new_run_def valid_utf8_ascii bval_def del: valid_utf8.simps)
  then have "\<forall>k r. run_Get ?s k = Some r \<longrightarrow> run_text r" by (simp add: get)
  from run_history_survives_restart [OF inv this, of 9 NoFile "''/d''" 0]
  obtain s' where "run_Load 9 (fst (run_Save SaveOk ?s NoFile)) (NewRunStore ''/d'' 0) = Some (s', None)"
    "run_Get s' ''u'' = map_option (fail_stale 9) (run_Get ?s ''u'')" by blast
  moreover have "active ?r" by (simp add: active_def new_run_def)
  ultimately show ?thesis using get by (intro exI [of _ ?s] exI [of _ s'] exI [of _ ?r]) simp
qed

text \<open>
  The task definitions survive a restart: if they are valid text, a store loaded from the file
  that a save wrote answers every lookup as the saved store did; an update changes exactly the
  fields its patch names, of that task only, and keeps the task's id.
\<close>
lemma task_store_save_load:
  assumes "task_wf s" and "\<forall>t \<in> set (gvals (ts_tasks s)). task_text t"
  shows "(\<exists>s'. task_Load (fst (task_Save SaveOk s disk)) (NewTaskStore dataDir) = Some (s', None)
      \<and> (\<forall>k. task_Get s' k = task_Get s k))
    \<and> (\<forall>k. task_Get (fst (task_Update now k p s)) k = map_option (apply_patch now p) (task_Get s k))
    \<and> (\<forall>k k'. k' = k \<or> task_Get (fst (task_Update now k p s)) k' = task_Get s k')
    \<and> (\<forall>t. t_ID (apply_patch now p t) = t_ID t)"
proof -
  let ?ts = "gvals (ts_tasks s)"
  have "map json_task ?ts = ?ts" using assms(2) by (intro map_idI) simp
  then have "task_Load (fst (task_Save SaveOk s disk)) (NewTaskStore dataDir) =
      map_option (\<lambda>m. ((NewTaskStore dataDir)\<lparr>ts_tasks := m\<rparr>, None)) (load_tasks (map Some ?ts) [])"
    by (simp add: task_Save_def write_store_def task_Load_def)
  also have "load_tasks (map Some ?ts) [] = Some (ts_tasks (fold task_put ?ts (NewTaskStore dataDir)))"
    using load_tasks_puts [of ?ts "NewTaskStore dataDir"] by (simp add: NewTaskStore_def)
  finally obtain s' where s': "task_Load (fst (task_Save SaveOk s disk)) (NewTaskStore dataDir) = Some (s', None)"
    "ts_tasks s' = ts_tasks (fold task_put ?ts (NewTaskStore dataDir))" by simp
  have "task_Get s' k = task_Get s k" for k
    using task_ks.rebuild [OF assms(1) task_ks.entries_distinct [OF assms(1)] refl, of dataDir k]
    by (simp add: task_Get_def s'(2))
  moreover have "t_ID (apply_patch now p t) = t_ID t" for t by (simp add: apply_patch_def)
  ultimately show ?thesis using s'(1) by (auto simp: task_Get_Update)
qed

lemma task_store_save_load_witness:
  "\<exists>s s' t. task_Get s ''a'' = Some t
    \<and> task_Load (fst (task_Save SaveOk s NoFile)) (NewTaskStore ''/d'') = Some (s', None)
    \<and> task_Get s' ''a'' = Some t"
proof -
  let ?t = "\<lparr>t_ID = ''a'', t_Name = ''n'', t_Description = [], t_Tool = ''claude'', t_Scope = 2,
     t_ProjectID = [], t_Prompt = ''hi'', t_Interactive = False, t_TimeoutSeconds = 0,
     t_CreatedAt = 1, t_UpdatedAt = 1\<rparr>"
  let ?s = "task_put ?t (NewTaskStore ''/d'')"
  have wf: "task_wf ?s" by (intro task_ks.wf_put task_ks.wf_empty)
  have get: "task_Get ?s ''a'' = Some ?t" by (simp add: task_ks.lookup_put task_ks.wf_empty)
  have "\<forall>t \<in> set (gvals (ts_tasks ?s)). task_text t"
    by (simp add: task_put_def NewTaskStore_def gput_def gvals_def task_text_def valid_utf8_ascii bval_def
        del: valid_utf8.simps)
  from task_store_save_load [OF wf this, of NoFile "''/d''"]
  obtain s' where "task_Load (fst (task_Save SaveOk ?s NoFile)) (NewTaskStore ''/d'') = Some (s', None)"
    "task_Get s' ''a'' = task_Get ?s ''a''" by blast
  with get show ?thesis by (intro exI [of _ ?s] exI [of _ s'] exI [of _ ?t]) simp
qed

text \<open>
  C19: a \<open>null\<close> in a task file crashes the daemon at startup: loading the tasks or the runs panics
  exactly when the file's list holds a \<open>null\<close>, while the session store skips it.
\<close>
theorem null_entry_panics_task_stores:
  "(task_Load (JSONFile ts) st = None \<longleftrightarrow> None \<in> set ts)
    \<and> (run_Load now (JSONFile rs) rst = None \<longleftrightarrow> None \<in> set rs)
    \<and> ss_records (fst (store_Load (JSONFile (None # recs)) sst)) = ss_records (fst (store_Load (JSONFile recs) sst))"
proof -
  have "load_runs now rs q = None \<longleftrightarrow> None \<in> set rs" for q
    by (induction now rs q rule: load_runs.induct) auto
  then show ?thesis
    by (simp add: task_Load_def run_Load_def store_Load_def load_tasks_None_iff)
qed

text \<open>
  A run can be lost when the clock goes back. With one kept run whose start lies after the
  present time, a new run is created, sorted behind it and pruned at once: \<open>Create\<close> returns it, but
  the store no longer knows it, so it is never marked running and never executed.
\<close>
lemma run_lost_when_clock_goes_back:
  "\<exists>s. run_inv s \<and> run_GetRunning ''t'' s = None
     \<and> run_Get (run_Create ''u'' 5 ''t'' s) ''u'' = None
     \<and> \<not> snd (run_MarkRunning ''u'' (run_Create ''u'' 5 ''t'' s))"
proof -
  let ?old = "(new_run ''o'' 9 ''t'')\<lparr>r_Status := RunStatusCompleted\<rparr>"
  let ?s = "add_run ?old (NewRunStore ''/d'' 1)"
  have old: "run_inv ?s"
    by (rule run_inv_add) (simp_all add: run_inv_New, simp add: run_Get_def NewRunStore_def)
  have s: "?s = \<lparr>rs_heap = [?old], rs_runs = [(''o'', 0)], rs_byTask = [(''t'', [0])],
      rs_dataDir = ''/d'', rs_maxRunsPerTask = 1\<rparr>"
    by (simp add: add_run_def NewRunStore_def new_run_def by_task_def gget_def gput_def)
  have "run_GetRunning ''t'' ?s = None"
    unfolding s by (simp add: run_GetRunning_def by_task_def gget_def new_run_def run_status_defs)
  moreover have "run_Get (run_Create ''u'' 5 ''t'' ?s) ''u'' = None"
    unfolding s by (simp add: run_Create_eq add_run_def sortRuns_def pruneRuns_def run_Get_def Let_def
        by_task_def gget_def gput_def gmod_def gdel_def newest_first_def new_run_def)
  ultimately show ?thesis using old by (intro exI [of _ ?s]) (simp add: run_MarkRunning_def)
qed

end
