(* ===== verification/Fsutil.thy ===== *)
theory Fsutil
  imports Paths
begin

text \<open>
  Atomic file replacement, \<open>internal/fsutil/atomic.go\<close>: the directory that holds the file, the
  steps of \<open>WriteFileAtomic\<close> between which the process may be killed or the machine lose power,
  and the sweep of the temporary files such a death leaves. An inode has the contents a reader sees
  and the contents on the disk; only \<open>Sync\<close> makes them equal. What the system calls answer is the
  record \<open>wa_io\<close>.
\<close>

record inode =
  f_data :: bytes
  f_disk :: bytes
  f_perm :: nat

datatype dentry = DirEnt | FileEnt inode

type_synonym dir_fs = "(string, dentry) gomap"

record wa_io =
  wa_create :: "string option"
  wa_rand :: "string list"
  wa_write :: "(nat \<times> string) option"
  wa_flushed :: bytes
  wa_sync :: "string option"
  wa_chmod :: "string option"
  wa_close :: "string option"
  wa_rename :: "string option"
  wa_remove :: bool

section \<open>Writing\<close>

definition tmpSuffix :: string where "tmpSuffix = ''.tmp''"

text \<open>\<open>os.CreateTemp(dir, base+".*.tmp")\<close> tries random names until one is free.\<close>

fun fresh_temp :: "string \<Rightarrow> string list \<Rightarrow> dir_fs \<Rightarrow> string option" where
  "fresh_temp base [] fs = None"
| "fresh_temp base (r # rs) fs =
     (let name = base @ ''.'' @ r @ tmpSuffix in
      if gget fs name = None then Some name else fresh_temp base rs fs)"

definition temp_path :: "string \<Rightarrow> string \<Rightarrow> string" where
  "temp_path dir name = (if has_suffix dir ''/'' then dir @ name else dir @ ''/'' @ name)"

datatype wa_pc = WCreate | WWrite string | WSync string | WChmod string | WClose string
  | WRename string | WCleanup string string | WDone "string option"

definition set_file :: "string \<Rightarrow> (inode \<Rightarrow> inode) \<Rightarrow> dir_fs \<Rightarrow> dir_fs" where
  "set_file name f fs = gmod name (\<lambda>d. case d of DirEnt \<Rightarrow> DirEnt | FileEnt i \<Rightarrow> FileEnt (f i)) fs"

definition failed :: "string option \<Rightarrow> string \<Rightarrow> wa_pc \<Rightarrow> string \<Rightarrow> string \<Rightarrow> wa_pc" where
  "failed r tmp next_pc verb what =
     (case r of None \<Rightarrow> next_pc | Some e \<Rightarrow> WCleanup tmp (verb @ what @ '': '' @ e))"

definition wa_step ::
  "wa_io \<Rightarrow> string \<Rightarrow> bytes \<Rightarrow> nat \<Rightarrow> wa_pc \<times> dir_fs \<Rightarrow> wa_pc \<times> dir_fs" where
  "wa_step io path data perm st =
     (let (pc, fs) = st; base = base_name path; tp = temp_path (dir_name path) in
      case pc of
        WCreate \<Rightarrow>
          (case wa_create io of
             Some e \<Rightarrow> (WDone (Some (''create temp file for '' @ path @ '': '' @ e)), fs)
           | None \<Rightarrow>
               (case fresh_temp base (wa_rand io) fs of
                  None \<Rightarrow> (WDone (Some (''create temp file for '' @ path @ '': file exists'')), fs)
                | Some tmp \<Rightarrow>
                    (WWrite tmp, gput tmp (FileEnt \<lparr>f_data = [], f_disk = [], f_perm = 0x180\<rparr>) fs)))
      | WWrite tmp \<Rightarrow>
          (failed (map_option snd (wa_write io)) tmp (WSync tmp) ''write '' (tp tmp),
           set_file tmp (\<lambda>i. i\<lparr>f_data := (case wa_write io of None \<Rightarrow> data | Some (n, _) \<Rightarrow> take n data),
                               f_disk := wa_flushed io\<rparr>) fs)
      | WSync tmp \<Rightarrow>
          (failed (wa_sync io) tmp (WChmod tmp) ''sync '' (tp tmp),
           if wa_sync io = None then set_file tmp (\<lambda>i. i\<lparr>f_disk := f_data i\<rparr>) fs else fs)
      | WChmod tmp \<Rightarrow>
          (failed (wa_chmod io) tmp (WClose tmp) ''chmod '' (tp tmp),
           if wa_chmod io = None then set_file tmp (\<lambda>i. i\<lparr>f_perm := perm\<rparr>) fs else fs)
      | WClose tmp \<Rightarrow> (failed (wa_close io) tmp (WRename tmp) ''close '' (tp tmp), fs)
      | WRename tmp \<Rightarrow>
          (let r = (case gget fs base of Some DirEnt \<Rightarrow> Some ''file exists'' | _ \<Rightarrow> wa_rename io) in
           (failed r tmp (WDone None) ''rename '' (tp tmp @ '' -> '' @ path),
            case r of
              Some _ \<Rightarrow> fs
            | None \<Rightarrow>
                (case gget fs tmp of None \<Rightarrow> fs | Some d \<Rightarrow> gput base d (gdel tmp fs))))
      | WCleanup tmp e \<Rightarrow> (WDone (Some e), if wa_remove io then gdel tmp fs else fs)
      | WDone r \<Rightarrow> (WDone r, fs))"

text \<open>The process has made \<open>n\<close> steps when it dies, or when we look; seven steps are enough.\<close>

definition wa_run :: "wa_io \<Rightarrow> string \<Rightarrow> bytes \<Rightarrow> nat \<Rightarrow> nat \<Rightarrow> dir_fs \<Rightarrow> wa_pc \<times> dir_fs" where
  "wa_run io path data perm n fs = (wa_step io path data perm ^^ n) (WCreate, fs)"

definition WriteFileAtomic ::
  "wa_io \<Rightarrow> string \<Rightarrow> bytes \<Rightarrow> nat \<Rightarrow> dir_fs \<Rightarrow> dir_fs \<times> string option" where
  "WriteFileAtomic io path data perm fs =
     (case wa_run io path data perm 7 fs of (WDone r, fs') \<Rightarrow> (fs', r) | (_, fs') \<Rightarrow> (fs', None))"

text \<open>Losing power: what was in memory only is gone.\<close>

fun durable :: "dentry \<Rightarrow> dentry" where
  "durable DirEnt = DirEnt"
| "durable (FileEnt i) = FileEnt (i\<lparr>f_data := f_disk i\<rparr>)"

definition power_loss :: "dir_fs \<Rightarrow> dir_fs" where
  "power_loss fs = map (\<lambda>(k, d). (k, durable d)) fs"

section \<open>Sweeping\<close>

definition stale_name :: "string \<Rightarrow> string \<Rightarrow> bool" where
  "stale_name base name \<longleftrightarrow>
     has_suffix name tmpSuffix \<and> (name = base @ tmpSuffix \<or> has_prefix name (base @ ''.''))"

definition StaleTemps :: "bool \<Rightarrow> string \<Rightarrow> dir_fs \<Rightarrow> string list" where
  "StaleTemps readable path fs =
     (if readable
      then map fst (filter (\<lambda>(name, d). d \<noteq> DirEnt \<and> stale_name (base_name path) name) fs) else [])"

fun remove_names :: "(string \<Rightarrow> bool) \<Rightarrow> string list \<Rightarrow> dir_fs \<Rightarrow> dir_fs \<times> string list" where
  "remove_names rm [] fs = (fs, [])"
| "remove_names rm (n # ns) fs =
     (let (fs', removed) = remove_names rm ns (if rm n then gdel n fs else fs)
      in (fs', if rm n then n # removed else removed))"

definition RemoveStaleTemps :: "bool \<Rightarrow> (string \<Rightarrow> bool) \<Rightarrow> string \<Rightarrow> dir_fs \<Rightarrow> dir_fs \<times> string list" where
  "RemoveStaleTemps readable rm path fs = remove_names rm (StaleTemps readable path fs) fs"

section \<open>The states a write passes through\<close>

lemma fresh_temp_Some:
  "fresh_temp base rs fs = Some name \<Longrightarrow> gget fs name = None \<and> stale_name base name"
proof (induction base rs fs rule: fresh_temp.induct)
  case (2 base r rs fs)
  then show ?case
    by (auto simp: Let_def stale_name_def has_suffix_iff has_prefix_iff split: if_splits)
qed simp

lemma stale_name_base: "\<not> stale_name base base"
  by (auto simp: stale_name_def has_prefix_iff tmpSuffix_def dest: arg_cong [of _ _ length])

lemma gget_set_file:
  "gget (set_file name f fs) k =
    (if k = name then map_option (\<lambda>d. case d of DirEnt \<Rightarrow> DirEnt | FileEnt i \<Rightarrow> FileEnt (f i)) (gget fs k)
     else gget fs k)"
  by (simp add: set_file_def gget_gmod)

lemma gget_power_loss: "gget (power_loss fs) k = map_option durable (gget fs k)"
  by (induction fs) (auto simp: power_loss_def gget_def)

text \<open>
  \<open>wa_inv\<close> says what the directory holds at each point: the file itself as before until the
  rename, and the temporary file in the state its point requires.
\<close>

definition only_temp :: "string \<Rightarrow> string \<Rightarrow> dir_fs \<Rightarrow> dir_fs \<Rightarrow> (inode \<Rightarrow> bool) \<Rightarrow> bool" where
  "only_temp base tmp fs0 fs P \<longleftrightarrow>
     gget fs0 tmp = None \<and> stale_name base tmp
     \<and> (\<exists>i. gget fs tmp = Some (FileEnt i) \<and> P i) \<and> (\<forall>k. k \<noteq> tmp \<longrightarrow> gget fs k = gget fs0 k)"

definition replaced :: "string \<Rightarrow> bytes \<Rightarrow> nat \<Rightarrow> dir_fs \<Rightarrow> dir_fs \<Rightarrow> bool" where
  "replaced base data perm fs0 fs \<longleftrightarrow>
     gget fs base = Some (FileEnt \<lparr>f_data = data, f_disk = data, f_perm = perm\<rparr>)
     \<and> (\<forall>k. k \<noteq> base \<longrightarrow> gget fs k = gget fs0 k)"

definition wa_inv :: "wa_io \<Rightarrow> string \<Rightarrow> bytes \<Rightarrow> nat \<Rightarrow> dir_fs \<Rightarrow> wa_pc \<times> dir_fs \<Rightarrow> bool" where
  "wa_inv io base data perm fs0 st =
     (case st of
        (WCreate, fs) \<Rightarrow> fs = fs0
      | (WWrite tmp, fs) \<Rightarrow> only_temp base tmp fs0 fs (\<lambda>i. True)
      | (WSync tmp, fs) \<Rightarrow> only_temp base tmp fs0 fs (\<lambda>i. f_data i = data)
      | (WChmod tmp, fs) \<Rightarrow> only_temp base tmp fs0 fs (\<lambda>i. f_data i = data \<and> f_disk i = data)
      | (WClose tmp, fs) \<Rightarrow>
          only_temp base tmp fs0 fs (\<lambda>i. f_data i = data \<and> f_disk i = data \<and> f_perm i = perm)
      | (WRename tmp, fs) \<Rightarrow>
          only_temp base tmp fs0 fs (\<lambda>i. f_data i = data \<and> f_disk i = data \<and> f_perm i = perm)
      | (WCleanup tmp e, fs) \<Rightarrow> only_temp base tmp fs0 fs (\<lambda>i. True)
      | (WDone None, fs) \<Rightarrow> replaced base data perm fs0 fs
      | (WDone (Some e), fs) \<Rightarrow>
          (\<forall>k. gget fs k = gget fs0 k)
          \<or> \<not> wa_remove io \<and> (\<exists>tmp. only_temp base tmp fs0 fs (\<lambda>i. True)))"

lemma only_temp_set:
  assumes "only_temp base tmp fs0 fs P" and "\<And>i. P i \<Longrightarrow> Q (f i)"
  shows "only_temp base tmp fs0 (set_file tmp f fs) Q"
  using assms by (auto simp: only_temp_def gget_set_file)

lemma only_temp_mono:
  "only_temp base tmp fs0 fs P \<Longrightarrow> (\<And>i. P i \<Longrightarrow> Q i) \<Longrightarrow> only_temp base tmp fs0 fs Q"
  by (auto simp: only_temp_def)

lemma only_temp_new:
  "fresh_temp base rs fs = Some tmp \<Longrightarrow> only_temp base tmp fs (gput tmp (FileEnt i) fs) (\<lambda>i. True)"
  using fresh_temp_Some [of base rs fs tmp] by (simp add: only_temp_def gget_gput)

lemma only_temp_removed:
  "only_temp base tmp fs0 fs P \<Longrightarrow> gget (gdel tmp fs) k = gget fs0 k"
  by (auto simp: only_temp_def gget_gdel)

lemma only_temp_renamed:
  assumes "only_temp base tmp fs0 fs (\<lambda>i. f_data i = data \<and> f_disk i = data \<and> f_perm i = perm)"
  shows "\<exists>d. gget fs tmp = Some d \<and> replaced base data perm fs0 (gput base d (gdel tmp fs))"
  using assms by (auto simp: only_temp_def replaced_def gget_gput gget_gdel)

lemma wa_inv_step:
  assumes inv: "wa_inv io (base_name path) data perm fs0 st"
  shows "wa_inv io (base_name path) data perm fs0 (wa_step io path data perm st)"
proof -
  obtain pc fs where st: "st = (pc, fs)" by (cases st)
  show ?thesis
  proof (cases pc)
    case WCreate
    with inv st have "fs = fs0" by (simp add: wa_inv_def)
    with st WCreate show ?thesis
      using only_temp_new by (auto simp: wa_step_def wa_inv_def Let_def split: option.split)
  next
    case (WWrite tmp)
    with inv st have "only_temp (base_name path) tmp fs0 fs (\<lambda>i. True)" by (simp add: wa_inv_def)
    then have "only_temp (base_name path) tmp fs0 (set_file tmp f fs) P" if "\<And>i. P (f i)" for f P
      using that by (rule only_temp_set)
    with st WWrite show ?thesis
      by (cases "wa_write io") (auto simp: wa_step_def wa_inv_def Let_def failed_def)
  next
    case (WSync tmp)
    with inv st have t: "only_temp (base_name path) tmp fs0 fs (\<lambda>i. f_data i = data)" by (simp add: wa_inv_def)
    with st WSync show ?thesis
      using only_temp_set [OF t, of _ "\<lambda>i. i\<lparr>f_disk := f_data i\<rparr>"] only_temp_mono [OF t]
      by (cases "wa_sync io") (auto simp: wa_step_def wa_inv_def Let_def failed_def)
  next
    case (WChmod tmp)
    with inv st have t: "only_temp (base_name path) tmp fs0 fs (\<lambda>i. f_data i = data \<and> f_disk i = data)"
      by (simp add: wa_inv_def)
    with st WChmod show ?thesis
      using only_temp_set [OF t, of _ "\<lambda>i. i\<lparr>f_perm := perm\<rparr>"] only_temp_mono [OF t]
      by (cases "wa_chmod io") (auto simp: wa_step_def wa_inv_def Let_def failed_def)
  next
    case (WClose tmp)
    with inv st show ?thesis
      by (cases "wa_close io") (auto simp: wa_step_def wa_inv_def Let_def failed_def elim: only_temp_mono)
  next
    case (WRename tmp)
    with inv st have t: "only_temp (base_name path) tmp fs0 fs
        (\<lambda>i. f_data i = data \<and> f_disk i = data \<and> f_perm i = perm)" by (simp add: wa_inv_def)
    let ?r = "case gget fs (base_name path) of Some DirEnt \<Rightarrow> Some ''file exists'' | _ \<Rightarrow> wa_rename io"
    obtain d where d: "gget fs tmp = Some d"
      "replaced (base_name path) data perm fs0 (gput (base_name path) d (gdel tmp fs))"
      using only_temp_renamed [OF t] by blast
    with st WRename show ?thesis
      using only_temp_mono [OF t] by (cases ?r) (simp_all add: wa_step_def wa_inv_def Let_def failed_def)
  next
    case (WCleanup tmp e)
    with inv st have t: "only_temp (base_name path) tmp fs0 fs (\<lambda>i. True)" by (simp add: wa_inv_def)
    with st WCleanup show ?thesis
      using only_temp_removed [OF t] by (auto simp: wa_step_def wa_inv_def Let_def)
  next
    case (WDone r)
    with inv st show ?thesis by (simp add: wa_step_def Let_def)
  qed
qed

lemma wa_inv_run: "wa_inv io (base_name path) data perm fs (wa_run io path data perm n fs)"
  by (induction n) (simp_all add: wa_run_def wa_inv_def [of _ _ _ _ _ "(WCreate, fs)"] wa_inv_step)

text \<open>Every step but the last moves on, so seven steps reach the end.\<close>

fun wa_rank :: "wa_pc \<Rightarrow> nat" where
  "wa_rank WCreate = 7"
| "wa_rank (WWrite t) = 6"
| "wa_rank (WSync t) = 5"
| "wa_rank (WChmod t) = 4"
| "wa_rank (WClose t) = 3"
| "wa_rank (WRename t) = 2"
| "wa_rank (WCleanup t e) = 1"
| "wa_rank (WDone r) = 0"

lemma wa_rank_step: "wa_rank (fst (wa_step io path data perm (pc, fs))) \<le> wa_rank pc - 1"
  by (cases pc) (auto simp: wa_step_def Let_def failed_def split: option.split dentry.split)

lemma wa_rank_run: "wa_rank (fst (wa_run io path data perm n fs)) \<le> 7 - n"
proof (induction n)
  case (Suc n)
  obtain pc fs' where "wa_run io path data perm n fs = (pc, fs')" by fastforce
  with Suc wa_rank_step [of io path data perm pc fs'] show ?case by (simp add: wa_run_def)
qed (simp add: wa_run_def)

lemma wa_run_done: "\<exists>r fs'. wa_run io path data perm 7 fs = (WDone r, fs')"
proof -
  obtain pc fs' where run: "wa_run io path data perm 7 fs = (pc, fs')" by fastforce
  with wa_rank_run [of io path data perm 7 fs] have "wa_rank pc = 0" by simp
  with run show ?thesis by (cases pc) auto
qed

section \<open>The sweep\<close>

lemma gget_remove_names:
  "gget (fst (remove_names rm ns fs)) k = (if k \<in> set ns \<and> rm k then None else gget fs k)"
  by (induction rm ns fs rule: remove_names.induct) (auto simp: Let_def gget_gdel split: prod.split)

lemma gget_sweep:
  assumes "gwf fs"
  shows "gget (fst (RemoveStaleTemps True (\<lambda>n. True) path fs)) k =
    (case gget fs k of
       Some (FileEnt i) \<Rightarrow> if stale_name (base_name path) k then None else Some (FileEnt i)
     | d \<Rightarrow> d)"
proof -
  have "k \<in> set (StaleTemps True path fs) \<longleftrightarrow>
      (\<exists>i. gget fs k = Some (FileEnt i)) \<and> stale_name (base_name path) k"
  proof -
    have "k \<in> set (StaleTemps True path fs) \<longleftrightarrow> (\<exists>d. (k, d) \<in> set fs \<and> d \<noteq> DirEnt \<and> stale_name (base_name path) k)"
      by (force simp: StaleTemps_def)
    also have "\<dots> \<longleftrightarrow> (\<exists>d. gget fs k = Some d \<and> d \<noteq> DirEnt \<and> stale_name (base_name path) k)"
      by (simp add: gget_eq_Some_iff [OF assms])
    also have "\<dots> \<longleftrightarrow> (\<exists>i. gget fs k = Some (FileEnt i)) \<and> stale_name (base_name path) k"
      by (metis dentry.exhaust dentry.distinct(1))
    finally show ?thesis .
  qed
  then show ?thesis
    by (auto simp: RemoveStaleTemps_def gget_remove_names split: option.splits dentry.splits)
qed

section \<open>What a write guarantees\<close>

definition contents :: "dir_fs \<Rightarrow> string \<Rightarrow> bytes option" where
  "contents fs name = (case gget fs name of Some (FileEnt i) \<Rightarrow> Some (f_data i) | _ \<Rightarrow> None)"

definition sweep :: "string \<Rightarrow> dir_fs \<Rightarrow> dir_fs" where
  "sweep path fs = fst (RemoveStaleTemps True (\<lambda>n. True) path fs)"

lemma gwf_wa_step: "gwf (snd st) \<Longrightarrow> gwf (snd (wa_step io path data perm st))"
  by (cases st; cases "fst st")
     (auto simp: wa_step_def Let_def set_file_def split: option.split dentry.split)

lemma gwf_wa_run: "gwf fs \<Longrightarrow> gwf (snd (wa_run io path data perm n fs))"
  by (induction n) (simp_all add: wa_run_def gwf_wa_step)

text \<open>Whatever the point: the file is the old or the new one, all else but a temporary is as before.\<close>

lemma wa_inv_cases:
  assumes "wa_inv io base data perm fs0 (pc, fs)"
  shows "(gget fs base = gget fs0 base
      \<or> gget fs base = Some (FileEnt \<lparr>f_data = data, f_disk = data, f_perm = perm\<rparr>))
    \<and> (\<forall>k. k = base \<or> gget fs k = gget fs0 k
         \<or> stale_name base k \<and> gget fs0 k = None \<and> (\<exists>i. gget fs k = Some (FileEnt i)))"
proof -
  have "(gget fs base = gget fs0 base)
      \<and> (\<forall>k. k = base \<or> gget fs k = gget fs0 k
         \<or> stale_name base k \<and> gget fs0 k = None \<and> (\<exists>i. gget fs k = Some (FileEnt i)))"
    if "only_temp base tmp fs0 fs P" for tmp P
    using that stale_name_base [of base] unfolding only_temp_def by metis
  then show ?thesis
    using assms by (cases pc) (auto simp: wa_inv_def replaced_def split: option.splits)
qed

lemma gget_sweep_after:
  assumes "gwf fs0" and "gwf fs" and "wa_inv io (base_name path) data perm fs0 (pc, fs)"
  shows "gget (sweep path fs) k =
    (if k = base_name path then gget fs k else gget (sweep path fs0) k)"
proof (cases "k = base_name path")
  case True
  then show ?thesis
    using stale_name_base [of "base_name path"]
    by (simp add: sweep_def gget_sweep [OF assms(2)] split: option.split dentry.split)
next
  case False
  with wa_inv_cases [OF assms(3)] have "gget fs k = gget fs0 k
    \<or> stale_name (base_name path) k \<and> gget fs0 k = None \<and> (\<exists>i. gget fs k = Some (FileEnt i))" by blast
  with False show ?thesis
    by (auto simp: sweep_def gget_sweep [OF assms(1)] gget_sweep [OF assms(2)])
qed

text \<open>
  C24: replacing a file is atomic. Wherever the process is killed, and if the machine loses power
  there, the file has its complete old or its complete new contents, no other file has changed, and
  the sweep at the next start leaves no trace of the attempt. Not interrupted, the write ends: it
  reports success exactly when the file has the new contents and permissions on disk, and on any
  error the directory is as it was, if removing the temporary file works.
\<close>
theorem write_file_atomic:
  assumes "gwf fs"
    and "\<forall>i. gget fs (base_name path) = Some (FileEnt i) \<longrightarrow> f_disk i = f_data i"
  shows "(\<forall>n. let fs' = snd (wa_run io path data perm n fs) in
        contents fs' (base_name path) \<in> {contents fs (base_name path), Some data}
      \<and> contents (power_loss fs') (base_name path) \<in> {contents fs (base_name path), Some data}
      \<and> (\<forall>k. k \<noteq> base_name path \<longrightarrow> gget (sweep path fs') k = gget (sweep path fs) k)
      \<and> gget (sweep path fs') (base_name path) = gget fs' (base_name path))
    \<and> (case WriteFileAtomic io path data perm fs of
         (fs', None) \<Rightarrow>
           gget fs' (base_name path) = Some (FileEnt \<lparr>f_data = data, f_disk = data, f_perm = perm\<rparr>)
       | (fs', Some e) \<Rightarrow>
           contents fs' (base_name path) = contents fs (base_name path)
           \<and> (wa_remove io \<longrightarrow> (\<forall>k. gget fs' k = gget fs k)))"
proof (intro conjI allI)
  fix n
  obtain pc fs' where run: "wa_run io path data perm n fs = (pc, fs')" by fastforce
  have inv: "wa_inv io (base_name path) data perm fs (pc, fs')"
    using wa_inv_run [of io path data perm fs n] by (simp add: run)
  have wf: "gwf fs'" using gwf_wa_run [OF assms(1), of io path data perm n] by (simp add: run)
  note cs = wa_inv_cases [OF inv, THEN conjunct1]
  have "contents fs' (base_name path) \<in> {contents fs (base_name path), Some data}"
    using cs by (auto simp: contents_def)
  moreover have "contents (power_loss fs') (base_name path) \<in> {contents fs (base_name path), Some data}"
    using cs assms(2) by (auto simp: contents_def gget_power_loss split: option.split dentry.split)
  ultimately show "let fs' = snd (wa_run io path data perm n fs) in
        contents fs' (base_name path) \<in> {contents fs (base_name path), Some data}
      \<and> contents (power_loss fs') (base_name path) \<in> {contents fs (base_name path), Some data}
      \<and> (\<forall>k. k \<noteq> base_name path \<longrightarrow> gget (sweep path fs') k = gget (sweep path fs) k)
      \<and> gget (sweep path fs') (base_name path) = gget fs' (base_name path)"
    using gget_sweep_after [OF assms(1) wf inv] by (simp add: run Let_def)
next
  obtain r fs' where run: "wa_run io path data perm 7 fs = (WDone r, fs')" using wa_run_done by blast
  have inv: "wa_inv io (base_name path) data perm fs (WDone r, fs')"
    using wa_inv_run [of io path data perm fs 7] by (simp add: run)
  have "gget fs' (base_name path) = gget fs (base_name path)" if "r = Some e" for e
    using inv that stale_name_base [of "base_name path"] unfolding wa_inv_def only_temp_def by simp metis
  then show "case WriteFileAtomic io path data perm fs of
         (fs', None) \<Rightarrow>
           gget fs' (base_name path) = Some (FileEnt \<lparr>f_data = data, f_disk = data, f_perm = perm\<rparr>)
       | (fs', Some e) \<Rightarrow>
           contents fs' (base_name path) = contents fs (base_name path)
           \<and> (wa_remove io \<longrightarrow> (\<forall>k. gget fs' k = gget fs k))"
    using inv by (auto simp: WriteFileAtomic_def run contents_def wa_inv_def replaced_def split: option.split)
qed

text \<open>A power loss right after the rename, over an older file, beside a temporary of an older crash.\<close>

lemma write_file_atomic_witness:
  "\<exists>io fs. contents fs ''a.json'' = Some ''old'' \<and> contents fs ''a.json.7.tmp'' = Some ''x''
    \<and> contents (power_loss (snd (wa_run io ''/d/a.json'' ''new'' 384 6 fs))) ''a.json'' = Some ''new''
    \<and> contents (snd (wa_run io ''/d/a.json'' ''new'' 384 5 fs)) ''a.json'' = Some ''old''
    \<and> gget (sweep ''/d/a.json'' (snd (wa_run io ''/d/a.json'' ''new'' 384 5 fs))) ''a.json.8.tmp'' = None
    \<and> contents (snd (wa_run io ''/d/a.json'' ''new'' 384 5 fs)) ''a.json.8.tmp'' = Some ''new''"
proof -
  let ?io = "\<lparr>wa_create = None, wa_rand = [''7'', ''8''], wa_write = None, wa_flushed = [], wa_sync = None,
    wa_chmod = None, wa_close = None, wa_rename = None, wa_remove = True\<rparr>"
  let ?fs = "[(''a.json'', FileEnt \<lparr>f_data = ''old'', f_disk = ''old'', f_perm = 384\<rparr>),
    (''a.json.7.tmp'', FileEnt \<lparr>f_data = ''x'', f_disk = [], f_perm = 384\<rparr>)]"
  have base: "base_name ''/d/a.json'' = ''a.json''" by code_simp
  have wf: "gwf ?fs" by (simp add: gwf_def)
  have dur: "\<forall>i. gget ?fs (base_name ''/d/a.json'') = Some (FileEnt i) \<longrightarrow> f_disk i = f_data i"
    by (simp add: base gget_def)
  note ok = write_file_atomic [OF wf dur, of ?io "''new''" 384]
  have "gget (sweep ''/d/a.json'' (snd (wa_run ?io ''/d/a.json'' ''new'' 384 5 ?fs))) ''a.json.8.tmp''
      = gget (sweep ''/d/a.json'' ?fs) ''a.json.8.tmp''"
    using ok [THEN conjunct1, THEN spec, of 5] by (simp add: base Let_def)
  moreover have "gget (sweep ''/d/a.json'' ?fs) ''a.json.8.tmp'' = None"
    "contents (power_loss (snd (wa_run ?io ''/d/a.json'' ''new'' 384 6 ?fs))) ''a.json'' = Some ''new''"
    "contents (snd (wa_run ?io ''/d/a.json'' ''new'' 384 5 ?fs)) ''a.json'' = Some ''old''"
    "contents (snd (wa_run ?io ''/d/a.json'' ''new'' 384 5 ?fs)) ''a.json.8.tmp'' = Some ''new''"
    "contents ?fs ''a.json'' = Some ''old''" "contents ?fs ''a.json.7.tmp'' = Some ''x''"
    by code_simp+
  ultimately show ?thesis by (intro exI [of _ ?io] exI [of _ ?fs]) simp
qed

end
