(* ===== verification/Server_Base.thy ===== *)
theory Server_Base
  imports Config
begin

text \<open>
  What the handlers of \<open>internal/server/server.go\<close> share: status errors, the authorization check in
  front of every call, the white list of tools, and the small functions on paths, terminal sizes
  and lines. Printing with \<open>%q\<close> is an argument.
\<close>

datatype code = InvalidArgument | NotFound | FailedPrecondition | Internal | Unimplemented
  | Unauthenticated | Unavailable | Canceled

type_synonym rpc_error = "code \<times> string"

text \<open>The checks at the head of a handler: the first that fails is the answer.\<close>

fun first_error :: "(bool \<times> rpc_error) list \<Rightarrow> rpc_error option" where
  "first_error [] = None"
| "first_error ((bad, err) # cs) = (if bad then Some err else first_error cs)"

lemma first_error_None: "first_error cs = None \<longleftrightarrow> list_all (\<lambda>(bad, err). \<not> bad) cs"
  by (induction cs rule: first_error.induct) auto

text \<open>\<open>t.Unix()\<close>: whole seconds since 1970, which is 62135596800 seconds after the zero time.\<close>

definition unix_time :: "time \<Rightarrow> int" where
  "unix_time t = t div second - 62135596800"

text \<open>The conversion \<open>int32(n)\<close>.\<close>

definition to_int32 :: "int \<Rightarrow> int" where
  "to_int32 i = sint (word_of_int i :: 32 word)"

section \<open>Authorization\<close>

text \<open>\<open>md\<close> has the values of the \<open>authorization\<close> header, \<open>None\<close> if the call has no metadata.\<close>

definition bearer :: string where "bearer = ''Bearer ''"

definition validateAuth :: "config \<Rightarrow> string list option \<Rightarrow> rpc_error option" where
  "validateAuth c md =
     (if AuthToken c = [] then None
      else case md of
        None \<Rightarrow> Some (Unauthenticated, ''missing metadata'')
      | Some [] \<Rightarrow> Some (Unauthenticated, ''missing authorization token'')
      | Some (v # vs) \<Rightarrow>
          let token = (if 7 \<le> length v \<and> take 7 v = bearer then drop 7 v else v) in
          if token \<noteq> AuthToken c then Some (Unauthenticated, ''invalid authorization token'') else None)"

text \<open>
  Both interceptors: the handler, a function of the server's state, runs only behind the check.
\<close>

definition intercepted ::
  "config \<Rightarrow> string list option \<Rightarrow> ('s \<Rightarrow> 's \<times> (rpc_error + 'r)) \<Rightarrow> 's \<Rightarrow> 's \<times> (rpc_error + 'r)" where
  "intercepted c md handler s =
     (case validateAuth c md of Some err \<Rightarrow> (s, Inl err) | None \<Rightarrow> handler s)"

text \<open>
  Without the token no handler runs. With a token configured, a call whose first authorization
  value is not the token, bare or once after \<open>Bearer\<close>, is answered \<open>Unauthenticated\<close> and leaves the
  server as it was; with it, or with no token configured, the call is the handler's. A token that
  itself starts with \<open>Bearer\<close> is accepted only behind a second \<open>Bearer\<close>.
\<close>
lemma auth_guards_every_handler:
  "(AuthToken c \<noteq> [] \<longrightarrow>
      (if \<exists>v vs. md = Some (v # vs) \<and> (v = bearer @ AuthToken c \<or> v = AuthToken c \<and> \<not> has_prefix v bearer)
       then intercepted c md handler s = handler s
       else fst (intercepted c md handler s) = s
         \<and> (\<exists>msg. snd (intercepted c md handler s) = Inl (Unauthenticated, msg))))
   \<and> (AuthToken c = [] \<longrightarrow> intercepted c md handler s = handler s)"
proof -
  have strip: "(if 7 \<le> length v \<and> take 7 v = bearer then drop 7 v else v) = AuthToken c \<longleftrightarrow>
      v = bearer @ AuthToken c \<or> v = AuthToken c \<and> \<not> has_prefix v bearer" for v
  proof -
    have len: "length bearer = 7" by (simp add: bearer_def)
    have pre: "7 \<le> length v \<and> take 7 v = bearer \<longleftrightarrow> has_prefix v bearer"
      unfolding has_prefix_def len using len by (metis length_take min.cobounded1)
    show ?thesis
    proof (cases "has_prefix v bearer")
      case True
      then obtain r where v: "v = bearer @ r" by (auto simp: has_prefix_iff)
      have "v = bearer @ AuthToken c \<or> v = AuthToken c \<and> \<not> has_prefix v bearer \<longleftrightarrow> r = AuthToken c"
        using True v by auto
      moreover have "drop 7 v = r" by (simp add: v len)
      ultimately show ?thesis by (simp add: pre True)
    next
      case False
      then show ?thesis by (auto simp: pre has_prefix_iff)
    qed
  qed
  show ?thesis
    by (cases md; cases "the md")
       (auto simp: intercepted_def validateAuth_def Let_def strip simp del: length_greater_0_conv)
qed

lemma auth_guards_every_handler_witness:
  "\<exists>c. AuthToken c = ''tok''
     \<and> intercepted c (Some [''Bearer tok'']) (\<lambda>n :: nat. (Suc n, Inr n)) 4 = (5, Inr 4)
     \<and> fst (intercepted c (Some [''tik'', ''tok'']) (\<lambda>n :: nat. (Suc n, Inr n)) 4) = 4"
proof -
  let ?c = "(DefaultConfig ''/h'')\<lparr>AuthToken := ''tok''\<rparr>"
  have t: "AuthToken ?c = ''tok''" by simp
  have "intercepted ?c (Some [''Bearer tok'']) (\<lambda>n :: nat. (Suc n, Inr n)) 4 = (5, Inr 4)"
    using auth_guards_every_handler [of ?c "Some [''Bearer tok'']" "\<lambda>n :: nat. (Suc n, Inr n)" 4]
    by (simp add: t bearer_def)
  moreover have "fst (intercepted ?c (Some [''tik'', ''tok'']) (\<lambda>n :: nat. (Suc n, Inr n)) 4) = 4"
    using auth_guards_every_handler [of ?c "Some [''tik'', ''tok'']" "\<lambda>n :: nat. (Suc n, Inr n)" 4]
    by (simp add: t bearer_def)
  ultimately show ?thesis using t by blast
qed

section \<open>Tools\<close>

definition isValidTool :: "config \<Rightarrow> string \<Rightarrow> bool" where
  "isValidTool c tool \<longleftrightarrow>
     (if \<not> ValidateToolName tool then False
      else if tool = ''shell'' then EnableShellTool c
      else list_ex (\<lambda>t. tc_Name t = tool) (Tools c))"

lemma isValidTool_shell: "isValidTool c ''shell'' \<Longrightarrow> EnableShellTool c"
  by (simp add: isValidTool_def split: if_splits)

definition shellDisabledMessage :: string where
  "shellDisabledMessage = ''shell sessions are disabled on this host: set '' @ [CHR 0x22]
     @ ''enable_shell_tool: true'' @ [CHR 0x22] @ '' in ~/.hqssh/daemon.yaml and run '' @ [CHR 0x22]
     @ ''hqssh service restart'' @ [CHR 0x22]"

definition invalidToolError :: "(string \<Rightarrow> string) \<Rightarrow> config \<Rightarrow> string \<Rightarrow> rpc_error" where
  "invalidToolError quote c tool =
     (if tool = ''shell'' \<and> \<not> EnableShellTool c then (FailedPrecondition, shellDisabledMessage)
      else (InvalidArgument, ''unknown tool: '' @ quote tool))"

definition externalTools :: "config \<Rightarrow> string list" where
  "externalTools c = filter (\<lambda>n. n \<noteq> ''shell'') (map tc_Name (Tools c))"

section \<open>Paths, sizes and lines\<close>

definition resolveUnderHome :: "string \<Rightarrow> string \<Rightarrow> string" where
  "resolveUnderHome dir home =
     (if dir = ''~'' then home
      else join_paths [home, case cut_prefix dir ''~/'' of Some rest \<Rightarrow> rest | None \<Rightarrow> dir])"

definition pathWithin :: "string \<Rightarrow> string \<Rightarrow> bool" where
  "pathWithin path dir \<longleftrightarrow>
     clean_path path = clean_path dir \<or> has_prefix (clean_path path) (clean_path dir @ ''/'')"

text \<open>The terminal size of \<open>Create\<close> and \<open>Attach\<close>.\<close>

definition clamp_size :: "int \<Rightarrow> int \<Rightarrow> int \<times> int" where
  "clamp_size cols rows =
     (let cols = (if cols \<le> 0 then 80 else cols); rows = (if rows \<le> 0 then 24 else rows)
      in (if 500 < cols then 500 else cols, if 200 < rows then 200 else rows))"

definition newline :: char where "newline = CHR 0x0A"

text \<open>The loop of \<open>lastNLines\<close> from the end of the data: \<open>rest\<close> is reversed, \<open>acc\<close> lies behind it.\<close>

fun last_lines :: "nat \<Rightarrow> bytes \<Rightarrow> bytes \<Rightarrow> bytes option" where
  "last_lines n [] acc = None"
| "last_lines n (c # rest) acc =
     (if c = newline then (if n = 0 then Some acc else last_lines (n - 1) rest (c # acc))
      else last_lines n rest (c # acc))"

definition lastNLines :: "bytes \<Rightarrow> int \<Rightarrow> bytes" where
  "lastNLines data n =
     (if data = [] \<or> n \<le> 0 then data
      else case last_lines (nat n) (rev data) [] of Some d \<Rightarrow> d | None \<Rightarrow> data)"

lemma last_lines_None: "last_lines n r acc = None \<Longrightarrow> count_list r newline \<le> n"
  by (induction n r acc rule: last_lines.induct) (auto split: if_splits)

lemma last_lines_Some:
  "last_lines n r acc = Some d \<Longrightarrow> \<exists>m r'. r = m @ newline # r' \<and> d = rev m @ acc \<and> count_list m newline = n"
proof (induction n r acc rule: last_lines.induct)
  case (2 n c rest acc)
  show ?case
  proof (cases "c = newline \<and> n = 0")
    case True
    with "2.prems" show ?thesis by (rule_tac x = "[]" in exI, rule_tac x = rest in exI) simp
  next
    case False
    then obtain m r' where "rest = m @ newline # r'" "d = rev m @ c # acc"
      "count_list m newline = (if c = newline then n - 1 else n)"
      using "2.IH" "2.prems" by (auto split: if_splits)
    with False show ?thesis by (rule_tac x = "c # m" in exI, rule_tac x = r' in exI) auto
  qed
qed simp

text \<open>
  A limited scrollback is the end of the scrollback from the start of a line, with exactly as
  many line ends as asked for, or all of it where it has no more; so it has one line more than
  asked for when the data does not end with a line end.
\<close>
lemma last_n_lines:
  "0 < n \<Longrightarrow> (if int (count_list data newline) \<le> n then lastNLines data n = data
     else (\<exists>pre. data = pre @ newline # lastNLines data n
       \<and> int (count_list (lastNLines data n) newline) = n))"
proof -
  assume n: "0 < n"
  have cnt: "count_list (rev data) newline = count_list data newline" by simp
  show ?thesis
  proof (cases "last_lines (nat n) (rev data) []")
    case None
    with last_lines_None [OF this] n show ?thesis by (simp add: lastNLines_def le_nat_iff)
  next
    case (Some d)
    with last_lines_Some [OF this] obtain m r'
      where m: "rev data = m @ newline # r'" "d = rev m" "count_list m newline = nat n" by auto
    have data: "data = rev r' @ newline # d" using arg_cong [OF m(1), of rev] m(2) by simp
    moreover have "int (count_list d newline) = n" using m(2,3) n by simp
    moreover from this data have "\<not> int (count_list data newline) \<le> n" by simp
    moreover have "lastNLines data n = d" using Some n data by (simp add: lastNLines_def)
    ultimately show ?thesis by auto
  qed
qed

lemma last_n_lines_witness:
  "lastNLines [CHR ''a'', newline, CHR ''b'', newline, CHR ''c''] 1 = [CHR ''b'', newline, CHR ''c'']"
proof -
  let ?d = "[CHR ''a'', newline, CHR ''b'', newline, CHR ''c'']"
  have "\<exists>pre. ?d = pre @ newline # lastNLines ?d 1 \<and> int (count_list (lastNLines ?d 1) newline) = 1"
    using last_n_lines [of 1 ?d] by (simp add: newline_def)
  then obtain pre where "?d = pre @ newline # lastNLines ?d 1" "count_list (lastNLines ?d 1) newline = 1" by auto
  then show ?thesis by (cases pre; cases "tl pre"; cases "tl (tl pre)") (auto simp: newline_def Cons_eq_append_conv)
qed

end
