(* ===== verification/Detector.thy ===== *)
theory Detector
  imports Config
begin

text \<open>
  The tool detector of \<open>internal/tools/detector.go\<close>: which of the configured tools are
  installed, cached with a lifetime and refreshed by at most one probe of all tools at a time.
  \<open>DetectAll\<close> is split at its unlocked sections: entering, the end of a probe, and reading the
  result. The program search and the login shell are arguments.
\<close>

definition DefaultCacheTTL :: time where "DefaultCacheTTL = 60 * second"

text \<open>
  \<open>det_flights\<close> counts the running calls of \<open>refreshAll\<close>; it is not a field of the code's
  \<open>Detector\<close>. \<open>det_refresh\<close> says that the channel is not nil.
\<close>

record detector =
  det_tools :: "tool_config list"
  det_cache :: "(string, bool) gomap"
  det_cachedAt :: time
  det_refresh :: bool
  det_flights :: nat

definition NewDetector :: "config \<Rightarrow> detector" where
  "NewDetector c = \<lparr>det_tools = Tools c, det_cache = [], det_cachedAt = 0, det_refresh = False,
     det_flights = 0\<rparr>"

definition installedLocked :: "detector \<Rightarrow> string list" where
  "installedLocked d =
     map tc_Name (filter (\<lambda>t. gget (det_cache d) (tc_Name t) = Some True) (det_tools d))"

section \<open>Probing one tool\<close>

datatype shell_exit = ExitZero | ExitNonZero | TimedOut

record probe_env =
  pe_LookPath :: "string \<Rightarrow> bool"
  pe_shell :: string
  pe_run :: "string \<Rightarrow> string list \<Rightarrow> shell_exit"

definition runInLoginShell :: "probe_env \<Rightarrow> string \<Rightarrow> bool" where
  "runInLoginShell e script = (pe_run e (pe_shell e) [''-l'', ''-i'', ''-c'', script] = ExitZero)"

text \<open>
  \<open>strings.TrimSpace(s) == ""\<close>: only white space, which is one of these sequences of UTF-8 bytes.
\<close>

definition white_space :: "bytes list" where
  "white_space =
     map (\<lambda>n. [char_of (n :: nat)]) [9, 10, 11, 12, 13, 32]
     @ map (map (\<lambda>n. char_of (n :: nat)))
         ([[0xC2, 0x85], [0xC2, 0xA0], [0xE1, 0x9A, 0x80], [0xE2, 0x80, 0xA8], [0xE2, 0x80, 0xA9],
           [0xE2, 0x80, 0xAF], [0xE2, 0x81, 0x9F], [0xE3, 0x80, 0x80]]
          @ map (\<lambda>n. [0xE2, 0x80, n]) [0x80..<0x8B])"

function blank :: "string \<Rightarrow> bool" where
  "blank s =
     (if s = [] then True
      else case List.find (has_prefix s) white_space of
        None \<Rightarrow> False
      | Some w \<Rightarrow> blank (drop (length w) s))"
  by pat_completeness auto
termination
proof (relation "measure length")
  fix s :: string and w
  assume s: "s \<noteq> []" and "List.find (has_prefix s) white_space = Some w"
  then have "w \<in> set white_space" by (auto simp: find_Some_iff)
  moreover have "[] \<notin> set white_space" by (auto simp: white_space_def)
  ultimately have "w \<noteq> []" by blast
  with s show "(drop (length w) s, s) \<in> measure length" by simp
qed simp

declare blank.simps [simp del]

definition detectTool :: "probe_env \<Rightarrow> tool_config \<Rightarrow> bool" where
  "detectTool e t =
     (if \<not> ValidateToolName (tc_Name t) then False
      else if tc_Detect t = [] then
        (if pe_LookPath e (tc_Command t) then True
         else if \<not> ValidateToolName (tc_Command t) then False
         else runInLoginShell e (''command -v '' @ tc_Command t))
      else if blank (tc_Detect t) then False
      else runInLoginShell e (tc_Detect t))"

text \<open>The probes run concurrently; \<open>order\<close> is the order in which their results arrive.\<close>

definition detectAllUncached :: "probe_env \<Rightarrow> tool_config list \<Rightarrow> (string, bool) gomap" where
  "detectAllUncached e order =
     gput_all (map (\<lambda>t. (tc_Name t, detectTool e t)) (filter (\<lambda>t. ValidateToolName (tc_Name t)) order)) []"

section \<open>The cache\<close>

datatype detect_entry = Serve "string list" | Join | Probe

definition refresh_begin :: "detector \<Rightarrow> detector" where
  "refresh_begin d = d\<lparr>det_refresh := True, det_flights := Suc (det_flights d)\<rparr>"

definition detect_enter :: "time \<Rightarrow> detector \<Rightarrow> detector \<times> detect_entry" where
  "detect_enter now d =
     (if \<not> is_zero (det_cachedAt d) then
        (if DefaultCacheTTL \<le> now - det_cachedAt d \<and> \<not> det_refresh d then refresh_begin d else d,
         Serve (installedLocked d))
      else if det_refresh d then (d, Join)
      else (refresh_begin d, Probe))"

definition refresh_end :: "(string, bool) gomap \<Rightarrow> time \<Rightarrow> detector \<Rightarrow> detector" where
  "refresh_end results now d =
     d\<lparr>det_cache := results, det_cachedAt := now, det_refresh := False, det_flights := det_flights d - 1\<rparr>"

definition refreshAll :: "probe_env \<Rightarrow> tool_config list \<Rightarrow> time \<Rightarrow> detector \<Rightarrow> detector" where
  "refreshAll e order now d = refresh_end (detectAllUncached e order) now d"

text \<open>
  A call of \<open>DetectAll\<close> that runs on its own; it waits for a refresh that is under way, so both
  \<open>Join\<close> and \<open>Probe\<close> end with the result of one.
\<close>

definition DetectAll :: "probe_env \<Rightarrow> tool_config list \<Rightarrow> time \<Rightarrow> detector \<Rightarrow> detector \<times> string list" where
  "DetectAll e order now d =
     (case detect_enter now d of
        (d', Serve ts) \<Rightarrow> (d', ts)
      | (d', _) \<Rightarrow> let d' = refreshAll e order now d' in (d', installedLocked d'))"

definition Warm :: "probe_env \<Rightarrow> tool_config list \<Rightarrow> time \<Rightarrow> detector \<Rightarrow> detector" where
  "Warm e order now d = fst (DetectAll e order now d)"

definition DetectForProject ::
  "probe_env \<Rightarrow> tool_config list \<Rightarrow> time \<Rightarrow> string \<Rightarrow> detector \<Rightarrow> detector \<times> string list" where
  "DetectForProject e order now projectPath d = DetectAll e order now d"

definition IsInstalled :: "probe_env \<Rightarrow> string \<Rightarrow> detector \<Rightarrow> detector \<times> bool" where
  "IsInstalled e name d =
     (case gget (det_cache d) name of
        Some cached \<Rightarrow> (d, cached)
      | None \<Rightarrow>
          (case List.find (\<lambda>t. tc_Name t = name) (det_tools d) of
             None \<Rightarrow> (d, False)
           | Some t \<Rightarrow>
               let result = detectTool e t
               in (d\<lparr>det_cache := gput name result (det_cache d)\<rparr>, result)))"

definition GetCommand :: "string \<Rightarrow> detector \<Rightarrow> string" where
  "GetCommand name d =
     (case List.find (\<lambda>t. tc_Name t = name) (det_tools d) of Some t \<Rightarrow> tc_Command t | None \<Rightarrow> [])"

definition ClearCache :: "detector \<Rightarrow> detector" where
  "ClearCache d = d\<lparr>det_cache := [], det_cachedAt := 0\<rparr>"

section \<open>Interleavings\<close>

text \<open>
  The callers' sections in any order. A refresh ends with results of a probe of the configured
  tools; \<open>IsInstalled\<close> stores its result in a section of its own, after the probe.
\<close>

inductive det_step :: "detector \<Rightarrow> detector \<Rightarrow> bool" where
  enter: "det_step d (fst (detect_enter now d))"
| refreshed: "0 < det_flights d \<Longrightarrow> set order = set (det_tools d) \<Longrightarrow> det_step d (refreshAll e order now d)"
| installed: "t \<in> set (det_tools d) \<Longrightarrow>
    det_step d (d\<lparr>det_cache := gput (tc_Name t) (detectTool e t) (det_cache d)\<rparr>)"
| cleared: "det_step d (ClearCache d)"

definition det_inv :: "detector \<Rightarrow> bool" where
  "det_inv d \<longleftrightarrow> det_flights d = (if det_refresh d then 1 else 0)
     \<and> (\<forall>n. gget (det_cache d) n = Some True \<longrightarrow> ValidateToolName n)"

lemma detectTool_valid: "detectTool e t \<Longrightarrow> ValidateToolName (tc_Name t)"
  by (simp add: detectTool_def split: if_splits)

lemma detectAllUncached_valid: "gget (detectAllUncached e order) n = Some b \<Longrightarrow> ValidateToolName n"
  by (auto simp: detectAllUncached_def gget_gput_all split: option.splits dest!: map_of_SomeD)

lemma det_inv_step: "det_step d d' \<Longrightarrow> det_inv d \<Longrightarrow> det_inv d' \<and> det_tools d' = det_tools d"
proof (induction rule: det_step.induct)
  case (refreshed d order e now)
  then show ?case
    using detectAllUncached_valid [of e order] by (auto simp: det_inv_def refreshAll_def refresh_end_def split: if_splits)
next
  case (installed t d e)
  then show ?case using detectTool_valid [of e t] by (auto simp: det_inv_def gget_gput)
qed (auto simp: det_inv_def detect_enter_def refresh_begin_def ClearCache_def)

lemma det_inv_run: "det_step\<^sup>*\<^sup>* (NewDetector c) d \<Longrightarrow> det_inv d \<and> det_tools d = Tools c"
proof (induction rule: rtranclp_induct)
  case base
  show ?case by (simp add: det_inv_def NewDetector_def)
next
  case (step d d')
  then show ?case using det_inv_step [of d d'] by simp
qed



end
