(* ===== verification/Project.thy ===== *)
theory Project
  imports TaskStore Detector
begin

text \<open>
  Projects, \<open>internal/project\<close>: the walk that finds git repositories under the scan directories
  (\<open>discovery.go\<close>), the registry of known projects (\<open>registry.go\<close>) and what must outlive a
  restart of the daemon, the directories the user had scanned and the paths of removed projects
  (\<open>state.go\<close>). The file system below the calls, and SHA-256, are arguments.
\<close>

record project =
  pj_ID :: string
  pj_Name :: string
  pj_Path :: string
  pj_DetectedTools :: "string list"
  pj_LastAccessed :: time
  pj_IsFavorite :: bool

section \<open>Discovery\<close>

datatype stat_result = StatError string | StatDir | StatFile

text \<open>\<open>fs_readdir\<close> gives the entries with whether they are directories (links are not).\<close>

record fsys =
  fs_stat :: "string \<Rightarrow> stat_result"
  fs_readdir :: "string \<Rightarrow> (string \<times> bool) list option"
  fs_home :: string
  fs_cwd :: "string + string"

record project_env =
  pv_fs :: fsys
  pv_sha256 :: "bytes \<Rightarrow> bytes"
  pv_probe :: probe_env
  pv_order :: "tool_config list"
  pv_now :: time

definition expandHome :: "fsys \<Rightarrow> string \<Rightarrow> string" where
  "expandHome fs path = (if has_prefix path ''~'' then join_paths [fs_home fs, tl path] else path)"

definition abs_path :: "fsys \<Rightarrow> string \<Rightarrow> string + string" where
  "abs_path fs p =
     (if is_abs p then Inr (clean_path p)
      else case fs_cwd fs of Inl e \<Rightarrow> Inl e | Inr wd \<Rightarrow> Inr (join_paths [wd, p]))"

definition generateProjectID :: "(bytes \<Rightarrow> bytes) \<Rightarrow> string \<Rightarrow> string" where
  "generateProjectID sha256 path = hex_encode (take 8 (sha256 path))"

definition isExcluded :: "string list \<Rightarrow> string \<Rightarrow> bool" where
  "isExcluded exclude name \<longleftrightarrow> list_ex (\<lambda>e. name = e) exclude"

text \<open>The paths \<open>walkDirectory\<close> calls back with, in order.\<close>

function walkDirectory :: "fsys \<Rightarrow> string list \<Rightarrow> string \<Rightarrow> int \<Rightarrow> int \<Rightarrow> string list" where
  "walkDirectory fs exclude dir depth maxDepth =
     (if maxDepth < depth then []
      else case fs_readdir fs dir of
        None \<Rightarrow> []
      | Some entries \<Rightarrow>
          concat (map (\<lambda>(name, isDir).
            if \<not> isDir then []
            else if has_prefix name ''.'' then []
            else if isExcluded exclude name then []
            else
              let fullPath = join_paths [dir, name] in
              fullPath # (if depth < maxDepth
                          then walkDirectory fs exclude fullPath (depth + 1) maxDepth else [])) entries))"
  by pat_completeness auto
termination
  by (relation "measure (\<lambda>(fs, exclude, dir, depth, maxDepth). nat (maxDepth + 1 - depth))") auto

declare walkDirectory.simps [simp del]

definition detect_project :: "project_env \<Rightarrow> string \<Rightarrow> detector \<Rightarrow> detector \<times> string list" where
  "detect_project e path d = DetectForProject (pv_probe e) (pv_order e) (pv_now e) path d"

definition createProject :: "project_env \<Rightarrow> string \<Rightarrow> detector \<Rightarrow> detector \<times> project" where
  "createProject e path d =
     (let (d', detected) = detect_project e path d
      in (d', \<lparr>pj_ID = generateProjectID (pv_sha256 e) path, pj_Name = base_name path, pj_Path = path,
               pj_DetectedTools = detected, pj_LastAccessed = 0, pj_IsFavorite = False\<rparr>))"

definition is_repo :: "fsys \<Rightarrow> string \<Rightarrow> bool" where
  "is_repo fs path \<longleftrightarrow> fs_stat fs (join_paths [path, ''.git'']) = StatDir"

fun create_projects :: "project_env \<Rightarrow> string list \<Rightarrow> detector \<Rightarrow> detector \<times> project list" where
  "create_projects e [] d = (d, [])"
| "create_projects e (p # ps) d =
     (if is_repo (pv_fs e) p then
        let (d, pj) = createProject e p d; (d, pjs) = create_projects e ps d in (d, pj # pjs)
      else create_projects e ps d)"

definition scanDirectory ::
  "project_env \<Rightarrow> string list \<Rightarrow> string \<Rightarrow> int \<Rightarrow> detector \<Rightarrow> detector \<times> project list \<times> nat" where
  "scanDirectory e exclude root maxDepth d =
     (let paths = walkDirectory (pv_fs e) exclude root 0 maxDepth;
          (d, projects) = create_projects e paths d
      in (d, projects, length paths))"

fun scan_all ::
  "project_env \<Rightarrow> string list \<Rightarrow> int \<Rightarrow> string list \<Rightarrow> detector \<Rightarrow> detector \<times> project list \<times> nat" where
  "scan_all e exclude maxDepth [] d = (d, [], 0)"
| "scan_all e exclude maxDepth (dir # dirs) d =
     (let dir = expandHome (pv_fs e) dir in
      if fs_stat (pv_fs e) dir \<noteq> StatDir then scan_all e exclude maxDepth dirs d
      else
        let (d, projects, scanned) = scanDirectory e exclude dir maxDepth d;
            (d, projects', scanned') = scan_all e exclude maxDepth dirs d
        in (d, projects @ projects', scanned + scanned'))"

definition Discover ::
  "project_env \<Rightarrow> project_config \<Rightarrow> string list \<Rightarrow> int \<Rightarrow> detector \<Rightarrow> detector \<times> project list \<times> nat" where
  "Discover e c directories maxDepth d =
     (let directories = (if directories = [] then ScanDirectories c else directories);
          maxDepth = (if maxDepth \<le> 0 then MaxDepth c else maxDepth)
      in scan_all e (Exclude c) maxDepth directories d)"

definition CreateFromPath ::
  "project_env \<Rightarrow> string \<Rightarrow> string \<Rightarrow> detector \<Rightarrow> detector \<times> (string + project)" where
  "CreateFromPath e path name d =
     (case abs_path (pv_fs e) (clean_path (expandHome (pv_fs e) path)) of
        Inl err \<Rightarrow> (d, Inl err)
      | Inr path \<Rightarrow>
          (case fs_stat (pv_fs e) path of
             StatError err \<Rightarrow> (d, Inl err)
           | StatFile \<Rightarrow> (d, Inl ''file does not exist'')
           | StatDir \<Rightarrow>
               let name = (if name = [] then base_name path else name);
                   (d', detected) = detect_project e path d
               in (d', Inr \<lparr>pj_ID = generateProjectID (pv_sha256 e) path, pj_Name = name,
                     pj_Path = path, pj_DetectedTools = detected, pj_LastAccessed = pv_now e,
                     pj_IsFavorite = False\<rparr>)))"

section \<open>The registry\<close>

record registry =
  rg_projects :: "(string, project) gomap"
  rg_dataDir :: string

definition NewRegistry :: "string \<Rightarrow> registry" where
  "NewRegistry dataDir = \<lparr>rg_projects = [], rg_dataDir = dataDir\<rparr>"

definition json_project :: "project \<Rightarrow> project" where
  "json_project p = p\<lparr>pj_ID := json_str (pj_ID p), pj_Name := json_str (pj_Name p),
     pj_Path := json_str (pj_Path p), pj_DetectedTools := map json_str (pj_DetectedTools p)\<rparr>"

text \<open>As with the tasks, a \<open>null\<close> in the list is a nil pointer that \<open>Load\<close> dereferences.\<close>

fun load_projects ::
  "project option list \<Rightarrow> (string, project) gomap \<Rightarrow> (string, project) gomap option" where
  "load_projects [] m = Some m"
| "load_projects (None # ps) m = None"
| "load_projects (Some p # ps) m = load_projects ps (gput (pj_ID p) p m)"

definition reg_Load :: "project store_file \<Rightarrow> registry \<Rightarrow> (registry \<times> string option) option" where
  "reg_Load disk r =
     (case disk of
        NoFile \<Rightarrow> Some (r, None)
      | ReadFails e \<Rightarrow> Some (r, Some e)
      | BadJSON e \<Rightarrow> Some (r, Some e)
      | JSONFile ps \<Rightarrow> map_option (\<lambda>m. (r\<lparr>rg_projects := m\<rparr>, None)) (load_projects ps []))"

definition reg_Save ::
  "save_io \<Rightarrow> registry \<Rightarrow> project store_file \<Rightarrow> project store_file \<times> string option" where
  "reg_Save io r disk = write_store io (map json_project (gvals (rg_projects r))) disk"

definition reg_Add :: "project \<Rightarrow> registry \<Rightarrow> registry" where
  "reg_Add p r = r\<lparr>rg_projects := gput (pj_ID p) p (rg_projects r)\<rparr>"

definition reg_Remove :: "string \<Rightarrow> registry \<Rightarrow> registry \<times> bool" where
  "reg_Remove k r =
     (case gget (rg_projects r) k of
        Some _ \<Rightarrow> (r\<lparr>rg_projects := gdel k (rg_projects r)\<rparr>, True)
      | None \<Rightarrow> (r, False))"

definition reg_Get :: "registry \<Rightarrow> string \<Rightarrow> project option" where
  "reg_Get r k = gget (rg_projects r) k"

definition reg_GetByPath :: "registry \<Rightarrow> string \<Rightarrow> project option" where
  "reg_GetByPath r path = List.find (\<lambda>p. pj_Path p = path) (gvals (rg_projects r))"

definition reg_List :: "bool \<Rightarrow> registry \<Rightarrow> project list" where
  "reg_List favoritesOnly r =
     filter (\<lambda>p. \<not> (favoritesOnly \<and> \<not> pj_IsFavorite p)) (gvals (rg_projects r))"

definition reg_UpdateLastAccessed :: "time \<Rightarrow> string \<Rightarrow> registry \<Rightarrow> registry" where
  "reg_UpdateLastAccessed now k r =
     r\<lparr>rg_projects := gmod k (\<lambda>p. p\<lparr>pj_LastAccessed := now\<rparr>) (rg_projects r)\<rparr>"

definition reg_SetFavorite :: "string \<Rightarrow> bool \<Rightarrow> registry \<Rightarrow> registry \<times> bool" where
  "reg_SetFavorite k favorite r =
     (case gget (rg_projects r) k of
        Some _ \<Rightarrow> (r\<lparr>rg_projects := gmod k (\<lambda>p. p\<lparr>pj_IsFavorite := favorite\<rparr>) (rg_projects r)\<rparr>, True)
      | None \<Rightarrow> (r, False))"

fun reg_MergeDiscovered :: "project list \<Rightarrow> registry \<Rightarrow> registry \<times> nat" where
  "reg_MergeDiscovered [] r = (r, 0)"
| "reg_MergeDiscovered (p # ps) r =
     (if gget (rg_projects r) (pj_ID p) = None
      then let (r, added) = reg_MergeDiscovered ps (reg_Add p r) in (r, Suc added)
      else reg_MergeDiscovered ps r)"

definition reg_Count :: "registry \<Rightarrow> nat" where
  "reg_Count r = length (rg_projects r)"

section \<open>What discovery must remember\<close>

record discovery_state =
  ds_dataDir :: string
  ds_roots :: "string list"
  ds_removed :: "(string, bool) gomap"

definition NewDiscoveryState :: "string \<Rightarrow> discovery_state" where
  "NewDiscoveryState dataDir = \<lparr>ds_dataDir = dataDir, ds_roots = [], ds_removed = []\<rparr>"

text \<open>The file \<open>discovery.json\<close>, an object with two lists of strings.\<close>

datatype discovery_file = DNoFile | DReadFails string | DBadJSON string | DFile "string list" "string list"

definition ds_Load :: "discovery_file \<Rightarrow> discovery_state \<Rightarrow> discovery_state \<times> string option" where
  "ds_Load disk s =
     (case disk of
        DNoFile \<Rightarrow> (s, None)
      | DReadFails e \<Rightarrow> (s, Some e)
      | DBadJSON e \<Rightarrow> (s, Some e)
      | DFile roots removed \<Rightarrow>
          (s\<lparr>ds_roots := roots, ds_removed := gput_all (map (\<lambda>p. (p, True)) removed) []\<rparr>, None))"

text \<open>\<open>sort.Strings\<close> orders by bytes.\<close>

fun string_le :: "string \<Rightarrow> string \<Rightarrow> bool" where
  "string_le [] t = True"
| "string_le (c # s) [] = False"
| "string_le (c # s) (d # t) = (bval c < bval d \<or> c = d \<and> string_le s t)"

fun insert_string :: "string \<Rightarrow> string list \<Rightarrow> string list" where
  "insert_string x [] = [x]"
| "insert_string x (y # ys) = (if string_le x y then x # y # ys else y # insert_string x ys)"

definition sort_strings :: "string list \<Rightarrow> string list" where
  "sort_strings xs = foldr insert_string xs []"

definition ds_Save :: "save_io \<Rightarrow> discovery_state \<Rightarrow> discovery_file \<Rightarrow> discovery_file \<times> string option" where
  "ds_Save io s disk =
     (case io of
        SaveOk \<Rightarrow> (DFile (map json_str (ds_roots s)) (map json_str (sort_strings (gkeys (ds_removed s)))), None)
      | SaveFails e \<Rightarrow> (disk, Some e))"

fun ds_AddScanRoots :: "fsys \<Rightarrow> string list \<Rightarrow> discovery_state \<Rightarrow> discovery_state \<times> bool" where
  "ds_AddScanRoots fs [] s = (s, False)"
| "ds_AddScanRoots fs (dir # dirs) s =
     (let dir = clean_path (expandHome fs dir) in
      if fs_stat fs dir \<noteq> StatDir then ds_AddScanRoots fs dirs s
      else if dir \<in> set (ds_roots s) then ds_AddScanRoots fs dirs s
      else (fst (ds_AddScanRoots fs dirs (s\<lparr>ds_roots := ds_roots s @ [dir]\<rparr>)), True))"

definition ds_AddRemoved :: "string \<Rightarrow> discovery_state \<Rightarrow> discovery_state" where
  "ds_AddRemoved path s = s\<lparr>ds_removed := gput (clean_path path) True (ds_removed s)\<rparr>"

definition tombstoned :: "discovery_state \<Rightarrow> string \<Rightarrow> bool" where
  "tombstoned s path \<longleftrightarrow> gget (ds_removed s) path = Some True"

definition ds_ClearRemoved :: "string \<Rightarrow> discovery_state \<Rightarrow> discovery_state \<times> bool" where
  "ds_ClearRemoved path s =
     (let path = clean_path path in
      if tombstoned s path then (s\<lparr>ds_removed := gdel path (ds_removed s)\<rparr>, True) else (s, False))"

definition ds_FilterRemoved :: "project list \<Rightarrow> discovery_state \<Rightarrow> project list" where
  "ds_FilterRemoved projects s =
     (if ds_removed s = [] then projects
      else filter (\<lambda>p. \<not> tombstoned s (clean_path (pj_Path p))) projects)"

section \<open>What a walk visits\<close>

definition visible :: "string list \<Rightarrow> string \<Rightarrow> bool" where
  "visible exclude name \<longleftrightarrow> \<not> has_prefix name ''.'' \<and> \<not> isExcluded exclude name"

text \<open>\<open>below fs exclude dir ns\<close>: following the names \<open>ns\<close> from \<open>dir\<close> meets only visible directories.\<close>

fun below :: "fsys \<Rightarrow> string list \<Rightarrow> string \<Rightarrow> string list \<Rightarrow> bool" where
  "below fs exclude dir [] \<longleftrightarrow> True"
| "below fs exclude dir (n # ns) \<longleftrightarrow>
     visible exclude n
     \<and> (case fs_readdir fs dir of None \<Rightarrow> False | Some entries \<Rightarrow> (n, True) \<in> set entries)
     \<and> below fs exclude (join_paths [dir, n]) ns"

definition path_below :: "string \<Rightarrow> string list \<Rightarrow> string" where
  "path_below dir ns = foldl (\<lambda>d n. join_paths [d, n]) dir ns"

lemma in_walk:
  "p \<in> set (walkDirectory fs exclude dir depth maxDepth) \<longleftrightarrow>
     depth \<le> maxDepth
     \<and> (\<exists>n. below fs exclude dir [n]
          \<and> (p = join_paths [dir, n]
             \<or> p \<in> set (walkDirectory fs exclude (join_paths [dir, n]) (depth + 1) maxDepth)))"
proof -
  have empty: "walkDirectory fs exclude d (depth + 1) maxDepth = []" if "\<not> depth < maxDepth" for d
    using that by (subst walkDirectory.simps) simp
  let ?visit = "\<lambda>(name, isDir).
      if \<not> isDir then [] else if has_prefix name ''.'' then [] else if isExcluded exclude name then []
      else let fullPath = join_paths [dir, name] in
        fullPath # (if depth < maxDepth then walkDirectory fs exclude fullPath (depth + 1) maxDepth else [])"
  have visit: "p \<in> set (?visit (n, b)) \<longleftrightarrow> b \<and> visible exclude n
      \<and> (p = join_paths [dir, n]
         \<or> p \<in> set (walkDirectory fs exclude (join_paths [dir, n]) (depth + 1) maxDepth))" for n b
    by (cases "depth < maxDepth") (auto simp: visible_def Let_def empty)
  show ?thesis
  proof (cases "fs_readdir fs dir")
    case None
    then show ?thesis by (subst walkDirectory.simps) simp
  next
    case (Some es)
    have "p \<in> set (walkDirectory fs exclude dir depth maxDepth) \<longleftrightarrow>
        depth \<le> maxDepth \<and> (\<exists>n b. (n, b) \<in> set es \<and> p \<in> set (?visit (n, b)))"
      by (subst walkDirectory.simps) (simp add: Some Bex_def not_less del: split_conv)
    also have "\<dots> \<longleftrightarrow> depth \<le> maxDepth \<and> (\<exists>n. (n, True) \<in> set es \<and> visible exclude n
      \<and> (p = join_paths [dir, n]
         \<or> p \<in> set (walkDirectory fs exclude (join_paths [dir, n]) (depth + 1) maxDepth)))"
      unfolding visit by (simp add: ex_bool_eq)
    finally show ?thesis by (auto simp: Some)
  qed
qed

lemma in_walk_iff:
  "p \<in> set (walkDirectory fs exclude dir depth maxDepth) \<longleftrightarrow>
     (\<exists>ns. ns \<noteq> [] \<and> int (length ns) \<le> maxDepth + 1 - depth \<and> below fs exclude dir ns \<and> p = path_below dir ns)"
proof (induction "nat (maxDepth + 1 - depth)" arbitrary: dir depth)
  case 0
  then have le: "maxDepth + 1 - depth \<le> 0" by simp
  have "ns = []" if "int (length ns) \<le> maxDepth + 1 - depth" for ns :: "string list"
  proof -
    have "int (length ns) \<le> 0" using that le by linarith
    then show ?thesis by simp
  qed
  with le show ?case by (subst in_walk) auto
next
  case (Suc k)
  then have k: "k = nat (maxDepth + 1 - (depth + 1))" and le: "depth \<le> maxDepth" by simp_all
  have IH: "p \<in> set (walkDirectory fs exclude d (depth + 1) maxDepth) \<longleftrightarrow>
     (\<exists>ns. ns \<noteq> [] \<and> int (length ns) \<le> maxDepth - depth \<and> below fs exclude d ns \<and> p = path_below d ns)" for d
    using Suc.hyps(1) [OF k, of d] by (simp add: algebra_simps)
  show ?case (is "?l \<longleftrightarrow> ?r")
  proof
    assume ?l
    with le obtain n where n: "below fs exclude dir [n]"
      and p: "p = join_paths [dir, n] \<or> p \<in> set (walkDirectory fs exclude (join_paths [dir, n]) (depth + 1) maxDepth)"
      by (subst (asm) in_walk) blast
    from p show ?r
    proof
      assume "p = join_paths [dir, n]"
      with n le show ?r by (intro exI [of _ "[n]"]) (simp add: path_below_def)
    next
      assume "p \<in> set (walkDirectory fs exclude (join_paths [dir, n]) (depth + 1) maxDepth)"
      then obtain ns where "int (length ns) \<le> maxDepth - depth" "below fs exclude (join_paths [dir, n]) ns"
        "p = path_below (join_paths [dir, n]) ns" unfolding IH by blast
      with n show ?r by (intro exI [of _ "n # ns"]) (simp add: path_below_def)
    qed
  next
    assume ?r
    then obtain n ns where ns: "int (length (n # ns)) \<le> maxDepth + 1 - depth" "below fs exclude dir (n # ns)"
      "p = path_below dir (n # ns)" by (metis list.exhaust)
    then have n: "below fs exclude dir [n]" and "below fs exclude (join_paths [dir, n]) ns"
      and p: "p = path_below (join_paths [dir, n]) ns" by (simp_all add: path_below_def)
    with ns(1) have "p = join_paths [dir, n] \<or>
        p \<in> set (walkDirectory fs exclude (join_paths [dir, n]) (depth + 1) maxDepth)"
      unfolding IH by (cases "ns = []") (auto simp: path_below_def)
    with n le show ?l by (subst in_walk) blast
  qed
qed

lemma create_projects_paths:
  "map pj_Path (snd (create_projects e ps d)) = filter (is_repo (pv_fs e)) ps"
  by (induction e ps d rule: create_projects.induct) (auto simp: createProject_def split: prod.splits)

definition new_project :: "project_env \<Rightarrow> project \<Rightarrow> bool" where
  "new_project e p \<longleftrightarrow> pj_ID p = generateProjectID (pv_sha256 e) (pj_Path p)
     \<and> pj_Name p = base_name (pj_Path p) \<and> is_zero (pj_LastAccessed p) \<and> \<not> pj_IsFavorite p"

lemma create_projects_new: "list_all (new_project e) (snd (create_projects e ps d))"
  by (induction e ps d rule: create_projects.induct)
     (auto simp: createProject_def new_project_def is_zero_def split: prod.splits)

definition found_under :: "project_env \<Rightarrow> string list \<Rightarrow> int \<Rightarrow> string \<Rightarrow> string set" where
  "found_under e exclude maxDepth root =
     {p. \<exists>ns. fs_stat (pv_fs e) (expandHome (pv_fs e) root) = StatDir
       \<and> ns \<noteq> [] \<and> int (length ns) \<le> maxDepth + 1 \<and> below (pv_fs e) exclude (expandHome (pv_fs e) root) ns
       \<and> p = path_below (expandHome (pv_fs e) root) ns \<and> is_repo (pv_fs e) p}"

lemma scan_all_found:
  "pj_Path ` set (fst (snd (scan_all e exclude maxDepth dirs d))) = (\<Union>root \<in> set dirs. found_under e exclude maxDepth root)
   \<and> list_all (new_project e) (fst (snd (scan_all e exclude maxDepth dirs d)))"
proof (induction dirs arbitrary: d)
  case (Cons dir dirs)
  let ?dir = "expandHome (pv_fs e) dir"
  show ?case
  proof (cases "fs_stat (pv_fs e) ?dir = StatDir")
    case False
    then have "found_under e exclude maxDepth dir = {}" by (simp add: found_under_def)
    with False Cons.IH [of d] show ?thesis by (simp add: Let_def)
  next
    case True
    let ?paths = "walkDirectory (pv_fs e) exclude ?dir 0 maxDepth"
    obtain d' pjs where c: "create_projects e ?paths d = (d', pjs)" by fastforce
    have "pj_Path ` set pjs = set (filter (is_repo (pv_fs e)) ?paths)"
      using create_projects_paths [of e ?paths d] by (simp add: c flip: set_map)
    also have "\<dots> = found_under e exclude maxDepth dir"
      using True by (auto simp: found_under_def in_walk_iff)
    finally have "pj_Path ` set pjs = found_under e exclude maxDepth dir" .
    moreover have "list_all (new_project e) pjs"
      using create_projects_new [of e ?paths d] by (simp add: c)
    moreover obtain d2 pjs2 n2 where "scan_all e exclude maxDepth dirs d' = (d2, pjs2, n2)" by (metis prod_cases3)
    ultimately show ?thesis
      using True Cons.IH [of d'] by (simp add: Let_def scanDirectory_def c image_Un)
  qed
qed simp

text \<open>
  C27: discovery finds exactly the repositories that the walk may reach. The projects found are the
  directories with a \<open>.git\<close> directory at most \<open>maxDepth + 1\<close> levels below one of the given
  directories (those of the configuration when none is given), along names that are neither hidden
  nor excluded and that the directories listed; a given directory itself is never one. Each gets
  the id of its path, its last component as name, and is neither accessed nor a favourite yet.
\<close>
theorem discover_exact:
  "let (d', projects, scanned) = Discover e c dirs maxDepth d;
       roots = (if dirs = [] then ScanDirectories c else dirs);
       depth = (if maxDepth \<le> 0 then MaxDepth c else maxDepth)
   in pj_Path ` set projects = (\<Union>root \<in> set roots. found_under e (Exclude c) depth root)
     \<and> list_all (new_project e) projects"
proof -
  define roots where "roots = (if dirs = [] then ScanDirectories c else dirs)"
  define depth where "depth = (if maxDepth \<le> 0 then MaxDepth c else maxDepth)"
  obtain d' pjs n where "scan_all e (Exclude c) depth roots d = (d', pjs, n)" by (metis prod_cases3)
  with scan_all_found [of e "Exclude c" depth roots d] show ?thesis
    unfolding Discover_def Let_def roots_def [symmetric] depth_def [symmetric] by simp
qed

section \<open>The registry and the tombstones\<close>

definition reg_wf :: "registry \<Rightarrow> bool" where
  "reg_wf = map_wf rg_projects pj_ID"

interpretation reg_ks: keyed_store reg_Get reg_Add reg_Remove "\<lambda>r. gvals (rg_projects r)"
  pj_ID "NewRegistry dataDir" reg_wf
proof -
  have eqs: "reg_Get = (\<lambda>r. gget (rg_projects r))"
    "reg_Add = (\<lambda>p r. r\<lparr>rg_projects := gput (pj_ID p) p (rg_projects r)\<rparr>)"
    "reg_Remove = (\<lambda>k r. case gget (rg_projects r) k of
       Some _ \<Rightarrow> (r\<lparr>rg_projects := gdel k (rg_projects r)\<rparr>, True) | None \<Rightarrow> (r, False))"
    by (simp_all add: fun_eq_iff reg_Get_def reg_Add_def reg_Remove_def)
  show "keyed_store reg_Get reg_Add reg_Remove (\<lambda>r. gvals (rg_projects r)) pj_ID (NewRegistry dataDir) reg_wf"
    unfolding eqs reg_wf_def
    by (rule map_store [where set_map = "\<lambda>m r. r\<lparr>rg_projects := m\<rparr>"]) (simp_all add: NewRegistry_def)
qed

lemma reg_wf_Merge: "reg_wf r \<Longrightarrow> reg_wf (fst (reg_MergeDiscovered ps r))"
  by (induction ps r rule: reg_MergeDiscovered.induct) (auto simp: reg_ks.wf_put split: prod.splits)

lemma reg_Get_Merge:
  "reg_Get (fst (reg_MergeDiscovered ps r)) k =
    (case reg_Get r k of Some p \<Rightarrow> Some p | None \<Rightarrow> List.find (\<lambda>p. pj_ID p = k) ps)"
proof (induction ps r rule: reg_MergeDiscovered.induct)
  case (2 p ps r)
  have "reg_Get (reg_Add p r) k = (if k = pj_ID p then Some p else reg_Get r k)"
    by (simp add: reg_Get_def reg_Add_def gget_gput)
  with 2 show ?case
    by (cases "pj_ID p = k") (auto simp: reg_Get_def split: prod.splits option.splits)
qed (simp split: option.split)

lemma tombstoned_AddRemoved [simp]:
  "tombstoned (ds_AddRemoved path s) q \<longleftrightarrow> q = clean_path path \<or> tombstoned s q"
  by (auto simp: tombstoned_def ds_AddRemoved_def gget_gput)

lemma tombstoned_ClearRemoved [simp]:
  "tombstoned (fst (ds_ClearRemoved path s)) q \<longleftrightarrow> q \<noteq> clean_path path \<and> tombstoned s q"
  by (auto simp: tombstoned_def ds_ClearRemoved_def Let_def gget_gdel)

lemma tombstoned_AddScanRoots [simp]:
  "tombstoned (fst (ds_AddScanRoots fs dirs s)) q = tombstoned s q"
  by (induction fs dirs s rule: ds_AddScanRoots.induct) (auto simp: tombstoned_def Let_def)

lemma FilterRemoved_not_tombstoned:
  "p \<in> set (ds_FilterRemoved ps s) \<Longrightarrow> p \<in> set ps \<and> \<not> tombstoned s (clean_path (pj_Path p))"
  by (auto simp: ds_FilterRemoved_def tombstoned_def split: if_splits)

lemma set_insert_string [simp]: "set (insert_string x ys) = insert x (set ys)"
  by (induction ys) auto

lemma set_sort_strings [simp]: "set (sort_strings xs) = set xs"
  by (induction xs) (auto simp: sort_strings_def)

lemma map_of_rev_tombs: "map_of (rev (map (\<lambda>p. (p, True)) ps)) k = (if k \<in> set ps then Some True else None)"
  by (induction ps) (auto simp: map_add_def)

text \<open>Tombstones and scan directories survive a restart.\<close>

lemma ds_Load_Save:
  assumes "list_all valid_utf8 (ds_roots s)" and "list_all valid_utf8 (gkeys (ds_removed s))"
    and "\<And>k. gget (ds_removed s) k \<noteq> Some False"
  shows "ds_roots (fst (ds_Load (fst (ds_Save SaveOk s disk)) s0)) = ds_roots s
    \<and> tombstoned (fst (ds_Load (fst (ds_Save SaveOk s disk)) s0)) k = tombstoned s k"
proof -
  let ?ks = "gkeys (ds_removed s)"
  have "map json_str (ds_roots s) = ds_roots s" using assms(1) by (intro map_idI) (simp add: list_all_iff)
  moreover have "map json_str (sort_strings ?ks) = sort_strings ?ks"
    using assms(2) by (intro map_idI) (simp add: list_all_iff)
  moreover have "k \<in> set ?ks \<longleftrightarrow> gget (ds_removed s) k = Some True"
    using assms(3) [of k] gget_None_iff [of "ds_removed s" k] by (cases "gget (ds_removed s) k") auto
  ultimately show ?thesis
    by (simp add: ds_Save_def ds_Load_def tombstoned_def gget_gput_all map_of_rev_tombs)
qed

end
