(* ===== verification/Server_Projects.thy ===== *)
theory Server_Projects
  imports Server_Base Project
begin

text \<open>
  The project service of \<open>internal/server/server.go\<close> over the registry and the discovery state, with
  the automatic rescan. Each handler is one step; the rescan is also given as its two halves, before
  and after the tombstones are read, because another handler can run between them.
\<close>

record project_srv =
  ps_config :: config
  ps_registry :: registry
  ps_state :: discovery_state
  ps_detector :: detector
  ps_lastRescan :: time
  ps_regfile :: "project store_file"
  ps_statefile :: discovery_file

record project_io =
  pio_env :: project_env
  pio_home :: "string + string"
  pio_reg :: save_io
  pio_state :: save_io
  pio_quote :: "string \<Rightarrow> string"

definition projectRescanInterval :: time where "projectRescanInterval = 60 * second"

record pb_project =
  pp_Id :: string
  pp_Name :: string
  pp_Path :: string
  pp_DetectedTools :: "string list"
  pp_LastAccessed :: int
  pp_IsFavorite :: bool

definition projectToProto :: "project \<Rightarrow> pb_project" where
  "projectToProto p =
     \<lparr>pp_Id = pj_ID p, pp_Name = pj_Name p, pp_Path = pj_Path p, pp_DetectedTools = pj_DetectedTools p,
      pp_LastAccessed = (if is_zero (pj_LastAccessed p) then 0 else unix_time (pj_LastAccessed p)),
      pp_IsFavorite = pj_IsFavorite p\<rparr>"

definition save_registry :: "project_io \<Rightarrow> project_srv \<Rightarrow> project_srv \<times> string option" where
  "save_registry io s =
     (let (f, err) = reg_Save (pio_reg io) (ps_registry s) (ps_regfile s) in (s\<lparr>ps_regfile := f\<rparr>, err))"

definition save_state :: "project_io \<Rightarrow> project_srv \<Rightarrow> project_srv" where
  "save_state io s = s\<lparr>ps_statefile := fst (ds_Save (pio_state io) (ps_state s) (ps_statefile s))\<rparr>"

section \<open>The rescan\<close>

fun first_seen :: "string list \<Rightarrow> string list \<Rightarrow> string list" where
  "first_seen seen [] = []"
| "first_seen seen (d # ds) = (if d \<in> set seen then first_seen seen ds else d # first_seen (d # seen) ds)"

definition rescan_find :: "project_io \<Rightarrow> project_srv \<Rightarrow> project_srv \<times> project list" where
  "rescan_find io s =
     (let dirs = first_seen [] (ScanDirectories (Projects (ps_config s)) @ ds_roots (ps_state s));
          (d, discovered, scanned) =
            Discover (pio_env io) (Projects (ps_config s)) dirs 0 (ps_detector s)
      in (s\<lparr>ps_detector := d\<rparr>, ds_FilterRemoved discovered (ps_state s)))"

definition rescan_merge :: "project_io \<Rightarrow> project list \<Rightarrow> project_srv \<Rightarrow> project_srv" where
  "rescan_merge io found s =
     (let (r, added) = reg_MergeDiscovered found (ps_registry s); s = s\<lparr>ps_registry := r\<rparr>
      in if added = 0 then s else fst (save_registry io s))"

definition maybeRescan :: "project_io \<Rightarrow> project_srv \<Rightarrow> project_srv" where
  "maybeRescan io s =
     (let now = pv_now (pio_env io) in
      if now - ps_lastRescan s < projectRescanInterval then s
      else
        let (s, found) = rescan_find io (s\<lparr>ps_lastRescan := now\<rparr>) in rescan_merge io found s)"

section \<open>The handlers\<close>

definition project_List :: "project_io \<Rightarrow> bool \<Rightarrow> project_srv \<Rightarrow> project_srv \<times> (rpc_error + pb_project list)" where
  "project_List io favoritesOnly s =
     (let s = maybeRescan io s in (s, Inr (map projectToProto (reg_List favoritesOnly (ps_registry s)))))"

text \<open>The first half of \<open>Add\<close>: the path handed to \<open>CreateFromPath\<close>.\<close>

definition add_path :: "project_io \<Rightarrow> string \<Rightarrow> rpc_error + string" where
  "add_path io path =
     (if path = [] then Inl (InvalidArgument, ''path is required'')
      else if has_prefix path ''~'' \<and> path \<noteq> ''~'' \<and> \<not> has_prefix path ''~/'' then
        Inl (InvalidArgument,
          ''path must be absolute, relative to your home, or start with ~/: '' @ pio_quote io path)
      else if \<not> is_abs path then
        (case pio_home io of
           Inl e \<Rightarrow> Inl (Internal, ''failed to get home directory: '' @ e)
         | Inr home \<Rightarrow> Inr (resolveUnderHome path home))
      else Inr path)"

definition project_Add ::
  "project_io \<Rightarrow> string \<Rightarrow> string \<Rightarrow> project_srv \<Rightarrow> project_srv \<times> (rpc_error + pb_project)" where
  "project_Add io path name s =
     (case add_path io path of
        Inl err \<Rightarrow> (s, Inl err)
      | Inr path \<Rightarrow>
          (case CreateFromPath (pio_env io) path name (ps_detector s) of
             (d, Inl e) \<Rightarrow> (s\<lparr>ps_detector := d\<rparr>, Inl (InvalidArgument, ''invalid path: '' @ e))
           | (d, Inr proj) \<Rightarrow>
               let s = s\<lparr>ps_detector := d\<rparr> in
               (case reg_Get (ps_registry s) (pj_ID proj) of
                  Some existing \<Rightarrow> (s, Inr (projectToProto existing))
                | None \<Rightarrow>
                    let (st, cleared) = ds_ClearRemoved (pj_Path proj) (ps_state s);
                        s = (if cleared then save_state io (s\<lparr>ps_state := st\<rparr>) else s);
                        (s, err) = save_registry io (s\<lparr>ps_registry := reg_Add proj (ps_registry s)\<rparr>)
                    in (case err of
                          Some e \<Rightarrow> (s, Inl (Internal, ''failed to save registry: '' @ e))
                        | None \<Rightarrow> (s, Inr (projectToProto proj))))))"

definition project_Remove :: "project_io \<Rightarrow> string \<Rightarrow> project_srv \<Rightarrow> project_srv \<times> (rpc_error + unit)" where
  "project_Remove io k s =
     (if k = [] then (s, Inl (InvalidArgument, ''project_id is required''))
      else case reg_Get (ps_registry s) k of
        None \<Rightarrow> (s, Inl (NotFound, ''project not found''))
      | Some proj \<Rightarrow>
          let s = s\<lparr>ps_registry := fst (reg_Remove k (ps_registry s))\<rparr>;
              s = save_state io (s\<lparr>ps_state := ds_AddRemoved (pj_Path proj) (ps_state s)\<rparr>);
              (s, err) = save_registry io s
          in (case err of
                Some e \<Rightarrow> (s, Inl (Internal, ''failed to save registry: '' @ e))
              | None \<Rightarrow> (s, Inr ())))"

definition project_Discover ::
  "project_io \<Rightarrow> string list \<Rightarrow> int \<Rightarrow> project_srv \<Rightarrow> project_srv \<times> (rpc_error + pb_project list \<times> nat)" where
  "project_Discover io directories maxDepth s =
     (let (d, discovered, scanned) =
            Discover (pio_env io) (Projects (ps_config s)) directories maxDepth (ps_detector s);
          s = s\<lparr>ps_detector := d\<rparr>;
          (st, changed) = (if directories = [] then (ps_state s, False)
                           else ds_AddScanRoots (pv_fs (pio_env io)) directories (ps_state s));
          s = (if changed then save_state io (s\<lparr>ps_state := st\<rparr>) else s);
          discovered = ds_FilterRemoved discovered (ps_state s);
          (s, err) =
            save_registry io (s\<lparr>ps_registry := fst (reg_MergeDiscovered discovered (ps_registry s))\<rparr>)
      in (case err of
            Some e \<Rightarrow> (s, Inl (Internal, ''failed to save registry: '' @ e))
          | None \<Rightarrow> (s, Inr (map projectToProto discovered, scanned))))"

definition project_GetTools ::
  "project_io \<Rightarrow> string \<Rightarrow> project_srv \<Rightarrow> project_srv \<times> (rpc_error + string list)" where
  "project_GetTools io k s =
     (if k = [] then (s, Inl (InvalidArgument, ''project_id is required''))
      else case reg_Get (ps_registry s) k of
        None \<Rightarrow> (s, Inl (NotFound, ''project not found''))
      | Some proj \<Rightarrow>
          let (d, detected) = detect_project (pio_env io) (pj_Path proj) (ps_detector s)
          in (s\<lparr>ps_detector := d\<rparr>, Inr detected))"

datatype project_req = PList bool | PAdd string string | PRemove string | PDiscover "string list" int
  | PGetTools string

fun project_handle :: "project_io \<Rightarrow> project_req \<Rightarrow> project_srv \<Rightarrow> project_srv" where
  "project_handle io (PList f) s = fst (project_List io f s)"
| "project_handle io (PAdd path name) s = fst (project_Add io path name s)"
| "project_handle io (PRemove k) s = fst (project_Remove io k s)"
| "project_handle io (PDiscover dirs depth) s = fst (project_Discover io dirs depth s)"
| "project_handle io (PGetTools k) s = fst (project_GetTools io k s)"

fun project_run :: "(project_io \<times> project_req) list \<Rightarrow> project_srv \<Rightarrow> project_srv" where
  "project_run [] s = s"
| "project_run ((io, req) # rs) s = project_run rs (project_handle io req s)"

section \<open>The invariant\<close>

text \<open>
  A registered project is kept under the id of its path, the path is clean, and no tombstone names
  it. \<open>os.Stat("")\<close> fails, so the empty path is never scanned.
\<close>

definition good_project :: "(bytes \<Rightarrow> bytes) \<Rightarrow> project \<Rightarrow> bool" where
  "good_project sha p \<longleftrightarrow>
     pj_ID p = generateProjectID sha (pj_Path p) \<and> clean_path (pj_Path p) = pj_Path p"

definition psrv_inv :: "(bytes \<Rightarrow> bytes) \<Rightarrow> project_srv \<Rightarrow> bool" where
  "psrv_inv sha s \<longleftrightarrow> reg_wf (ps_registry s)
     \<and> (\<forall>k p. reg_Get (ps_registry s) k = Some p \<longrightarrow>
          good_project sha p \<and> \<not> tombstoned (ps_state s) (pj_Path p))"

definition pio_ok :: "(bytes \<Rightarrow> bytes) \<Rightarrow> project_io \<Rightarrow> bool" where
  "pio_ok sha io \<longleftrightarrow> pv_sha256 (pio_env io) = sha \<and> fs_stat (pv_fs (pio_env io)) [] \<noteq> StatDir"

lemma psrv_invI:
  "reg_wf (ps_registry s) \<Longrightarrow>
   (\<And>k p. reg_Get (ps_registry s) k = Some p \<Longrightarrow> good_project sha p \<and> \<not> tombstoned (ps_state s) (pj_Path p))
   \<Longrightarrow> psrv_inv sha s"
  by (simp add: psrv_inv_def)

lemma psrv_invD:
  assumes "psrv_inv sha s"
  shows "reg_wf (ps_registry s)"
    and "reg_Get (ps_registry s) k = Some p \<Longrightarrow>
      good_project sha p \<and> \<not> tombstoned (ps_state s) (pj_Path p) \<and> pj_ID p = k"
  using assms reg_ks.lookup_key unfolding psrv_inv_def by blast+

lemma psrv_inv_cong:
  "ps_registry s' = ps_registry s \<Longrightarrow> ps_state s' = ps_state s \<Longrightarrow> psrv_inv sha s' = psrv_inv sha s"
  by (simp add: psrv_inv_def)

lemma save_simps [simp]:
  "ps_registry (save_state io s) = ps_registry s" "ps_state (save_state io s) = ps_state s"
  "ps_registry (fst (save_registry io s)) = ps_registry s" "ps_state (fst (save_registry io s)) = ps_state s"
  by (simp_all add: save_state_def save_registry_def split: prod.split)

lemma path_below_clean: "dir \<noteq> [] \<Longrightarrow> ns \<noteq> [] \<Longrightarrow> clean_path (path_below dir ns) = path_below dir ns"
proof (induction ns rule: rev_induct)
  case (snoc n ns)
  have "path_below dir ns \<noteq> []"
  proof (cases "ns = []")
    case False
    with snoc have "clean_path (path_below dir ns) = path_below dir ns" by simp
    moreover have "clean_path [] \<noteq> []" by code_simp
    ultimately show ?thesis by metis
  qed (simp add: path_below_def snoc)
  then show ?case by (simp add: path_below_def join_paths_2 clean_path_idem)
qed simp

lemma Discover_good:
  assumes "pio_ok sha io" and "Discover (pio_env io) c dirs depth d = (d', ps, n)" and "p \<in> set ps"
  shows "good_project sha p"
proof -
  let ?root = "expandHome (pv_fs (pio_env io))"
  have "pj_Path p \<in> pj_Path ` set ps" using assms(3) by simp
  then obtain root ns where p: "fs_stat (pv_fs (pio_env io)) (?root root) = StatDir" "ns \<noteq> []"
      "pj_Path p = path_below (?root root) ns"
    using discover_exact [of "pio_env io" c dirs depth d] unfolding assms(2) Let_def prod.case found_under_def by blast
  have "?root root \<noteq> []" using p(1) assms(1) by (metis pio_ok_def)
  then have "clean_path (pj_Path p) = pj_Path p" using p(2,3) by (simp add: path_below_clean)
  moreover have "new_project (pio_env io) p"
    using discover_exact [of "pio_env io" c dirs depth d] assms(3) unfolding assms(2) Let_def prod.case
    by (simp add: list_all_iff)
  ultimately show ?thesis using assms(1) by (simp add: good_project_def new_project_def pio_ok_def)
qed

lemma clean_path_not_Nil: "clean_path p \<noteq> []"
proof -
  have "clean_path [] \<noteq> []" by code_simp
  then show ?thesis using clean_path_idem [of p] by metis
qed

lemma clean_path_join: "q \<noteq> [] \<Longrightarrow> clean_path (join_paths [p, q]) = join_paths [p, q]"
  by (simp add: join_paths_def clean_path_idem)

lemma abs_path_clean: "abs_path fs (clean_path p) = Inr q \<Longrightarrow> clean_path q = q"
  by (auto simp: abs_path_def clean_path_idem clean_path_not_Nil clean_path_join split: if_splits sum.splits)

definition added_path :: "project_io \<Rightarrow> string \<Rightarrow> string option" where
  "added_path io path =
     (case add_path io path of
        Inl _ \<Rightarrow> None
      | Inr p \<Rightarrow>
          (case abs_path (pv_fs (pio_env io)) (clean_path (expandHome (pv_fs (pio_env io)) p)) of
             Inl _ \<Rightarrow> None | Inr q \<Rightarrow> Some q))"

lemma CreateFromPath_good:
  assumes "add_path io path = Inr p" and "CreateFromPath (pio_env io) p name d = (d', Inr proj)" and "pio_ok sha io"
  shows "added_path io path = Some (pj_Path proj)" and "good_project sha proj"
  using assms abs_path_clean
  by (auto simp: CreateFromPath_def added_path_def good_project_def pio_ok_def Let_def
      split: sum.splits stat_result.splits prod.splits)

lemma inv_merge:
  assumes "psrv_inv sha s"
    and "\<And>p. p \<in> set found \<Longrightarrow> good_project sha p \<and> \<not> tombstoned (ps_state s) (pj_Path p)"
  shows "psrv_inv sha (s\<lparr>ps_registry := fst (reg_MergeDiscovered found (ps_registry s))\<rparr>)"
proof (rule psrv_invI)
  show "reg_wf (ps_registry (s\<lparr>ps_registry := fst (reg_MergeDiscovered found (ps_registry s))\<rparr>))"
    using psrv_invD(1) [OF assms(1)] by (simp add: reg_wf_Merge)
  fix k p
  assume "reg_Get (ps_registry (s\<lparr>ps_registry := fst (reg_MergeDiscovered found (ps_registry s))\<rparr>)) k = Some p"
  then have "reg_Get (ps_registry s) k = Some p \<or> p \<in> set found"
    by (auto simp: reg_Get_Merge find_Some_iff split: option.splits)
  then show "good_project sha p
    \<and> \<not> tombstoned (ps_state (s\<lparr>ps_registry := fst (reg_MergeDiscovered found (ps_registry s))\<rparr>)) (pj_Path p)"
    using psrv_invD(2) [OF assms(1)] assms(2) by auto
qed

lemma found_ok:
  assumes "pio_ok sha io" and "Discover (pio_env io) c dirs depth d = (d', ps, n)"
    and "p \<in> set (ds_FilterRemoved ps st)"
  shows "good_project sha p \<and> \<not> tombstoned st (pj_Path p)"
proof -
  from FilterRemoved_not_tombstoned [OF assms(3)]
  have "p \<in> set ps" and t: "\<not> tombstoned st (clean_path (pj_Path p))" by simp_all
  from Discover_good [OF assms(1,2) this(1)] have "good_project sha p" .
  with t show ?thesis by (simp add: good_project_def)
qed

text \<open>The two halves of a rescan, and the rescan as a whole.\<close>

lemma rescan_find_simps:
  assumes "rescan_find io s = (s', found)"
  shows "ps_registry s' = ps_registry s \<and> ps_state s' = ps_state s"
  using assms by (auto simp: rescan_find_def Let_def split: prod.splits)

lemma rescan_found_ok:
  assumes "pio_ok sha io" and "rescan_find io s = (s', found)" and "p \<in> set found"
  shows "good_project sha p \<and> \<not> tombstoned (ps_state s) (pj_Path p)"
  using assms(2,3) found_ok [OF assms(1)] by (auto simp: rescan_find_def Let_def split: prod.splits)

lemma rescan_merge_simps:
  "ps_registry (rescan_merge io found s) = fst (reg_MergeDiscovered found (ps_registry s))"
  "ps_state (rescan_merge io found s) = ps_state s"
  by (simp_all add: rescan_merge_def Let_def split: prod.split)

lemma maybeRescan_inv:
  assumes "psrv_inv sha s" and "pio_ok sha io"
  shows "psrv_inv sha (maybeRescan io s) \<and> ps_state (maybeRescan io s) = ps_state s"
proof -
  let ?s = "s\<lparr>ps_lastRescan := pv_now (pio_env io)\<rparr>"
  obtain s' found where f: "rescan_find io ?s = (s', found)" by fastforce
  note eq = rescan_find_simps [OF f]
  have "psrv_inv sha s'" using assms(1) eq by (simp add: psrv_inv_def)
  then have "psrv_inv sha (s'\<lparr>ps_registry := fst (reg_MergeDiscovered found (ps_registry s'))\<rparr>)"
    using rescan_found_ok [OF assms(2) f] eq by (intro inv_merge) simp_all
  then have "psrv_inv sha (rescan_merge io found s')"
    by (simp add: psrv_inv_def rescan_merge_simps)
  with assms(1) eq f show ?thesis by (simp add: maybeRescan_def Let_def rescan_merge_simps)
qed

section \<open>Every request keeps the invariant and the tombstones\<close>

lemma project_Remove_inv:
  assumes "psrv_inv sha s"
  shows "psrv_inv sha (fst (project_Remove io k s))"
proof (cases "k = [] \<or> reg_Get (ps_registry s) k = None")
  case False
  then obtain p where p: "reg_Get (ps_registry s) k = Some p" and k: "k \<noteq> []" by auto
  note wf = psrv_invD(1) [OF assms]
  let ?r = "fst (reg_Remove k (ps_registry s))" and ?st = "ds_AddRemoved (pj_Path p) (ps_state s)"
  have "psrv_inv sha (s\<lparr>ps_registry := ?r, ps_state := ?st\<rparr>)"
  proof (rule psrv_invI)
    show "reg_wf (ps_registry (s\<lparr>ps_registry := ?r, ps_state := ?st\<rparr>))" using wf by (simp add: reg_ks.wf_remove)
    fix k' q assume "reg_Get (ps_registry (s\<lparr>ps_registry := ?r, ps_state := ?st\<rparr>)) k' = Some q"
    then have q: "k' \<noteq> k" "reg_Get (ps_registry s) k' = Some q"
      by (auto simp: reg_ks.lookup_remove [OF wf] split: if_splits)
    note gp = psrv_invD(2) [OF assms p] and gq = psrv_invD(2) [OF assms q(2)]
    have "pj_Path q \<noteq> pj_Path p"
    proof
      assume "pj_Path q = pj_Path p"
      then have "pj_ID q = pj_ID p" using gp gq by (simp add: good_project_def)
      then show False using gp gq q(1) by blast
    qed
    then show "good_project sha q \<and> \<not> tombstoned (ps_state (s\<lparr>ps_registry := ?r, ps_state := ?st\<rparr>)) (pj_Path q)"
      using gp gq by (simp add: good_project_def)
  qed
  moreover have "fst (project_Remove io k s) =
      fst (save_registry io (save_state io (s\<lparr>ps_registry := ?r, ps_state := ?st\<rparr>)))"
    using k by (simp add: project_Remove_def p Let_def split: prod.split option.split)
  ultimately show ?thesis by (simp add: psrv_inv_def)
qed (auto simp: project_Remove_def assms)

lemma project_Add_inv:
  assumes "psrv_inv sha s" and "pio_ok sha io"
  shows "psrv_inv sha (fst (project_Add io path name s))
    \<and> (added_path io path \<noteq> Some P \<longrightarrow> tombstoned (ps_state s) P \<longrightarrow>
         tombstoned (ps_state (fst (project_Add io path name s))) P)"
proof (cases "add_path io path")
  case (Inr p)
  obtain d r where c: "CreateFromPath (pio_env io) p name (ps_detector s) = (d, r)" by fastforce
  show ?thesis
  proof (cases r)
    case Inl: (Inl e)
    show ?thesis using assms(1) by (simp add: project_Add_def Inr c Inl psrv_inv_def)
  next
    case r: (Inr proj)
    note good = CreateFromPath_good [OF Inr c [unfolded r] assms(2)]
    show ?thesis
    proof (cases "reg_Get (ps_registry s) (pj_ID proj)")
      case (Some existing)
      then show ?thesis using assms(1) by (simp add: project_Add_def Inr c r psrv_inv_def)
    next
      case None
      let ?s' = "fst (project_Add io path name s)"
      obtain st cleared where cl: "ds_ClearRemoved (pj_Path proj) (ps_state s) = (st, cleared)" by fastforce
      then have same: "\<not> cleared \<Longrightarrow> st = ps_state s"
        by (simp add: ds_ClearRemoved_def Let_def split: if_splits)
      let ?s1 = "if cleared then save_state io (s\<lparr>ps_detector := d, ps_state := st\<rparr>) else s\<lparr>ps_detector := d\<rparr>"
      have "?s' = fst (save_registry io (?s1\<lparr>ps_registry := reg_Add proj (ps_registry ?s1)\<rparr>))"
        by (simp only: project_Add_def Inr c r sum.case prod.case Let_def)
           (simp add: None cl split: prod.split option.split)
      then have s': "ps_registry ?s' = reg_Add proj (ps_registry s)"
        "ps_state ?s' = fst (ds_ClearRemoved (pj_Path proj) (ps_state s))"
        using same by (cases cleared; simp add: cl)+
      note wf = psrv_invD(1) [OF assms(1)]
      have "psrv_inv sha ?s'"
      proof (rule psrv_invI)
        show "reg_wf (ps_registry ?s')" using wf by (simp add: s' reg_ks.wf_put)
        fix k q assume "reg_Get (ps_registry ?s') k = Some q"
        then have "q = proj \<or> reg_Get (ps_registry s) k = Some q"
          by (auto simp: s' reg_ks.lookup_put [OF wf] split: if_splits)
        then show "good_project sha q \<and> \<not> tombstoned (ps_state ?s') (pj_Path q)"
          using good(2) psrv_invD(2) [OF assms(1)] by (auto simp: s' good_project_def)
      qed
      then show ?thesis using good by (auto simp: s' good_project_def)
    qed
  qed
qed (simp add: project_Add_def assms)

lemma project_Discover_inv:
  assumes "psrv_inv sha s" and "pio_ok sha io"
  shows "psrv_inv sha (fst (project_Discover io dirs depth s))
    \<and> tombstoned (ps_state (fst (project_Discover io dirs depth s))) P = tombstoned (ps_state s) P"
proof -
  obtain d ps n where f: "Discover (pio_env io) (Projects (ps_config s)) dirs depth (ps_detector s) = (d, ps, n)"
    by (metis prod_cases3)
  let ?s' = "fst (project_Discover io dirs depth s)"
  let ?st = "if dirs = [] then ps_state s else fst (ds_AddScanRoots (pv_fs (pio_env io)) dirs (ps_state s))"
  have unchanged: "fst (ds_AddScanRoots fs ds st) = st" if "\<not> snd (ds_AddScanRoots fs ds st)" for fs ds st
    using that by (induction fs ds st rule: ds_AddScanRoots.induct) (auto simp: Let_def split: if_splits)
  have s': "ps_state ?s' = ?st"
    "ps_registry ?s' = fst (reg_MergeDiscovered (ds_FilterRemoved ps ?st) (ps_registry s))"
    using unchanged [of "pv_fs (pio_env io)" dirs "ps_state s"]
    by (auto simp: project_Discover_def f Let_def save_registry_def split: prod.split option.split)
  have t: "tombstoned ?st q = tombstoned (ps_state s) q" for q by simp
  have "psrv_inv sha (s\<lparr>ps_registry := fst (reg_MergeDiscovered (ds_FilterRemoved ps ?st) (ps_registry s))\<rparr>)"
  proof (rule inv_merge [OF assms(1)])
    fix p assume "p \<in> set (ds_FilterRemoved ps ?st)"
    from found_ok [OF assms(2) f this] show "good_project sha p \<and> \<not> tombstoned (ps_state s) (pj_Path p)"
      unfolding t .
  qed
  then show ?thesis by (simp add: psrv_inv_def s')
qed

lemma project_handle_inv:
  assumes "psrv_inv sha s" and "pio_ok sha io"
  shows "psrv_inv sha (project_handle io req s)"
    and "tombstoned (ps_state s) P \<Longrightarrow> (\<And>path name. req = PAdd path name \<Longrightarrow> added_path io path \<noteq> Some P)
      \<Longrightarrow> tombstoned (ps_state (project_handle io req s)) P"
proof (atomize (full), cases req)
  case (PList f)
  then show "psrv_inv sha (project_handle io req s) \<and> (tombstoned (ps_state s) P \<longrightarrow>
      (\<forall>path name. req = PAdd path name \<longrightarrow> added_path io path \<noteq> Some P) \<longrightarrow>
      tombstoned (ps_state (project_handle io req s)) P)"
    using maybeRescan_inv [OF assms] by (simp add: project_List_def Let_def)
next
  case (PAdd path name)
  then show "psrv_inv sha (project_handle io req s) \<and> (tombstoned (ps_state s) P \<longrightarrow>
      (\<forall>path name. req = PAdd path name \<longrightarrow> added_path io path \<noteq> Some P) \<longrightarrow>
      tombstoned (ps_state (project_handle io req s)) P)"
    using project_Add_inv [OF assms, of path name P] by simp
next
  case (PRemove k)
  have "tombstoned (ps_state s) P \<Longrightarrow> tombstoned (ps_state (fst (project_Remove io k s))) P"
    by (simp add: project_Remove_def Let_def save_registry_def split: prod.split option.split)
  with PRemove show "psrv_inv sha (project_handle io req s) \<and> (tombstoned (ps_state s) P \<longrightarrow>
      (\<forall>path name. req = PAdd path name \<longrightarrow> added_path io path \<noteq> Some P) \<longrightarrow>
      tombstoned (ps_state (project_handle io req s)) P)"
    using project_Remove_inv [OF assms(1)] by simp
next
  case (PDiscover dirs depth)
  then show "psrv_inv sha (project_handle io req s) \<and> (tombstoned (ps_state s) P \<longrightarrow>
      (\<forall>path name. req = PAdd path name \<longrightarrow> added_path io path \<noteq> Some P) \<longrightarrow>
      tombstoned (ps_state (project_handle io req s)) P)"
    using project_Discover_inv [OF assms, of dirs depth P] by simp
next
  case (PGetTools k)
  then show "psrv_inv sha (project_handle io req s) \<and> (tombstoned (ps_state s) P \<longrightarrow>
      (\<forall>path name. req = PAdd path name \<longrightarrow> added_path io path \<noteq> Some P) \<longrightarrow>
      tombstoned (ps_state (project_handle io req s)) P)"
    using assms(1) by (auto simp: project_GetTools_def psrv_inv_def split: option.split prod.split)
qed

lemma project_run_inv:
  assumes "psrv_inv sha s" and "tombstoned (ps_state s) P"
    and "\<forall>(io, req) \<in> set later. pio_ok sha io
      \<and> (\<forall>path name. req = PAdd path name \<longrightarrow> added_path io path \<noteq> Some P)"
  shows "psrv_inv sha (project_run later s) \<and> tombstoned (ps_state (project_run later s)) P"
  using assms
proof (induction later s rule: project_run.induct)
  case (2 io req rs s)
  then have "psrv_inv sha (project_handle io req s)" "tombstoned (ps_state (project_handle io req s)) P"
    using project_handle_inv [where sha = sha and s = s and io = io and req = req] by auto
  with 2 show ?case by simp
qed simp

lemma project_Remove_tombstone:
  assumes "reg_Get (ps_registry s) k = Some p" and "k \<noteq> []"
  shows "ps_state (fst (project_Remove io k s)) = ds_AddRemoved (pj_Path p) (ps_state s)"
    and "pio_state io = SaveOk \<Longrightarrow> \<exists>roots removed.
      ps_statefile (fst (project_Remove io k s)) = DFile roots removed \<and> json_str (clean_path (pj_Path p)) \<in> set removed"
proof -
  have eq: "fst (project_Remove io k s) = fst (save_registry io (save_state io
      (s\<lparr>ps_registry := fst (reg_Remove k (ps_registry s)),
         ps_state := ds_AddRemoved (pj_Path p) (ps_state s)\<rparr>)))"
    using assms by (simp add: project_Remove_def Let_def split: prod.split option.split)
  then show "ps_state (fst (project_Remove io k s)) = ds_AddRemoved (pj_Path p) (ps_state s)" by simp
  assume io: "pio_state io = SaveOk"
  have "ps_statefile (fst (save_registry io s')) = ps_statefile s'" for s'
    by (simp add: save_registry_def split: prod.split)
  then show "\<exists>roots removed. ps_statefile (fst (project_Remove io k s)) = DFile roots removed
      \<and> json_str (clean_path (pj_Path p)) \<in> set removed"
    unfolding eq by (simp add: save_state_def ds_Save_def io ds_AddRemoved_def)
qed

text \<open>
  C25: a project the user removed stays removed. After a successful \<open>Remove\<close>, whatever lists, rescans,
  discoveries (also of its own directory), additions and removals follow, no project with that path
  is registered again until an \<open>Add\<close> names that very path; and when the state was saved, the path is
  in the file that the next start of the daemon reads.
\<close>
theorem removed_projects_stay_removed:
  assumes "psrv_inv sha s" and "reg_Get (ps_registry s) k = Some p" and "k \<noteq> []"
    and "\<forall>(io, req) \<in> set later. pio_ok sha io
      \<and> (\<forall>path name. req = PAdd path name \<longrightarrow> added_path io path \<noteq> Some (pj_Path p))"
  shows "(\<forall>k' q. reg_Get (ps_registry (project_run later (fst (project_Remove io k s)))) k' = Some q
        \<longrightarrow> pj_Path q \<noteq> pj_Path p)
    \<and> (pio_state io = SaveOk \<longrightarrow> (\<exists>roots removed.
         ps_statefile (fst (project_Remove io k s)) = DFile roots removed \<and> json_str (pj_Path p) \<in> set removed))"
proof -
  let ?s = "fst (project_Remove io k s)"
  have clean: "clean_path (pj_Path p) = pj_Path p"
    using psrv_invD(2) [OF assms(1,2)] by (simp add: good_project_def)
  have "tombstoned (ps_state ?s) (pj_Path p)"
    by (simp add: project_Remove_tombstone(1) [OF assms(2,3)] clean)
  from project_run_inv [OF project_Remove_inv [OF assms(1)] this assms(4)]
  have inv: "psrv_inv sha (project_run later ?s)" and t: "tombstoned (ps_state (project_run later ?s)) (pj_Path p)"
    by simp_all
  from t psrv_invD(2) [OF inv] project_Remove_tombstone(2) [OF assms(2,3), of io] show ?thesis
    unfolding clean by metis
qed

section \<open>A scan that meets a removal\<close>

text \<open>A directory \<open>/r\<close> with one repository \<open>/r/p\<close>, and a server that has it registered.\<close>

definition ex_fs :: fsys where
  "ex_fs = \<lparr>fs_stat = (\<lambda>x. if x \<in> {''/r'', ''/r/p'', ''/r/p/.git''} then StatDir else StatError ''no such file''),
     fs_readdir = (\<lambda>x. if x = ''/r'' then Some [(''p'', True)] else None),
     fs_home = ''/r'', fs_cwd = Inr ''/''\<rparr>"

definition ex_io :: project_io where
  "ex_io = \<lparr>pio_env = \<lparr>pv_fs = ex_fs, pv_sha256 = (\<lambda>b. ''0''),
       pv_probe = \<lparr>pe_LookPath = (\<lambda>c. False), pe_shell = [], pe_run = (\<lambda>s args. ExitNonZero)\<rparr>,
       pv_order = [], pv_now = 5\<rparr>,
     pio_home = Inr ''/r'', pio_reg = SaveOk, pio_state = SaveOk, pio_quote = (\<lambda>s. s)\<rparr>"

definition ex_project :: project where
  "ex_project = \<lparr>pj_ID = ''30'', pj_Name = ''p'', pj_Path = ''/r/p'', pj_DetectedTools = [],
     pj_LastAccessed = 0, pj_IsFavorite = False\<rparr>"

definition ex_srv :: project_srv where
  "ex_srv =
     (let c = (DefaultConfig ''/h'')\<lparr>Tools := [], Projects := \<lparr>ScanDirectories = [''/r''], MaxDepth = 1, Exclude = []\<rparr>\<rparr> in
     \<lparr>ps_config = c, ps_registry = reg_Add ex_project (NewRegistry ''/d''), ps_state = NewDiscoveryState ''/d'',
      ps_detector = NewDetector c, ps_lastRescan = 0, ps_regfile = NoFile, ps_statefile = DNoFile\<rparr>)"

lemma ex_ok: "pio_ok (\<lambda>b. ''0'') ex_io"
  by (simp add: pio_ok_def ex_io_def ex_fs_def)

lemma ex_good: "good_project (\<lambda>b. ''0'') ex_project"
proof -
  have "clean_path ''/r/p'' = ''/r/p''" "generateProjectID (\<lambda>b. ''0'') ''/r/p'' = ''30''" by code_simp+
  then show ?thesis by (simp add: good_project_def ex_project_def)
qed

lemma ex_get: "reg_Get (ps_registry ex_srv) k = (if k = ''30'' then Some ex_project else None)"
  by (simp add: ex_srv_def Let_def reg_ks.lookup_put reg_ks.wf_empty reg_ks.lookup_empty) (simp add: ex_project_def)

lemma ex_inv: "psrv_inv (\<lambda>b. ''0'') ex_srv"
proof (rule psrv_invI)
  show "reg_wf (ps_registry ex_srv)" by (simp add: ex_srv_def Let_def reg_ks.wf_put reg_ks.wf_empty)
  fix k p assume "reg_Get (ps_registry ex_srv) k = Some p"
  then have "p = ex_project" by (simp add: ex_get split: if_splits)
  then show "good_project (\<lambda>b. ''0'') p \<and> \<not> tombstoned (ps_state ex_srv) (pj_Path p)"
    using ex_good by (simp add: ex_srv_def tombstoned_def NewDiscoveryState_def Let_def)
qed

lemma ex_find: "snd (rescan_find ex_io ex_srv) = [ex_project]"
  by code_simp

lemma removed_projects_stay_removed_witness:
  "snd (rescan_find ex_io ex_srv) = [ex_project]
   \<and> reg_Get (ps_registry (project_run [(ex_io, PDiscover [''/r''] 3)] (fst (project_Remove ex_io ''30'' ex_srv)))) ''30'' \<noteq>
     Some ex_project"
proof -
  have get: "reg_Get (ps_registry ex_srv) ''30'' = Some ex_project" by (simp add: ex_get)
  have "\<forall>(io, req) \<in> set [(ex_io, PDiscover [''/r''] 3)]. pio_ok (\<lambda>b. ''0'') io
      \<and> (\<forall>path name. req = PAdd path name \<longrightarrow> added_path io path \<noteq> Some (pj_Path ex_project))"
    by (simp add: ex_ok)
  from removed_projects_stay_removed [OF ex_inv get _ this, of ex_io]
  have "\<forall>k' q. reg_Get (ps_registry (project_run [(ex_io, PDiscover [''/r''] 3)] (fst (project_Remove ex_io ''30'' ex_srv)))) k' = Some q
        \<longrightarrow> pj_Path q \<noteq> pj_Path ex_project" by simp
  then show ?thesis using ex_find by blast
qed

text \<open>
  C26: a removal that falls into a running rescan is undone. If \<open>Remove\<close> runs between the moment the
  rescan has filtered its finds by the tombstones and the moment it merges them, the removed
  project is registered again, although its tombstone is there.
\<close>
theorem rescan_restores_removed:
  "\<exists>sha io s k p s1 found. psrv_inv sha s \<and> pio_ok sha io \<and> reg_Get (ps_registry s) k = Some p
     \<and> rescan_find io s = (s1, found)
     \<and> (let s2 = fst (project_Remove io k s1); s3 = rescan_merge io found s2
        in snd (project_Remove io k s1) = Inr () \<and> reg_Get (ps_registry s2) k = None
          \<and> reg_Get (ps_registry s3) k = Some p \<and> tombstoned (ps_state s3) (pj_Path p))"
proof -
  obtain s1 where f: "rescan_find ex_io ex_srv = (s1, [ex_project])" using ex_find by (metis prod.collapse)
  note eq = rescan_find_simps [OF f]
  have get: "reg_Get (ps_registry s1) ''30'' = Some ex_project" by (simp add: eq ex_get)
  let ?s2 = "fst (project_Remove ex_io ''30'' s1)"
  have wf: "reg_wf (ps_registry s1)" using psrv_invD(1) [OF ex_inv] by (simp add: eq)
  have rm: "ps_registry ?s2 = fst (reg_Remove ''30'' (ps_registry s1))" "snd (project_Remove ex_io ''30'' s1) = Inr ()"
    by (simp_all add: project_Remove_def get Let_def save_registry_def reg_Save_def write_store_def ex_io_def
        save_state_def split: prod.split option.split)
  have none: "reg_Get (ps_registry ?s2) ''30'' = None" by (simp add: rm reg_ks.lookup_remove [OF wf])
  have "reg_Get (ps_registry (rescan_merge ex_io [ex_project] ?s2)) ''30'' = Some ex_project"
    by (simp add: rescan_merge_simps reg_Get_Merge none ex_project_def del: reg_MergeDiscovered.simps)
  moreover have "clean_path (pj_Path ex_project) = pj_Path ex_project" using ex_good by (simp add: good_project_def)
  then have "tombstoned (ps_state (rescan_merge ex_io [ex_project] ?s2)) (pj_Path ex_project)"
    by (simp add: rescan_merge_simps project_Remove_tombstone(1) [OF get])
  ultimately show ?thesis
    using ex_inv ex_ok ex_get f none rm(2) by (intro exI) (auto simp: Let_def)
qed

end
