(* ===== verification/Procscan.thy ===== *)
theory Procscan
  imports Session "HOL-Library.Product_Lexorder"
begin

text \<open>
  Discovery of AI tool processes outside the daemon: \<open>internal/procscan/procscan.go\<close> and its Linux
  half \<open>procscan_linux.go\<close>. The files under \<open>/proc\<close> are an argument; Go maps from process ids are
  association lists in the order the table was read.
\<close>

record proc_info =
  pi_ppid :: int
  pi_startedAt :: time
  pi_argv :: "string list"

record external_session =
  es_PID :: int
  es_Tool :: string
  es_WorkingDir :: string
  es_StartedAt :: time
  es_Command :: string

text \<open>What \<open>/proc\<close> holds: \<open>None\<close> where reading fails.\<close>

record proc_fs =
  pf_entries :: "string list option"
  pf_stat :: "int \<Rightarrow> string option"
  pf_cmdline :: "int \<Rightarrow> bytes option"
  pf_cwd :: "int \<Rightarrow> string option"
  pf_kernel_stat :: "string option"

section \<open>Reading /proc\<close>

text \<open>\<open>strings.Fields\<close>.\<close>

fun fields_from :: "(nat \<times> bytes) list \<Rightarrow> bytes \<Rightarrow> bytes list" where
  "fields_from [] cur = (if cur = [] then [] else [cur])"
| "fields_from ((r, b) # rs) cur =
     (if is_space r then (if cur = [] then [] else [cur]) @ fields_from rs []
      else fields_from rs (cur @ b))"

definition go_fields :: "string \<Rightarrow> string list" where
  "go_fields s = fields_from (segments s) []"

text \<open>\<open>strconv.ParseUint(s, 10, 64)\<close>.\<close>

definition parse_uint64 :: "string \<Rightarrow> nat option" where
  "parse_uint64 s = (case atoi_unsigned s of Some n \<Rightarrow> if n < 2 ^ 64 then Some n else None | None \<Rightarrow> None)"

text \<open>What follows the last \<open>)\<close>, if there is one.\<close>

definition after_last_paren :: "string \<Rightarrow> string option" where
  "after_last_paren s =
     (if CHR '')'' \<in> set s then Some (rev (takeWhile (\<lambda>c. c \<noteq> CHR '')'') (rev s))) else None)"

definition parseStatData :: "string \<Rightarrow> (int \<times> nat) option" where
  "parseStatData s =
     (case after_last_paren s of
        None \<Rightarrow> None
      | Some rest \<Rightarrow>
          let fs = go_fields rest in
          if length fs < 20 then None
          else (case atoi (fs ! 1) of
                  None \<Rightarrow> None
                | Some ppid \<Rightarrow>
                    (case parse_uint64 (fs ! 19) of None \<Rightarrow> None | Some t \<Rightarrow> Some (ppid, t))))"

definition parseStat :: "proc_fs \<Rightarrow> int \<Rightarrow> (int \<times> nat) option" where
  "parseStat pf pid = (case pf_stat pf pid of None \<Rightarrow> None | Some s \<Rightarrow> parseStatData s)"

definition NUL :: char where "NUL = CHR 0x00"

definition trim_nul :: "bytes \<Rightarrow> bytes" where
  "trim_nul s = rev (dropWhile (\<lambda>c. c = NUL) (rev s))"

text \<open>\<open>None\<close> is an error; a kernel thread has an empty command line and no arguments.\<close>

definition readArgv :: "proc_fs \<Rightarrow> int \<Rightarrow> string list option" where
  "readArgv pf pid =
     (case pf_cmdline pf pid of
        None \<Rightarrow> None
      | Some s \<Rightarrow> let parts = split_on NUL (trim_nul s) in Some (if parts = [[]] then [] else parts))"

definition userHZ :: nat where "userHZ = 100"

fun btime_line :: "string list \<Rightarrow> time option" where
  "btime_line [] = None"
| "btime_line (l # ls) =
     (case cut_prefix l ''btime '' of
        None \<Rightarrow> btime_line ls
      | Some rest \<Rightarrow> map_option (\<lambda>secs. (secs + 62135596800) * second) (atoi (trim_space rest)))"

definition bootTime :: "proc_fs \<Rightarrow> time" where
  "bootTime pf =
     (case pf_kernel_stat pf of
        None \<Rightarrow> 0
      | Some s \<Rightarrow> (case btime_line (split_on (CHR 0x0A) s) of None \<Rightarrow> 0 | Some t \<Rightarrow> t))"

definition BootTime :: "proc_fs \<Rightarrow> time \<times> bool" where
  "BootTime pf = (bootTime pf, \<not> is_zero (bootTime pf))"

text \<open>A duration is an \<open>int64\<close> of nanoseconds: the product wraps.\<close>

definition started_at :: "time \<Rightarrow> nat \<Rightarrow> time" where
  "started_at boot ticks =
     (if is_zero boot then 0
      else boot + sint (word_of_nat (ticks div userHZ) * word_of_int second :: 64 word))"

definition proc_entry :: "proc_fs \<Rightarrow> time \<Rightarrow> string \<Rightarrow> (int \<times> proc_info) option" where
  "proc_entry pf boot name =
     (case atoi name of
        None \<Rightarrow> None
      | Some pid \<Rightarrow>
          (case parseStat pf pid of
             None \<Rightarrow> None
           | Some (ppid, ticks) \<Rightarrow>
               Some (pid, \<lparr>pi_ppid = ppid, pi_startedAt = started_at boot ticks,
                           pi_argv = (case readArgv pf pid of None \<Rightarrow> [] | Some argv \<Rightarrow> argv)\<rparr>)))"

definition listProcesses :: "proc_fs \<Rightarrow> (int, proc_info) gomap" where
  "listProcesses pf =
     (case pf_entries pf of
        None \<Rightarrow> []
      | Some names \<Rightarrow> gput_all (List.map_filter (proc_entry pf (bootTime pf)) names) [])"

definition cwdFor :: "proc_fs \<Rightarrow> int list \<Rightarrow> (int, string) gomap" where
  "cwdFor pf pids =
     gput_all (List.map_filter (\<lambda>pid. map_option (Pair pid) (pf_cwd pf pid)) pids) []"

section \<open>Which tool a process runs\<close>

definition interpreters :: "string list" where
  "interpreters = [''node'', ''nodejs'', ''bun'', ''deno'', ''python'', ''python2'', ''python3'']"

definition maxCommandDisplay :: nat where "maxCommandDisplay = 160"

text \<open>The first argument that is no flag is the script.\<close>

fun script_tool :: "string list \<Rightarrow> string list \<Rightarrow> string" where
  "script_tool [] tools = []"
| "script_tool (arg # args) tools =
     (if has_prefix arg ''-'' then script_tool args tools
      else if base_name arg \<in> set tools then base_name arg else [])"

definition toolFromArgv :: "string list \<Rightarrow> string list \<Rightarrow> string" where
  "toolFromArgv argv tools =
     (case argv of
        [] \<Rightarrow> []
      | arg0 # args \<Rightarrow>
          if base_name arg0 \<in> set tools then base_name arg0
          else if base_name arg0 \<notin> set interpreters then []
          else script_tool args tools)"

fun cut_rune :: "nat \<Rightarrow> bytes \<Rightarrow> nat" where
  "cut_rune 0 s = 0"
| "cut_rune (Suc n) s = (if is_cont (s ! Suc n) then cut_rune n s else Suc n)"

definition displayCommand :: "string list \<Rightarrow> string" where
  "displayCommand argv =
     (let cmd = join_with '' '' argv;
          cmd = (if maxCommandDisplay < length cmd then take (cut_rune maxCommandDisplay cmd) cmd else cmd)
      in to_valid_utf8 cmd)"

section \<open>Ancestors\<close>

text \<open>The walk up the parents, at most 128 of them: a snapshot may hold a cycle.\<close>

fun walk_up :: "nat \<Rightarrow> int \<Rightarrow> (int \<Rightarrow> bool) \<Rightarrow> (int, int) gomap \<Rightarrow> bool" where
  "walk_up 0 pid stop ppids = False"
| "walk_up (Suc n) pid stop ppids =
     (case gget ppids pid of
        None \<Rightarrow> False
      | Some ppid \<Rightarrow> if ppid \<le> 1 then False else if stop ppid then True else walk_up n ppid stop ppids)"

definition hasMatchedAncestor :: "int \<Rightarrow> string \<Rightarrow> (int, string) gomap \<Rightarrow> (int, int) gomap \<Rightarrow> bool" where
  "hasMatchedAncestor pid tool matched ppids = walk_up 128 pid (\<lambda>q. gget matched q = Some tool) ppids"

definition isDescendant :: "int \<Rightarrow> int list \<Rightarrow> (int, int) gomap \<Rightarrow> bool" where
  "isDescendant pid roots ppids = (roots \<noteq> [] \<and> walk_up 128 pid (\<lambda>q. q \<in> set roots) ppids)"

section \<open>Scanning\<close>

definition match_tools :: "(int, proc_info) gomap \<Rightarrow> string list \<Rightarrow> (int, string) gomap" where
  "match_tools procs tools =
     List.map_filter (\<lambda>(pid, p).
       let tool = toolFromArgv (pi_argv p) tools in
       if pi_argv p = [] \<or> tool = [] then None else Some (pid, tool)) procs"

definition candidates ::
  "(int, string) gomap \<Rightarrow> int list \<Rightarrow> (int, int) gomap \<Rightarrow> int list" where
  "candidates matched roots ppids =
     map fst (filter (\<lambda>(pid, tool). \<not> isDescendant pid roots ppids
                \<and> \<not> hasMatchedAncestor pid tool matched ppids) matched)"

definition external_of ::
  "(int, proc_info) gomap \<Rightarrow> (int, string) gomap \<Rightarrow> (int, string) gomap \<Rightarrow> int \<Rightarrow> external_session option" where
  "external_of procs matched cwds pid =
     (case (gget cwds pid, gget matched pid, gget procs pid) of
        (Some cwd, Some tool, Some p) \<Rightarrow>
          Some \<lparr>es_PID = pid, es_Tool = tool, es_WorkingDir = to_valid_utf8 cwd,
                es_StartedAt = pi_startedAt p, es_Command = displayCommand (pi_argv p)\<rparr>
      | _ \<Rightarrow> None)"

text \<open>Newest first, then by process id: a total order on the sessions found.\<close>

definition Scan :: "proc_fs \<Rightarrow> string list \<Rightarrow> int list \<Rightarrow> external_session list" where
  "Scan pf tools excludeRoots =
     (let procs = listProcesses pf;
          ppids = map (\<lambda>(pid, p). (pid, pi_ppid p)) procs;
          matched = match_tools procs tools;
          pids = candidates matched excludeRoots ppids
      in sort_key (\<lambda>e. (- es_StartedAt e, es_PID e))
           (List.map_filter (external_of procs matched (cwdFor pf pids)) pids))"

section \<open>Killing\<close>

definition verifyTool :: "proc_fs \<Rightarrow> int \<Rightarrow> string \<Rightarrow> string list \<Rightarrow> string option" where
  "verifyTool pf pid tool tools =
     (case readArgv pf pid of
        None \<Rightarrow> Some (''process '' @ itoa pid @ '' not found'')
      | Some argv \<Rightarrow>
          if toolFromArgv argv tools \<noteq> tool
          then Some (''process '' @ itoa pid @ '' is not a '' @ tool @ '' process'') else None)"

text \<open>
  \<open>Kill\<close> with the processes as they are now (\<open>pf\<close>) and after the grace period (\<open>later\<close>), and the
  error of the system call, if any: the signals sent, and the result.
\<close>

definition ext_Kill ::
  "(string \<Rightarrow> string) \<Rightarrow> proc_fs \<Rightarrow> proc_fs \<Rightarrow> string option \<Rightarrow> int \<Rightarrow> string \<Rightarrow> string list
   \<Rightarrow> signals \<times> string option" where
  "ext_Kill quote pf later kill_err pid tool tools =
     (if pid \<le> 1 then ([], Some (''invalid pid: '' @ itoa pid))
      else if tool \<notin> set tools then ([], Some (''unknown tool: '' @ quote tool))
      else case verifyTool pf pid tool tools of
        Some e \<Rightarrow> ([], Some e)
      | None \<Rightarrow>
          (case kill_err of
             Some e \<Rightarrow> ([(pid, SIGTERM)], Some (''failed to signal process '' @ itoa pid @ '': '' @ e))
           | None \<Rightarrow>
               ((pid, SIGTERM) # (if verifyTool later pid tool tools = None then [(pid, SIGKILL)] else []),
                None)))"

section \<open>What the files of /proc say\<close>

definition plain_field :: "string \<Rightarrow> bool" where
  "plain_field f \<longleftrightarrow> f \<noteq> [] \<and> list_all (\<lambda>c. bval c < 128 \<and> \<not> is_space (bval c) \<and> c \<noteq> CHR '')'') f"

lemma fields_from_word:
  "list_all (\<lambda>c. \<not> is_space (bval c)) f \<Longrightarrow>
   fields_from (map (\<lambda>c. (bval c, [c])) f @ rs) cur = fields_from rs (cur @ f)"
  by (induction f arbitrary: cur) simp_all

lemma blank_is_space: "is_space (bval CHR '' '')"
  by (simp add: is_space_def bval_def)

lemma fields_from_join:
  assumes "list_all plain_field fs"
  shows "fields_from (map (\<lambda>c. (bval c, [c])) (join_with '' '' fs)) [] = fs"
  using assms
proof (induction "'' ''" fs rule: join_with.induct)
  case (2 x)
  then show ?case using fields_from_word [of x "[]" "[]"] by (simp add: plain_field_def list_all_iff)
next
  case (3 x y ys)
  have "list_all (\<lambda>c. \<not> is_space (bval c)) x" "x \<noteq> []"
    using "3.prems" by (auto simp: plain_field_def list_all_iff)
  with 3 show ?case by (simp add: fields_from_word blank_is_space)
qed simp

lemma join_ascii: "list_all plain_field fs \<Longrightarrow>
    list_all (\<lambda>c. bval c < 128) (join_with '' '' fs) \<and> CHR '')'' \<notin> set (join_with '' '' fs)"
  by (induction "'' ''" fs rule: join_with.induct) (auto simp: plain_field_def list_all_iff bval_def)

lemma go_fields_line:
  assumes "list_all plain_field fs"
  shows "go_fields ('' '' @ join_with '' '' fs) = fs"
proof -
  have "segments ('' '' @ join_with '' '' fs) = map (\<lambda>c. (bval c, [c])) ('' '' @ join_with '' '' fs)"
    using join_ascii [OF assms] by (intro segments_ascii) (simp add: bval_def)
  then show ?thesis using fields_from_join [OF assms] by (simp add: go_fields_def blank_is_space)
qed

lemma after_last_paren_line: "CHR '')'' \<notin> set y \<Longrightarrow> after_last_paren (x @ CHR '')'' # y) = Some y"
  by (auto simp: after_last_paren_def takeWhile_append)

lemma trim_nul_args:
  assumes "argv \<noteq> []" and "last argv \<noteq> []" and "\<forall>a \<in> set argv. NUL \<notin> set a"
  shows "trim_nul (concat (map (\<lambda>a. a @ [NUL]) argv)) = join_with [NUL] argv"
  using assms
proof (induction "[NUL]" argv rule: join_with.induct)
  case (2 x)
  then have "hd (rev x) \<noteq> NUL" by (metis hd_in_set last.simps rev_is_Nil_conv set_rev list.set_intros(1))
  with 2 show ?case by (cases "rev x") (auto simp: trim_nul_def)
next
  case (3 x y ys)
  let ?t = "concat (map (\<lambda>a. a @ [NUL]) (y # ys))"
  have IH: "trim_nul ?t = join_with [NUL] (y # ys)" using 3 by simp
  have "trim_nul (p @ t) = p @ trim_nul t" if "trim_nul t \<noteq> []" for p t
  proof -
    have "\<exists>c \<in> set (rev t). c \<noteq> NUL" using that by (auto simp: trim_nul_def dropWhile_eq_Nil_conv)
    then show ?thesis by (auto simp: trim_nul_def dropWhile_append)
  qed
  moreover have "join_with [NUL] (y # ys) \<noteq> []"
    using "3.prems" by (cases ys) auto
  ultimately show ?case using IH by (metis append.assoc concat.simps(2) join_with.simps(3) list.simps(9))
qed simp

lemma parseStat_line:
  assumes "list_all plain_field fs" and "20 \<le> length fs"
    and "fs ! 1 = itoa ppid" and "0 \<le> ppid" and "ppid < 2 ^ 63"
    and "fs ! 19 = itoa_nat ticks" and "ticks < 2 ^ 64"
    and "pf_stat pf pid = Some (itoa pid @ '' ('' @ comm @ '') '' @ join_with '' '' fs)"
  shows "parseStat pf pid = Some (ppid, ticks)"
proof -
  have "after_last_paren ((itoa pid @ '' ('' @ comm) @ CHR '')'' # ('' '' @ join_with '' '' fs))
      = Some ('' '' @ join_with '' '' fs)"
    using join_ascii [OF assms(1)] by (intro after_last_paren_line) auto
  then have "after_last_paren (itoa pid @ '' ('' @ comm @ '') '' @ join_with '' '' fs) = Some ('' '' @ join_with '' '' fs)"
    by simp
  then show ?thesis
    using assms(2-7) atoi_itoa [of ppid]
    by (simp add: parseStat_def assms(8) parseStatData_def go_fields_line [OF assms(1), simplified]
        parse_uint64_def)
qed

lemma readArgv_args:
  assumes "pf_cmdline pf pid = Some (concat (map (\<lambda>a. a @ [NUL]) argv))"
    and "argv \<noteq> []" and "last argv \<noteq> []" and "\<forall>a \<in> set argv. NUL \<notin> set a"
  shows "readArgv pf pid = Some argv"
proof -
  have "join_with [NUL] argv \<noteq> []" using assms(2,3) by (cases argv; cases "tl argv") auto
  moreover have "split_on NUL (join_with [NUL] argv) = argv" by (rule split_join [OF assms(2,4)])
  ultimately show ?thesis
    using trim_nul_args [OF assms(2-4)] assms(3) by (auto simp: readArgv_def assms(1) Let_def)
qed

text \<open>
  C30: what the kernel writes under \<open>/proc\<close> is read back. The parent and the start time of a \<open>stat\<close>
  line are found whatever the command name in it, with blanks and parentheses too; and the command
  line of a process gives its arguments, when none holds a NUL and the last is not empty.
\<close>
theorem proc_files_read_back:
  assumes "list_all plain_field fs" and "20 \<le> length fs"
    and "fs ! 1 = itoa ppid" and "0 \<le> ppid" and "ppid < 2 ^ 63"
    and "fs ! 19 = itoa_nat ticks" and "ticks < 2 ^ 64"
    and "pf_stat pf pid = Some (itoa pid @ '' ('' @ comm @ '') '' @ join_with '' '' fs)"
    and "pf_cmdline pf pid = Some (concat (map (\<lambda>a. a @ [NUL]) argv))"
    and "argv \<noteq> []" and "last argv \<noteq> []" and "\<forall>a \<in> set argv. NUL \<notin> set a"
  shows "parseStat pf pid = Some (ppid, ticks) \<and> readArgv pf pid = Some argv"
  using parseStat_line [OF assms(1-8)] readArgv_args [OF assms(9-12)] ..

abbreviation (input) sample_fields :: "string list" where
  "sample_fields \<equiv> ''S'' # ''5'' # replicate 17 ''0'' @ [''300'']"

definition sample_proc :: proc_fs where
  "sample_proc = \<lparr>pf_entries = Some [''7'', ''9'', ''self''],
     pf_stat = (\<lambda>pid. Some (itoa pid @ '' ('' @ ''(a) b'' @ '') '' @ join_with '' '' sample_fields)),
     pf_cmdline = (\<lambda>pid. Some (concat (map (\<lambda>a. a @ [NUL]) [''/usr/bin/node'', ''--x'', ''/b/claude'']))),
     pf_cwd = (\<lambda>pid. Some ''/p''), pf_kernel_stat = None\<rparr>"

lemma sample_fields_ok:
  "list_all plain_field sample_fields" "20 \<le> length sample_fields" "sample_fields ! 1 = itoa 5"
  "sample_fields ! 19 = itoa_nat 300"
proof -
  show "list_all plain_field sample_fields" by (simp add: list_all_iff plain_field_def bval_def is_space_def)
  have "itoa 5 = ''5''" "itoa_nat 300 = ''300''" by code_simp+
  then show "sample_fields ! 1 = itoa 5" "sample_fields ! 19 = itoa_nat 300" by (simp_all add: nth_append)
qed simp

abbreviation (input) sample_argv :: "string list" where
  "sample_argv \<equiv> [''/usr/bin/node'', ''--x'', ''/b/claude'']"

lemma sample_files:
  "pf_stat sample_proc pid = Some (itoa pid @ '' ('' @ ''(a) b'' @ '') '' @ join_with '' '' sample_fields)"
  "pf_cmdline sample_proc pid = Some (concat (map (\<lambda>a. a @ [NUL]) sample_argv))"
  by (simp_all only: sample_proc_def proc_fs.simps)

lemma sample_fields_of:
  "pf_entries sample_proc = Some [''7'', ''9'', ''self'']" "pf_kernel_stat sample_proc = None"
  by (simp_all add: sample_proc_def)

lemma sample_argv_ok: "sample_argv \<noteq> []" "last sample_argv \<noteq> []" "\<forall>a \<in> set sample_argv. NUL \<notin> set a"
  by (simp_all add: NUL_def)

lemmas sample_stat = parseStat_line [OF sample_fields_ok(1-3) _ _ sample_fields_ok(4) _ sample_files(1)]
lemmas sample_readArgv = readArgv_args [OF sample_files(2) sample_argv_ok]

lemma proc_files_read_back_witness:
  "parseStat sample_proc 7 = Some (5, 300)
    \<and> readArgv sample_proc 7 = Some [''/usr/bin/node'', ''--x'', ''/b/claude'']"
  by (rule proc_files_read_back [OF sample_fields_ok(1-3) _ _ sample_fields_ok(4) _ sample_files sample_argv_ok])
     simp_all

lemma sample_proc_list:
  "listProcesses sample_proc =
    map (\<lambda>pid. (pid, \<lparr>pi_ppid = 5, pi_startedAt = 0, pi_argv = [''/usr/bin/node'', ''--x'', ''/b/claude'']\<rparr>)) [7, 9]"
proof -
  have stat: "parseStat sample_proc pid = Some (5, 300)" for pid by (rule sample_stat) simp_all
  have "atoi ''7'' = Some 7" "atoi ''9'' = Some 9" "atoi ''self'' = None"
    by (simp_all add: atoi_def atoi_unsigned_def is_digit_def bval_def digits_value_def)
  then show ?thesis
    by (simp add: listProcesses_def proc_entry_def stat sample_readArgv bootTime_def started_at_def
        List.map_filter_def sample_fields_of gput_def is_zero_def)
qed

section \<open>What a scan finds\<close>

inductive ancestor :: "(int, int) gomap \<Rightarrow> int \<Rightarrow> int \<Rightarrow> bool" for ppids where
  parent: "gget ppids p = Some q \<Longrightarrow> 1 < q \<Longrightarrow> ancestor ppids p q"
| up: "gget ppids p = Some q \<Longrightarrow> 1 < q \<Longrightarrow> ancestor ppids q r \<Longrightarrow> ancestor ppids p r"

text \<open>The parents of a process end (at init, or outside the table) within \<open>n\<close> steps: no cycle.\<close>

fun ends_within :: "nat \<Rightarrow> (int, int) gomap \<Rightarrow> int \<Rightarrow> bool" where
  "ends_within 0 ppids p = False"
| "ends_within (Suc n) ppids p =
     (case gget ppids p of None \<Rightarrow> True | Some q \<Rightarrow> q \<le> 1 \<or> ends_within n ppids q)"

lemma walk_up_sound: "walk_up n p stop ppids \<Longrightarrow> \<exists>q. ancestor ppids p q \<and> stop q"
proof (induction n arbitrary: p)
  case (Suc n)
  then obtain q where q: "gget ppids p = Some q" "1 < q" "stop q \<or> walk_up n q stop ppids"
    by (auto split: option.splits if_splits)
  then show ?case using Suc.IH [of q] ancestor.intros by blast
qed simp

lemma walk_up_complete:
  "ancestor ppids p q \<Longrightarrow> stop q \<Longrightarrow> ends_within n ppids p \<Longrightarrow> walk_up n p stop ppids"
proof (induction arbitrary: n rule: ancestor.induct)
  case (parent p q)
  then show ?case by (cases n) auto
next
  case (up p q r)
  then show ?case by (cases n) auto
qed

lemma walk_up_iff:
  "ends_within n ppids p \<Longrightarrow> walk_up n p stop ppids \<longleftrightarrow> (\<exists>q. ancestor ppids p q \<and> stop q)"
  using walk_up_sound walk_up_complete by blast

lemma listProcesses_wf [simp]: "gwf (listProcesses pf)"
  by (simp add: listProcesses_def split: option.split)

lemma map_filter_keyed:
  assumes "gwf m" and "\<And>k v y. f (k, v) = Some y \<Longrightarrow> fst y = k"
  shows "gwf (List.map_filter f m)
    \<and> gget (List.map_filter f m) k = (case gget m k of None \<Rightarrow> None | Some v \<Rightarrow> map_option snd (f (k, v)))"
  using assms(1)
proof (induction m)
  case (Cons p m)
  obtain k' v where p: "p = (k', v)" by fastforce
  have IH: "gwf (List.map_filter f m)"
    "gget (List.map_filter f m) k = (case gget m k of None \<Rightarrow> None | Some v \<Rightarrow> map_option snd (f (k, v)))"
    and k': "k' \<notin> fst ` set m" using Cons by (simp_all add: p gwf_def)
  have new: "k' \<notin> fst ` set (List.map_filter f m)"
    using k' assms(2) by (force simp: List.map_filter_def)
  show ?case
  proof (cases "f (k', v)")
    case None
    moreover have "gget m k' = None" using k' by (simp add: gget_def map_of_eq_None_iff)
    moreover have "List.map_filter f (p # m) = List.map_filter f m" using None by (simp add: p List.map_filter_def)
    ultimately show ?thesis using IH by (auto simp: p gget_def)
  next
    case (Some y)
    obtain u where y: "y = (k', u)" using assms(2) [OF Some] by (cases y) auto
    have "List.map_filter f (p # m) = (k', u) # List.map_filter f m"
      using Some y by (simp add: p List.map_filter_def)
    then show ?thesis using IH new Some y by (auto simp: p gget_def gwf_def)
  qed
qed (simp add: List.map_filter_def)

lemma match_tools_get:
  assumes "gwf procs"
  shows "gwf (match_tools procs tools)"
    and "gget (match_tools procs tools) pid = Some tool \<longleftrightarrow>
      (\<exists>p. gget procs pid = Some p \<and> toolFromArgv (pi_argv p) tools = tool \<and> tool \<noteq> [])"
proof -
  let ?f = "\<lambda>(pid, p). let tool = toolFromArgv (pi_argv p) tools in
       if pi_argv p = [] \<or> tool = [] then None else Some (pid, tool)"
  have f: "fst y = k" if "?f (k, v) = Some y" for k v y
    using that by (auto simp: Let_def split: if_splits)
  have m: "gwf (List.map_filter ?f procs)"
    "gget (List.map_filter ?f procs) pid = (case gget procs pid of None \<Rightarrow> None | Some v \<Rightarrow> map_option snd (?f (pid, v)))"
    using map_filter_keyed [where f = ?f and m = procs and k = pid] assms f by blast+
  show "gwf (match_tools procs tools)" using m by (simp add: match_tools_def)
  show "gget (match_tools procs tools) pid = Some tool \<longleftrightarrow>
      (\<exists>p. gget procs pid = Some p \<and> toolFromArgv (pi_argv p) tools = tool \<and> tool \<noteq> [])"
    using m by (auto simp: match_tools_def Let_def toolFromArgv_def split: option.splits if_splits list.splits)
qed

lemma cwdFor_get: "gget (cwdFor pf pids) pid = (if pid \<in> set pids then pf_cwd pf pid else None)"
proof -
  let ?ps = "List.map_filter (\<lambda>pid. map_option (Pair pid) (pf_cwd pf pid)) pids"
  have fst_ps: "(k, c) \<in> set ?ps \<longleftrightarrow> k \<in> set pids \<and> pf_cwd pf k = Some c" for k c
    by (force simp: List.map_filter_def)
  show ?thesis
  proof (cases "map_of (rev ?ps) pid")
    case None
    then have "pid \<notin> fst ` set ?ps" by (simp add: map_of_eq_None_iff)
    then have "\<not> (pid \<in> set pids \<and> pf_cwd pf pid = Some c)" for c
      using fst_ps [of pid c] by (metis fst_conv image_eqI)
    then have "pid \<in> set pids \<Longrightarrow> pf_cwd pf pid = None" by (cases "pf_cwd pf pid") auto
    with None show ?thesis by (simp add: cwdFor_def gget_gput_all)
  next
    case (Some c)
    then have "(pid, c) \<in> set ?ps" by (metis map_of_SomeD set_rev)
    with Some fst_ps show ?thesis by (simp add: cwdFor_def gget_gput_all)
  qed
qed

lemma ppids_get: "gget (map (\<lambda>(pid, p). (pid, pi_ppid p)) procs) pid = map_option pi_ppid (gget procs pid)"
  by (induction procs) (auto simp: gget_def)

definition external_process ::
  "proc_fs \<Rightarrow> string list \<Rightarrow> int list \<Rightarrow> int \<Rightarrow> proc_info \<Rightarrow> string \<Rightarrow> bool" where
  "external_process pf tools roots pid p cwd \<longleftrightarrow>
     (let procs = listProcesses pf; ppids = map (\<lambda>(pid, p). (pid, pi_ppid p)) procs;
          tool = toolFromArgv (pi_argv p) tools
      in gget procs pid = Some p \<and> tool \<noteq> [] \<and> pf_cwd pf pid = Some cwd
       \<and> (\<forall>q. ancestor ppids pid q \<longrightarrow> q \<notin> set roots
            \<and> (\<forall>p'. gget procs q = Some p' \<longrightarrow> toolFromArgv (pi_argv p') tools \<noteq> tool)))"

lemma map_filter_Some: "y \<in> set (List.map_filter f xs) \<longleftrightarrow> (\<exists>x \<in> set xs. f x = Some y)"
  by (force simp: List.map_filter_def)

lemma candidates_iff:
  assumes "list_all (\<lambda>(pid, p). ends_within 128 ppids pid) procs" and "gwf procs"
  shows "pid \<in> set (candidates (match_tools procs tools) roots ppids) \<longleftrightarrow>
    (\<exists>p tool. gget procs pid = Some p \<and> toolFromArgv (pi_argv p) tools = tool \<and> tool \<noteq> []
      \<and> (\<forall>q. ancestor ppids pid q \<longrightarrow> q \<notin> set roots
            \<and> (\<forall>p'. gget procs q = Some p' \<longrightarrow> toolFromArgv (pi_argv p') tools \<noteq> tool)))"
proof -
  have ends: "ends_within 128 ppids pid" if "gget procs pid = Some p" for p
    using assms(1) gget_SomeD [OF that] by (auto simp: list_all_iff)
  have "pid \<in> set (candidates (match_tools procs tools) roots ppids) \<longleftrightarrow>
    (\<exists>tool. gget (match_tools procs tools) pid = Some tool \<and> \<not> isDescendant pid roots ppids
        \<and> \<not> hasMatchedAncestor pid tool (match_tools procs tools) ppids)"
    using gget_eq_Some_iff [OF match_tools_get(1) [OF assms(2)]]
    by (force simp: candidates_def)
  also have "\<dots> \<longleftrightarrow> (\<exists>p tool. gget procs pid = Some p \<and> toolFromArgv (pi_argv p) tools = tool \<and> tool \<noteq> []
      \<and> \<not> (\<exists>q. ancestor ppids pid q \<and> q \<in> set roots)
      \<and> \<not> (\<exists>q. ancestor ppids pid q \<and> gget (match_tools procs tools) q = Some tool))"
    using walk_up_iff [OF ends]
    by (auto simp: match_tools_get(2) [OF assms(2), of tools pid] isDescendant_def hasMatchedAncestor_def)
  also have "\<dots> \<longleftrightarrow> (\<exists>p tool. gget procs pid = Some p \<and> toolFromArgv (pi_argv p) tools = tool \<and> tool \<noteq> []
      \<and> (\<forall>q. ancestor ppids pid q \<longrightarrow> q \<notin> set roots
            \<and> (\<forall>p'. gget procs q = Some p' \<longrightarrow> toolFromArgv (pi_argv p') tools \<noteq> tool)))"
    by (auto simp: match_tools_get(2) [OF assms(2)])
  finally show ?thesis .
qed

lemma distinct_map_filter:
  "distinct xs \<Longrightarrow> (\<And>x y. f x = Some y \<Longrightarrow> g y = x) \<Longrightarrow> distinct (map g (List.map_filter f xs))"
  by (induction xs) (auto simp: List.map_filter_def)

lemma external_of_Some:
  "external_of procs matched cwds pid = Some e \<longleftrightarrow>
    (\<exists>cwd tool p. gget cwds pid = Some cwd \<and> gget matched pid = Some tool \<and> gget procs pid = Some p
      \<and> e = \<lparr>es_PID = pid, es_Tool = tool, es_WorkingDir = to_valid_utf8 cwd,
                es_StartedAt = pi_startedAt p, es_Command = displayCommand (pi_argv p)\<rparr>)"
  by (auto simp: external_of_def split: option.splits)

text \<open>
  C29: a scan reports exactly the external tool processes. When no parent chain of the snapshot has a
  cycle or more than 127 steps, a session is listed if and only if its process runs a configured tool,
  its working directory can be read, and none of its ancestors is the daemon (or another excluded
  process) or runs the same tool; each process once, newest first and then by id, with a command and a
  directory that are valid UTF-8.
\<close>
theorem external_scan_exact:
  assumes "list_all (\<lambda>(pid, p). ends_within 128 (map (\<lambda>(pid, p). (pid, pi_ppid p)) (listProcesses pf)) pid)
             (listProcesses pf)"
  shows "(e \<in> set (Scan pf tools roots) \<longleftrightarrow>
      (\<exists>p cwd. external_process pf tools roots (es_PID e) p cwd
        \<and> e = \<lparr>es_PID = es_PID e, es_Tool = toolFromArgv (pi_argv p) tools, es_WorkingDir = to_valid_utf8 cwd,
               es_StartedAt = pi_startedAt p, es_Command = displayCommand (pi_argv p)\<rparr>))
    \<and> distinct (map es_PID (Scan pf tools roots))
    \<and> sorted (map (\<lambda>e. (- es_StartedAt e, es_PID e)) (Scan pf tools roots))
    \<and> list_all (\<lambda>e. valid_utf8 (es_Command e) \<and> valid_utf8 (es_WorkingDir e)) (Scan pf tools roots)"
proof -
  let ?procs = "listProcesses pf" and ?ppids = "map (\<lambda>(pid, p). (pid, pi_ppid p)) (listProcesses pf)"
  let ?m = "match_tools ?procs tools"
  let ?pids = "candidates ?m roots ?ppids"
  let ?es = "List.map_filter (external_of ?procs ?m (cwdFor pf ?pids)) ?pids"
  note wf = listProcesses_wf [of pf]
  have scan: "Scan pf tools roots = sort_key (\<lambda>e. (- es_StartedAt e, es_PID e)) ?es"
    by (simp add: Scan_def Let_def)
  have found: "e \<in> set ?es \<longleftrightarrow>
      (\<exists>p cwd. external_process pf tools roots (es_PID e) p cwd
        \<and> e = \<lparr>es_PID = es_PID e, es_Tool = toolFromArgv (pi_argv p) tools, es_WorkingDir = to_valid_utf8 cwd,
               es_StartedAt = pi_startedAt p, es_Command = displayCommand (pi_argv p)\<rparr>)" for e
    unfolding map_filter_Some external_of_Some external_process_def Let_def
    by (force simp: candidates_iff [OF assms wf] match_tools_get(2) [OF wf] cwdFor_get)
  have "distinct ?pids"
    using match_tools_get(1) [OF wf, of tools] by (simp add: candidates_def gwf_def distinct_map_filter inj_on_def
        distinct_map set_filter)
  then have "distinct (map es_PID ?es)"
    by (rule distinct_map_filter) (auto simp: external_of_Some)
  then have "distinct (map es_PID (Scan pf tools roots))"
    unfolding scan by (metis (no_types, lifting) distinct_map distinct_sort set_sort)
  moreover have "list_all (\<lambda>e. valid_utf8 (es_Command e) \<and> valid_utf8 (es_WorkingDir e)) (Scan pf tools roots)"
    unfolding scan list_all_iff by (auto simp: map_filter_Some external_of_Some to_valid_utf8_valid displayCommand_def Let_def)
  ultimately show ?thesis using found by (simp add: scan)
qed

lemma external_scan_exact_witness:
  "\<exists>e \<in> set (Scan sample_proc [''claude''] [1]). es_PID e = 7 \<and> es_Tool e = ''claude''"
proof -
  let ?ppids = "map (\<lambda>(pid, p). (pid, pi_ppid p)) (listProcesses sample_proc)"
  let ?p = "\<lparr>pi_ppid = 5, pi_startedAt = 0, pi_argv = [''/usr/bin/node'', ''--x'', ''/b/claude'']\<rparr>"
  let ?e = "\<lparr>es_PID = 7, es_Tool = ''claude'', es_WorkingDir = to_valid_utf8 ''/p'', es_StartedAt = 0,
    es_Command = displayCommand (pi_argv ?p)\<rparr>"
  have ends: "list_all (\<lambda>(pid, p). ends_within 128 ?ppids pid) (listProcesses sample_proc)"
    by (simp add: sample_proc_list gget_def eval_nat_numeral)
  have tool: "toolFromArgv [''/usr/bin/node'', ''--x'', ''/b/claude''] [''claude''] = ''claude''" by code_simp
  have anc: "q = 5" if "ancestor ?ppids 7 q" for q
    using that by (rule ancestor.cases) (auto simp: sample_proc_list gget_def elim: ancestor.cases)
  have ext: "external_process sample_proc [''claude''] [1] (es_PID ?e) ?p ''/p''"
    unfolding external_process_def Let_def
  proof (intro conjI allI impI)
    fix q assume "ancestor ?ppids (es_PID ?e) q"
    then have q: "q = 5" using anc by simp
    show "q \<notin> set [1]" by (simp add: q)
    show "toolFromArgv (pi_argv p') [''claude''] \<noteq> toolFromArgv (pi_argv ?p) [''claude'']"
      if "gget (listProcesses sample_proc) q = Some p'" for p'
      using that by (simp add: q sample_proc_list gget_def)
  qed (simp_all add: sample_proc_list gget_def tool, simp add: sample_proc_def)
  have "?e = \<lparr>es_PID = es_PID ?e, es_Tool = toolFromArgv (pi_argv ?p) [''claude''], es_WorkingDir = to_valid_utf8 ''/p'',
      es_StartedAt = pi_startedAt ?p, es_Command = displayCommand (pi_argv ?p)\<rparr>"
    by (simp only: tool external_session.simps proc_info.simps)
  with ext have "?e \<in> set (Scan sample_proc [''claude''] [1])"
    by (metis conjunct1 [OF external_scan_exact [OF ends]])
  then show ?thesis by (intro bexI [of _ ?e]) simp_all
qed

text \<open>
  Killing an external process only ever signals that process. Signals go to the process alone,
  never to a group or to init; they are sent only if the tool is a configured one and the process runs
  it at that moment, \<open>SIGKILL\<close> only after a second look; and success means \<open>SIGTERM\<close> was sent.
\<close>
lemma external_kill_guarded:
  assumes "ext_Kill quote pf later kill_err pid tool tools = (sent, err)"
  shows "list_all (\<lambda>(target, sig). target = pid \<and> 1 < pid \<and> tool \<in> set tools
        \<and> map_option (\<lambda>argv. toolFromArgv argv tools) (readArgv pf pid) = Some tool
        \<and> (sig = SIGTERM
             \<or> sig = SIGKILL \<and> map_option (\<lambda>argv. toolFromArgv argv tools) (readArgv later pid) = Some tool)) sent
    \<and> (err = None \<longrightarrow> (pid, SIGTERM) \<in> set sent)"
  using assms by (auto simp: ext_Kill_def verifyTool_def split: if_splits option.splits)

lemma external_kill_guarded_witness:
  "fst (ext_Kill quote sample_proc sample_proc None 7 ''claude'' [''claude'']) = [(7, SIGTERM), (7, SIGKILL)]
    \<and> (7, SIGTERM) \<in> set (fst (ext_Kill quote sample_proc sample_proc None 7 ''claude'' [''claude'']))"
proof -
  have "toolFromArgv [''/usr/bin/node'', ''--x'', ''/b/claude''] [''claude''] = ''claude''" by code_simp
  then have k: "ext_Kill quote sample_proc sample_proc None 7 ''claude'' [''claude''] = ([(7, SIGTERM), (7, SIGKILL)], None)"
    by (simp add: ext_Kill_def verifyTool_def sample_readArgv)
  show ?thesis using external_kill_guarded [OF k] k by simp
qed

end
