(* ===== verification/Server_Attach.thy ===== *)
theory Server_Attach
  imports Session_Stream Server_Base
begin

text \<open>
  The body of \<open>sessionService.Attach\<close> in \<open>internal/server/server.go\<close> after the client is attached:
  the replay in chunks, then the loop that forwards the client's queue, surfaces gaps and asks for
  repaints, until the session has ended. Its steps interleave with every other operation on the
  session. \<open>stream n\<close> is the result of \<open>stream.Send\<close> after \<open>n\<close> messages have been sent.
\<close>

datatype out_msg = Replay bytes | Data bytes | OutputGap

text \<open>\<open>at_ret\<close> is what the handler has returned, if it has: \<open>Some None\<close> is a nil error.\<close>

record attach =
  at_sent :: "out_msg list"
  at_repaintPending :: bool
  at_lastRepaint :: time
  at_signals :: signals
  at_ret :: "rpc_error option option"

type_synonym stream = "nat \<Rightarrow> string option"

definition replayChunkSize :: nat where "replayChunkSize = 2 ^ 20"

definition repaintMinInterval :: time where "repaintMinInterval = 500 * 1000000"

definition never_fails :: "stream \<Rightarrow> bool" where
  "never_fails stream \<longleftrightarrow> (\<forall>n. stream n = None)"

lemma never_failsD: "never_fails stream \<Longrightarrow> stream n = None"
  by (simp add: never_fails_def)

definition att_send :: "stream \<Rightarrow> string \<Rightarrow> out_msg \<Rightarrow> attach \<Rightarrow> attach" where
  "att_send stream what m a =
     (case stream (length (at_sent a)) of
        None \<Rightarrow> a\<lparr>at_sent := at_sent a @ [m]\<rparr>
      | Some e \<Rightarrow> a\<lparr>at_ret := Some (Some (Internal, ''failed to send '' @ what @ '': '' @ e))\<rparr>)"

section \<open>The replay\<close>

function replay_chunks :: "nat \<Rightarrow> bytes \<Rightarrow> bytes list" where
  "replay_chunks n data =
     (if n = 0 \<or> data = [] then [] else take n data # replay_chunks n (drop n data))"
  by pat_completeness auto
termination
  by (relation "measure (\<lambda>(n, data). length data)") auto

declare replay_chunks.simps [simp del]

fun send_replay :: "stream \<Rightarrow> bytes list \<Rightarrow> attach \<Rightarrow> attach" where
  "send_replay stream [] a = a"
| "send_replay stream (c # cs) a =
     (let a = att_send stream ''scrollback'' (Replay c) a in
      if at_ret a \<noteq> None then a else send_replay stream cs a)"

definition attach_start :: "stream \<Rightarrow> bytes \<Rightarrow> attach" where
  "attach_start stream scrollback =
     send_replay stream (replay_chunks replayChunkSize scrollback)
       \<lparr>at_sent = [], at_repaintPending = False, at_lastRepaint = 0, at_signals = [], at_ret = None\<rparr>"

section \<open>The loop\<close>

definition sendGap :: "stream \<Rightarrow> attach \<Rightarrow> attach" where
  "sendGap stream a =
     (let a = att_send stream ''gap marker'' OutputGap a in
      if at_ret a \<noteq> None then a else a\<lparr>at_repaintPending := True\<rparr>)"

definition queue_len :: "string \<Rightarrow> session \<Rightarrow> nat" where
  "queue_len cid s = (case gget (s_clients s) cid of None \<Rightarrow> 0 | Some cs \<Rightarrow> length (ch_buf (cs_ch cs)))"

definition repaintIfDrained :: "time \<Rightarrow> string \<Rightarrow> attach \<times> session \<Rightarrow> attach \<times> session" where
  "repaintIfDrained now cid st =
     (let (a, s) = st in
      if \<not> at_repaintPending a \<or> queue_len cid s \<noteq> 0 then (a, s)
      else if now - at_lastRepaint a < repaintMinInterval then (a, s)
      else (a\<lparr>at_repaintPending := False, at_lastRepaint := now,
              at_signals := at_signals a @ SignalRepaint s\<rparr>, s))"

text \<open>\<open>deliver\<close> of one queued item.\<close>

definition att_deliver :: "stream \<Rightarrow> string \<Rightarrow> bytes \<Rightarrow> attach \<times> session \<Rightarrow> attach \<times> session" where
  "att_deliver stream cid data st =
     (let (a, s) = st in
      if length data = 0 then (sendGap stream a, s)
      else
        let a = att_send stream ''output'' (Data data) a in
        if at_ret a \<noteq> None then (a, s)
        else if queue_len cid s = 0 then
          (case TakeOutputGap cid s of (s, True) \<Rightarrow> (sendGap stream a, s) | (s, False) \<Rightarrow> (a, s))
        else (a, s))"

text \<open>The case of the \<open>select\<close> in which an item is received; with none queued it is not taken.\<close>

definition att_recv :: "stream \<Rightarrow> time \<Rightarrow> string \<Rightarrow> attach \<times> session \<Rightarrow> attach \<times> session" where
  "att_recv stream now cid st =
     (case client_recv cid (snd st) of
        (s, None) \<Rightarrow> st
      | (s, Some data) \<Rightarrow>
          let (a, s) = att_deliver stream cid data (fst st, s) in
          if at_ret a \<noteq> None then (a, s) else repaintIfDrained now cid (a, s))"

text \<open>
  The session has ended: what is queued is drained without blocking. Nothing is queued any more
  then, so the number of queued items bounds the loop.
\<close>

fun att_drain :: "stream \<Rightarrow> string \<Rightarrow> nat \<Rightarrow> attach \<times> session \<Rightarrow> attach \<times> session" where
  "att_drain stream cid 0 (a, s) = (a\<lparr>at_ret := Some None\<rparr>, s)"
| "att_drain stream cid (Suc n) (a, s) =
     (case client_recv cid s of
        (s, None) \<Rightarrow> (a\<lparr>at_ret := Some None\<rparr>, s)
      | (s, Some data) \<Rightarrow>
          let (a, s) = att_deliver stream cid data (a, s) in
          if at_ret a \<noteq> None then (a, s) else att_drain stream cid n (a, s))"

definition att_done :: "stream \<Rightarrow> string \<Rightarrow> attach \<times> session \<Rightarrow> attach \<times> session" where
  "att_done stream cid st = att_drain stream cid (queue_len cid (snd st)) st"

text \<open>The channel was closed under the handler, or its client went away.\<close>

definition att_stop :: "attach \<Rightarrow> attach" where
  "att_stop a = a\<lparr>at_ret := Some None\<rparr>"

section \<open>Interleaving with the session\<close>

text \<open>
  A broadcast may wait for a full queue; the items the handler takes in that wait are delivered as
  any other.
\<close>

fun view_item :: "view \<Rightarrow> bytes" where
  "view_item Gap = gapMarker"
| "view_item (Chunk b) = b"

fun deliver_all :: "stream \<Rightarrow> string \<Rightarrow> bytes list \<Rightarrow> attach \<times> session \<Rightarrow> attach \<times> session" where
  "deliver_all stream cid [] st = st"
| "deliver_all stream cid (x # xs) st =
     (if at_ret (fst st) \<noteq> None then st else deliver_all stream cid xs (att_deliver stream cid x st))"

datatype attach_event = Other session_op | Recv time

fun attach_step :: "stream \<Rightarrow> string \<Rightarrow> attach_event \<Rightarrow> attach \<times> session \<Rightarrow> (attach \<times> session) option" where
  "attach_step stream cid (Other op) (a, s) =
     (case session_step op s of
        None \<Rightarrow> None
      | Some (s', seen) \<Rightarrow> Some (deliver_all stream cid (map view_item (seen_by cid seen)) (a, s')))"
| "attach_step stream cid (Recv now) (a, s) =
     Some (if at_ret a \<noteq> None then (a, s) else att_recv stream now cid (a, s))"

fun attach_run :: "stream \<Rightarrow> string \<Rightarrow> attach_event list \<Rightarrow> attach \<times> session \<Rightarrow> (attach \<times> session) option" where
  "attach_run stream cid [] st = Some st"
| "attach_run stream cid (ev # evs) st =
     (case attach_step stream cid ev st of None \<Rightarrow> None | Some st \<Rightarrow> attach_run stream cid evs st)"

fun event_ok :: "string \<Rightarrow> attach_event \<Rightarrow> bool" where
  "event_ok cid (Other op) \<longleftrightarrow> keeps_client cid op \<and> op \<noteq> OpRecv cid \<and> op \<noteq> OpSurfaceGap cid"
| "event_ok cid (Recv now) \<longleftrightarrow> True"

fun event_outputs :: "attach_event list \<Rightarrow> bytes list" where
  "event_outputs [] = []"
| "event_outputs (Other op # evs) = outputs [op] @ event_outputs evs"
| "event_outputs (Recv now # evs) = event_outputs evs"

section \<open>The replay is the scrollback\<close>

lemma concat_replay_chunks: "0 < n \<Longrightarrow> concat (replay_chunks n data) = data"
  by (induction n data rule: replay_chunks.induct) (subst replay_chunks.simps, auto)

lemma replay_chunks_size: "list_all (\<lambda>c. c \<noteq> [] \<and> length c \<le> n) (replay_chunks n data)"
  by (induction n data rule: replay_chunks.induct) (subst replay_chunks.simps, auto)

lemma send_replay_ok:
  assumes "never_fails stream" and "at_ret a = None"
  shows "send_replay stream cs a = a\<lparr>at_sent := at_sent a @ map Replay cs\<rparr>"
  using assms(2) by (induction cs arbitrary: a) (simp_all add: att_send_def never_failsD [OF assms(1)])

section \<open>What the handler has sent\<close>

fun msg_view :: "out_msg \<Rightarrow> view" where
  "msg_view (Data b) = Chunk b"
| "msg_view _ = Gap"

text \<open>
  What one client and its handler have in common: what was sent and what is queued or owed is the
  stream; and a gap is owed only to a client with something queued, whose handler will run again,
  or to one that was just shown a gap.
\<close>

definition in_step :: "deliveries \<Rightarrow> out_msg list \<Rightarrow> client_state \<Rightarrow> bool" where
  "in_step hist msgs cs \<longleftrightarrow> 0 < ch_cap (cs_ch cs) \<and> client_tracks hist (map msg_view msgs) cs
     \<and> (cs_gapPending cs \<longrightarrow> ch_buf (cs_ch cs) \<noteq> [] \<or> (\<exists>ms m. msgs = ms @ [m] \<and> msg_view m = Gap))"

definition attach_inv :: "string \<Rightarrow> out_msg list \<Rightarrow> deliveries \<Rightarrow> attach \<times> session \<Rightarrow> bool" where
  "attach_inv cid pre hist st \<longleftrightarrow>
     (case st of (a, s) \<Rightarrow> at_ret a = None \<and> clients_ok (s_clients s) \<and> \<not> s_done s
        \<and> (\<exists>msgs cs. at_sent a = pre @ msgs \<and> gget (s_clients s) cid = Some cs \<and> in_step hist msgs cs))"

lemma sendBoundedUntil_nonempty:
  assumes "chan_ok ch" and "0 < ch_cap ch" and "sendBoundedUntil takes item ch = Some (ch', got, ok)"
  shows "ch_buf ch' \<noteq> [] \<and> ch_cap ch' = ch_cap ch"
proof -
  from sendBoundedUntil_spec [OF assms(1), of takes item] assms(3) have cap: "ch_cap ch' = ch_cap ch" by auto
  have full: "ch_buf ch \<noteq> []" if "\<not> length (ch_buf ch) < ch_cap ch" using that assms(2) by auto
  from assms(3) have "ch_buf ch' \<noteq> []"
    using assms(1,2) full
    by (auto simp: sendBoundedUntil_def chan_send_ok chan_recv_def chan_send_def
        split: if_splits send_result.splits list.splits recv_result.splits)
  with cap show ?thesis by simp
qed

lemma deliver_nonempty:
  assumes "client_ok cs" and "0 < ch_cap (cs_ch cs)" and "deliver now takes data cs = Some (cs', got, ok)"
  shows "ch_buf (cs_ch cs') \<noteq> [] \<and> 0 < ch_cap (cs_ch cs')"
proof -
  have one: "ch_buf (cs_ch c') \<noteq> [] \<and> 0 < ch_cap (cs_ch c')"
    if "client_ok c" "0 < ch_cap (cs_ch c)" "deliver_data now t data c = Some (c', g, k)" for c t c' g k
    using that sendBoundedUntil_nonempty [of "cs_ch c" t data]
    by (auto simp: deliver_data_def client_ok_def note_drop_def split: option.splits bool.splits)
  show ?thesis
  proof (cases "cs_gapPending cs")
    case False
    with assms one show ?thesis by (simp add: deliver_def)
  next
    case True
    obtain ch g b where s: "sendBoundedUntil (fst takes) gapMarker (cs_ch cs) = Some (ch, g, b)" "chan_ok ch"
      using sendBoundedUntil_spec [of "cs_ch cs" "fst takes" gapMarker] assms(1) unfolding client_ok_def by blast
    note ne = sendBoundedUntil_nonempty [OF _ assms(2) s(1)]
    show ?thesis
    proof (cases b)
      case False
      with True s assms(1,2,3) ne show ?thesis by (auto simp: deliver_def note_drop_def client_ok_def)
    next
      case b: True
      let ?cs = "cs\<lparr>cs_ch := ch, cs_gapPending := False\<rparr>"
      have "client_ok ?cs" "0 < ch_cap (cs_ch ?cs)"
        using s(2) ne assms(1,2) by (simp_all add: client_ok_def)
      with True b s(1) assms(3) one [of ?cs "snd takes"] show ?thesis
        by (auto simp: deliver_def split: option.splits)
    qed
  qed
qed

text \<open>One item is taken from the queue and delivered.\<close>

lemma deliver_one:
  assumes ok: "never_fails stream" and a: "at_ret a = None" "at_sent a = pre @ msgs"
    and cs: "gget (s_clients s) cid = Some cs" "ch_buf (cs_ch cs) = x # xs" "in_step hist msgs cs"
  obtains s1 a2 s2 cs2 msgs2 where "client_recv cid s = (s1, Some x)"
    and "att_deliver stream cid x (a, s1) = (a2, s2)" and "at_ret a2 = None" and "at_sent a2 = pre @ msgs2"
    and "gget (s_clients s2) cid = Some cs2" and "ch_buf (cs_ch cs2) = xs" and "in_step hist msgs2 cs2"
    and "s_done s2 = s_done s" and "clients_ok (s_clients s) \<Longrightarrow> clients_ok (s_clients s2)"
proof -
  let ?cs = "cs\<lparr>cs_ch := (cs_ch cs)\<lparr>ch_buf := xs\<rparr>\<rparr>"
  let ?s1 = "s\<lparr>s_clients := gput cid ?cs (s_clients s)\<rparr>"
  have recv: "client_recv cid s = (?s1, Some x)" by (simp add: client_recv_def cs chan_recv_def)
  have view: "client_view (map msg_view msgs @ [as_view x]) ?cs = client_view (map msg_view msgs) cs"
    by (simp add: client_view_def cs(2))
  have ok1: "clients_ok (s_clients ?s1)" if "clients_ok (s_clients s)"
  proof -
    have "client_ok cs" by (rule clients_ok_get [OF that cs(1)])
    then have "client_ok ?cs" by (simp add: client_ok_def chan_ok_def cs(2))
    then show ?thesis using that by (simp add: clients_ok_put)
  qed
  show thesis
  proof (cases "x = []")
    case True
    let ?a = "a\<lparr>at_sent := at_sent a @ [OutputGap], at_repaintPending := True\<rparr>"
    have "att_deliver stream cid x (a, ?s1) = (?a, ?s1)"
      by (simp add: att_deliver_def True sendGap_def att_send_def never_failsD [OF ok] a(1) Let_def)
    moreover have "in_step hist (msgs @ [OutputGap]) ?cs"
      using cs(3) view by (auto simp: in_step_def client_tracks_def True as_view_def)
    ultimately show thesis
      using that [OF recv, of ?a ?s1 "msgs @ [OutputGap]" ?cs] ok1 a by (simp add: gget_gput)
  next
    case False
    let ?a = "a\<lparr>at_sent := at_sent a @ [Data x]\<rparr>"
    have tr: "client_tracks hist (map msg_view (msgs @ [Data x])) ?cs"
      using cs(3) view False by (simp add: in_step_def client_tracks_def as_view_def)
    show thesis
    proof (cases "xs = [] \<and> cs_gapPending cs")
      case surface: True
      let ?cs2 = "?cs\<lparr>cs_gapPending := False\<rparr>"
      let ?s2 = "?s1\<lparr>s_clients := gput cid ?cs2 (s_clients ?s1)\<rparr>"
      let ?a2 = "?a\<lparr>at_sent := at_sent ?a @ [OutputGap], at_repaintPending := True\<rparr>"
      have "att_deliver stream cid x (a, ?s1) = (?a2, ?s2)"
        using False surface
        by (simp add: att_deliver_def att_send_def never_failsD [OF ok] a(1) Let_def queue_len_def TakeOutputGap_def gget_gput sendGap_def)
      moreover have "client_view (map msg_view (msgs @ [Data x]) @ [Gap]) ?cs2 =
          client_view (map msg_view (msgs @ [Data x])) ?cs"
        using surface by (simp add: client_view_def)
      then have "in_step hist (msgs @ [Data x, OutputGap]) ?cs2"
        using tr cs(3) by (simp add: in_step_def client_tracks_def)
      moreover have "clients_ok (s_clients ?s2)" if "clients_ok (s_clients s)"
      proof -
        have "client_ok ?cs" using clients_ok_get [OF ok1 [OF that], of cid ?cs] by (simp add: gget_gput)
        then have "client_ok ?cs2" by (simp add: client_ok_def)
        then show ?thesis using ok1 [OF that] by (simp add: clients_ok_put)
      qed
      ultimately show thesis
        using that [OF recv, of ?a2 ?s2 "msgs @ [Data x, OutputGap]" ?cs2] a surface by (simp add: gget_gput)
    next
      case nosurf: False
      have "att_deliver stream cid x (a, ?s1) = (?a, ?s1)"
        using False nosurf
        by (cases xs) (simp_all add: att_deliver_def att_send_def never_failsD [OF ok] a(1) Let_def queue_len_def TakeOutputGap_def gget_gput)
      moreover have "in_step hist (msgs @ [Data x]) ?cs"
        using tr cs(3) nosurf by (auto simp: in_step_def)
      ultimately show thesis
        using that [OF recv, of ?a ?s1 "msgs @ [Data x]" ?cs] ok1 a by (simp add: gget_gput)
    qed
  qed
qed

lemma repaint_same:
  "repaintIfDrained now cid (a, s) = (a', s') \<Longrightarrow> s' = s \<and> at_sent a' = at_sent a \<and> at_ret a' = at_ret a"
  by (auto simp: repaintIfDrained_def split: if_splits)

lemma attach_inv_recv:
  assumes "never_fails stream" and "attach_inv cid pre hist st"
  shows "attach_inv cid pre hist (att_recv stream now cid st)"
proof -
  obtain a s where st: "st = (a, s)" by fastforce
  obtain msgs cs where inv: "at_ret a = None" "clients_ok (s_clients s)" "\<not> s_done s" "at_sent a = pre @ msgs"
    "gget (s_clients s) cid = Some cs" "in_step hist msgs cs"
    using assms(2) by (auto simp: attach_inv_def st)
  show ?thesis
  proof (cases "ch_buf (cs_ch cs)")
    case Nil
    then have "client_recv cid s = (s, None)"
      by (simp add: client_recv_def inv(5) chan_recv_def)
    then have "att_recv stream now cid st = st"
      by (simp add: att_recv_def st)
    with assms(2) show ?thesis by simp
  next
    case (Cons x xs)
    obtain s1 a2 s2 cs2 msgs2 where d: "client_recv cid s = (s1, Some x)"
      "att_deliver stream cid x (a, s1) = (a2, s2)" "at_ret a2 = None" "at_sent a2 = pre @ msgs2"
      "gget (s_clients s2) cid = Some cs2" "in_step hist msgs2 cs2" "s_done s2 = s_done s" "clients_ok (s_clients s2)"
      using deliver_one [OF assms(1) inv(1,4,5) Cons inv(6)] inv(2) by metis
    obtain a3 s3 where r: "repaintIfDrained now cid (a2, s2) = (a3, s3)" by fastforce
    have "att_recv stream now cid st = (a3, s3)" by (simp add: att_recv_def st d(1-3) r)
    with d inv(3) repaint_same [OF r] show ?thesis by (auto simp: attach_inv_def)
  qed
qed

text \<open>The other operations leave this client alone, except the output.\<close>

lemma other_same:
  assumes "event_ok cid (Other op)" and "session_step op s = Some (s', new)" and "outputs [op] = []"
  shows "gget (s_clients s') cid = gget (s_clients s) cid \<and> seen_by cid new = [] \<and> s_done s' = s_done s"
  using assms
  by (cases op)
     (auto simp: AttachClient_locked_def registerClient_def RemoveClient_locked_def reader_track_def
        noteClientAttached_def noteClientRemoved_def session_Resize_def session_Write_def UpdateActivity_def
        client_recv_def surface_gap_def TakeOutputGap_def seen_by_def gomap_simps Let_def
        split: option.splits if_splits recv_result.splits)

lemma deliver_all_queued:
  assumes "never_fails stream" and "queue_len cid s \<noteq> 0" and "at_ret a = None"
  shows "\<exists>a'. deliver_all stream cid xs (a, s) = (a', s) \<and> at_ret a' = None
    \<and> at_sent a' = at_sent a @ map (\<lambda>x. if x = [] then OutputGap else Data x) xs"
  using assms(3)
proof (induction xs arbitrary: a)
  case (Cons x xs)
  let ?a = "if x = [] then a\<lparr>at_sent := at_sent a @ [OutputGap], at_repaintPending := True\<rparr>
    else a\<lparr>at_sent := at_sent a @ [Data x]\<rparr>"
  have "att_deliver stream cid x (a, s) = (?a, s)"
    using assms(2) Cons.prems by (simp add: att_deliver_def sendGap_def att_send_def never_failsD [OF assms(1)] Let_def)
  moreover have "at_ret ?a = None" using Cons.prems by simp
  ultimately show ?case using Cons.IH [of ?a] Cons.prems by auto
qed simp

lemma attach_inv_other:
  assumes ok: "never_fails stream" and inv: "attach_inv cid pre hist (a, s)" and ev: "event_ok cid (Other op)"
    and step: "session_step op s = Some (s', new)"
  shows "\<exists>hist'. map fst hist' = outputs [op]
    \<and> attach_inv cid pre (hist @ hist') (deliver_all stream cid (map view_item (seen_by cid new)) (a, s'))"
proof -
  obtain msgs cs where i: "at_ret a = None" "clients_ok (s_clients s)" "\<not> s_done s" "at_sent a = pre @ msgs"
    "gget (s_clients s) cid = Some cs" "in_step hist msgs cs"
    using inv by (auto simp: attach_inv_def)
  have ok': "clients_ok (s_clients s')" using session_step_ok [OF i(2), of op] step by auto
  show ?thesis
  proof (cases "outputs [op] = []")
    case True
    with other_same [OF ev step] i ok' show ?thesis
      by (intro exI [of _ "[]"]) (auto simp: attach_inv_def)
  next
    case False
    then obtain now takes data where op: "op = OpOutput now takes data" "data \<noteq> []"
      using ev by (cases op) auto
    have cok: "client_ok cs" by (rule clients_ok_get [OF i(2,5)])
    have tr: "client_tracks hist (map msg_view msgs) cs" and cap: "0 < ch_cap (cs_ch cs)"
      using i(6) by (simp_all add: in_step_def)
    obtain cs' got b where d: "deliver now (takes cid) data cs = Some (cs', got, b)"
      "client_tracks (hist @ [(data, b)]) (map msg_view msgs @ map as_view got) cs'"
      using client_tracks_deliver [OF cok tr op(2)] by blast
    note ne = deliver_nonempty [OF cok cap d(1)]
    note g = broadcast_loop_get [where takes = takes, OF i(2,5) d(1)]
    have seen: "seen_by cid new = map as_view got"
      using g step op i(3)
      by (auto simp: appendAndBroadcast_def broadcast_def IsDone_def split_def Let_def seen_by_def
          filter_map comp_def)
    have cl: "gget (s_clients s') cid = Some cs'" "\<not> s_done s'"
      using g step op i(3)
      by (auto simp: appendAndBroadcast_def broadcast_def IsDone_def split_def Let_def)
    have items: "map view_item (map as_view got) = got"
      by (induction got) (auto simp: as_view_def gapMarker_def)
    have "queue_len cid s' \<noteq> 0" using ne by (simp add: queue_len_def cl)
    then obtain a' where a': "deliver_all stream cid got (a, s') = (a', s')" "at_ret a' = None"
      "at_sent a' = at_sent a @ map (\<lambda>x. if x = [] then OutputGap else Data x) got"
      using deliver_all_queued [OF ok _ i(1)] by blast
    have views: "map msg_view (map (\<lambda>x. if x = [] then OutputGap else Data x) got) = map as_view got"
      by (induction got) (auto simp: as_view_def)
    have "in_step (hist @ [(data, b)]) (msgs @ map (\<lambda>x. if x = [] then OutputGap else Data x) got) cs'"
      unfolding in_step_def map_append views using d(2) ne by simp
    then have "attach_inv cid pre (hist @ [(data, b)]) (a', s')"
      using a'(2,3) i(4) cl ok' by (auto simp: attach_inv_def)
    moreover have "deliver_all stream cid (map view_item (seen_by cid new)) (a, s') = (a', s')"
      using a'(1) by (simp only: seen items)
    moreover have "map fst [(data, b)] = outputs [op]" using op by simp
    ultimately show ?thesis by metis
  qed
qed

lemma attach_inv_run:
  assumes "never_fails stream" and "attach_inv cid pre hist st" and "list_all (event_ok cid) evs"
    and "attach_run stream cid evs st = Some st'"
  shows "\<exists>hist'. map fst hist' = event_outputs evs \<and> attach_inv cid pre (hist @ hist') st'"
  using assms(2-4)
proof (induction evs arbitrary: st hist)
  case (Cons ev evs)
  obtain a s where st: "st = (a, s)" by fastforce
  have ret: "at_ret a = None" using Cons.prems(1) by (auto simp: attach_inv_def st)
  obtain st1 where st1: "attach_step stream cid ev st = Some st1" "attach_run stream cid evs st1 = Some st'"
    using Cons.prems(3) by (auto split: option.splits)
  have "\<exists>h. map fst h = event_outputs [ev] \<and> attach_inv cid pre (hist @ h) st1"
  proof (cases ev)
    case (Other op)
    then obtain s' new where "session_step op s = Some (s', new)"
      "st1 = deliver_all stream cid (map view_item (seen_by cid new)) (a, s')"
      using st1(1) by (auto simp: st split: option.splits)
    then show ?thesis using attach_inv_other [OF assms(1) Cons.prems(1) [unfolded st], of op s' new] Other Cons.prems(2)
      by simp
  next
    case (Recv now)
    then show ?thesis using st1(1) attach_inv_recv [OF assms(1) Cons.prems(1), of now] ret
      by (intro exI [of _ "[]"]) (auto simp: st)
  qed
  then obtain h where h: "map fst h = event_outputs [ev]" "attach_inv cid pre (hist @ h) st1" by blast
  obtain h' where "map fst h' = event_outputs evs" "attach_inv cid pre ((hist @ h) @ h') st'"
    using Cons.IH [OF h(2) _ st1(2)] Cons.prems(2) by auto
  with h(1) show ?case by (intro exI [of _ "h @ h'"]) (cases ev; simp)
qed simp

text \<open>Once the session has ended the handler sends all that is queued, and returns.\<close>

lemma att_drain_all:
  assumes "never_fails stream" and "at_ret a = None" and "at_sent a = pre @ msgs"
    and "gget (s_clients s) cid = Some cs" and "in_step hist msgs cs" and "length (ch_buf (cs_ch cs)) = n"
  shows "\<exists>a' s' msgs'. att_drain stream cid n (a, s) = (a', s') \<and> at_ret a' = Some None
    \<and> at_sent a' = pre @ msgs' \<and> merge_gaps (map msg_view msgs') = merge_gaps (stream_view hist)"
  using assms(2-6)
proof (induction n arbitrary: a s msgs cs)
  case 0
  have "merge_gaps (map msg_view msgs) = merge_gaps (stream_view hist)"
  proof (cases "cs_gapPending cs")
    case True
    then obtain ms m where "msgs = ms @ [m]" "msg_view m = Gap" using 0 by (auto simp: in_step_def)
    with True 0 show ?thesis
      using merge_gaps_twice [of "map msg_view ms"] by (simp add: in_step_def client_tracks_def client_view_def)
  next
    case False
    with 0 show ?thesis by (simp add: in_step_def client_tracks_def client_view_def)
  qed
  with 0 show ?case by simp
next
  case (Suc n)
  then obtain x xs where b: "ch_buf (cs_ch cs) = x # xs" by (cases "ch_buf (cs_ch cs)") auto
  obtain s1 a2 s2 cs2 msgs2 where d: "client_recv cid s = (s1, Some x)"
    "att_deliver stream cid x (a, s1) = (a2, s2)" "at_ret a2 = None" "at_sent a2 = pre @ msgs2"
    "gget (s_clients s2) cid = Some cs2" "ch_buf (cs_ch cs2) = xs" "in_step hist msgs2 cs2"
    using deliver_one [OF assms(1) Suc.prems(1,2,3) b Suc.prems(4)] by metis
  have "length (ch_buf (cs_ch cs2)) = n" using Suc.prems(5) b d(6) by simp
  from Suc.IH [OF d(3,4,5,7) this] d(1-3) show ?case by simp
qed

lemma attach_start_ok:
  assumes "never_fails stream"
  shows "at_ret (attach_start stream replay) = None
    \<and> at_sent (attach_start stream replay) = map Replay (replay_chunks replayChunkSize replay)"
  using send_replay_ok [OF assms] by (simp add: attach_start_def)

lemma attach_inv_start:
  assumes "never_fails stream" and "clients_ok (s_clients s)" and "\<not> s_done s"
    and "AttachClient_locked cid n s = (s1, replay, cnt)"
  shows "attach_inv cid (map Replay (replay_chunks replayChunkSize replay)) []
    (attach_start stream replay, s1)"
proof -
  have s1: "s1 = fst (AttachClient_locked cid n s)" using assms(4) by simp
  have "\<exists>cs. gget (s_clients s1) cid = Some cs \<and> in_step [] [] cs \<and> clients_ok (s_clients s1) \<and> \<not> s_done s1"
    using assms(2,3) unfolding s1
    by (simp add: in_step_def AttachClient_locked_def registerClient_def Let_def clients_ok_put
        client_ok_def gomap_simps client_tracks_def client_view_def stream_view_def make_chan_def chan_ok_def)
  then show ?thesis using attach_start_ok [OF assms(1), of replay] by (auto simp: attach_inv_def)
qed

lemma markDone_clients: "s_clients (fst (markDone now s)) = s_clients s"
  by (simp add: markDone_def)

text \<open>
  C21: The client of a session sees its whole output. When \<open>Attach\<close> registers a client with a live
  session and the connection never fails, the handler's messages are, first, the replay cut in chunks
  of at most 1 MiB: the mode preamble followed by a suffix of all output, at least the buffer's size
  less three bytes of it unless that is everything; then, whatever other clients, the reader and the
  PTY do in between and however the broadcasts drop, every piece of output made after the attach is
  sent in its order, with one gap marker (or a run of them) wherever pieces were dropped and no marker
  elsewhere. After the session has ended the handler drains the queue and returns without an error.
\<close>

theorem attach_client_sees_all_output:
  assumes "session_run before (NewSession uuid now projectID tool workingDir name args cols rows limit)
             = Some (s, seen0)"
    and "\<not> s_done s" and "3 \<le> s_maxBufferSize s"
    and "AttachClient_locked cid n s = (s1, replay, cnt)"
    and "never_fails stream" and "list_all (event_ok cid) evs"
    and "attach_run stream cid evs (attach_start stream replay, s1) = Some (a, s2)"
    and "att_done stream cid (a, fst (markDone later s2)) = (a', s3)"
  shows "\<exists>chunks msgs old recent hist.
      at_ret a' = Some None \<and> at_sent a' = map Replay chunks @ msgs
    \<and> concat chunks = replay \<and> list_all (\<lambda>c. length c \<le> 2 ^ 20) chunks
    \<and> replay = mode_preamble (s_modes s) @ recent \<and> concat (outputs before) = old @ recent
    \<and> (old = [] \<or> s_maxBufferSize s - 3 \<le> int (length recent))
    \<and> map fst hist = event_outputs evs
    \<and> merge_gaps (map msg_view msgs) = merge_gaps (stream_view hist)"
proof -
  let ?chunks = "replay_chunks replayChunkSize replay"
  have ok: "clients_ok (s_clients s)" by (rule new_run_clients_ok [OF assms(1)])
  obtain old where old: "concat (outputs before) = old @ s_outputBuffer s"
    "old = [] \<or> s_maxBufferSize s - 3 \<le> int (length (s_outputBuffer s))"
    using scrollback_is_recent [OF assms(1,3)] by blast
  have replay: "replay = mode_preamble (s_modes s) @ s_outputBuffer s"
    using assms(4) by (auto simp: AttachClient_locked_def split_def Let_def)
  obtain hist where hist: "map fst hist = event_outputs evs" "attach_inv cid (map Replay ?chunks) hist (a, s2)"
    using attach_inv_run [OF assms(5) attach_inv_start [OF assms(5) ok assms(2,4)] assms(6,7)] by auto
  then obtain msgs cs where i: "at_ret a = None" "at_sent a = map Replay ?chunks @ msgs"
    "gget (s_clients s2) cid = Some cs" "in_step hist msgs cs"
    by (auto simp: attach_inv_def)
  have gget: "gget (s_clients (fst (markDone later s2))) cid = Some cs" using i(3) by (simp add: markDone_clients)
  obtain msgs' where d: "at_ret a' = Some None" "at_sent a' = map Replay ?chunks @ msgs'"
    "merge_gaps (map msg_view msgs') = merge_gaps (stream_view hist)"
    using att_drain_all [OF assms(5) i(1,2) gget i(4) refl] assms(8)
    by (auto simp: att_done_def queue_len_def gget)
  have chunks: "concat ?chunks = replay" "list_all (\<lambda>c. length c \<le> 2 ^ 20) ?chunks"
    using concat_replay_chunks [of replayChunkSize replay] replay_chunks_size [of replayChunkSize replay]
    by (auto simp: replayChunkSize_def list_all_iff)
  show ?thesis using d chunks replay old hist(1) by blast
qed

text \<open>A replay of two bytes, one piece received by the loop and one left for the drain.\<close>

lemma attach_client_sees_all_output_witness:
  "\<exists>(a' :: attach) chunks msgs hist.
      at_ret a' = Some None \<and> at_sent a' = map Replay chunks @ msgs \<and> concat chunks = ''ab''
    \<and> map fst hist = [''x'', ''y''] \<and> merge_gaps (map msg_view msgs) = merge_gaps (stream_view hist)"
proof -
  let ?new = "NewSession ''abcd1234'' 1 [] ''claude'' [] ''n'' [] 80 24 0"
  let ?before = "[OpOutput 1 (\<lambda>_. (False, False)) ''ab'']"
  let ?evs = "[Other (OpOutput 2 (\<lambda>_. (False, False)) ''x''), Recv 3,
               Other (OpOutput 4 (\<lambda>_. (False, False)) ''y'')]"
  let ?s = "?new\<lparr>s_outputBuffer := ''ab''\<rparr>"
  let ?s1 = "fst (AttachClient_locked ''c'' 1 ?s)"
  have run0: "session_run ?before ?new = Some (?s, [])" by (simp add: session_eval)
  have "mode_preamble new_modeTracker = []" by code_simp
  then have replay: "fst (snd (AttachClient_locked ''c'' 1 ?s)) = ''ab''" by (simp add: session_eval)
  obtain cnt where at: "AttachClient_locked ''c'' 1 ?s = (?s1, ''ab'', cnt)"
    using replay by (cases "AttachClient_locked ''c'' 1 ?s") auto
  have nf: "never_fails (\<lambda>_. None)" by (simp add: never_fails_def)
  have start: "attach_start (\<lambda>_. None) ''ab'' = \<lparr>at_sent = [Replay ''ab''], at_repaintPending = False,
      at_lastRepaint = 0, at_signals = [], at_ret = None\<rparr>"
    by (simp add: attach_start_def replayChunkSize_def replay_chunks.simps att_send_def Let_def)
  have "attach_run (\<lambda>_. None) ''c'' ?evs (attach_start (\<lambda>_. None) ''ab'', ?s1) \<noteq> None"
    unfolding start
    by (simp add: session_eval att_recv_def att_deliver_def att_send_def queue_len_def repaintIfDrained_def)
  then obtain a s2 where r: "attach_run (\<lambda>_. None) ''c'' ?evs (attach_start (\<lambda>_. None) ''ab'', ?s1) = Some (a, s2)"
    by auto
  obtain a' s3 where e: "att_done (\<lambda>_. None) ''c'' (a, fst (markDone 5 s2)) = (a', s3)" by fastforce
  have d: "\<not> s_done ?s" and m: "3 \<le> s_maxBufferSize ?s" by (simp_all add: NewSession_def Let_def)
  have ok: "list_all (event_ok ''c'') ?evs" by simp
  have out: "event_outputs ?evs = [''x'', ''y'']" by simp
  obtain chunks msgs hist where "at_ret a' = Some None" "at_sent a' = map Replay chunks @ msgs"
    "concat chunks = ''ab''" "map fst hist = [''x'', ''y'']"
    "merge_gaps (map msg_view msgs) = merge_gaps (stream_view hist)"
    using attach_client_sees_all_output [OF run0 d m at nf ok r e] unfolding out
    by (elim exE conjE) (rule that)
  then show ?thesis
    by - (rule exI [of _ a'], rule exI [of _ chunks], rule exI [of _ msgs], rule exI [of _ hist], intro conjI)
qed

end
