(* ===== verification/Server_Sessions.thy ===== *)
theory Server_Sessions
  imports Server_Base Project Manager_Props Procscan Server_Attach
begin

text \<open>
  The session service of \<open>internal/server/server.go\<close> over the session manager, the project registry
  and the process scan. A handler is one step; the readers, clients and timers of the sessions move on
  between the handlers as \<open>Manager_Props\<close> says. The stream of \<open>Attach\<close> is in \<open>Server_Attach\<close>.
\<close>

record session_srv =
  sv_config :: config
  sv_registry :: registry
  sv_mgr :: manager

text \<open>What \<open>os.Stat\<close> tells of the working directory.\<close>

datatype dir_stat = DirOk | DirMissing | DirError string | NotADir

record session_io =
  sio_env :: env
  sio_uuid :: string
  sio_home :: "string + string"
  sio_stat :: "string \<Rightarrow> dir_stat"
  sio_quote :: "string \<Rightarrow> string"

section \<open>Conversions\<close>

record pb_session =
  pbs_Id :: string
  pbs_Name :: string
  pbs_ProjectId :: string
  pbs_Tool :: string
  pbs_WorkingDirectory :: string
  pbs_Status :: int
  pbs_CreatedAt :: int
  pbs_EndedAt :: int
  pbs_LastActivity :: int
  pbs_ClientCount :: int
  pbs_LogPath :: string
  pbs_LogSizeBytes :: int

definition sessionStatusToProto :: "status \<Rightarrow> int" where
  "sessionStatusToProto st =
     (case st of StatusRunning \<Rightarrow> 1 | StatusIdle \<Rightarrow> 2 | StatusEnded \<Rightarrow> 3 | _ \<Rightarrow> 0)"

definition sessionToProto :: "session \<Rightarrow> pb_session" where
  "sessionToProto s =
     \<lparr>pbs_Id = s_ID s, pbs_Name = s_Name s, pbs_ProjectId = s_ProjectID s, pbs_Tool = s_Tool s,
      pbs_WorkingDirectory = s_WorkingDirectory s, pbs_Status = sessionStatusToProto (s_status s),
      pbs_CreatedAt = unix_time (s_CreatedAt s), pbs_EndedAt = 0,
      pbs_LastActivity = unix_time (s_lastActivity s),
      pbs_ClientCount = to_int32 (int (ClientCount s)),
      pbs_LogPath = (case s_logger s of None \<Rightarrow> [] | Some l \<Rightarrow> LogPath l),
      pbs_LogSizeBytes = (case s_logger s of None \<Rightarrow> 0 | Some l \<Rightarrow> sl_bytesWritten l)\<rparr>"

record pb_event =
  pbe_SessionId :: string
  pbe_SessionName :: string
  pbe_Tool :: string
  pbe_Type :: int
  pbe_Timestamp :: int
  pbe_Message :: string

definition sessionEventToProto :: "event \<Rightarrow> pb_event" where
  "sessionEventToProto e =
     \<lparr>pbe_SessionId = ev_SessionID e, pbe_SessionName = ev_SessionName e, pbe_Tool = ev_Tool e,
      pbe_Type = (case ev_Type e of EventTypeBell \<Rightarrow> 1 | EventTypeEnded \<Rightarrow> 2 | EventTypeUnspecified \<Rightarrow> 0),
      pbe_Timestamp = unix_time (ev_Timestamp e), pbe_Message = ev_Message e\<rparr>"

section \<open>Creating and listing\<close>

record create_session_req =
  sq_ProjectId :: string
  sq_Tool :: string
  sq_WorkingDirectory :: string
  sq_Name :: string
  sq_Args :: "string list"
  sq_Cols :: int
  sq_Rows :: int

definition session_dir :: "session_io \<Rightarrow> create_session_req \<Rightarrow> session_srv \<Rightarrow> rpc_error + string" where
  "session_dir io q s =
     (case (if sq_ProjectId q \<noteq> [] then map_option pj_Path (reg_Get (sv_registry s) (sq_ProjectId q))
            else Some (sq_WorkingDirectory q)) of
        None \<Rightarrow> Inl (NotFound, ''project not found'')
      | Some dir \<Rightarrow>
          (case (if is_abs dir then Inr dir else map_sum id (resolveUnderHome dir) (sio_home io)) of
             Inl e \<Rightarrow> Inl (Internal, ''failed to get home directory: '' @ e)
           | Inr dir \<Rightarrow>
               (case sio_stat io dir of
                  DirOk \<Rightarrow> Inr dir
                | DirMissing \<Rightarrow> Inl (InvalidArgument, ''working directory does not exist: '' @ dir)
                | DirError e \<Rightarrow> Inl (InvalidArgument, ''working directory is not accessible: '' @ e)
                | NotADir \<Rightarrow> Inl (InvalidArgument, ''working directory is not a directory: '' @ dir))))"

definition session_svc_Create ::
  "session_io \<Rightarrow> create_session_req \<Rightarrow> session_srv \<Rightarrow> session_srv \<times> (rpc_error + pb_session)" where
  "session_svc_Create io q s =
     (if sq_Tool q = [] then (s, Inl (InvalidArgument, ''tool is required''))
      else if \<not> isValidTool (sv_config s) (sq_Tool q) then
        (s, Inl (invalidToolError (sio_quote io) (sv_config s) (sq_Tool q)))
      else case session_dir io q s of
        Inl err \<Rightarrow> (s, Inl err)
      | Inr dir \<Rightarrow>
          let (cols, rows) = clamp_size (sq_Cols q) (sq_Rows q);
              (m, r) = mgr_Create (sio_env io) (sio_uuid io) (sq_ProjectId q) (sq_Tool q) dir (sq_Name q)
                         (sq_Args q) cols rows (sv_mgr s);
              s = s\<lparr>sv_mgr := m\<rparr>
          in (case r of
                Inl e \<Rightarrow> (s, Inl (Internal, ''failed to create session: '' @ e))
              | Inr sess \<Rightarrow> (s, Inr (sessionToProto sess))))"

definition session_svc_List :: "string \<Rightarrow> bool \<Rightarrow> session_srv \<Rightarrow> pb_session list" where
  "session_svc_List projectID includeEnded s =
     map sessionToProto (mgr_List projectID includeEnded (sv_mgr s))"

section \<open>Using a session\<close>

text \<open>\<open>Attach\<close> up to the stream: the client's id is the fresh \<open>uuid\<close>.\<close>

definition session_svc_Attach ::
  "string \<Rightarrow> string \<Rightarrow> int \<Rightarrow> int \<Rightarrow> session_srv \<Rightarrow> session_srv \<times> (rpc_error + bytes \<times> signals)" where
  "session_svc_Attach uuid sid cols rows s =
     (if sid = [] then (s, Inl (InvalidArgument, ''session_id is required''))
      else
        let (cols, rows) = clamp_size cols rows;
            (m, r) = mgr_Attach uuid sid cols rows (sv_mgr s)
        in (s\<lparr>sv_mgr := m\<rparr>,
            case r of
              Inl e \<Rightarrow> Inl (if str_contains e ''has ended'' then (FailedPrecondition, ''session has ended'')
                           else (NotFound, ''failed to attach: '' @ e))
            | Inr x \<Rightarrow> Inr x))"

text \<open>What \<open>Input\<close> is waiting for, and what it does with it; \<open>Some\<close> ends the call.\<close>

datatype input_event = Stopping | ContextDone rpc_error | RecvEOF | RecvError string | RecvInput string bytes

definition input_error :: "string \<Rightarrow> rpc_error" where
  "input_error e =
     (if str_contains e ''has ended'' then (FailedPrecondition, ''session has ended'')
      else if str_contains e ''not found'' then (NotFound, ''failed to send input: '' @ e)
      else (Internal, ''failed to send input: '' @ e))"

definition input_step ::
  "env \<Rightarrow> input_event \<Rightarrow> session_srv \<Rightarrow> session_srv \<times> (rpc_error + unit) option" where
  "input_step e ev s =
     (case ev of
        Stopping \<Rightarrow> (s, Some (Inl (Unavailable, ''daemon shutting down'')))
      | ContextDone err \<Rightarrow> (s, Some (Inl err))
      | RecvEOF \<Rightarrow> (s, Some (Inr ()))
      | RecvError msg \<Rightarrow> (s, Some (Inl (Internal, ''failed to receive input: '' @ msg)))
      | RecvInput sid data \<Rightarrow>
          if sid = [] then (s, Some (Inl (InvalidArgument, ''session_id is required'')))
          else if data = [] then (s, None)
          else (case mgr_Input e sid data (sv_mgr s) of
                  (m, None) \<Rightarrow> (s\<lparr>sv_mgr := m\<rparr>, None)
                | (m, Some err) \<Rightarrow> (s\<lparr>sv_mgr := m\<rparr>, Some (Inl (input_error err)))))"

definition session_svc_Detach :: "unit" where "session_svc_Detach = ()"

definition session_svc_Kill :: "env \<Rightarrow> string \<Rightarrow> session_srv \<Rightarrow> (session_srv \<times> (rpc_error + unit)) option" where
  "session_svc_Kill e sid s =
     (if sid = [] then Some (s, Inl (InvalidArgument, ''session_id is required''))
      else case mgr_Kill e sid (sv_mgr s) of
        None \<Rightarrow> None
      | Some (m, err) \<Rightarrow>
          Some (s\<lparr>sv_mgr := m\<rparr>,
                case err of Some msg \<Rightarrow> Inl (NotFound, ''failed to kill session: '' @ msg) | None \<Rightarrow> Inr ()))"

definition session_svc_Resize :: "string \<Rightarrow> int \<Rightarrow> int \<Rightarrow> session_srv \<Rightarrow> session_srv \<times> (rpc_error + unit)" where
  "session_svc_Resize sid cols rows s =
     (if sid = [] then (s, Inl (InvalidArgument, ''session_id is required''))
      else if cols \<le> 0 \<or> rows \<le> 0 then (s, Inl (InvalidArgument, ''cols and rows must be positive''))
      else if 500 < cols \<or> 200 < rows then
        (s, Inl (InvalidArgument, ''terminal dimensions too large (max 500x200)''))
      else let (m, err) = mgr_Resize sid cols rows (sv_mgr s)
           in (s\<lparr>sv_mgr := m\<rparr>,
               case err of Some e \<Rightarrow> Inl (NotFound, ''failed to resize: '' @ e) | None \<Rightarrow> Inr ()))"

definition session_svc_GetScrollback :: "string \<Rightarrow> int \<Rightarrow> session_srv \<Rightarrow> rpc_error + bytes" where
  "session_svc_GetScrollback sid lines s =
     (if sid = [] then Inl (InvalidArgument, ''session_id is required'')
      else case mgr_GetScrollback (sv_mgr s) sid of
        Inl e \<Rightarrow> Inl (NotFound, ''failed to get scrollback: '' @ e)
      | Inr data \<Rightarrow> Inr (if 0 < lines then lastNLines data lines else data))"

section \<open>Logs and history\<close>

text \<open>
  The chunks of the log as \<open>Read\<close> returns them: at least one byte, at most the buffer; how many is
  \<open>sz\<close>'s choice.
\<close>

function stream_log :: "stream \<Rightarrow> (nat \<Rightarrow> nat) \<Rightarrow> bytes \<Rightarrow> bytes list \<Rightarrow> bytes list \<times> rpc_error option" where
  "stream_log stream sz data sent =
     (if data = [] then (sent, None)
      else
        let n = min 65536 (max 1 (sz (length sent))) in
        case stream (length sent) of
          Some e \<Rightarrow> (sent, Some (Internal, ''failed to send data: '' @ e))
        | None \<Rightarrow> stream_log stream sz (drop n data) (sent @ [take n data]))"
  by pat_completeness auto
termination
  by (relation "measure (\<lambda>(stream, sz, data, sent). length data)") auto

declare stream_log.simps [simp del]

definition log_seeks :: "string \<Rightarrow> string \<Rightarrow> log_fs \<Rightarrow> bool" where
  "log_seeks logDir sid fs \<longleftrightarrow> gget fs (join_paths [logDir, sid @ ''.log.gz'']) = None"

definition session_svc_GetSessionLog ::
  "stream \<Rightarrow> (nat \<Rightarrow> nat) \<Rightarrow> (bytes \<Rightarrow> bytes) \<Rightarrow> string \<Rightarrow> int \<Rightarrow> session_srv \<Rightarrow> bytes list \<times> rpc_error option" where
  "session_svc_GetSessionLog stream sz enc sid offset s =
     (let m = sv_mgr s in
      if sid = [] then ([], Some (InvalidArgument, ''session_id is required''))
      else case ReadLog enc (m_logDir m) sid (m_logs m) of
        Inl err \<Rightarrow>
          (case mgr_GetScrollback m sid of
             Inl e \<Rightarrow> ([], Some (NotFound, ''session log not found: '' @ err))
           | Inr data \<Rightarrow>
               if data = [] then ([], None)
               else (case stream 0 of
                       Some e \<Rightarrow> ([], Some (Internal, ''failed to send data: '' @ e))
                     | None \<Rightarrow> ([data], None)))
      | Inr data \<Rightarrow>
          stream_log stream sz
            (if 0 < offset \<and> log_seeks (m_logDir m) sid (m_logs m) then drop (nat offset) data else data) [])"

definition historical :: "(bytes \<Rightarrow> bytes) \<Rightarrow> manager \<Rightarrow> session_record \<Rightarrow> pb_session" where
  "historical enc m r =
     \<lparr>pbs_Id = rec_ID r, pbs_Name = rec_Name r, pbs_ProjectId = rec_ProjectID r, pbs_Tool = rec_Tool r,
      pbs_WorkingDirectory = rec_WorkingDirectory r, pbs_Status = 3,
      pbs_CreatedAt = unix_time (rec_Created r), pbs_EndedAt = unix_time (rec_Ended r),
      pbs_LastActivity = 0, pbs_ClientCount = 0, pbs_LogPath = rec_LogPath r,
      pbs_LogSizeBytes =
        (case GetLogSize enc (m_logDir m) (rec_ID r) (m_logs m) of Inl e \<Rightarrow> 0 | Inr n \<Rightarrow> n)\<rparr>"

definition session_svc_ListHistorical ::
  "(bytes \<Rightarrow> bytes) \<Rightarrow> string \<Rightarrow> int \<Rightarrow> session_srv \<Rightarrow> pb_session list" where
  "session_svc_ListHistorical enc projectID limit s =
     (let limit = (if limit \<le> 0 then 50 else limit)
      in map (historical enc (sv_mgr s)) (store_ListEndedForProject projectID limit (m_store (sv_mgr s))))"

section \<open>Events\<close>

record watch =
  wt_sent :: "pb_event list"
  wt_ret :: "rpc_error option option"

definition watch_start :: "string \<Rightarrow> event_hub \<Rightarrow> watch \<times> event_hub" where
  "watch_start uuid h = (\<lparr>wt_sent = [], wt_ret = None\<rparr>, fst (hub_Subscribe uuid h))"

definition watch_send :: "stream \<Rightarrow> event \<Rightarrow> watch \<Rightarrow> watch" where
  "watch_send stream ev w =
     (case stream (length (wt_sent w)) of
        Some e \<Rightarrow> w\<lparr>wt_ret := Some (Some (Internal, ''failed to send event: '' @ e))\<rparr>
      | None \<Rightarrow> w\<lparr>wt_sent := wt_sent w @ [sessionEventToProto ev]\<rparr>)"

text \<open>The next event of the subscription; and, once the hub has closed it, all that is left in it.\<close>

definition watch_recv :: "stream \<Rightarrow> string \<Rightarrow> watch \<times> event_hub \<Rightarrow> watch \<times> event_hub" where
  "watch_recv stream uuid st =
     (case hub_receive uuid (snd st) of
        (h, None) \<Rightarrow> (fst st, h)
      | (h, Some ev) \<Rightarrow> (watch_send stream ev (fst st), h))"

fun watch_drain :: "stream \<Rightarrow> event list \<Rightarrow> watch \<Rightarrow> watch" where
  "watch_drain stream [] w = w\<lparr>wt_ret := Some None\<rparr>"
| "watch_drain stream (ev # evs) w =
     (let w = watch_send stream ev w in if wt_ret w \<noteq> None then w else watch_drain stream evs w)"

definition session_svc_ListEvents :: "int \<Rightarrow> session_srv \<Rightarrow> pb_event list" where
  "session_svc_ListEvents limit s = map sessionEventToProto (hub_Recent limit (m_events (sv_mgr s)))"

section \<open>External sessions\<close>

record pb_external =
  pbx_Pid :: int
  pbx_Tool :: string
  pbx_WorkingDirectory :: string
  pbx_StartedAt :: int
  pbx_Command :: string

definition externalToProto :: "external_session \<Rightarrow> pb_external" where
  "externalToProto e =
     \<lparr>pbx_Pid = to_int32 (es_PID e), pbx_Tool = es_Tool e, pbx_WorkingDirectory = es_WorkingDir e,
      pbx_StartedAt = (if is_zero (es_StartedAt e) then 0 else unix_time (es_StartedAt e)),
      pbx_Command = es_Command e\<rparr>"

definition session_svc_ListExternal ::
  "proc_fs \<Rightarrow> int \<Rightarrow> string \<Rightarrow> session_srv \<Rightarrow> rpc_error + pb_external list" where
  "session_svc_ListExternal pf self projectID s =
     (case (if projectID \<noteq> [] then map_option pj_Path (reg_Get (sv_registry s) projectID) else Some []) of
        None \<Rightarrow> Inl (NotFound, ''project not found'')
      | Some projectPath \<Rightarrow>
          Inr (map externalToProto
            (filter (\<lambda>e. \<not> (projectPath \<noteq> [] \<and> \<not> pathWithin (es_WorkingDir e) projectPath))
               (Scan pf (externalTools (sv_config s)) [self]))))"

definition session_svc_KillExternal ::
  "(string \<Rightarrow> string) \<Rightarrow> proc_fs \<Rightarrow> proc_fs \<Rightarrow> string option \<Rightarrow> int \<Rightarrow> string \<Rightarrow> session_srv
   \<Rightarrow> signals \<times> (rpc_error + unit)" where
  "session_svc_KillExternal quote pf later kill_err pid tool s =
     (if pid \<le> 1 then ([], Inl (InvalidArgument, ''valid pid is required''))
      else if tool = [] then ([], Inl (InvalidArgument, ''tool is required''))
      else case ext_Kill quote pf later kill_err pid tool (externalTools (sv_config s)) of
        (sent, Some e) \<Rightarrow> (sent, Inl (FailedPrecondition, e))
      | (sent, None) \<Rightarrow> (sent, Inr ()))"

section \<open>The service with the steps of its sessions\<close>

fun is_resize :: "session_op \<Rightarrow> bool" where
  "is_resize (OpResize cols rows) = True"
| "is_resize _ = False"

text \<open>
  Requests of clients, the steps of the sessions themselves (which never resize), the cleanup loop,
  the shutdown, and changes of the registry by the project service.
\<close>

inductive ssrv_step :: "session_srv \<Rightarrow> session_srv \<Rightarrow> bool" where
  create: "ssrv_step s (fst (session_svc_Create io q s))"
| attach: "ssrv_step s (fst (session_svc_Attach uuid sid cols rows s))"
| detach: "mgr_Detach sid cid (sv_mgr s) = Some (m, err) \<Longrightarrow> ssrv_step s (s\<lparr>sv_mgr := m\<rparr>)"
| input: "ssrv_step s (fst (input_step e ev s))"
| kill: "session_svc_Kill e sid s = Some (s', r) \<Longrightarrow> ssrv_step s s'"
| resize: "ssrv_step s (fst (session_svc_Resize sid cols rows s))"
| cleanup: "mgr_cleanup e (sv_mgr s) = Some m \<Longrightarrow> ssrv_step s (s\<lparr>sv_mgr := m\<rparr>)"
| close: "mgr_Close e (sv_mgr s) = Some m \<Longrightarrow> ssrv_step s (s\<lparr>sv_mgr := m\<rparr>)"
| session: "mgr_session_step sid op (sv_mgr s) = Some m \<Longrightarrow> \<not> is_resize op \<Longrightarrow> ssrv_step s (s\<lparr>sv_mgr := m\<rparr>)"
| registry: "ssrv_step s (s\<lparr>sv_registry := r\<rparr>)"

abbreviation ssrv_steps :: "session_srv \<Rightarrow> session_srv \<Rightarrow> bool" where
  "ssrv_steps \<equiv> ssrv_step\<^sup>*\<^sup>*"

section \<open>Windows and tools\<close>

text \<open>What an operation other than a resize leaves alone.\<close>

definition same_window :: "session \<Rightarrow> session \<Rightarrow> bool" where
  "same_window s s' \<longleftrightarrow> s_Tool s' = s_Tool s \<and> s_Cols s' = s_Cols s \<and> s_Rows s' = s_Rows s
     \<and> (\<forall>p'. s_pty s' = Some p' \<longrightarrow> (\<exists>p. s_pty s = Some p \<and> pty_Cols p' = pty_Cols p
            \<and> pty_Rows p' = pty_Rows p \<and> (pty_open p' \<longrightarrow> pty_open p)))"

definition window_ok :: "config \<Rightarrow> session \<Rightarrow> bool" where
  "window_ok c s \<longleftrightarrow> isValidTool c (s_Tool s)
     \<and> 1 \<le> s_Cols s \<and> s_Cols s \<le> 500 \<and> 1 \<le> s_Rows s \<and> s_Rows s \<le> 200
     \<and> (\<forall>p. s_pty s = Some p \<longrightarrow> pty_open p \<longrightarrow> uint (pty_Cols p) = s_Cols s \<and> uint (pty_Rows p) = s_Rows s)"

definition windows_ok :: "config \<Rightarrow> manager \<Rightarrow> bool" where
  "windows_ok c m \<longleftrightarrow> (\<forall>k s. gget (m_sessions m) k = Some s \<longrightarrow> window_ok c s)"

lemma same_window_refl [simp]: "same_window s s"
  by (simp add: same_window_def)

lemma same_window_trans: "same_window s t \<Longrightarrow> same_window t u \<Longrightarrow> same_window s u"
  unfolding same_window_def by metis

lemma window_ok_same: "window_ok c s \<Longrightarrow> same_window s s' \<Longrightarrow> window_ok c s'"
  unfolding window_ok_def same_window_def by metis

lemma same_windowI:
  "s_Tool s' = s_Tool s \<and> s_Cols s' = s_Cols s \<and> s_Rows s' = s_Rows s \<and> s_pty s' = s_pty s \<Longrightarrow> same_window s s'"
  by (simp add: same_window_def)

fun uses_pty :: "session_op \<Rightarrow> bool" where
  "uses_pty (OpResize cols rows) = True"
| "uses_pty (OpInput now data) = True"
| "uses_pty _ = False"

lemma session_step_pty:
  "session_step op s = Some (s', seen) \<Longrightarrow> \<not> uses_pty op \<Longrightarrow>
    s_Tool s' = s_Tool s \<and> s_Cols s' = s_Cols s \<and> s_Rows s' = s_Rows s \<and> s_pty s' = s_pty s"
  by (cases op)
     (auto simp: appendAndBroadcast_def broadcast_def split_def reader_track_def
        AttachClient_locked_def registerClient_def RemoveClient_locked_def client_recv_def
        surface_gap_def TakeOutputGap_def noteClientAttached_def noteClientRemoved_def markDone_def Let_def
        split: option.splits recv_result.splits if_splits)

lemma session_Write_same: "same_window s (fst (session_Write now data s))"
  by (cases "s_pty s") (simp_all add: session_Write_def same_window_def UpdateActivity_def Let_def)

lemma session_step_same:
  assumes "session_step op s = Some (s', seen)" and "\<not> is_resize op"
  shows "same_window s s'"
proof (cases "uses_pty op")
  case True
  with assms session_Write_same show ?thesis by (cases op) auto
next
  case False
  from same_windowI [OF session_step_pty [OF assms(1) False]] show ?thesis .
qed

lemma session_run_same:
  "session_run ops s = Some (s', seen) \<Longrightarrow> list_all (\<lambda>op. \<not> is_resize op) ops \<Longrightarrow> same_window s s'"
proof (induction ops arbitrary: s seen)
  case (Cons op ops)
  then obtain s1 got seen1 where r: "session_step op s = Some (s1, got)" "session_run ops s1 = Some (s', seen1)"
    by (auto split: option.splits)
  have "same_window s s1" using session_step_same [OF r(1)] Cons.prems(2) by simp
  moreover have "same_window s1 s'" using Cons.IH [OF r(2)] Cons.prems(2) by simp
  ultimately show ?case by (rule same_window_trans)
qed simp

lemma AttachClient_same: "same_window s (fst (AttachClient cid n s))"
proof -
  obtain cnt where "session_run [OpAttach cid n, OpNoteAttached cnt] s = Some (fst (AttachClient cid n s), [])"
    using attach_as_run [of cid n s] by blast
  then show ?thesis by (rule session_run_same) simp
qed

lemma RemoveClient_same: "RemoveClient cid s = Some s' \<Longrightarrow> same_window s s'"
proof -
  assume "RemoveClient cid s = Some s'"
  from remove_as_run [OF this] obtain u where "session_run [OpDetach cid, OpNoteDetached u] s = Some (s', [])" ..
  then show ?thesis by (rule session_run_same) simp
qed

lemma session_Close_same:
  "session_Close now kill wr io (s, fs) = Some ((s', fs'), evs, sent, chans) \<Longrightarrow> same_window s s'"
  by (auto simp: session_Close_def Let_def same_window_def markDone_def split_def
      split: if_splits option.splits)

lemma window_ok_resize:
  assumes "window_ok c s" and "1 \<le> cols" and "cols \<le> 500" and "1 \<le> rows" and "rows \<le> 200"
  shows "window_ok c (fst (session_Resize cols rows s))"
proof -
  have "uint (word_of_int cols :: 16 word) = cols" "uint (word_of_int rows :: 16 word) = rows"
    using assms(2-) by (simp_all add: uint_word_of_int take_bit_int_eq_self)
  then show ?thesis using assms by (auto simp: session_Resize_def window_ok_def Let_def split: option.splits)
qed

lemma windows_ok_put:
  "windows_ok c m \<Longrightarrow> window_ok c s \<Longrightarrow> m_sessions m' = gput k s (m_sessions m) \<Longrightarrow> windows_ok c m'"
  by (auto simp: windows_ok_def gomap_simps split: if_splits)

lemma windows_ok_same_sessions: "m_sessions m' = m_sessions m \<Longrightarrow> windows_ok c m' = windows_ok c m"
  by (simp add: windows_ok_def)

lemma windows_ok_get: "windows_ok c m \<Longrightarrow> gget (m_sessions m) k = Some s \<Longrightarrow> window_ok c s"
  by (simp add: windows_ok_def)

lemma close_session_same:
  "close_session e s m = Some (s', m') \<Longrightarrow> same_window s s' \<and> m_sessions m' = m_sessions m"
  by (auto simp: close_session_def split: bind_splits prod.splits dest!: session_Close_same)

lemma windows_ok_close_in_place: "close_in_place e ids m = Some m' \<Longrightarrow> windows_ok c m \<Longrightarrow> windows_ok c m'"
proof (induction ids arbitrary: m)
  case (Cons sid ids)
  show ?case
  proof (cases "gget (m_sessions m) sid")
    case None
    then show ?thesis using Cons by simp
  next
    case (Some s)
    obtain s' m1 where c: "close_session e s m = Some (s', m1)"
      "close_in_place e ids (set_session sid s' m1) = Some m'"
      using Cons.prems(1) Some by (auto split: bind_splits)
    have "window_ok c s'"
      using window_ok_same [OF windows_ok_get [OF Cons.prems(2) Some]] close_session_same [OF c(1)] by blast
    then have "windows_ok c (set_session sid s' m1)"
      using windows_ok_put [OF Cons.prems(2)] close_session_same [OF c(1)] by (simp add: set_session_def)
    then show ?thesis by (rule Cons.IH [OF c(2)])
  qed
qed simp

lemma windows_ok_gdel: "windows_ok c m \<Longrightarrow> m_sessions m' = gdel_all ks (m_sessions m) \<Longrightarrow> windows_ok c m'"
  by (auto simp: windows_ok_def gomap_simps split: if_splits)

lemma gdel_all_one: "gdel k m = gdel_all [k] m"
  by simp

lemma windows_ok_Close: "mgr_Close e m = Some m' \<Longrightarrow> windows_ok c m \<Longrightarrow> windows_ok c m'"
  using windows_ok_close_in_place [where m = "m\<lparr>m_closed := True\<rparr>"] windows_ok_same_sessions
  by (auto simp: mgr_Close_def fold_MarkEnded mgr_Save_def Let_def windows_ok_def split: if_splits bind_splits)

lemma windows_ok_Kill:
  assumes "mgr_Kill e sid m = Some (m', err)" and "windows_ok c m"
  shows "windows_ok c m'"
proof (cases "gget (m_sessions m) sid")
  case None
  with assms show ?thesis by (simp add: mgr_Kill_def)
next
  case (Some s)
  then have "m_sessions m' = gdel_all [sid] (m_sessions m)"
    using assms(1) by (auto simp: mgr_Kill_def mgr_MarkEnded_def mgr_Save_def split: bind_splits
        dest!: close_session_same)
  then show ?thesis by (rule windows_ok_gdel [OF assms(2)])
qed

lemma windows_ok_set: "windows_ok c m \<Longrightarrow> window_ok c s \<Longrightarrow> windows_ok c (set_session sid s m)"
  by (erule windows_ok_put) (simp_all add: set_session_def)

lemma windows_ok_Detach:
  assumes "mgr_Detach sid cid m = Some (m', err)" and "windows_ok c m"
  shows "windows_ok c m'"
proof (cases "gget (m_sessions m) sid")
  case None
  with assms show ?thesis by (simp add: mgr_Detach_def)
next
  case (Some s)
  then obtain s' where r: "RemoveClient cid s = Some s'" "m' = set_session sid s' m"
    using assms(1) by (auto simp: mgr_Detach_def)
  have "window_ok c s'" using window_ok_same [OF windows_ok_get [OF assms(2) Some] RemoveClient_same [OF r(1)]] .
  with assms(2) show ?thesis unfolding r(2) by (rule windows_ok_set)
qed

lemma windows_ok_Input:
  assumes "windows_ok c m"
  shows "windows_ok c (fst (mgr_Input e sid data m))"
proof (cases "gget (m_sessions m) sid")
  case (Some s)
  have "window_ok c (fst (session_Write (e_now e) data s))"
    using window_ok_same [OF windows_ok_get [OF assms Some] session_Write_same] .
  from windows_ok_set [OF assms this] show ?thesis using assms
    by (simp add: mgr_Input_def Some Let_def split_def)
qed (simp add: mgr_Input_def assms)

lemma windows_ok_Resize:
  assumes "windows_ok c m" and "1 \<le> cols" and "cols \<le> 500" and "1 \<le> rows" and "rows \<le> 200"
  shows "windows_ok c (fst (mgr_Resize sid cols rows m))"
proof (cases "gget (m_sessions m) sid")
  case (Some s)
  from windows_ok_set [OF assms(1) window_ok_resize [OF windows_ok_get [OF assms(1) Some] assms(2-)]]
  show ?thesis by (simp add: mgr_Resize_def Some Let_def split_def)
qed (simp add: mgr_Resize_def assms)

lemma windows_ok_Create:
  assumes "windows_ok c m" and "isValidTool c tool" and "clamp_size cols0 rows0 = (cols, rows)"
  shows "windows_ok c (fst (mgr_Create e uuid projectID tool workingDir name args cols rows m))"
proof -
  have b: "1 \<le> cols" "cols \<le> 500" "1 \<le> rows" "rows \<le> 200"
    using assms(3) by (auto simp: clamp_size_def Let_def split: if_splits)
  have u: "uint (word_of_int cols :: 16 word) = cols" "uint (word_of_int rows :: 16 word) = rows"
    using b by (simp_all add: uint_word_of_int take_bit_int_eq_self)
  let ?s = "\<lambda>l. (NewSession uuid (e_now e) projectID tool workingDir name args cols rows (m_maxBufferSize m))
    \<lparr>s_onEvent := True, s_logger := l\<rparr>"
  have new: "window_ok c sess" if "StartPTY shell environ start (?s l) = (sess, None)" for shell environ start l sess
    using that b u assms(2)
    by (auto simp: StartPTY_def window_ok_def GetDimensions_def NewSession_def Let_def split: sum.splits)
  have nolog: "?s None = (NewSession uuid (e_now e) projectID tool workingDir name args cols rows (m_maxBufferSize m))
    \<lparr>s_onEvent := True\<rparr>" by (simp add: NewSession_def Let_def)
  show ?thesis
    using assms(1) new new [where l = None, unfolded nolog]
    by (auto simp: mgr_Create_def mgr_Save_def Let_def windows_ok_def gomap_simps
        split: prod.splits option.splits sum.splits if_splits)
qed

lemma windows_ok_Attach:
  assumes "windows_ok c m" and "clamp_size cols0 rows0 = (cols, rows)"
  shows "windows_ok c (fst (mgr_Attach uuid sid cols rows m))"
proof (cases "gget (m_sessions m) sid")
  case (Some s)
  have "1 \<le> cols" "cols \<le> 500" "1 \<le> rows" "rows \<le> 200"
    using assms(2) by (auto simp: clamp_size_def Let_def split: if_splits)
  then have r: "window_ok c (fst (session_Resize cols rows s))" and pos: "0 < cols \<and> 0 < rows"
    using window_ok_resize windows_ok_get [OF assms(1) Some] by auto
  have "fst (mgr_Attach uuid sid cols rows m) = (if IsDone s then m
      else set_session sid (fst (AttachClient uuid (m_clientBufferSize m) (fst (session_Resize cols rows s)))) m)"
    using pos by (simp add: mgr_Attach_def Some Let_def split_def)
  then show ?thesis using assms(1) windows_ok_set [OF assms(1) window_ok_same [OF r AttachClient_same]] by simp
qed (simp add: mgr_Attach_def assms)

lemma windows_ok_session:
  assumes "mgr_session_step sid op m = Some m'" and "\<not> is_resize op" and "windows_ok c m"
  shows "windows_ok c m'"
proof (cases "gget (m_sessions m) sid")
  case None
  with assms show ?thesis by (simp add: mgr_session_step_def)
next
  case (Some s)
  then obtain s' got hub where r: "session_step op s = Some (s', got)"
    "m' = set_session sid s' m\<lparr>m_events := hub\<rparr>"
    using assms(1) by (auto simp: mgr_session_step_def split: bind_splits)
  have "window_ok c s'"
    using window_ok_same [OF windows_ok_get [OF assms(3) Some]] session_step_same [OF r(1) assms(2)] .
  then show ?thesis by (rule windows_ok_put [OF assms(3)]) (simp add: r(2) set_session_def)
qed

lemma ssrv_step_windows:
  "ssrv_step s s' \<Longrightarrow> windows_ok (sv_config s) (sv_mgr s) \<Longrightarrow>
    sv_config s' = sv_config s \<and> windows_ok (sv_config s) (sv_mgr s')"
proof (induction rule: ssrv_step.induct)
  case (create s io q)
  then show ?case using windows_ok_Create [OF create, of "sq_Tool q"]
    by (auto simp: session_svc_Create_def Let_def split: sum.splits prod.splits) (metis fst_conv)+
next
  case (attach s uuid sid cols rows)
  then show ?case using windows_ok_Attach [OF attach]
    by (auto simp: session_svc_Attach_def Let_def split: prod.splits) (metis fst_conv)+
next
  case (detach sid cid s m err)
  then show ?case using windows_ok_Detach by auto
next
  case (input s e ev)
  have "windows_ok (sv_config s) (fst (mgr_Input e sid data (sv_mgr s)))" for sid data
    by (rule windows_ok_Input [OF input])
  then show ?case using input
    by (auto simp: input_step_def split: input_event.splits prod.splits option.splits) (metis fst_conv)+
next
  case (kill e sid s s' r)
  then show ?case using windows_ok_Kill
    by (auto simp: session_svc_Kill_def split: if_splits option.splits prod.splits)
next
  case (resize s sid cols rows)
  then show ?case using windows_ok_Resize [OF resize, of cols rows sid]
    by (simp add: session_svc_Resize_def Let_def split_def)
next
  case (cleanup e s m)
  then show ?case using mgr_cleanup_config [of e "sv_mgr s" m] windows_ok_gdel by auto
next
  case (close e s m)
  then show ?case using windows_ok_Close by auto
next
  case (session sid op s m)
  then show ?case using windows_ok_session by auto
qed auto

lemma ssrv_steps_windows:
  "ssrv_steps s s' \<Longrightarrow> windows_ok (sv_config s) (sv_mgr s) \<Longrightarrow>
    sv_config s' = sv_config s \<and> windows_ok (sv_config s) (sv_mgr s')"
  by (induction rule: rtranclp_induct) (auto dest: ssrv_step_windows)

section \<open>Streaming a log\<close>

lemma stream_log_prefix:
  assumes "stream_log stream sz data sent = (sent', err)"
  shows "\<exists>chunks rest. sent' = sent @ chunks \<and> data = concat chunks @ rest \<and> (err = None \<longleftrightarrow> rest = [])
    \<and> list_all (\<lambda>c. c \<noteq> [] \<and> length c \<le> 65536) chunks"
  using assms
proof (induction stream sz data sent rule: stream_log.induct)
  case (1 stream sz data sent)
  let ?n = "min 65536 (max 1 (sz (length sent)))"
  show ?case
  proof (cases "data = [] \<or> stream (length sent) \<noteq> None")
    case True
    then have "sent' = sent \<and> (err = None \<longleftrightarrow> data = [])"
      using "1.prems" by (subst (asm) stream_log.simps) (auto simp: Let_def split: if_splits)
    then show ?thesis by (intro exI [of _ "[]"] exI [of _ data]) simp
  next
    case False
    then have "stream_log stream sz (drop ?n data) (sent @ [take ?n data]) = (sent', err)"
      using "1.prems" by (subst (asm) stream_log.simps) (simp add: Let_def)
    then obtain chunks rest where ih: "sent' = (sent @ [take ?n data]) @ chunks" "drop ?n data = concat chunks @ rest"
      "err = None \<longleftrightarrow> rest = []" "list_all (\<lambda>c. c \<noteq> [] \<and> length c \<le> 65536) chunks"
      using "1.IH" False by (auto simp: not_Some_eq)
    have "data = take ?n data @ drop ?n data" by simp
    then have "data = concat (take ?n data # chunks) @ rest" unfolding ih(2) by simp
    then show ?thesis using ih False by (intro exI [of _ "take ?n data # chunks"] exI [of _ rest]) auto
  qed
qed

text \<open>
  A reader of a session's log is sent the log from its offset (if the log is not compressed) in order,
  in chunks of at most 64 KiB, completely unless the connection fails.
\<close>

lemma GetSessionLog_streams:
  assumes "session_svc_GetSessionLog stream sz enc sid offset s = (sent, err)" and "sid \<noteq> []"
    and "ReadLog enc (m_logDir (sv_mgr s)) sid (m_logs (sv_mgr s)) = Inr data"
  shows "\<exists>rest. (if 0 < offset \<and> log_seeks (m_logDir (sv_mgr s)) sid (m_logs (sv_mgr s)) then drop (nat offset) data else data)
      = concat sent @ rest \<and> (err = None \<longleftrightarrow> rest = [])
    \<and> list_all (\<lambda>c. c \<noteq> [] \<and> length c \<le> 65536) sent"
  using assms stream_log_prefix by (fastforce simp: session_svc_GetSessionLog_def Let_def)

section \<open>The service's guarantees\<close>

text \<open>
  C8: every session runs an allowed tool in a window of sane size. However requests, the sessions
  themselves, the cleanup loop, a shutdown and the project service interleave, each session of the
  daemon was started with a tool the configuration allows (the shell tool only if it is enabled), its
  window has 1 to 500 columns and 1 to 200 rows, and while its PTY is open the 16-bit size of the PTY is
  that window exactly: the truncation in \<open>Resize\<close> never loses anything.
\<close>
theorem session_service_windows:
  assumes "m_sessions (sv_mgr s0) = []" and "ssrv_steps s0 s"
    and "gget (m_sessions (sv_mgr s)) sid = Some sess"
  shows "isValidTool (sv_config s0) (s_Tool sess) \<and> (s_Tool sess = ''shell'' \<longrightarrow> EnableShellTool (sv_config s0))
    \<and> 1 \<le> s_Cols sess \<and> s_Cols sess \<le> 500 \<and> 1 \<le> s_Rows sess \<and> s_Rows sess \<le> 200
    \<and> (\<forall>p. s_pty sess = Some p \<longrightarrow> pty_open p \<longrightarrow>
          uint (pty_Cols p) = s_Cols sess \<and> uint (pty_Rows p) = s_Rows sess)"
proof -
  have "windows_ok (sv_config s0) (sv_mgr s0)" using assms(1) by (simp add: windows_ok_def)
  then have "windows_ok (sv_config s0) (sv_mgr s)" using ssrv_steps_windows [OF assms(2)] by blast
  then have w: "window_ok (sv_config s0) sess" using assms(3) by (rule windows_ok_get)
  then show ?thesis using isValidTool_shell by (metis window_ok_def)
qed

text \<open>A shell session on a host that allows it, created without a size.\<close>

abbreviation (input) sample_srv :: session_srv where
  "sample_srv \<equiv> \<lparr>sv_config = (DefaultConfig ''/h'')\<lparr>EnableShellTool := True\<rparr>, sv_registry = NewRegistry ''/d'',
     sv_mgr = sample_start\<rparr>"

abbreviation (input) sample_sio :: session_io where
  "sample_sio \<equiv> \<lparr>sio_env = sample_env, sio_uuid = ''u'', sio_home = Inr ''/h'', sio_stat = (\<lambda>_. DirOk),
     sio_quote = (\<lambda>s. s)\<rparr>"

abbreviation (input) sample_req :: create_session_req where
  "sample_req \<equiv> \<lparr>sq_ProjectId = [], sq_Tool = ''shell'', sq_WorkingDirectory = ''/'', sq_Name = [], sq_Args = [],
     sq_Cols = 0, sq_Rows = 0\<rparr>"

lemma sample_create_mgr:
  "sv_mgr (fst (session_svc_Create sample_sio sample_req sample_srv))
      = fst (mgr_Create sample_env ''u'' [] ''shell'' ''/'' [] [] 80 24 sample_start)
    \<and> snd (session_svc_Create sample_sio sample_req sample_srv)
      = (case snd (mgr_Create sample_env ''u'' [] ''shell'' ''/'' [] [] 80 24 sample_start) of
           Inl e \<Rightarrow> Inl (Internal, ''failed to create session: '' @ e) | Inr sess \<Rightarrow> Inr (sessionToProto sess))"
proof -
  have tool: "isValidTool ((DefaultConfig ''/h'')\<lparr>EnableShellTool := True\<rparr>) ''shell''" by code_simp
  have size: "clamp_size 0 0 = (80, 24)" by (simp add: clamp_size_def)
  have dir: "session_dir sample_sio sample_req sample_srv = Inr ''/''"
    by (simp add: session_dir_def is_abs_def has_prefix_def)
  show ?thesis
    by (simp add: session_svc_Create_def tool dir size Let_def split: prod.split sum.split)
qed

lemma sample_create:
  "\<exists>sess. gget (m_sessions (sv_mgr (fst (session_svc_Create sample_sio sample_req sample_srv)))) ''u'' = Some sess"
  using sample_run by (auto simp: mgr_Get_def sample_create_mgr)

lemma session_service_windows_witness:
  "\<exists>s sess. ssrv_steps sample_srv s \<and> gget (m_sessions (sv_mgr s)) ''u'' = Some sess
    \<and> 1 \<le> s_Cols sess \<and> s_Rows sess \<le> 200"
proof -
  let ?s = "fst (session_svc_Create sample_sio sample_req sample_srv)"
  obtain sess where g: "gget (m_sessions (sv_mgr ?s)) ''u'' = Some sess" using sample_create by blast
  have e: "m_sessions (sv_mgr sample_srv) = []" by (simp add: NewManager_def Let_def)
  have r: "ssrv_steps sample_srv ?s" by (intro r_into_rtranclp ssrv_step.create)
  show ?thesis using session_service_windows [OF e r g] g r by blast
qed

lemma resolveUnderHome_abs: "is_abs home \<Longrightarrow> is_abs (resolveUnderHome dir home)"
proof -
  assume home: "is_abs home"
  then have ne: "home \<noteq> []" by (auto simp: is_abs_def has_prefix_def)
  have "is_abs (join_paths [home, d])" for d
    using home ne by (simp add: join_paths_def is_abs_join)
  then show ?thesis using home by (simp add: resolveUnderHome_def)
qed

lemma session_dir_ok:
  assumes "session_dir io q s = Inr dir" and "sio_home io = Inr home" and "is_abs home"
  shows "is_abs dir \<and> sio_stat io dir = DirOk
    \<and> (sq_ProjectId q \<noteq> [] \<longrightarrow> (\<exists>proj. reg_Get (sv_registry s) (sq_ProjectId q) = Some proj
         \<and> (is_abs (pj_Path proj) \<longrightarrow> dir = pj_Path proj)))
    \<and> (sq_ProjectId q = [] \<longrightarrow> is_abs (sq_WorkingDirectory q) \<longrightarrow> dir = sq_WorkingDirectory q)"
  using assms resolveUnderHome_abs [OF assms(3)]
  by (auto simp: session_dir_def split: option.splits sum.splits if_splits dir_stat.splits)

lemma StartPTY_kept:
  "StartPTY shell environ start s = (s', err) \<Longrightarrow> s_ID s' = s_ID s \<and> s_Tool s' = s_Tool s
    \<and> s_WorkingDirectory s' = s_WorkingDirectory s"
  by (auto simp: StartPTY_def GetDimensions_def split: sum.splits)

lemma mgr_Create_Inr:
  assumes "mgr_Create e uuid projectID tool workingDir name args cols rows m = (m', Inr sess)"
  shows "\<not> m_closed m \<and> (0 < m_maxSessions m \<longrightarrow> int (live_count (m_sessions m)) < m_maxSessions m)
    \<and> gget (m_sessions m') uuid = Some sess \<and> s_Tool sess = tool \<and> s_WorkingDirectory sess = workingDir"
proof -
  let ?new = "(NewSession uuid (e_now e) projectID tool workingDir name args cols rows (m_maxBufferSize m))
      \<lparr>s_onEvent := True\<rparr>"
  obtain lg logs where lg: "NewSessionLogger (e_mkdir_log e) (e_open_log e) uuid (m_logDir m) (m_logs m) = (lg, logs)"
    by fastforce
  define s0 where "s0 = (case lg of Inl _ \<Rightarrow> ?new | Inr l \<Rightarrow> ?new\<lparr>s_logger := Some l\<rparr>)"
  have s0: "s_ID s0 = uuid" "s_Tool s0 = tool" "s_WorkingDirectory s0 = workingDir"
    by (simp_all add: s0_def NewSession_def Let_def split: sum.split)
  obtain s1 err where st: "StartPTY (e_shell e) (e_environ e) (e_start e) s0 = (s1, err)" by fastforce
  have c: "\<not> m_closed m" "\<not> (0 < m_maxSessions m \<and> m_maxSessions m \<le> int (live_count (m_sessions m)))"
    using assms by (auto simp: mgr_Create_def split: if_splits)
  have "err = None \<and> sess = s1 \<and> m_sessions m' = gput (s_ID s1) s1 (m_sessions m)"
    using assms c st
    by (auto simp: mgr_Create_def Let_def lg s0_def [symmetric] mgr_Save_def split: option.splits)
  then show ?thesis using c StartPTY_kept [OF st] s0 by (auto simp: gomap_simps)
qed

text \<open>
  What \<open>Create\<close> accepts. A session is created only with an allowed tool, in an absolute directory
  that exists (the project's own if a project is given and its path is absolute, else the path asked for,
  resolved under the home directory if it is relative), under the session limit and before shutdown;
  it is then in the manager, and the reply describes it. A refusal for any other reason than a failed
  start leaves the daemon as it was.
\<close>
lemma session_create_checked:
  assumes "session_svc_Create io q s = (s', res)" and "sio_home io = Inr home" and "is_abs home"
  shows "case res of
      Inr p \<Rightarrow> \<exists>sess. gget (m_sessions (sv_mgr s')) (sio_uuid io) = Some sess \<and> p = sessionToProto sess
        \<and> isValidTool (sv_config s) (s_Tool sess) \<and> s_Tool sess = sq_Tool q
        \<and> is_abs (s_WorkingDirectory sess) \<and> sio_stat io (s_WorkingDirectory sess) = DirOk
        \<and> (sq_ProjectId q \<noteq> [] \<longrightarrow> (\<exists>proj. reg_Get (sv_registry s) (sq_ProjectId q) = Some proj
             \<and> (is_abs (pj_Path proj) \<longrightarrow> s_WorkingDirectory sess = pj_Path proj)))
        \<and> (sq_ProjectId q = [] \<longrightarrow> is_abs (sq_WorkingDirectory q) \<longrightarrow> s_WorkingDirectory sess = sq_WorkingDirectory q)
        \<and> \<not> m_closed (sv_mgr s)
        \<and> (0 < m_maxSessions (sv_mgr s) \<longrightarrow> int (live_count (m_sessions (sv_mgr s))) < m_maxSessions (sv_mgr s))
    | Inl e \<Rightarrow> fst e \<noteq> Internal \<longrightarrow> s' = s"
proof (cases "sq_Tool q = [] \<or> \<not> isValidTool (sv_config s) (sq_Tool q) \<or> (\<exists>e. session_dir io q s = Inl e)")
  case True
  then show ?thesis using assms(1) by (auto simp: session_svc_Create_def split: if_splits)
next
  case False
  then obtain dir where dir: "session_dir io q s = Inr dir" and tool: "sq_Tool q \<noteq> []" "isValidTool (sv_config s) (sq_Tool q)"
    by (cases "session_dir io q s") auto
  obtain cols rows where size: "clamp_size (sq_Cols q) (sq_Rows q) = (cols, rows)" by fastforce
  obtain m r where cr: "mgr_Create (sio_env io) (sio_uuid io) (sq_ProjectId q) (sq_Tool q) dir (sq_Name q)
      (sq_Args q) cols rows (sv_mgr s) = (m, r)" by fastforce
  show ?thesis
  proof (cases r)
    case (Inl e)
    then have "res = Inl (Internal, ''failed to create session: '' @ e)"
      using assms(1) by (simp add: session_svc_Create_def dir tool size cr)
    then show ?thesis by simp
  next
    case (Inr sess)
    then have "s' = s\<lparr>sv_mgr := m\<rparr>" "res = Inr (sessionToProto sess)"
      using assms(1) by (simp_all add: session_svc_Create_def dir tool size cr)
    then show ?thesis
      using mgr_Create_Inr [OF cr [unfolded Inr]] session_dir_ok [OF dir assms(2,3)] tool by auto
  qed
qed

lemma session_create_checked_witness:
  "\<exists>(sess :: session). gget (m_sessions (sv_mgr (fst (session_svc_Create sample_sio sample_req sample_srv)))) ''u''
      = Some sess \<and> s_WorkingDirectory sess = ''/'' \<and> s_Tool sess = ''shell''"
proof -
  obtain s' res where c: "session_svc_Create sample_sio sample_req sample_srv = (s', res)" by fastforce
  have home: "sio_home sample_sio = Inr ''/h''" "is_abs ''/h''" "is_abs ''/''"
    by (simp_all add: is_abs_def has_prefix_def)
  have "\<exists>sess. snd (mgr_Create sample_env ''u'' [] ''shell'' ''/'' [] [] 80 24 sample_start) = Inr sess"
    by (simp add: mgr_Create_def NewManager_def Let_def NewSession_def StartPTY_def live_count_def
      gvals_def mgr_Save_def int64_def NewSessionLogger_def buildCommand_def GetDimensions_def
      split: prod.split sum.split)
  then obtain p where p: "snd (session_svc_Create sample_sio sample_req sample_srv) = Inr p"
    using sample_create_mgr by (auto split: sum.splits)
  then show ?thesis using session_create_checked [OF c home(1,2)] home(3) c by auto
qed

end
