(* ===== verification/Server_Tasks.thy ===== *)
theory Server_Tasks
  imports Server_Base Project Executor
begin

text \<open>
  The task service of \<open>internal/server/server.go\<close> over the task definitions, the run history and the
  executor. Each handler is one step; the goroutines of the runs move on between the handlers as
  \<open>Executor\<close> says.
\<close>

record task_srv =
  tv_config :: config
  tv_registry :: registry
  tv_exec :: executor
  tv_taskfile :: "task store_file"

record task_io =
  tio_now :: time
  tio_sha256 :: "bytes \<Rightarrow> bytes"
  tio_time_String :: "time \<Rightarrow> string"
  tio_uuid :: string
  tio_save_tasks :: save_io
  tio_save_runs :: save_io
  tio_quote :: "string \<Rightarrow> string"

section \<open>Conversions\<close>

definition protoToTaskScope :: "int \<Rightarrow> task_scope" where
  "protoToTaskScope scope =
     (if scope = 1 then TaskScopeGlobal else if scope = 2 then TaskScopeSystem
      else if scope = 3 then TaskScopeProject else TaskScopeUnspecified)"

definition taskScopeToProto :: "task_scope \<Rightarrow> int" where
  "taskScopeToProto scope =
     (if scope = TaskScopeGlobal then 1 else if scope = TaskScopeSystem then 2
      else if scope = TaskScopeProject then 3 else 0)"

definition taskRunStatusToProto :: "run_status \<Rightarrow> int" where
  "taskRunStatusToProto st =
     (if st = RunStatusPending then 1 else if st = RunStatusRunning then 2
      else if st = RunStatusCompleted then 3 else if st = RunStatusFailed then 4
      else if st = RunStatusCancelled then 5 else 0)"

record pb_task =
  pt_Id :: string
  pt_Name :: string
  pt_Description :: string
  pt_Tool :: string
  pt_Scope :: int
  pt_ProjectId :: string
  pt_Prompt :: string
  pt_Interactive :: bool
  pt_TimeoutSeconds :: int

definition taskToProto :: "task \<Rightarrow> pb_task" where
  "taskToProto t =
     \<lparr>pt_Id = t_ID t, pt_Name = t_Name t, pt_Description = t_Description t, pt_Tool = t_Tool t,
      pt_Scope = taskScopeToProto (t_Scope t), pt_ProjectId = t_ProjectID t, pt_Prompt = t_Prompt t,
      pt_Interactive = t_Interactive t, pt_TimeoutSeconds = to_int32 (t_TimeoutSeconds t)\<rparr>"

record pb_run =
  pr_Id :: string
  pr_TaskId :: string
  pr_Status :: int
  pr_StartedAt :: int
  pr_CompletedAt :: int
  pr_Output :: string
  pr_Error :: string
  pr_SessionId :: string

definition taskRunToProto :: "run \<Rightarrow> pb_run" where
  "taskRunToProto r =
     \<lparr>pr_Id = r_ID r, pr_TaskId = r_TaskID r, pr_Status = taskRunStatusToProto (r_Status r),
      pr_StartedAt = unix_time (r_StartedAt r),
      pr_CompletedAt = (if is_zero (r_CompletedAt r) then 0 else unix_time (r_CompletedAt r)),
      pr_Output = r_Output r, pr_Error = r_Error r, pr_SessionId = r_SessionID r\<rparr>"

section \<open>Requests\<close>

record create_task_req =
  cq_Name :: string
  cq_Description :: string
  cq_Tool :: string
  cq_Scope :: int
  cq_ProjectId :: string
  cq_Prompt :: string
  cq_Interactive :: bool
  cq_TimeoutSeconds :: int

record update_task_req =
  uq_Id :: string
  uq_Name :: "string option"
  uq_Description :: "string option"
  uq_Tool :: "string option"
  uq_Scope :: "int option"
  uq_ProjectId :: "string option"
  uq_Prompt :: "string option"
  uq_Interactive :: "bool option"
  uq_TimeoutSeconds :: "int option"

section \<open>Saving\<close>

definition set_tasks :: "task_store \<Rightarrow> task_srv \<Rightarrow> task_srv" where
  "set_tasks ts s = s\<lparr>tv_exec := (tv_exec s)\<lparr>x_tasks := ts\<rparr>\<rparr>"

definition save_tasks :: "task_io \<Rightarrow> task_srv \<Rightarrow> task_srv \<times> string option" where
  "save_tasks io s =
     (let (f, err) = task_Save (tio_save_tasks io) (x_tasks (tv_exec s)) (tv_taskfile s)
      in (s\<lparr>tv_taskfile := f\<rparr>, err))"

definition save_runs :: "task_io \<Rightarrow> task_srv \<Rightarrow> task_srv \<times> string option" where
  "save_runs io s =
     (let x = tv_exec s; (f, err) = run_Save (tio_save_runs io) (x_runs x) (x_disk x)
      in (s\<lparr>tv_exec := x\<lparr>x_disk := f\<rparr>\<rparr>, err))"

definition tasks_saved :: "string option \<Rightarrow> 'r \<Rightarrow> rpc_error + 'r" where
  "tasks_saved err r =
     (case err of Some e \<Rightarrow> Inl (Internal, ''failed to save task store: '' @ e) | None \<Rightarrow> Inr r)"

definition runs_saved :: "string option \<Rightarrow> 'r \<Rightarrow> rpc_error + 'r" where
  "runs_saved err r =
     (case err of Some e \<Rightarrow> Inl (Internal, ''failed to save task run store: '' @ e) | None \<Rightarrow> Inr r)"

section \<open>Task definitions\<close>

definition task_svc_List :: "int \<Rightarrow> string \<Rightarrow> task_srv \<Rightarrow> pb_task list" where
  "task_svc_List scope projectID s =
     map taskToProto (task_List (protoToTaskScope scope) projectID (x_tasks (tv_exec s)))"

definition create_error :: "task_io \<Rightarrow> create_task_req \<Rightarrow> task_srv \<Rightarrow> rpc_error option" where
  "create_error io q s =
     (let c = tv_config s; scope = protoToTaskScope (cq_Scope q) in
      first_error
       [(cq_Name q = [], (InvalidArgument, ''name is required'')),
        (cq_Tool q = [], (InvalidArgument, ''tool is required'')),
        (\<not> isValidTool c (cq_Tool q), invalidToolError (tio_quote io) c (cq_Tool q)),
        (scope = TaskScopeUnspecified, (InvalidArgument, ''scope is required'')),
        (scope = TaskScopeProject \<and> cq_ProjectId q = [],
          (InvalidArgument, ''project_id is required for project-scoped tasks'')),
        (scope = TaskScopeProject \<and> reg_Get (tv_registry s) (cq_ProjectId q) = None,
          (NotFound, ''project not found'')),
        (scope = TaskScopeGlobal, (Unimplemented, ''global tasks not yet supported'')),
        (cq_Interactive q, (Unimplemented, ''interactive tasks not yet supported''))])"

definition task_svc_Create :: "task_io \<Rightarrow> create_task_req \<Rightarrow> task_srv \<Rightarrow> task_srv \<times> (rpc_error + pb_task)" where
  "task_svc_Create io q s =
     (case create_error io q s of
        Some err \<Rightarrow> (s, Inl err)
      | None \<Rightarrow>
          let (ts, t) = task_Create (tio_sha256 io) (tio_time_String io) (tio_now io) (cq_Name q)
                (cq_Description q) (cq_Tool q) (protoToTaskScope (cq_Scope q)) (cq_ProjectId q)
                (cq_Prompt q) (cq_Interactive q) (cq_TimeoutSeconds q) (x_tasks (tv_exec s));
              (s, err) = save_tasks io (set_tasks ts s)
          in (s, tasks_saved err (taskToProto t)))"

text \<open>The scope and project an update leaves the task with, before the stale project is cleared.\<close>

definition update_scope :: "update_task_req \<Rightarrow> task \<Rightarrow> task_scope" where
  "update_scope q existing =
     (case uq_Scope q of Some sc \<Rightarrow> protoToTaskScope sc | None \<Rightarrow> t_Scope existing)"

definition update_project :: "update_task_req \<Rightarrow> task \<Rightarrow> string" where
  "update_project q existing = (case uq_ProjectId q of Some p \<Rightarrow> p | None \<Rightarrow> t_ProjectID existing)"

definition update_error :: "task_io \<Rightarrow> update_task_req \<Rightarrow> task \<Rightarrow> task_srv \<Rightarrow> rpc_error option" where
  "update_error io q existing s =
     (let c = tv_config s; scope = update_scope q existing; projectID = update_project q existing in
      first_error
       [(uq_Name q = Some [], (InvalidArgument, ''name cannot be empty'')),
        (uq_Tool q = Some [], (InvalidArgument, ''tool cannot be empty'')),
        (case uq_Tool q of Some tool \<Rightarrow> \<not> isValidTool c tool | None \<Rightarrow> False,
          invalidToolError (tio_quote io) c (case uq_Tool q of Some tool \<Rightarrow> tool | None \<Rightarrow> [])),
        (uq_Interactive q = Some True, (Unimplemented, ''interactive tasks not yet supported'')),
        (case uq_TimeoutSeconds q of Some n \<Rightarrow> n < 0 | None \<Rightarrow> False,
          (InvalidArgument, ''timeout_seconds cannot be negative'')),
        (uq_Scope q \<noteq> None \<and> scope = TaskScopeUnspecified, (InvalidArgument, ''scope is invalid'')),
        (uq_Scope q \<noteq> None \<and> scope = TaskScopeGlobal,
          (Unimplemented, ''global tasks not yet supported'')),
        (scope = TaskScopeProject \<and> projectID = [],
          (InvalidArgument, ''project_id is required for project scope'')),
        (scope = TaskScopeProject \<and> reg_Get (tv_registry s) projectID = None,
          (NotFound, ''project not found'')),
        (scope \<noteq> TaskScopeProject \<and> uq_ProjectId q \<noteq> None \<and> projectID \<noteq> [],
          (InvalidArgument, ''project_id only applies to project scope''))])"

definition update_patch :: "update_task_req \<Rightarrow> task \<Rightarrow> patch" where
  "update_patch q existing =
     \<lparr>p_Name = uq_Name q, p_Description = uq_Description q, p_Tool = uq_Tool q,
      p_Scope = (if uq_Scope q = None then None else Some (update_scope q existing)),
      p_ProjectID =
        (if uq_ProjectId q = None \<and> update_scope q existing \<noteq> TaskScopeProject
            \<and> update_project q existing \<noteq> [] then Some [] else uq_ProjectId q),
      p_Prompt = uq_Prompt q, p_Interactive = uq_Interactive q, p_TimeoutSeconds = uq_TimeoutSeconds q\<rparr>"

definition task_svc_Update :: "task_io \<Rightarrow> update_task_req \<Rightarrow> task_srv \<Rightarrow> task_srv \<times> (rpc_error + pb_task)" where
  "task_svc_Update io q s =
     (if uq_Id q = [] then (s, Inl (InvalidArgument, ''id is required''))
      else case task_Get (x_tasks (tv_exec s)) (uq_Id q) of
        None \<Rightarrow> (s, Inl (NotFound, ''task not found''))
      | Some existing \<Rightarrow>
          (case update_error io q existing s of
             Some err \<Rightarrow> (s, Inl err)
           | None \<Rightarrow>
               (case task_Update (tio_now io) (uq_Id q) (update_patch q existing) (x_tasks (tv_exec s)) of
                  (ts, None) \<Rightarrow> (set_tasks ts s, Inl (NotFound, ''task not found''))
                | (ts, Some t) \<Rightarrow>
                    let (s, err) = save_tasks io (set_tasks ts s) in (s, tasks_saved err (taskToProto t)))))"

definition task_svc_Delete :: "task_io \<Rightarrow> string \<Rightarrow> task_srv \<Rightarrow> task_srv \<times> (rpc_error + unit)" where
  "task_svc_Delete io taskID s =
     (if taskID = [] then (s, Inl (InvalidArgument, ''task_id is required''))
      else case task_Delete taskID (x_tasks (tv_exec s)) of
        (ts, False) \<Rightarrow> (s, Inl (NotFound, ''task not found''))
      | (ts, True) \<Rightarrow>
          let s = set_tasks ts s;
              s = s\<lparr>tv_exec := (tv_exec s)\<lparr>x_runs := run_DeleteByTask taskID (x_runs (tv_exec s))\<rparr>\<rparr>
          in (case save_tasks io s of
                (s, Some e) \<Rightarrow> (s, tasks_saved (Some e) ())
              | (s, None) \<Rightarrow> let (s, err) = save_runs io s in (s, runs_saved err ())))"

section \<open>Runs\<close>

definition run_project :: "task \<Rightarrow> registry \<Rightarrow> string option" where
  "run_project t r =
     (if t_Scope t = TaskScopeProject \<and> t_ProjectID t \<noteq> []
      then map_option pj_Path (reg_Get r (t_ProjectID t)) else Some [])"

definition task_svc_Run :: "task_io \<Rightarrow> string \<Rightarrow> task_srv \<Rightarrow> task_srv \<times> (rpc_error + pb_run)" where
  "task_svc_Run io taskID s =
     (if taskID = [] then (s, Inl (InvalidArgument, ''task_id is required''))
      else case task_Get (x_tasks (tv_exec s)) taskID of
        None \<Rightarrow> (s, Inl (NotFound, ''task not found''))
      | Some t \<Rightarrow>
          if \<not> isValidTool (tv_config s) (t_Tool t) then
            (s, Inl (if t_Tool t = ''shell'' then invalidToolError (tio_quote io) (tv_config s) (t_Tool t)
                     else (FailedPrecondition, ''task has invalid tool '' @ tio_quote io (t_Tool t)
                             @ '' (not in current config)'')))
          else
            (case run_project t (tv_registry s) of
               None \<Rightarrow> (s, Inl (NotFound, ''task's project not found''))
             | Some path \<Rightarrow>
                 (case exec_Run (tio_uuid io) (tio_now io) taskID path (tv_exec s) of
                    (x, Inl e) \<Rightarrow> (s\<lparr>tv_exec := x\<rparr>, Inl (Internal, ''failed to run task: '' @ e))
                  | (x, Inr r) \<Rightarrow>
                      let (s, err) = save_runs io (s\<lparr>tv_exec := x\<rparr>) in (s, runs_saved err (taskRunToProto r)))))"

definition task_svc_GetRun :: "string \<Rightarrow> task_srv \<Rightarrow> rpc_error + pb_run" where
  "task_svc_GetRun runID s =
     (if runID = [] then Inl (InvalidArgument, ''run_id is required'')
      else case run_Get (x_runs (tv_exec s)) runID of
        None \<Rightarrow> Inl (NotFound, ''run not found'')
      | Some r \<Rightarrow> Inr (taskRunToProto r))"

definition task_svc_ListRuns :: "string \<Rightarrow> int \<Rightarrow> task_srv \<Rightarrow> pb_run list" where
  "task_svc_ListRuns taskID limit s =
     (let limit = (if limit \<le> 0 then 50 else limit); rs = x_runs (tv_exec s)
      in map taskRunToProto (if taskID \<noteq> [] then run_ListByTask taskID limit rs else run_ListAll limit rs))"

definition task_svc_CancelRun :: "task_io \<Rightarrow> string \<Rightarrow> task_srv \<Rightarrow> task_srv \<times> (rpc_error + unit)" where
  "task_svc_CancelRun io runID s =
     (if runID = [] then (s, Inl (InvalidArgument, ''run_id is required''))
      else case exec_Cancel (tio_now io) runID (tv_exec s) of
        (x, Some e) \<Rightarrow> (s\<lparr>tv_exec := x\<rparr>, Inl (Internal, ''failed to cancel run: '' @ e))
      | (x, None) \<Rightarrow> let (s, err) = save_runs io (s\<lparr>tv_exec := x\<rparr>) in (s, runs_saved err ()))"

definition task_svc_Export :: "rpc_error" where
  "task_svc_Export = (Unimplemented, ''task export not yet implemented'')"

definition task_svc_Import :: "rpc_error" where
  "task_svc_Import = (Unimplemented, ''task import not yet implemented'')"

datatype task_req = TCreate create_task_req | TUpdate update_task_req | TDelete string | TRun string
  | TCancelRun string

fun task_handle :: "task_io \<Rightarrow> task_req \<Rightarrow> task_srv \<Rightarrow> task_srv" where
  "task_handle io (TCreate q) s = fst (task_svc_Create io q s)"
| "task_handle io (TUpdate q) s = fst (task_svc_Update io q s)"
| "task_handle io (TDelete k) s = fst (task_svc_Delete io k s)"
| "task_handle io (TRun k) s = fst (task_svc_Run io k s)"
| "task_handle io (TCancelRun k) s = fst (task_svc_CancelRun io k s)"

fun task_srv_run :: "(task_io \<times> task_req) list \<Rightarrow> task_srv \<Rightarrow> task_srv" where
  "task_srv_run [] s = s"
| "task_srv_run ((io, req) # rs) s = task_srv_run rs (task_handle io req s)"

section \<open>What the service keeps in its store\<close>

definition task_ok :: "config \<Rightarrow> task \<Rightarrow> bool" where
  "task_ok c t \<longleftrightarrow> t_Name t \<noteq> [] \<and> isValidTool c (t_Tool t) \<and> \<not> t_Interactive t
     \<and> (t_Scope t = TaskScopeSystem \<or> t_Scope t = TaskScopeProject \<and> t_ProjectID t \<noteq> [])"

definition tsrv_inv :: "config \<Rightarrow> task_srv \<Rightarrow> bool" where
  "tsrv_inv c s \<longleftrightarrow> tv_config s = c \<and> task_wf (x_tasks (tv_exec s))
     \<and> (\<forall>k t. task_Get (x_tasks (tv_exec s)) k = Some t \<longrightarrow> task_ok c t)"

lemmas scope_defs = TaskScopeUnspecified_def TaskScopeGlobal_def TaskScopeSystem_def TaskScopeProject_def

lemma tsrv_invI:
  "tv_config s = c \<Longrightarrow> task_wf (x_tasks (tv_exec s)) \<Longrightarrow>
   (\<And>k t. task_Get (x_tasks (tv_exec s)) k = Some t \<Longrightarrow> task_ok c t) \<Longrightarrow> tsrv_inv c s"
  by (simp add: tsrv_inv_def)

lemma tsrv_invD:
  assumes "tsrv_inv c s"
  shows "tv_config s = c" and "task_wf (x_tasks (tv_exec s))"
    and "task_Get (x_tasks (tv_exec s)) k = Some t \<Longrightarrow> task_ok c t"
  using assms by (simp_all add: tsrv_inv_def)

lemma tsrv_inv_cong:
  "tv_config s' = tv_config s \<Longrightarrow> x_tasks (tv_exec s') = x_tasks (tv_exec s) \<Longrightarrow> tsrv_inv c s' = tsrv_inv c s"
  by (simp add: tsrv_inv_def)

lemma set_tasks_simps [simp]:
  "tv_config (set_tasks ts s) = tv_config s" "x_tasks (tv_exec (set_tasks ts s)) = ts"
  "tv_registry (set_tasks ts s) = tv_registry s"
  by (simp_all add: set_tasks_def)

lemma save_tasks_simps [simp]:
  "tv_config (fst (save_tasks io s)) = tv_config s" "tv_exec (fst (save_tasks io s)) = tv_exec s"
  by (simp_all add: save_tasks_def split: prod.split)

lemma save_runs_simps [simp]:
  "tv_config (fst (save_runs io s)) = tv_config s"
  "x_tasks (tv_exec (fst (save_runs io s))) = x_tasks (tv_exec s)"
  "x_threads (tv_exec (fst (save_runs io s))) = x_threads (tv_exec s)"
  by (simp_all add: save_runs_def Let_def split: prod.split)

lemma exec_Run_tasks: "x_tasks (fst (exec_Run uuid now k path x)) = x_tasks x"
  by (simp add: exec_Run_def exec_Run_locked_def split: option.split)

lemma cancel_step_tasks [simp]: "x_tasks (cancel_step now i x) = x_tasks x"
  by (simp add: cancel_step_def store_cancel_def end_ctx_def killGroup_def
      split: prod.split cancel_pc.split option.split)

lemma exec_Cancel_tasks: "x_tasks (fst (exec_Cancel now k x)) = x_tasks x"
  by (simp add: exec_Cancel_def Let_def start_cancel_def exec_Cancel_unregistered_def store_cancel_def
      split: option.split)

text \<open>The same for the results of a call.\<close>

lemma saved_D:
  "save_tasks io s = (s', err) \<Longrightarrow> tv_config s' = tv_config s \<and> tv_exec s' = tv_exec s"
  "save_runs io s = (s', err) \<Longrightarrow> tv_config s' = tv_config s
     \<and> x_tasks (tv_exec s') = x_tasks (tv_exec s) \<and> x_threads (tv_exec s') = x_threads (tv_exec s)"
  "exec_Run uuid now k path x = (x', res) \<Longrightarrow> x_tasks x' = x_tasks x"
  "exec_Cancel now k x = (x', e) \<Longrightarrow> x_tasks x' = x_tasks x"
  using save_tasks_simps [of io s] save_runs_simps [of io s] exec_Run_tasks [of uuid now k path x]
    exec_Cancel_tasks [of now k x] by simp_all

lemma create_ok:
  assumes "create_error io q s = None"
  shows "cq_Name q \<noteq> []" "isValidTool (tv_config s) (cq_Tool q)" "\<not> cq_Interactive q"
    "protoToTaskScope (cq_Scope q) = TaskScopeSystem
      \<or> protoToTaskScope (cq_Scope q) = TaskScopeProject \<and> cq_ProjectId q \<noteq> []"
  using assms by (auto simp: create_error_def Let_def first_error_None protoToTaskScope_def simp del: first_error.simps)

lemma task_svc_Create_inv:
  assumes "tsrv_inv c s"
  shows "tsrv_inv c (fst (task_svc_Create io q s))"
proof (cases "create_error io q s")
  case None
  obtain ts t where cr: "task_Create (tio_sha256 io) (tio_time_String io) (tio_now io) (cq_Name q)
      (cq_Description q) (cq_Tool q) (protoToTaskScope (cq_Scope q)) (cq_ProjectId q)
      (cq_Prompt q) (cq_Interactive q) (cq_TimeoutSeconds q) (x_tasks (tv_exec s)) = (ts, t)" by fastforce
  then have ts: "ts = task_put t (x_tasks (tv_exec s))" and ok: "task_ok c t"
    using create_ok [OF None] tsrv_invD(1) [OF assms]
    by (auto simp: task_Create_def Let_def task_ok_def)
  note wf = tsrv_invD(2) [OF assms]
  have "tsrv_inv c (set_tasks ts s)"
  proof (rule tsrv_invI)
    show "tv_config (set_tasks ts s) = c" using tsrv_invD(1) [OF assms] by simp
    show "task_wf (x_tasks (tv_exec (set_tasks ts s)))" by (simp add: ts task_ks.wf_put [OF wf])
    fix k t' assume "task_Get (x_tasks (tv_exec (set_tasks ts s))) k = Some t'"
    then show "task_ok c t'"
      using ok tsrv_invD(3) [OF assms] by (auto simp: ts task_ks.lookup_put [OF wf] split: if_splits)
  qed
  moreover have "fst (task_svc_Create io q s) = fst (save_tasks io (set_tasks ts s))"
    by (simp add: task_svc_Create_def None cr Let_def split: prod.split)
  ultimately show ?thesis using tsrv_inv_cong [of "fst (save_tasks io (set_tasks ts s))" "set_tasks ts s"] by simp
qed (simp add: task_svc_Create_def assms)

lemma update_ok:
  assumes "update_error io q t s = None" and "task_ok (tv_config s) t"
  shows "task_ok (tv_config s) (apply_patch now (update_patch q t) t)"
proof -
  have e: "uq_Name q \<noteq> Some []" "uq_Interactive q \<noteq> Some True"
    "\<And>tool. uq_Tool q = Some tool \<Longrightarrow> isValidTool (tv_config s) tool"
    "uq_Scope q = None \<or> update_scope q t = TaskScopeSystem \<or> update_scope q t = TaskScopeProject"
    "update_scope q t \<noteq> TaskScopeProject \<or> update_project q t \<noteq> []"
    using assms(1)
    by (auto simp: update_error_def Let_def first_error_None update_scope_def protoToTaskScope_def
        simp del: first_error.simps split: option.splits)
  let ?t = "apply_patch now (update_patch q t) t"
  have name: "t_Name ?t \<noteq> []" using e(1) assms(2)
    by (cases "uq_Name q") (simp_all add: apply_patch_def update_patch_def task_ok_def)
  have tool: "isValidTool (tv_config s) (t_Tool ?t)" using e(3) assms(2)
    by (cases "uq_Tool q") (simp_all add: apply_patch_def update_patch_def task_ok_def)
  have inter: "\<not> t_Interactive ?t" using e(2) assms(2)
    by (cases "uq_Interactive q") (simp_all add: apply_patch_def update_patch_def task_ok_def)
  have scope: "t_Scope ?t = update_scope q t"
    by (cases "uq_Scope q") (simp_all add: apply_patch_def update_patch_def update_scope_def)
  have project: "t_ProjectID ?t = update_project q t" if "update_scope q t = TaskScopeProject"
    using that by (cases "uq_ProjectId q") (simp_all add: apply_patch_def update_patch_def update_project_def)
  have "update_scope q t = TaskScopeSystem \<or> update_scope q t = TaskScopeProject"
    using e(4) assms(2) by (auto simp: update_scope_def task_ok_def)
  with name tool inter scope project e(5) show ?thesis by (auto simp: task_ok_def)
qed

lemma task_svc_Update_inv:
  assumes "tsrv_inv c s"
  shows "tsrv_inv c (fst (task_svc_Update io q s))"
proof (cases "uq_Id q = [] \<or> task_Get (x_tasks (tv_exec s)) (uq_Id q) = None")
  case False
  then obtain t where t: "task_Get (x_tasks (tv_exec s)) (uq_Id q) = Some t" and k: "uq_Id q \<noteq> []" by auto
  show ?thesis
  proof (cases "update_error io q t s")
    case None
    let ?p = "update_patch q t" and ?ts = "x_tasks (tv_exec s)"
    note c = tsrv_invD(1) [OF assms]
    obtain ts where u: "task_Update (tio_now io) (uq_Id q) ?p ?ts = (ts, Some (apply_patch (tio_now io) ?p t))"
      using t by (simp add: task_Update_def task_Get_def Let_def)
    have "task_ok c t" by (rule tsrv_invD(3) [OF assms t])
    then have ok: "task_ok c (apply_patch (tio_now io) ?p t)" using update_ok [OF None] c by simp
    have "tsrv_inv c (set_tasks ts s)"
    proof (rule tsrv_invI)
      show "tv_config (set_tasks ts s) = c" by (simp add: c)
      show "task_wf (x_tasks (tv_exec (set_tasks ts s)))"
        using task_wf_Update [OF tsrv_invD(2) [OF assms], of "tio_now io" "uq_Id q" ?p] by (simp add: u)
      fix k' t' assume "task_Get (x_tasks (tv_exec (set_tasks ts s))) k' = Some t'"
      then have "t' = apply_patch (tio_now io) ?p t \<or> task_Get ?ts k' = Some t'"
        using task_Get_Update [of "tio_now io" "uq_Id q" ?p ?ts k'] by (auto simp: u t split: if_splits)
      then show "task_ok c t'" using ok tsrv_invD(3) [OF assms] by auto
    qed
    moreover have "fst (task_svc_Update io q s) = fst (save_tasks io (set_tasks ts s))"
      by (simp add: task_svc_Update_def k t None u Let_def split: prod.split)
    ultimately show ?thesis using tsrv_inv_cong [of "fst (save_tasks io (set_tasks ts s))" "set_tasks ts s"] by simp
  qed (simp add: task_svc_Update_def k t assms)
qed (auto simp: task_svc_Update_def assms)

lemma task_svc_Delete_inv:
  assumes "tsrv_inv c s"
  shows "tsrv_inv c (fst (task_svc_Delete io k s))"
proof (cases "k \<noteq> [] \<and> snd (task_Delete k (x_tasks (tv_exec s)))")
  case True
  obtain ts where d: "task_Delete k (x_tasks (tv_exec s)) = (ts, True)" using True by (metis prod.collapse)
  note wf = tsrv_invD(2) [OF assms]
  have ts: "ts = fst (task_Delete k (x_tasks (tv_exec s)))" by (simp add: d)
  let ?s = "(set_tasks ts s)\<lparr>tv_exec := (tv_exec (set_tasks ts s))
      \<lparr>x_runs := run_DeleteByTask k (x_runs (tv_exec (set_tasks ts s)))\<rparr>\<rparr>"
  have "tsrv_inv c ?s"
  proof (rule tsrv_invI)
    show "tv_config ?s = c" using tsrv_invD(1) [OF assms] by simp
    show "task_wf (x_tasks (tv_exec ?s))" using task_ks.wf_remove [OF wf] by (simp add: ts)
    fix k' t assume "task_Get (x_tasks (tv_exec ?s)) k' = Some t"
    then have "task_Get (x_tasks (tv_exec s)) k' = Some t"
      using task_ks.lookup_remove [OF wf, of k k'] by (simp add: ts split: if_splits)
    then show "task_ok c t" by (rule tsrv_invD(3) [OF assms])
  qed
  moreover have "tv_config (fst (task_svc_Delete io k s)) = tv_config ?s"
    "x_tasks (tv_exec (fst (task_svc_Delete io k s))) = x_tasks (tv_exec ?s)"
    using True by (auto simp: task_svc_Delete_def d Let_def dest!: saved_D split: prod.splits option.splits)
  ultimately show ?thesis using tsrv_inv_cong [of "fst (task_svc_Delete io k s)" ?s c] by simp
qed (auto simp: task_svc_Delete_def assms split: prod.splits bool.splits)

lemma task_svc_Run_inv: "tsrv_inv c s \<Longrightarrow> tsrv_inv c (fst (task_svc_Run io k s))"
proof -
  assume inv: "tsrv_inv c s"
  have "tv_config (fst (task_svc_Run io k s)) = tv_config s"
    "x_tasks (tv_exec (fst (task_svc_Run io k s))) = x_tasks (tv_exec s)"
    by (auto simp: task_svc_Run_def Let_def dest!: saved_D split: option.splits prod.splits sum.splits)
  with inv show ?thesis using tsrv_inv_cong [of "fst (task_svc_Run io k s)" s c] by simp
qed

lemma task_svc_CancelRun_inv: "tsrv_inv c s \<Longrightarrow> tsrv_inv c (fst (task_svc_CancelRun io k s))"
proof -
  assume inv: "tsrv_inv c s"
  have "tv_config (fst (task_svc_CancelRun io k s)) = tv_config s"
    "x_tasks (tv_exec (fst (task_svc_CancelRun io k s))) = x_tasks (tv_exec s)"
    by (auto simp: task_svc_CancelRun_def Let_def dest!: saved_D split: option.splits prod.splits)
  with inv show ?thesis using tsrv_inv_cong [of "fst (task_svc_CancelRun io k s)" s c] by simp
qed

lemma task_handle_inv: "tsrv_inv c s \<Longrightarrow> tsrv_inv c (task_handle io req s)"
  by (cases req) (simp_all add: task_svc_Create_inv task_svc_Update_inv task_svc_Delete_inv
      task_svc_Run_inv task_svc_CancelRun_inv)

section \<open>The service with the goroutines of its runs\<close>

text \<open>A step is a request, a step of a run's goroutine or timer, of a cancellation, or the shutdown.\<close>

inductive tsrv_step :: "task_srv \<Rightarrow> task_srv \<Rightarrow> bool" where
  request: "tsrv_step s (task_handle io req s)"
| thread: "gget (x_threads (tv_exec s)) r = Some th \<Longrightarrow>
    tsrv_step s (s\<lparr>tv_exec := thread_step w r th (tv_exec s)\<rparr>)"
| timer: "gget (x_threads (tv_exec s)) r = Some th \<Longrightarrow>
    tsrv_step s (s\<lparr>tv_exec := timer_fires r th (tv_exec s)\<rparr>)"
| cancel: "tsrv_step s (s\<lparr>tv_exec := cancel_step now i (tv_exec s)\<rparr>)"
| close: "tsrv_step s (s\<lparr>tv_exec := exec_Close_locked (tv_exec s)\<rparr>)"

abbreviation tsrv_steps :: "task_srv \<Rightarrow> task_srv \<Rightarrow> bool" where
  "tsrv_steps \<equiv> tsrv_step\<^sup>*\<^sup>*"

lemmas exec_step_defs = step_mark_def step_setup_def step_probe_def step_launch_def step_publish_def
  step_check_def step_wait_def step_finish_def step_save_def step_unregister_def goto_def killGroup_def
  setPgid_def

lemma thread_step_tasks [simp]: "x_tasks (thread_step w r th x) = x_tasks x"
  by (cases "th_pc th")
     (auto simp: thread_step_def exec_step_defs Let_def split: prod.split option.split wait_result.split
        list.split sum.split)

lemma timer_close_tasks [simp]:
  "x_tasks (timer_fires r th x) = x_tasks x" "x_tasks (exec_Close_locked x) = x_tasks x"
  by (simp_all add: timer_fires_def end_ctx_def exec_Close_locked_def)

lemma tsrv_step_inv: "tsrv_step s s' \<Longrightarrow> tsrv_inv c s \<Longrightarrow> tsrv_inv c s'"
proof (induction rule: tsrv_step.induct)
  case (request s io req)
  then show ?case by (rule task_handle_inv)
qed (simp_all add: tsrv_inv_def)

lemma tsrv_steps_inv: "tsrv_steps s s' \<Longrightarrow> tsrv_inv c s \<Longrightarrow> tsrv_inv c s'"
  by (induction rule: rtranclp_induct) (auto intro: tsrv_step_inv)

text \<open>What the service answers when nothing was stored.\<close>

definition refused :: "rpc_error + 'r \<Rightarrow> bool" where
  "refused res = (case res of Inl e \<Rightarrow> fst e \<noteq> Internal | Inr _ \<Rightarrow> False)"

lemma Create_refused: "refused (snd (task_svc_Create io q s)) \<Longrightarrow> fst (task_svc_Create io q s) = s"
  by (auto simp: task_svc_Create_def refused_def tasks_saved_def Let_def split: option.splits prod.splits)

lemma Update_refused:
  assumes "refused (snd (task_svc_Update io q s))"
  shows "fst (task_svc_Update io q s) = s"
proof (cases "uq_Id q = [] \<or> task_Get (x_tasks (tv_exec s)) (uq_Id q) = None")
  case False
  then obtain t where t: "task_Get (x_tasks (tv_exec s)) (uq_Id q) = Some t" "uq_Id q \<noteq> []" by auto
  then obtain ts t' where "task_Update (tio_now io) (uq_Id q) (update_patch q t) (x_tasks (tv_exec s)) = (ts, Some t')"
    by (simp add: task_Update_def task_Get_def Let_def)
  with assms t show ?thesis
    by (auto simp: task_svc_Update_def refused_def tasks_saved_def Let_def split: option.splits prod.splits)
qed (auto simp: task_svc_Update_def)

section \<open>Which programs the runs start\<close>

text \<open>
  The program of a run is the one \<open>buildCommand\<close> makes of its task, and the task's tool is one the
  configuration allows.
\<close>

definition launch_ok :: "exec_thread \<Rightarrow> bool" where
  "launch_ok th \<longleftrightarrow> (\<forall>cmd. th_pc th = PcLaunch cmd \<longrightarrow>
     (\<exists>shell environ dir. c_path cmd = c_path (task_buildCommand shell environ (th_task th) dir)
        \<and> c_args cmd = c_args (task_buildCommand shell environ (th_task th) dir)))"

definition tools_ok :: "config \<Rightarrow> executor \<Rightarrow> bool" where
  "tools_ok c x \<longleftrightarrow>
     (\<forall>k th. gget (x_threads x) k = Some th \<longrightarrow> isValidTool c (t_Tool (th_task th)) \<and> launch_ok th)"

lemma tools_ok_threads: "x_threads x' = x_threads x \<Longrightarrow> tools_ok c x' = tools_ok c x"
  by (simp add: tools_ok_def)

lemma thread_step_thread:
  assumes "gget (x_threads x) r = Some th" and "gget (x_threads (thread_step w r th x)) k = Some th'"
  shows "\<exists>th0. gget (x_threads x) k = Some th0 \<and> th_task th' = th_task th0 \<and> (launch_ok th0 \<longrightarrow> launch_ok th')"
  using assms
  by (cases "th_pc th"; cases "k = r")
     (auto simp: thread_step_def exec_step_defs Let_def gomap_simps launch_ok_def
        split: prod.splits option.splits wait_result.splits list.splits sum.splits if_splits, blast+)

lemma tools_ok_thread_step:
  "gget (x_threads x) r = Some th \<Longrightarrow> tools_ok c x \<Longrightarrow> tools_ok c (thread_step w r th x)"
  unfolding tools_ok_def by (metis thread_step_thread)

lemma tools_ok_run:
  "task_Get (x_tasks x) k = Some t \<Longrightarrow> isValidTool c (t_Tool t) \<Longrightarrow> tools_ok c x \<Longrightarrow>
   tools_ok c (fst (exec_Run uuid now k path x))"
  by (auto simp: exec_Run_def exec_Run_locked_def tools_ok_def gomap_simps launch_ok_def
      split: option.splits if_splits)

lemma cancel_step_threads [simp]: "x_threads (cancel_step now i x) = x_threads x"
  by (simp add: cancel_step_def store_cancel_def end_ctx_def killGroup_def
      split: prod.split cancel_pc.split option.split)

lemma exec_Cancel_threads: "exec_Cancel now k x = (x', e) \<Longrightarrow> x_threads x' = x_threads x"
  by (auto simp: exec_Cancel_def Let_def start_cancel_def exec_Cancel_unregistered_def store_cancel_def
      split: option.splits if_splits)

lemma handle_threads:
  "(\<And>k. req \<noteq> TRun k) \<Longrightarrow> x_threads (tv_exec (task_handle io req s)) = x_threads (tv_exec s)"
  by (cases req)
     (auto simp: task_svc_Create_def task_svc_Update_def task_svc_Delete_def task_svc_CancelRun_def Let_def
        set_tasks_def save_tasks_def save_runs_def
        dest!: exec_Cancel_threads split: option.splits prod.splits bool.splits if_splits)

lemma handle_config [simp]: "tv_config (task_handle io req s) = tv_config s"
  by (cases req)
     (auto simp: task_svc_Create_def task_svc_Update_def task_svc_Delete_def task_svc_CancelRun_def
        task_svc_Run_def Let_def dest!: saved_D split: option.splits prod.splits bool.splits sum.splits if_splits)

lemma tools_ok_handle:
  assumes "tools_ok (tv_config s) (tv_exec s)"
  shows "tools_ok (tv_config s) (tv_exec (task_handle io req s))"
proof (cases "\<exists>k. req = TRun k")
  case False
  then show ?thesis using assms handle_threads [of req io s] tools_ok_threads by blast
next
  case True
  then obtain k where req: "req = TRun k" by blast
  show ?thesis
  proof (cases "k \<noteq> [] \<and> (\<exists>t path. task_Get (x_tasks (tv_exec s)) k = Some t
      \<and> isValidTool (tv_config s) (t_Tool t) \<and> run_project t (tv_registry s) = Some path)")
    case True
    then obtain t path where t: "k \<noteq> []" "task_Get (x_tasks (tv_exec s)) k = Some t"
      "isValidTool (tv_config s) (t_Tool t)" "run_project t (tv_registry s) = Some path" by blast
    obtain x res where x: "exec_Run (tio_uuid io) (tio_now io) k path (tv_exec s) = (x, res)" by fastforce
    then have "tools_ok (tv_config s) x"
      using tools_ok_run [OF t(2,3) assms, of "tio_uuid io" "tio_now io" path] by simp
    moreover have "x_threads (tv_exec (task_handle io req s)) = x_threads x"
      by (cases res) (auto simp: req task_svc_Run_def t x Let_def dest!: saved_D split: prod.splits)
    ultimately show ?thesis using tools_ok_threads by blast
  next
    case False
    then have "task_handle io req s = s"
      by (auto simp: req task_svc_Run_def split: option.splits)
    with assms show ?thesis by simp
  qed
qed

lemma tsrv_step_tools:
  "tsrv_step s s' \<Longrightarrow> tools_ok (tv_config s) (tv_exec s) \<Longrightarrow>
   tv_config s' = tv_config s \<and> tools_ok (tv_config s) (tv_exec s')"
proof (induction rule: tsrv_step.induct)
  case (request s io req)
  then show ?case by (simp add: tools_ok_handle)
next
  case (thread s r th w)
  then show ?case by (simp add: tools_ok_thread_step)
qed (simp_all add: tools_ok_def timer_fires_def end_ctx_def exec_Close_locked_def)

lemma tsrv_steps_tools:
  "tsrv_steps s s' \<Longrightarrow> tools_ok (tv_config s) (tv_exec s) \<Longrightarrow>
   tv_config s' = tv_config s \<and> tools_ok (tv_config s) (tv_exec s')"
  by (induction rule: rtranclp_induct) (auto dest: tsrv_step_tools)

section \<open>The service's guarantees\<close>


abbreviation (input) sample_srv :: task_srv where
  "sample_srv \<equiv> \<lparr>tv_config = DefaultConfig ''/h'', tv_registry = NewRegistry ''/d'',
     tv_exec = NewExecutor (NewTaskStore ''/d'') (NewRunStore ''/d'' 0) 0 0 NoFile, tv_taskfile = NoFile\<rparr>"

abbreviation (input) sample_io :: task_io where
  "sample_io \<equiv> \<lparr>tio_now = 1, tio_sha256 = (\<lambda>b. b), tio_time_String = (\<lambda>t. itoa t), tio_uuid = ''u'',
     tio_save_tasks = SaveOk, tio_save_runs = SaveOk, tio_quote = (\<lambda>s. s)\<rparr>"


text \<open>
  C22: no run starts a program the configuration does not allow. Whatever tasks the store was loaded
  with, and however requests, runs, timeouts, cancellations and shutdown interleave, a run that is
  about to launch a command launches the one \<open>buildCommand\<close> makes of a task whose tool is allowed by
  the configuration; in particular no task runs its prompt as a shell command unless the shell tool
  is enabled.
\<close>
theorem only_allowed_tools_run:
  assumes "x_threads (tv_exec s0) = []" and "tsrv_steps s0 s"
    and "gget (x_threads (tv_exec s)) r = Some th" and "th_pc th = PcLaunch cmd"
  shows "isValidTool (tv_config s0) (t_Tool (th_task th))
    \<and> (t_Tool (th_task th) = ''shell'' \<longrightarrow> EnableShellTool (tv_config s0))
    \<and> (\<exists>shell environ dir. c_path cmd = c_path (task_buildCommand shell environ (th_task th) dir)
        \<and> c_args cmd = c_args (task_buildCommand shell environ (th_task th) dir))"
proof -
  have "tools_ok (tv_config s0) (tv_exec s0)" using assms(1) by (simp add: tools_ok_def)
  then have "tools_ok (tv_config s0) (tv_exec s)" using tsrv_steps_tools [OF assms(2)] by blast
  then have "isValidTool (tv_config s0) (t_Tool (th_task th))" "launch_ok th"
    using assms(3) by (auto simp: tools_ok_def)
  moreover from this(2) have "\<exists>shell environ dir. c_path cmd = c_path (task_buildCommand shell environ (th_task th) dir)
        \<and> c_args cmd = c_args (task_buildCommand shell environ (th_task th) dir)"
    using assms(4) by (simp add: launch_ok_def)
  ultimately show ?thesis using isValidTool_shell by metis
qed

abbreviation (input) sample_task :: task where
  "sample_task \<equiv> \<lparr>t_ID = ''t'', t_Name = ''n'', t_Description = [], t_Tool = ''claude'',
     t_Scope = 2, t_ProjectID = [], t_Prompt = ''hi'', t_Interactive = False, t_TimeoutSeconds = 0,
     t_CreatedAt = 1, t_UpdatedAt = 1\<rparr>"

text \<open>The task is run, and its goroutine goes to the launch.\<close>

lemma task_svc_Run_exec:
  assumes "k \<noteq> []" and "task_Get (x_tasks (tv_exec s)) k = Some t" and "isValidTool (tv_config s) (t_Tool t)"
    and "run_project t (tv_registry s) = Some path"
    and "exec_Run (tio_uuid io) (tio_now io) k path (tv_exec s) = (x, Inr r)"
  shows "\<exists>f. tv_exec (task_handle io (TRun k) s) = x\<lparr>x_disk := f\<rparr>"
  using assms by (auto simp: task_svc_Run_def save_runs_def Let_def split: prod.split)

lemma only_allowed_tools_run_witness:
  "\<exists>(th :: exec_thread) (cmd :: command) shell environ dir. th_pc th = PcLaunch cmd \<and> isValidTool (DefaultConfig ''/h'') (t_Tool (th_task th))
    \<and> c_args cmd = c_args (task_buildCommand shell environ (th_task th) dir)"
proof -
  let ?w = "\<lparr>w_now = 2, w_home = ''/h'', w_missing = (\<lambda>_. False), w_shell = ''/bin/sh'', w_environ = [],
    w_daemonPATH = [], w_probe = None, w_start = (\<lambda>_. Inr 5), w_wait = CtxDone [], w_save = SaveOk\<rparr>"
  define x where "x = (tv_exec sample_srv)\<lparr>x_tasks := task_put sample_task (NewTaskStore ''/d'')\<rparr>"
  define s0 where "s0 = sample_srv\<lparr>tv_exec := x\<rparr>"
  let ?th = "\<lparr>th_task = sample_task, th_path = [], th_dir = [], th_timeout = 0, th_pc = PcMark\<rparr>"
  have s0: "tv_config s0 = DefaultConfig ''/h''" "tv_exec s0 = x" by (simp_all add: s0_def)
  have tool: "isValidTool (DefaultConfig ''/h'') (t_Tool sample_task)" by code_simp
  have get: "task_Get (x_tasks x) ''t'' = Some sample_task"
    by (simp add: x_def task_Get_def task_put_def gomap_simps)
  have path: "run_project sample_task (tv_registry s0) = Some []"
    by (simp add: run_project_def scope_defs)
  obtain x1 r where x1: "exec_Run ''u'' 1 ''t'' [] x = (x1, Inr r)" "gget (x_threads x1) ''u'' = Some ?th"
    "gget (x_rts x1) ''u'' = Some \<lparr>rt_ctx = CtxOk, rt_pgid = 0\<rparr>"
    "x_runs x1 = run_Create ''u'' 1 ''t'' (NewRunStore ''/d'' 0)"
    using get
    by (auto simp: exec_Run_def exec_Run_locked_def x_def NewExecutor_def gomap_simps
        run_GetRunning_def NewRunStore_def by_task_def)
  have "snd (run_MarkRunning ''u'' (run_Create ''u'' 1 ''t'' (NewRunStore ''/d'' 0)))" by code_simp
  then have mark: "snd (run_MarkRunning ''u'' (x_runs x1))" by (simp add: x1(4))
  define s1 where "s1 = task_handle sample_io (TRun ''t'') s0"
  obtain f where f: "tv_exec s1 = x1\<lparr>x_disk := f\<rparr>"
    using task_svc_Run_exec [of "''t''" s0 sample_task "[]" sample_io x1 r] get tool path x1(1)
    unfolding s1_def s0 by auto
  define th2 where "th2 = ?th\<lparr>th_pc := PcSetup\<rparr>"
  define s2 where "s2 = s1\<lparr>tv_exec := thread_step ?w ''u'' ?th (tv_exec s1)\<rparr>"
  have s2: "gget (x_threads (tv_exec s2)) ''u'' = Some th2"
    "gget (x_rts (tv_exec s2)) ''u'' = Some \<lparr>rt_ctx = CtxOk, rt_pgid = 0\<rparr>"
    using mark x1 by (auto simp: s2_def f thread_step_def step_mark_def goto_def gomap_simps th2_def Let_def split: prod.splits)
  define s3 where "s3 = s2\<lparr>tv_exec := thread_step ?w ''u'' th2 (tv_exec s2)\<rparr>"
  obtain th3 where s3: "gget (x_threads (tv_exec s3)) ''u'' = Some th3" "th_pc th3 = PcProbe"
    "gget (x_rts (tv_exec s3)) ''u'' = Some \<lparr>rt_ctx = CtxOk, rt_pgid = 0\<rparr>"
    using s2 by (auto simp: s3_def thread_step_def step_setup_def goto_def gomap_simps th2_def Let_def scope_defs)
  define s4 where "s4 = s3\<lparr>tv_exec := thread_step ?w ''u'' th3 (tv_exec s3)\<rparr>"
  obtain th4 cmd where s4: "gget (x_threads (tv_exec s4)) ''u'' = Some th4" "th_pc th4 = PcLaunch cmd"
    using s3 by (auto simp: s4_def thread_step_def step_probe_def goto_def gomap_simps Let_def ctx_of_def)
  have "tsrv_step s0 s1" unfolding s1_def by (rule tsrv_step.request)
  moreover have "tsrv_step s1 s2" unfolding s2_def by (rule tsrv_step.thread) (simp add: f x1(2))
  moreover have "tsrv_step s2 s3" unfolding s3_def by (rule tsrv_step.thread) (rule s2(1))
  moreover have "tsrv_step s3 s4" unfolding s4_def by (rule tsrv_step.thread) (rule s3(1))
  ultimately have steps: "tsrv_steps s0 s4" by (meson rtranclp.rtrancl_refl rtranclp.rtrancl_into_rtrancl)
  have "x_threads (tv_exec s0) = []" by (simp add: s0 x_def NewExecutor_def)
  from only_allowed_tools_run [OF this steps s4] s4(2) show ?thesis unfolding s0 by blast
qed

end
