(* ===== verification/Server_Main.thy ===== *)
theory Server_Main
  imports Server_Sessions Server_Projects Server_Tasks Task_Stores
begin

text \<open>
  The daemon as a whole: what \<open>NewServer\<close> builds from the files of the data directory and what \<open>Stop\<close> writes
  back (\<open>internal/server/server.go\<close>, \<open>lifecycle.go\<close>), \<open>systemService\<close>, and the webhook notifier of
  \<open>internal/notify/webhook.go\<close>.
\<close>

section \<open>The webhook\<close>

record webhook_msg =
  wm_url :: string
  wm_body :: string
  wm_headers :: "(string \<times> string) list"

definition event_name :: "event \<Rightarrow> string" where
  "event_name ev =
     (if ev_SessionName ev \<noteq> [] then ev_SessionName ev
      else if ev_Tool ev \<noteq> [] then ev_Tool ev else ev_SessionID ev)"

text \<open>The request of \<open>send\<close>; \<open>None\<close> for events of no known type.\<close>

definition webhook_message :: "string \<Rightarrow> event \<Rightarrow> webhook_msg option" where
  "webhook_message url ev =
     (let name = event_name ev;
          msg = (\<lambda>body title priority tags. Some \<lparr>wm_url = url, wm_body = body,
            wm_headers = [(''Title'', title), (''Priority'', priority), (''Tags'', tags),
              (''X-HQSSH-Session-ID'', ev_SessionID ev), (''X-HQSSH-Tool'', ev_Tool ev),
              (''X-HQSSH-Event'', event_type_String (ev_Type ev))]\<rparr>)
      in case ev_Type ev of
           EventTypeBell \<Rightarrow>
             msg (if ev_Message ev \<noteq> [] then name @ '': '' @ ev_Message ev else name @ '' needs attention'')
               ''Agent needs attention'' ''high'' ''bell''
         | EventTypeEnded \<Rightarrow> msg (name @ '' ended'') ''Session ended'' ''default'' ''checkered_flag''
         | EventTypeUnspecified \<Rightarrow> None)"

text \<open>The delivery goroutine: posted requests, and whether it has returned.\<close>

record notifier =
  wn_url :: string
  wn_sub :: string
  wn_posted :: "webhook_msg list"
  wn_returned :: bool

definition webhook_Start :: "string \<Rightarrow> string \<Rightarrow> event_hub \<Rightarrow> notifier \<times> event_hub" where
  "webhook_Start url uuid h =
     (\<lparr>wn_url = url, wn_sub = uuid, wn_posted = [], wn_returned = False\<rparr>, fst (hub_Subscribe uuid h))"

definition webhook_send :: "event \<Rightarrow> notifier \<Rightarrow> notifier" where
  "webhook_send ev w =
     (case webhook_message (wn_url w) ev of
        None \<Rightarrow> w | Some m \<Rightarrow> w\<lparr>wn_posted := wn_posted w @ [m]\<rparr>)"

definition webhook_recv :: "notifier \<times> event_hub \<Rightarrow> notifier \<times> event_hub" where
  "webhook_recv st =
     (if wn_returned (fst st) then st
      else case hub_receive (wn_sub (fst st)) (snd st) of
        (h, None) \<Rightarrow> (fst st, h) | (h, Some ev) \<Rightarrow> (webhook_send ev (fst st), h))"

text \<open>\<open>Stop\<close> waits for the goroutine, which unsubscribes as it returns.\<close>

definition webhook_Stop :: "notifier \<times> event_hub \<Rightarrow> (notifier \<times> event_hub) option" where
  "webhook_Stop st =
     map_option (\<lambda>(h, ch). ((fst st)\<lparr>wn_returned := True\<rparr>, h)) (hub_Unsubscribe (wn_sub (fst st)) (snd st))"

section \<open>The server\<close>

record data_files =
  df_projects :: "project store_file"
  df_discovery :: discovery_file
  df_sessions :: "session_record store_file"
  df_tasks :: "task store_file"
  df_runs :: "run store_file"

record server =
  dv_config :: config
  dv_dataDir :: string
  dv_registry :: registry
  dv_discovery :: discovery_state
  dv_manager :: manager
  dv_tasks :: task_store
  dv_runs :: run_store
  dv_webhook :: "notifier option"
  dv_startup :: time

text \<open>
  \<open>NewServer\<close> after the single-instance check: errors of the loads are only logged; \<open>None\<close> is the panic on a
  null entry.
\<close>

definition NewServer ::
  "config \<Rightarrow> string \<Rightarrow> env \<Rightarrow> string \<Rightarrow> log_fs \<Rightarrow> data_files \<Rightarrow> server option" where
  "NewServer cfg homeDir e uuid logs files =
     (let dataDir = DataDirFor homeDir; sc = Sessions cfg; now = e_now e in do {
        (reg, err1) \<leftarrow> reg_Load (df_projects files) (NewRegistry dataDir);
        let (ds, err2) = ds_Load (df_discovery files) (NewDiscoveryState dataDir);
        let m = NewManager e logs (df_sessions files) (IdleTimeout sc) (MaxSessions sc) (HistorySize sc)
                  dataDir (LogDirectory sc) (LogRetentionDays sc) (ClientBufferSize sc) (MaxScrollbackSize sc);
        (ts, err3) \<leftarrow> task_Load (df_tasks files) (NewTaskStore dataDir);
        (rs, err4) \<leftarrow> run_Load now (df_runs files) (NewRunStore dataDir (MaxRunsPerTask (Tasks cfg)));
        let url = WebhookURL (EventsConf cfg);
        let (wh, hub) = (if url = [] then (None, m_events m)
                         else let (w, h) = webhook_Start url uuid (m_events m) in (Some w, h));
        Some \<lparr>dv_config = cfg, dv_dataDir = dataDir, dv_registry = reg, dv_discovery = ds,
              dv_manager = m\<lparr>m_events := hub\<rparr>, dv_tasks = ts, dv_runs = rs, dv_webhook = wh, dv_startup = now\<rparr>
      })"

text \<open>
  \<open>stop\<close> with its saves in order; \<open>runs\<close> is the run history when the executor's \<open>Close\<close> has returned. The
  manager's \<open>Close\<close> saves the session store itself.
\<close>

definition server_stop ::
  "save_io \<Rightarrow> env \<Rightarrow> run_store \<Rightarrow> server \<Rightarrow> data_files \<Rightarrow> (server \<times> data_files) option" where
  "server_stop io e runs s files =
     (let files = files\<lparr>df_projects := fst (reg_Save io (dv_registry s) (df_projects files)),
                        df_discovery := fst (ds_Save io (dv_discovery s) (df_discovery files))\<rparr>
      in do {
        (wh, hub) \<leftarrow> (case dv_webhook s of
           None \<Rightarrow> Some (None, m_events (dv_manager s))
         | Some w \<Rightarrow> map_option (\<lambda>(w, h). (Some w, h)) (webhook_Stop (w, m_events (dv_manager s))));
        let files = files\<lparr>df_tasks := fst (task_Save io (dv_tasks s) (df_tasks files)),
                          df_runs := fst (run_Save io runs (df_runs files))\<rparr>;
        m \<leftarrow> mgr_Close e ((dv_manager s)\<lparr>m_events := hub\<rparr>);
        (hub', chans) \<leftarrow> hub_Close (m_events m);
        Some (s\<lparr>dv_webhook := wh, dv_runs := runs, dv_manager := m\<lparr>m_events := hub'\<rparr>\<rparr>,
              files\<lparr>df_sessions := m_disk m\<rparr>)
      })"

section \<open>The system service\<close>

record pb_system_info =
  pi_Hostname :: string
  pi_Os :: string
  pi_Arch :: string
  pi_DaemonVersion :: string
  pi_InstalledTools :: "string list"
  pi_Commit :: string
  pi_ShellEnabled :: "bool option"

text \<open>Host name, platform, version and commit are those of the machine and the build.\<close>

definition system_GetInfo :: "string \<Rightarrow> string \<Rightarrow> string \<Rightarrow> string \<Rightarrow> string \<Rightarrow> string list \<Rightarrow> server \<Rightarrow> pb_system_info" where
  "system_GetInfo hostname os arch version commit installed s =
     \<lparr>pi_Hostname = hostname, pi_Os = os, pi_Arch = arch, pi_DaemonVersion = version, pi_InstalledTools = installed,
      pi_Commit = commit, pi_ShellEnabled = Some (EnableShellTool (dv_config s))\<rparr>"

record pb_system_status =
  pu_UptimeSeconds :: int
  pu_ActiveSessions :: int
  pu_ActiveProjects :: int
  pu_Pid :: int

definition system_GetStatus :: "time \<Rightarrow> int \<Rightarrow> server \<Rightarrow> pb_system_status" where
  "system_GetStatus now pid s =
     \<lparr>pu_UptimeSeconds = now div second - dv_startup s div second,
      pu_ActiveSessions = to_int32 (int (mgr_Count (dv_manager s))),
      pu_ActiveProjects = to_int32 (int (reg_Count (dv_registry s))), pu_Pid = to_int32 pid\<rparr>"

section \<open>What a restart keeps\<close>

definition project_text :: "project \<Rightarrow> bool" where
  "project_text p \<longleftrightarrow> list_all valid_utf8 ([pj_ID p, pj_Name p, pj_Path p] @ pj_DetectedTools p)"

lemma json_project_text [simp]: "project_text p \<Longrightarrow> json_project p = p"
  by (simp add: project_text_def json_project_def list_all_iff map_idI)

lemma load_projects_puts:
  "load_projects (map Some ps) (rg_projects r) = Some (rg_projects (fold reg_Add ps r))"
proof (induction ps arbitrary: r)
  case (Cons p ps)
  then show ?case using Cons.IH [of "reg_Add p r"] by (simp add: reg_Add_def)
qed simp

lemma registry_save_load:
  assumes "reg_wf r" and "\<forall>p \<in> set (gvals (rg_projects r)). project_text p"
  shows "\<exists>r'. reg_Load (fst (reg_Save SaveOk r disk)) (NewRegistry dataDir) = Some (r', None) \<and> (\<forall>k. reg_Get r' k = reg_Get r k)"
proof -
  let ?ps = "gvals (rg_projects r)"
  have "map json_project ?ps = ?ps" using assms(2) by (intro map_idI) simp
  then have "reg_Load (fst (reg_Save SaveOk r disk)) (NewRegistry dataDir) =
      map_option (\<lambda>m. ((NewRegistry dataDir)\<lparr>rg_projects := m\<rparr>, None)) (load_projects (map Some ?ps) [])"
    by (simp add: reg_Save_def write_store_def reg_Load_def)
  also have "load_projects (map Some ?ps) [] = Some (rg_projects (fold reg_Add ?ps (NewRegistry dataDir)))"
    using load_projects_puts [of ?ps "NewRegistry dataDir"] by (simp add: NewRegistry_def)
  finally obtain r' where r': "reg_Load (fst (reg_Save SaveOk r disk)) (NewRegistry dataDir) = Some (r', None)"
    "rg_projects r' = rg_projects (fold reg_Add ?ps (NewRegistry dataDir))" by simp
  have "reg_Get r' k = reg_Get r k" for k
    using reg_ks.rebuild [OF assms(1) reg_ks.entries_distinct [OF assms(1)] refl, of dataDir k]
    by (simp add: reg_Get_def r'(2))
  then show ?thesis using r'(1) by blast
qed

text \<open>What closing the manager leaves in its store and on disk.\<close>

lemma mgr_Close_store:
  assumes "mgr_inv m" and "\<not> m_closed m"
  shows "\<exists>m'. mgr_Close e m = Some m' \<and> mgr_inv m' \<and> m_closed m'
    \<and> m_store m' = mark_all (e_now e) (gkeys (m_sessions m)) (m_store m)
    \<and> m_disk m' = fst (store_Save (e_save e) (m_store m') (m_disk m))"
proof -
  let ?m1 = "m\<lparr>m_closed := True\<rparr>"
  obtain ss hub logs where c: "close_in_place e (gkeys (m_sessions m)) ?m1 = Some (?m1\<lparr>m_sessions := ss, m_logs := logs, m_events := hub\<rparr>)"
    using close_in_place_ok [of ?m1 e "gkeys (m_sessions m)"] assms by (auto simp: mgr_inv_def)
  obtain m' where "mgr_Close e m = Some m'" "mgr_inv m'" "m_closed m'" using mgr_Close_ok [OF assms(1)] by blast
  then show ?thesis using c assms(2) by (auto simp: mgr_Close_def fold_MarkEnded mgr_Save_def Let_def)
qed

lemma mark_all_text:
  assumes "store_wf st" and "\<forall>r \<in> set (gvals (ss_records st)). rec_ID r \<noteq> [] \<and> record_text r"
  shows "\<forall>r \<in> set (gvals (ss_records (mark_all now ids st))). rec_ID r \<noteq> [] \<and> record_text r"
proof
  fix r assume r: "r \<in> set (gvals (ss_records (mark_all now ids st)))"
  then have get: "store_Get (mark_all now ids st) (rec_ID r) = Some r"
    using session_ks.entries_lookup [OF store_wf_mark_all [OF assms(1)]] by blast
  then obtain r0 where r0: "store_Get st (rec_ID r) = Some r0" "r = r0 \<or> r = r0\<lparr>rec_Status := ''ended'', rec_Ended := now\<rparr>"
    by (auto simp: store_Get_mark_all split: if_splits)
  have "rec_ID r0 = rec_ID r" using session_ks.lookup_key [OF assms(1) r0(1)] .
  then have "r0 \<in> set (gvals (ss_records st))" using session_ks.entries_lookup [OF assms(1), of r0] r0(1) by simp
  then have "rec_ID r0 \<noteq> []" "record_text r0" using assms(2) by auto
  moreover have "valid_utf8 ''ended''" by (simp add: valid_utf8_ascii bval_def del: valid_utf8.simps)
  ultimately show "rec_ID r \<noteq> [] \<and> record_text r" using r0(2) by (auto simp: record_text_def)
qed

lemma mark_stale_unchanged:
  assumes "store_wf st" and "\<And>k r. store_Get st k = Some r \<Longrightarrow> \<not> live_record r"
  shows "mark_stale now (store_List [] True st) st = st"
proof -
  have "\<not> live_record r" if "r \<in> set (store_List [] True st)" for r
    using that assms(2) session_ks.entries_lookup [OF assms(1), of r] by (auto simp: store_List_def)
  then have "filter live_record (store_List [] True st) = []" by (simp add: filter_empty_conv)
  then show ?thesis by (simp add: mark_stale_eq mark_all_def)
qed

text \<open>A server in a state that its services keep, with text that JSON can hold.\<close>

definition server_ok :: "server \<Rightarrow> bool" where
  "server_ok s \<longleftrightarrow>
     reg_wf (dv_registry s) \<and> list_all project_text (gvals (rg_projects (dv_registry s)))
     \<and> list_all valid_utf8 (ds_roots (dv_discovery s)) \<and> list_all valid_utf8 (gkeys (ds_removed (dv_discovery s)))
     \<and> (\<forall>k. gget (ds_removed (dv_discovery s)) k \<noteq> Some False)
     \<and> task_wf (dv_tasks s) \<and> list_all task_text (gvals (ts_tasks (dv_tasks s)))
     \<and> mgr_inv (dv_manager s) \<and> \<not> m_closed (dv_manager s)
     \<and> list_all (\<lambda>r. rec_ID r \<noteq> [] \<and> record_text r) (gvals (ss_records (m_store (dv_manager s))))"

lemma server_okD:
  assumes "server_ok s"
  shows "reg_wf (dv_registry s)" "\<forall>p \<in> set (gvals (rg_projects (dv_registry s))). project_text p"
    "list_all valid_utf8 (ds_roots (dv_discovery s))" "list_all valid_utf8 (gkeys (ds_removed (dv_discovery s)))"
    "gget (ds_removed (dv_discovery s)) k \<noteq> Some False"
    "task_wf (dv_tasks s)" "\<forall>t \<in> set (gvals (ts_tasks (dv_tasks s))). task_text t"
    "mgr_inv (dv_manager s)" "\<not> m_closed (dv_manager s)"
    "\<forall>r \<in> set (gvals (ss_records (m_store (dv_manager s)))). rec_ID r \<noteq> [] \<and> record_text r"
  using assms by (auto simp: server_ok_def list_all_iff)

lemma webhook_Stop_ok:
  assumes "hub_inv h"
  shows "\<exists>w' h'. webhook_Stop (w, h) = Some (w', h') \<and> hub_inv h'"
  using hub_step_ok [OF assms, of "HUnsubscribe (wn_sub w)"]
  by (auto simp: webhook_Stop_def)

lemma hub_Close_ok: "hub_inv h \<Longrightarrow> \<exists>h' chans. hub_Close h = Some (h', chans)"
  using hub_step_ok [of h HClose] by auto

text \<open>Stopping writes every store; the session store as the manager's \<open>Close\<close> leaves it.\<close>

lemma server_stop_files:
  assumes ok: "server_ok s" and save: "e_save e = SaveOk"
  shows "\<exists>s' disk. server_stop SaveOk e runs s files = Some (s',
      \<lparr>df_projects = fst (reg_Save SaveOk (dv_registry s) (df_projects files)),
       df_discovery = fst (ds_Save SaveOk (dv_discovery s) (df_discovery files)),
       df_sessions = fst (store_Save SaveOk (m_store (dv_manager s')) disk),
       df_tasks = fst (task_Save SaveOk (dv_tasks s) (df_tasks files)),
       df_runs = fst (run_Save SaveOk runs (df_runs files))\<rparr>)
    \<and> store_wf (m_store (dv_manager s'))
    \<and> (\<forall>k r. store_Get (m_store (dv_manager s')) k = Some r \<longrightarrow> \<not> live_record r)
    \<and> (\<forall>r \<in> set (gvals (ss_records (m_store (dv_manager s')))). rec_ID r \<noteq> [] \<and> record_text r)"
proof -
  let ?m = "dv_manager s"
  note D = server_okD [OF ok]
  have hub: "hub_inv (m_events ?m)" using D(8) by (simp add: mgr_inv_def)
  obtain wh h where wh: "(case dv_webhook s of None \<Rightarrow> Some (None, m_events ?m)
      | Some w \<Rightarrow> map_option (\<lambda>(w, h). (Some w, h)) (webhook_Stop (w, m_events ?m))) = Some (wh, h)" "hub_inv h"
  proof (cases "dv_webhook s")
    case None
    then show ?thesis using hub that [of None "m_events ?m"] by simp
  next
    case (Some w)
    then show ?thesis using webhook_Stop_ok [OF hub, of w] that by fastforce
  qed
  have "mgr_inv (?m\<lparr>m_events := h\<rparr>)" "\<not> m_closed (?m\<lparr>m_events := h\<rparr>)"
    using D(8,9) wh(2) by (simp_all add: mgr_inv_def)
  from mgr_Close_store [OF this, of e] obtain m' where m': "mgr_Close e (?m\<lparr>m_events := h\<rparr>) = Some m'"
    "mgr_inv m'" "m_closed m'" "m_store m' = mark_all (e_now e) (gkeys (m_sessions ?m)) (m_store ?m)"
    "m_disk m' = fst (store_Save SaveOk (m_store m') (m_disk ?m))"
    using save by auto
  have "hub_inv (m_events m')" using m'(2) by (simp add: mgr_inv_def)
  then obtain h2 chans where h2: "hub_Close (m_events m') = Some (h2, chans)" using hub_Close_ok by blast
  let ?s' = "s\<lparr>dv_webhook := wh, dv_runs := runs, dv_manager := m'\<lparr>m_events := h2\<rparr>\<rparr>"
  have "server_stop SaveOk e runs s files = Some (?s',
      \<lparr>df_projects = fst (reg_Save SaveOk (dv_registry s) (df_projects files)),
       df_discovery = fst (ds_Save SaveOk (dv_discovery s) (df_discovery files)),
       df_sessions = m_disk m',
       df_tasks = fst (task_Save SaveOk (dv_tasks s) (df_tasks files)),
       df_runs = fst (run_Save SaveOk runs (df_runs files))\<rparr>)"
    using wh(1) m'(1) h2 by (simp add: server_stop_def Let_def)
  moreover have "store_wf (m_store m')" "\<forall>k r. store_Get (m_store m') k = Some r \<longrightarrow> \<not> live_record r"
    using m'(2,3) by (auto simp: mgr_inv_def)
  moreover have "\<forall>r \<in> set (gvals (ss_records (m_store m'))). rec_ID r \<noteq> [] \<and> record_text r"
    using mark_all_text [OF _ D(10)] D(8) unfolding m'(4) by (simp add: mgr_inv_def)
  ultimately show ?thesis using m'(5) by (intro exI [of _ ?s'] exI [of _ "m_disk ?m"]) simp
qed

text \<open>A new manager reads the records back, and has nothing to mark.\<close>

lemma NewManager_reads:
  assumes "store_wf st" and "\<forall>k r. store_Get st k = Some r \<longrightarrow> \<not> live_record r"
    and "\<forall>r \<in> set (gvals (ss_records st)). rec_ID r \<noteq> [] \<and> record_text r"
  shows "store_Get (m_store (NewManager e logs (fst (store_Save SaveOk st disk)) idle maxS hist dataDir logDir days cbuf msb)) k
    = store_Get st k"
proof -
  let ?l = "if logDir = [] then dataDir @ ''/logs/sessions'' else logDir"
  let ?st = "fst (store_Load (fst (store_Save SaveOk st disk)) (NewStore dataDir ?l))"
  have get: "store_Get ?st k = store_Get st k" for k using session_store_save_load [OF assms(1,3)] by blast
  have wf: "store_wf ?st" by (intro store_wf_Load session_ks.wf_empty)
  have "\<not> live_record r" if "store_Get ?st k = Some r" for k r using that assms(2) unfolding get by blast
  then have "mark_stale (e_now e) (store_List [] True ?st) ?st = ?st" by (rule mark_stale_unchanged [OF wf])
  then show ?thesis using get by (simp add: NewManager_def Let_def)
qed

text \<open>
  C4: a restart of the daemon loses nothing. Stopping a server in good order never panics and writes every store;
  a server built from those files has the same projects, scan directories and tombstones, the same tasks, the same session
  records (none of them running or idle), and the same runs, with those that were unfinished failed.
\<close>

theorem server_restart_keeps_state:
  assumes ok: "server_ok s" and save: "e_save e = SaveOk"
    and runs: "run_inv runs" "\<forall>k r. run_Get runs k = Some r \<longrightarrow> run_text r"
  shows "\<exists>s' files' s2. server_stop SaveOk e runs s files = Some (s', files')
    \<and> NewServer cfg homeDir e2 uuid logs files' = Some s2
    \<and> (\<forall>k. reg_Get (dv_registry s2) k = reg_Get (dv_registry s) k)
    \<and> ds_roots (dv_discovery s2) = ds_roots (dv_discovery s)
    \<and> (\<forall>p. tombstoned (dv_discovery s2) p = tombstoned (dv_discovery s) p)
    \<and> (\<forall>k. task_Get (dv_tasks s2) k = task_Get (dv_tasks s) k)
    \<and> (\<forall>k. run_Get (dv_runs s2) k = map_option (fail_stale (e_now e2)) (run_Get runs k))
    \<and> (\<forall>k r. run_Get (dv_runs s2) k = Some r \<longrightarrow> \<not> active r)
    \<and> (\<forall>k. store_Get (m_store (dv_manager s2)) k = store_Get (m_store (dv_manager s')) k)
    \<and> (\<forall>k r. store_Get (m_store (dv_manager s2)) k = Some r \<longrightarrow> \<not> live_record r)"
proof -
  let ?dir = "DataDirFor homeDir" and ?sc = "Sessions cfg"
  note D = server_okD [OF ok]
  obtain s' files' disk where stop: "server_stop SaveOk e runs s files = Some (s', files')"
    and files': "df_projects files' = fst (reg_Save SaveOk (dv_registry s) (df_projects files))"
      "df_discovery files' = fst (ds_Save SaveOk (dv_discovery s) (df_discovery files))"
      "df_sessions files' = fst (store_Save SaveOk (m_store (dv_manager s')) disk)"
      "df_tasks files' = fst (task_Save SaveOk (dv_tasks s) (df_tasks files))"
      "df_runs files' = fst (run_Save SaveOk runs (df_runs files))"
    and recs: "store_wf (m_store (dv_manager s'))"
      "\<forall>k r. store_Get (m_store (dv_manager s')) k = Some r \<longrightarrow> \<not> live_record r"
      "\<forall>r \<in> set (gvals (ss_records (m_store (dv_manager s')))). rec_ID r \<noteq> [] \<and> record_text r"
    using server_stop_files [OF ok save, of runs files] by auto
  obtain reg where reg: "reg_Load (df_projects files') (NewRegistry ?dir) = Some (reg, None)" "\<forall>k. reg_Get reg k = reg_Get (dv_registry s) k"
    using registry_save_load [OF D(1,2)] unfolding files'(1) by blast
  obtain ts where ts: "task_Load (df_tasks files') (NewTaskStore ?dir) = Some (ts, None)" "\<forall>k. task_Get ts k = task_Get (dv_tasks s) k"
    using task_store_save_load [OF D(6,7)] unfolding files'(4) by blast
  obtain rs where rs: "run_Load (e_now e2) (df_runs files') (NewRunStore ?dir (MaxRunsPerTask (Tasks cfg))) = Some (rs, None)"
      "\<forall>k. run_Get rs k = map_option (fail_stale (e_now e2)) (run_Get runs k)" "\<forall>k r. run_Get rs k = Some r \<longrightarrow> \<not> active r"
    using run_history_survives_restart [OF runs] unfolding files'(5) by blast
  let ?ds = "fst (ds_Load (df_discovery files') (NewDiscoveryState ?dir))"
  have ds: "ds_roots ?ds = ds_roots (dv_discovery s)" "tombstoned ?ds p = tombstoned (dv_discovery s) p" for p
    using ds_Load_Save [OF D(3,4,5)] unfolding files'(2) by blast+
  let ?m = "NewManager e2 logs (df_sessions files') (IdleTimeout ?sc) (MaxSessions ?sc) (HistorySize ?sc) ?dir
      (LogDirectory ?sc) (LogRetentionDays ?sc) (ClientBufferSize ?sc) (MaxScrollbackSize ?sc)"
  have m: "store_Get (m_store ?m) k = store_Get (m_store (dv_manager s')) k" for k
    unfolding files'(3) by (rule NewManager_reads [OF recs])
  obtain s2 where s2: "NewServer cfg homeDir e2 uuid logs files' = Some s2" "dv_registry s2 = reg" "dv_discovery s2 = ?ds"
      "m_store (dv_manager s2) = m_store ?m" "dv_tasks s2 = ts" "dv_runs s2 = rs"
    using reg(1) ts(1) rs(1) by (auto simp: NewServer_def Let_def split_def)
  show ?thesis
    using stop s2 reg(2) ts(2) rs(2,3) ds m recs(2)
    by (intro exI [of _ s'] exI [of _ files'] exI [of _ s2]) simp
qed

definition sample_project :: project where
  "sample_project = \<lparr>pj_ID = ''p'', pj_Name = ''n'', pj_Path = ''/n'', pj_DetectedTools = [],
     pj_LastAccessed = 0, pj_IsFavorite = False\<rparr>"

definition empty_manager :: manager where
  "empty_manager = NewManager sample_env [] NoFile 60 2 0 ''/d'' ''/l'' 0 0 0"

definition sample_server :: server where
  "sample_server = \<lparr>dv_config = DefaultConfig ''/u'', dv_dataDir = ''/d'',
     dv_registry = reg_Add sample_project (NewRegistry ''/d''), dv_discovery = NewDiscoveryState ''/d'',
     dv_manager = empty_manager, dv_tasks = NewTaskStore ''/d'', dv_runs = NewRunStore ''/d'' 0,
     dv_webhook = None, dv_startup = 0\<rparr>"

definition sample_files :: data_files where
  "sample_files = \<lparr>df_projects = NoFile, df_discovery = DNoFile, df_sessions = NoFile, df_tasks = NoFile, df_runs = NoFile\<rparr>"

lemma sample_server_ok: "server_ok sample_server"
proof -
  have "m_store empty_manager = NewStore ''/d'' ''/l'' \<and> \<not> m_closed empty_manager"
    by (simp add: empty_manager_def NewManager_def Let_def store_Load_def store_List_def NewStore_def gvals_def newest_first_def)
  moreover have "mgr_inv empty_manager" unfolding empty_manager_def by (rule NewManager_inv)
  ultimately show ?thesis
    by (simp add: server_ok_def sample_server_def reg_ks.wf_put reg_ks.wf_empty task_ks.wf_empty)
       (simp add: reg_Add_def NewRegistry_def gput_def gvals_def gkeys_def NewDiscoveryState_def NewTaskStore_def
          NewStore_def project_text_def sample_project_def valid_utf8_ascii bval_def del: valid_utf8.simps)
qed

lemma server_restart_keeps_state_witness:
  "\<exists>s2 :: server. reg_Get (dv_registry s2) ''p'' = Some sample_project \<and> (\<forall>k r. run_Get (dv_runs s2) k = Some r \<longrightarrow> \<not> active r)"
proof -
  let ?r = "new_run ''u'' 7 ''t''"
  let ?runs = "add_run ?r (NewRunStore ''/d'' 0)"
  have inv0: "run_inv (NewRunStore ''/d'' 0)" "run_Get (NewRunStore ''/d'' 0) k = None" for k
    by (simp_all add: run_inv_New) (simp add: run_Get_def NewRunStore_def)
  have inv: "run_inv ?runs" by (rule run_inv_add) (simp_all add: inv0)
  have "run_text ?r" by (simp add: run_text_def new_run_def valid_utf8_ascii bval_def del: valid_utf8.simps)
  then have texts: "\<forall>k r. run_Get ?runs k = Some r \<longrightarrow> run_text r"
    by (simp add: run_Get_add inv0)
  have "e_save sample_env = SaveOk" by simp
  from server_restart_keeps_state [OF sample_server_ok this inv texts, of sample_files "DefaultConfig ''/u''" "''/u''" sample_env "''w''" "[]"]
  obtain s2 :: server where "reg_Get (dv_registry s2) ''p'' = reg_Get (dv_registry sample_server) ''p''"
      "\<forall>k r. run_Get (dv_runs s2) k = Some r \<longrightarrow> \<not> active r" by blast
  moreover have "reg_Get (dv_registry sample_server) ''p'' = Some sample_project"
    by (simp add: sample_server_def reg_ks.lookup_put reg_ks.wf_empty) (simp add: sample_project_def)
  ultimately show ?thesis by metis
qed

end
