(* ===== verification/Lifecycle.thy ===== *)
theory Lifecycle
  imports Config Utf8
begin

text \<open>
  Starting and stopping the daemon: \<open>internal/pidfile/pidfile.go\<close>, \<open>internal/server/lifecycle.go\<close>
  and the exit codes of \<open>cmd/hqsshd/main.go\<close>. Several processes run against one data directory; a
  step is one system call on the pidfile or the socket path, so starts, stops and crashes interleave.
  Inodes are numbered and never reused, which is what comparing inode and modification time gives.
\<close>

datatype tcp_result = TcpOk | TcpInUse | TcpFails string

datatype tcp_state = TcpDisabled | TcpBound | TcpPending

text \<open>Where a process is. The last ones hold the exit code.\<close>

datatype dpc =
    PAcquire | PFlock nat | PWritePid | PProbe | PUnlink | PLoad | PBind bool | PReprobe | PReunlink
  | PChmod | PChmodFailed | PTcp | PTcpFailed | PTcpUnlink | PServe | PStop | PStopUnlink | PDrain
  | PRelease int | PReleaseUnlink int | PClose int | PExit int

record daemon =
  dm_pc :: dpc
  dm_file :: "nat option"
  dm_sock :: "nat option"
  dm_info :: "nat option"
  dm_tcp :: tcp_state

record host =
  ho_next :: nat
  ho_pid :: "nat option"
  ho_content :: "(nat, bytes) gomap"
  ho_locks :: "(nat, int) gomap"
  ho_sock :: "nat option"
  ho_live :: "(nat, int) gomap"
  ho_daemons :: "(int, daemon) gomap"

text \<open>What the system calls of a step return, and whether a signal to stop has arrived.\<close>

record life_io =
  li_open :: bool
  li_flock :: bool
  li_write :: bool
  li_dial :: bool
  li_unlink :: bool
  li_bind :: "string option"
  li_chmod :: bool
  li_tcp_port :: bool
  li_tcp :: tcp_result
  li_stop :: bool

definition exitOK :: int where "exitOK = 0"
definition exitRuntime :: int where "exitRuntime = 1"
definition exitConfig :: int where "exitConfig = 2"
definition exitAlreadyRunning :: int where "exitAlreadyRunning = 3"
definition exitBind :: int where "exitBind = 4"
definition exitLogging :: int where "exitLogging = 5"

definition new_daemon :: daemon where
  "new_daemon = \<lparr>dm_pc = PAcquire, dm_file = None, dm_sock = None, dm_info = None, dm_tcp = TcpDisabled\<rparr>"

definition put_daemon :: "int \<Rightarrow> daemon \<Rightarrow> host \<Rightarrow> host" where
  "put_daemon p d h = h\<lparr>ho_daemons := gput p d (ho_daemons h)\<rparr>"

definition at :: "int \<Rightarrow> daemon \<Rightarrow> dpc \<Rightarrow> host \<Rightarrow> host" where
  "at p d pc h = put_daemon p (d\<lparr>dm_pc := pc\<rparr>) h"

section \<open>The pidfile\<close>

text \<open>\<open>Path\<close>, and what is written to the file.\<close>

definition pid_Path :: "string \<Rightarrow> string" where
  "pid_Path dataDir = join_paths [dataDir, ''hqsshd.pid'']"

definition nl :: string where "nl = [CHR 0x0A]"

definition pid_bytes :: "int \<Rightarrow> bytes" where
  "pid_bytes pid = itoa pid @ nl"

text \<open>\<open>readPid\<close>: the first 32 bytes as a positive number, \<open>None\<close> for \<open>ErrCorrupt\<close>.\<close>

definition readPid :: "bytes \<Rightarrow> int option" where
  "readPid data =
     (case atoi (trim_space (take 32 data)) of
        None \<Rightarrow> None
      | Some pid \<Rightarrow> if pid \<le> 0 then None else Some pid)"

definition pid_content :: "nat \<Rightarrow> host \<Rightarrow> bytes" where
  "pid_content i h = (case gget (ho_content h) i of None \<Rightarrow> [] | Some b \<Rightarrow> b)"

text \<open>\<open>Acquire\<close>: open or create, lock without blocking, write the pid.\<close>

definition acquire_open :: "life_io \<Rightarrow> int \<Rightarrow> daemon \<Rightarrow> host \<Rightarrow> host" where
  "acquire_open io p d h =
     (if \<not> li_open io then at p d PProbe h
      else case ho_pid h of
        Some i \<Rightarrow> at p d (PFlock i) h
      | None \<Rightarrow> at p d (PFlock (ho_next h)) (h\<lparr>ho_pid := Some (ho_next h), ho_next := ho_next h + 1\<rparr>))"

definition acquire_flock :: "life_io \<Rightarrow> int \<Rightarrow> nat \<Rightarrow> daemon \<Rightarrow> host \<Rightarrow> host" where
  "acquire_flock io p i d h =
     (if \<not> li_flock io then at p d PProbe h
      else case gget (ho_locks h) i of
        Some q \<Rightarrow> at p d (PExit exitAlreadyRunning) h
      | None \<Rightarrow> at p (d\<lparr>dm_file := Some i\<rparr>) PWritePid (h\<lparr>ho_locks := gput i p (ho_locks h)\<rparr>))"

definition unlock :: "daemon \<Rightarrow> host \<Rightarrow> host" where
  "unlock d h = (case dm_file d of None \<Rightarrow> h | Some i \<Rightarrow> h\<lparr>ho_locks := gdel i (ho_locks h)\<rparr>)"

definition acquire_write :: "life_io \<Rightarrow> int \<Rightarrow> daemon \<Rightarrow> host \<Rightarrow> host" where
  "acquire_write io p d h =
     (if \<not> li_write io then at p (d\<lparr>dm_file := None\<rparr>) PProbe (unlock d h)
      else case dm_file d of
        None \<Rightarrow> at p d PProbe h
      | Some i \<Rightarrow> at p d PProbe (h\<lparr>ho_content := gput i (pid_bytes p) (ho_content h)\<rparr>))"

text \<open>\<open>Release\<close>: compare the locked file with the one at the path, unlink, close.\<close>

definition release_stat :: "int \<Rightarrow> int \<Rightarrow> daemon \<Rightarrow> host \<Rightarrow> host" where
  "release_stat p code d h =
     (case dm_file d of
        None \<Rightarrow> at p d (PExit code) h
      | Some i \<Rightarrow> at p d (if ho_pid h = Some i then PReleaseUnlink code else PClose code) h)"

definition release_unlink :: "int \<Rightarrow> int \<Rightarrow> daemon \<Rightarrow> host \<Rightarrow> host" where
  "release_unlink p code d h = at p d (PClose code) (h\<lparr>ho_pid := None\<rparr>)"

definition release_close :: "int \<Rightarrow> int \<Rightarrow> daemon \<Rightarrow> host \<Rightarrow> host" where
  "release_close p code d h = at p (d\<lparr>dm_file := None\<rparr>) (PExit code) (unlock d h)"

datatype pid_status = StatusNone | StatusStale | StatusAlive

text \<open>\<open>Check\<close>: status, pid (0 where it cannot be read), and whether a stale file is corrupt.\<close>

definition pid_Check :: "host \<Rightarrow> pid_status \<times> int \<times> bool" where
  "pid_Check h =
     (case ho_pid h of
        None \<Rightarrow> (StatusNone, 0, False)
      | Some i \<Rightarrow>
          let pid = readPid (pid_content i h);
              n = (case pid of None \<Rightarrow> 0 | Some p \<Rightarrow> p)
          in (if gget (ho_locks h) i \<noteq> None then (StatusAlive, n, False) else (StatusStale, n, pid = None)))"

text \<open>\<open>Read\<close>: \<open>None\<close> when there is no file, else as \<open>readPid\<close>.\<close>

definition pid_Read :: "host \<Rightarrow> int option option" where
  "pid_Read h = map_option (\<lambda>i. readPid (pid_content i h)) (ho_pid h)"

definition pid_status_String :: "pid_status \<Rightarrow> string" where
  "pid_status_String st = (case st of StatusStale \<Rightarrow> ''stale'' | StatusAlive \<Rightarrow> ''alive'' | _ \<Rightarrow> ''none'')"

section \<open>The socket\<close>

text \<open>
  \<open>prepareSocketPath\<close>: dial; a refused connection is a stale socket, which is unlinked. The dial can also
  fail in other ways, which ends the start.
\<close>

datatype probe = NoSocket | Refused | Connected

definition dial :: "host \<Rightarrow> probe" where
  "dial h = (case ho_sock h of
     None \<Rightarrow> NoSocket | Some i \<Rightarrow> if gget (ho_live h) i = None then Refused else Connected)"

definition probe_socket :: "life_io \<Rightarrow> int \<Rightarrow> dpc \<Rightarrow> dpc \<Rightarrow> daemon \<Rightarrow> host \<Rightarrow> host" where
  "probe_socket io p stale ok d h =
     at p d (if \<not> li_dial io then PRelease exitBind
             else case dial h of NoSocket \<Rightarrow> ok | Refused \<Rightarrow> stale | Connected \<Rightarrow> PRelease exitAlreadyRunning) h"

definition unlink_stale :: "life_io \<Rightarrow> int \<Rightarrow> dpc \<Rightarrow> daemon \<Rightarrow> host \<Rightarrow> host" where
  "unlink_stale io p ok d h =
     (if \<not> li_unlink io then at p d (PRelease exitBind) h else at p d ok (h\<lparr>ho_sock := None\<rparr>))"

definition bind_socket :: "life_io \<Rightarrow> int \<Rightarrow> bool \<Rightarrow> daemon \<Rightarrow> host \<Rightarrow> host" where
  "bind_socket io p first d h =
     (case li_bind io of
        Some e \<Rightarrow> at p d (PRelease exitBind) h
      | None \<Rightarrow>
          if ho_sock h \<noteq> None then at p d (if first then PReprobe else PRelease exitBind) h
          else at p (d\<lparr>dm_sock := Some (ho_next h)\<rparr>) PChmod
                 (h\<lparr>ho_sock := Some (ho_next h), ho_live := gput (ho_next h) p (ho_live h),
                    ho_next := ho_next h + 1\<rparr>))"

definition close_listener :: "daemon \<Rightarrow> host \<Rightarrow> host" where
  "close_listener d h = (case dm_sock d of None \<Rightarrow> h | Some i \<Rightarrow> h\<lparr>ho_live := gdel i (ho_live h)\<rparr>)"

text \<open>The socket's identity is read back from the path.\<close>

definition chmod_socket :: "life_io \<Rightarrow> int \<Rightarrow> daemon \<Rightarrow> host \<Rightarrow> host" where
  "chmod_socket io p d h =
     (if \<not> li_chmod io then at p (d\<lparr>dm_sock := None\<rparr>) PChmodFailed (close_listener d h)
      else at p (d\<lparr>dm_info := ho_sock h\<rparr>) PTcp h)"

definition bind_tcp :: "life_io \<Rightarrow> int \<Rightarrow> daemon \<Rightarrow> host \<Rightarrow> host" where
  "bind_tcp io p d h =
     (if \<not> li_tcp_port io then at p d PServe h
      else case li_tcp io of
        TcpOk \<Rightarrow> at p (d\<lparr>dm_tcp := TcpBound\<rparr>) PServe h
      | TcpInUse \<Rightarrow> at p (d\<lparr>dm_tcp := TcpPending\<rparr>) PServe h
      | TcpFails e \<Rightarrow> at p (d\<lparr>dm_sock := None\<rparr>) PTcpFailed (close_listener d h))"

text \<open>\<open>removeSocketIfOwned\<close> in two steps: compare what is at the path, unlink it.\<close>

definition owned :: "daemon \<Rightarrow> host \<Rightarrow> bool" where
  "owned d h \<longleftrightarrow> dm_info d \<noteq> None \<and> ho_sock h = dm_info d"

definition tcp_failed :: "int \<Rightarrow> daemon \<Rightarrow> host \<Rightarrow> host" where
  "tcp_failed p d h = at p (d\<lparr>dm_info := None\<rparr>) (if owned d h then PTcpUnlink else PRelease exitBind) h"

definition serving :: "life_io \<Rightarrow> int \<Rightarrow> daemon \<Rightarrow> host \<Rightarrow> host" where
  "serving io p d h =
     (if li_stop io then at p d PStop h
      else if dm_tcp d = TcpPending \<and> li_tcp io = TcpOk then at p (d\<lparr>dm_tcp := TcpBound\<rparr>) PServe h else h)"

definition stop_stat :: "int \<Rightarrow> daemon \<Rightarrow> host \<Rightarrow> host" where
  "stop_stat p d h = at p (d\<lparr>dm_info := None\<rparr>) (if owned d h then PStopUnlink else PDrain) h"

definition stop_unlink :: "int \<Rightarrow> daemon \<Rightarrow> host \<Rightarrow> host" where
  "stop_unlink p d h = at p d PDrain (h\<lparr>ho_sock := None\<rparr>)"

definition stop_drain :: "int \<Rightarrow> daemon \<Rightarrow> host \<Rightarrow> host" where
  "stop_drain p d h = at p (d\<lparr>dm_sock := None\<rparr>) (PRelease exitOK) (close_listener d h)"

section \<open>A process, and many of them\<close>

text \<open>A signal before \<open>Listen\<close> stops a daemon that has not bound anything.\<close>

definition daemon_step :: "life_io \<Rightarrow> int \<Rightarrow> daemon \<Rightarrow> host \<Rightarrow> host" where
  "daemon_step io p d h =
     (case dm_pc d of
        PAcquire \<Rightarrow> acquire_open io p d h
      | PFlock i \<Rightarrow> acquire_flock io p i d h
      | PWritePid \<Rightarrow> acquire_write io p d h
      | PProbe \<Rightarrow> probe_socket io p PUnlink PLoad d h
      | PUnlink \<Rightarrow> unlink_stale io p PLoad d h
      | PLoad \<Rightarrow> at p d (if li_stop io then PStop else PBind True) h
      | PBind first \<Rightarrow> bind_socket io p first d h
      | PReprobe \<Rightarrow> probe_socket io p PReunlink (PBind False) d h
      | PReunlink \<Rightarrow> unlink_stale io p (PBind False) d h
      | PChmod \<Rightarrow> chmod_socket io p d h
      | PChmodFailed \<Rightarrow> at p d (PRelease exitBind) (h\<lparr>ho_sock := None\<rparr>)
      | PTcp \<Rightarrow> bind_tcp io p d h
      | PTcpFailed \<Rightarrow> tcp_failed p d h
      | PTcpUnlink \<Rightarrow> at p d (PRelease exitBind) (h\<lparr>ho_sock := None\<rparr>)
      | PServe \<Rightarrow> serving io p d h
      | PStop \<Rightarrow> stop_stat p d h
      | PStopUnlink \<Rightarrow> stop_unlink p d h
      | PDrain \<Rightarrow> stop_drain p d h
      | PRelease code \<Rightarrow> release_stat p code d h
      | PReleaseUnlink code \<Rightarrow> release_unlink p code d h
      | PClose code \<Rightarrow> release_close p code d h
      | PExit code \<Rightarrow> h)"

text \<open>A process that dies loses its locks and its listener; its files stay.\<close>

definition crash :: "int \<Rightarrow> host \<Rightarrow> host" where
  "crash p h =
     h\<lparr>ho_daemons := gdel p (ho_daemons h),
       ho_locks := filter (\<lambda>(i, q). q \<noteq> p) (ho_locks h),
       ho_live := filter (\<lambda>(i, q). q \<noteq> p) (ho_live h)\<rparr>"

definition lock_pending :: "host \<Rightarrow> bool" where
  "lock_pending h \<longleftrightarrow> list_ex (\<lambda>(p, d). case dm_pc d of PFlock i \<Rightarrow> True | _ \<Rightarrow> False) (ho_daemons h)"

text \<open>
  \<open>guarded\<close> restricts the executions: the pidfile can be opened, locked and written, and it is not
  unlinked between another process's opening and locking it.
\<close>

inductive life_step :: "bool \<Rightarrow> host \<Rightarrow> host \<Rightarrow> bool" for guarded where
  start: "gget (ho_daemons h) p = None \<Longrightarrow> 0 < p \<Longrightarrow> p < 2 ^ 31 \<Longrightarrow> life_step guarded h (put_daemon p new_daemon h)"
| step: "gget (ho_daemons h) p = Some d \<Longrightarrow>
    (guarded \<Longrightarrow> li_open io \<and> li_flock io \<and> li_write io) \<Longrightarrow>
    (guarded \<Longrightarrow> (case dm_pc d of PReleaseUnlink code \<Rightarrow> \<not> lock_pending h | _ \<Rightarrow> True)) \<Longrightarrow>
    life_step guarded h (daemon_step io p d h)"
| crash: "life_step guarded h (crash p h)"

abbreviation life_steps :: "bool \<Rightarrow> host \<Rightarrow> host \<Rightarrow> bool" where
  "life_steps guarded \<equiv> (life_step guarded)\<^sup>*\<^sup>*"

text \<open>A host on which no daemon runs; files of dead ones may lie about.\<close>

definition idle_host :: "host \<Rightarrow> bool" where
  "idle_host h \<longleftrightarrow> ho_daemons h = [] \<and> ho_locks h = [] \<and> ho_live h = []
     \<and> (\<forall>i. ho_pid h = Some i \<longrightarrow> i < ho_next h) \<and> (\<forall>i. ho_sock h = Some i \<longrightarrow> i < ho_next h)"

section \<open>The errors of a failed start\<close>

datatype start_error = AlreadyRunning int string string | BindFailed string string string | OtherError string

text \<open>\<open>AlreadyRunningError.Error\<close> and \<open>BindError.Error\<close>.\<close>

fun start_error_Error :: "start_error \<Rightarrow> string" where
  "start_error_Error (AlreadyRunning pid socket hint) =
     (let where = (if socket = [] then ''it holds the pidfile lock'' else ''socket '' @ socket @ '' is in use'')
      in if 0 < pid then ''hqsshd is already running (pid '' @ itoa pid @ '', '' @ where @ '')'' @ nl @ ''Stop it first: '' @ hint
         else ''hqsshd is already running ('' @ where @ '')'' @ nl @ ''Stop it first: '' @ hint)"
| "start_error_Error (BindFailed addr err hint) = ''bind '' @ addr @ '': '' @ err @ nl @ hint"
| "start_error_Error (OtherError e) = e"

fun exitCodeFor :: "start_error \<Rightarrow> int" where
  "exitCodeFor (AlreadyRunning pid socket hint) = exitAlreadyRunning"
| "exitCodeFor (BindFailed addr err hint) = exitBind"
| "exitCodeFor (OtherError e) = exitRuntime"

definition validateSocketPath :: "nat \<Rightarrow> string \<Rightarrow> start_error option" where
  "validateSocketPath maxlen path =
     (if path = [] then
        Some (BindFailed ''(empty)'' ''no socket path configured''
          ''set 'socket:' in ~/.hqssh/daemon.yaml or pass --socket'')
      else if maxlen < length path then
        Some (BindFailed path ''file name too long''
          (''socket path is '' @ itoa (int (length path)) @ '' bytes; this OS allows at most ''
             @ itoa (int maxlen) @ '' for Unix sockets. ''
             @ ''Set a shorter path with --socket or the 'socket:' key in ~/.hqssh/daemon.yaml (default ''
             @ DefaultSocketPath @ '')''))
      else None)"

section \<open>Binding the TCP port\<close>

definition tcpBindTimeout :: time where "tcpBindTimeout = 5 * second"
definition tcpBindInterval :: time where "tcpBindInterval = 500 * 1000000"

text \<open>
  The loop of \<open>listenTCPWithRetry\<close>: \<open>res n\<close> is the result of attempt \<open>n\<close> and \<open>clock n\<close> the time after it.
  No result is an attempt that is still to come when the fuel is used up.
\<close>

fun listenTCPWithRetry :: "(nat \<Rightarrow> tcp_result) \<Rightarrow> (nat \<Rightarrow> time) \<Rightarrow> time \<Rightarrow> nat \<Rightarrow> nat \<Rightarrow> tcp_result option" where
  "listenTCPWithRetry res clock deadline n 0 = None"
| "listenTCPWithRetry res clock deadline n (Suc fuel) =
     (case res n of
        TcpOk \<Rightarrow> Some TcpOk
      | TcpFails e \<Rightarrow> Some (TcpFails e)
      | TcpInUse \<Rightarrow>
          if deadline < clock n then Some TcpInUse
          else listenTCPWithRetry res clock deadline (Suc n) fuel)"

section \<open>One daemon at a time\<close>

text \<open>Between taking the lock and giving it up: the only states that touch the socket or the stores.\<close>

fun holds :: "dpc \<Rightarrow> bool" where
  "holds PAcquire = False"
| "holds (PFlock i) = False"
| "holds (PClose code) = False"
| "holds (PExit code) = False"
| "holds _ = True"

text \<open>The states with an open listener, and those in which it is the socket at the path.\<close>

fun listens :: "dpc \<Rightarrow> bool" where
  "listens PChmod = True"
| "listens PTcp = True"
| "listens PServe = True"
| "listens PStopUnlink = True"
| "listens PStop = True"
| "listens PDrain = True"
| "listens _ = False"

fun at_path :: "dpc \<Rightarrow> bool" where
  "at_path PChmod = True"
| "at_path PTcp = True"
| "at_path PServe = True"
| "at_path PStopUnlink = True"
| "at_path _ = False"

text \<open>The states in which the daemon may remember a socket of its own.\<close>

fun knows_socket :: "dpc \<Rightarrow> bool" where
  "knows_socket PTcp = True"
| "knows_socket PTcpFailed = True"
| "knows_socket PServe = True"
| "knows_socket PStop = True"
| "knows_socket _ = False"

text \<open>What holds of the pidfile, and what of the socket.\<close>

definition pid_ok :: "host \<Rightarrow> int \<Rightarrow> daemon \<Rightarrow> bool" where
  "pid_ok h p d \<longleftrightarrow>
     (\<forall>i. dm_pc d = PFlock i \<longrightarrow> ho_pid h = Some i)
     \<and> (holds (dm_pc d) \<longrightarrow> (\<exists>i. dm_file d = Some i \<and> ho_pid h = Some i \<and> gget (ho_locks h) i = Some p
          \<and> (dm_pc d \<noteq> PWritePid \<longrightarrow> gget (ho_content h) i = Some (pid_bytes p))))
     \<and> (\<forall>code. dm_pc d = PClose code \<longrightarrow> (\<exists>i. dm_file d = Some i \<and> gget (ho_locks h) i = Some p \<and> ho_pid h \<noteq> Some i))"

definition sock_ok :: "host \<Rightarrow> int \<Rightarrow> daemon \<Rightarrow> bool" where
  "sock_ok h p d \<longleftrightarrow>
     (\<forall>i. dm_sock d = Some i \<longrightarrow> listens (dm_pc d) \<and> gget (ho_live h) i = Some p)
     \<and> (at_path (dm_pc d) \<longrightarrow> dm_sock d \<noteq> None \<and> ho_sock h = dm_sock d)
     \<and> (dm_pc d \<in> {PTcp, PServe, PStop} \<longrightarrow> dm_info d = dm_sock d)
     \<and> (dm_info d \<noteq> None \<longrightarrow> knows_socket (dm_pc d))"

definition daemon_ok :: "host \<Rightarrow> int \<Rightarrow> daemon \<Rightarrow> bool" where
  "daemon_ok h p d \<longleftrightarrow> pid_ok h p d \<and> sock_ok h p d"

lemma ok_frame [simp]:
  "pid_ok (h\<lparr>ho_sock := so\<rparr>) p d = pid_ok h p d" "pid_ok (h\<lparr>ho_live := li\<rparr>) p d = pid_ok h p d"
  "pid_ok (h\<lparr>ho_next := n\<rparr>) p d = pid_ok h p d" "sock_ok (h\<lparr>ho_next := n\<rparr>) p d = sock_ok h p d"
  "sock_ok (h\<lparr>ho_pid := pd\<rparr>) p d = sock_ok h p d" "sock_ok (h\<lparr>ho_locks := lk\<rparr>) p d = sock_ok h p d"
  "sock_ok (h\<lparr>ho_content := ct\<rparr>) p d = sock_ok h p d"
  "pid_ok h p (d\<lparr>dm_sock := so'\<rparr>) = pid_ok h p d" "pid_ok h p (d\<lparr>dm_info := inf'\<rparr>) = pid_ok h p d"
  "sock_ok h p (d\<lparr>dm_file := fi\<rparr>) = sock_ok h p d"
  by (simp_all add: pid_ok_def sock_ok_def)

text \<open>A holder that keeps the lock keeps its part of the pidfile.\<close>

lemma pid_ok_holder:
  assumes "pid_ok h p d" "holds (dm_pc d)" "dm_pc d \<noteq> PWritePid" "dm_file d' = dm_file d" "holds (dm_pc d')"
  shows "pid_ok h p d'"
proof -
  have "dm_pc d' \<noteq> PFlock i" "dm_pc d' \<noteq> PClose code" for i code using assms(5) by auto
  then show ?thesis using assms by (simp add: pid_ok_def) blast
qed

text \<open>A process with neither listener nor lock.\<close>

lemma sock_ok_off:
  "dm_sock d = None \<Longrightarrow> \<not> at_path (dm_pc d) \<Longrightarrow> dm_info d = None \<Longrightarrow> sock_ok h p d"
  by (cases "dm_pc d") (simp_all add: sock_ok_def)

definition host_inv :: "host \<Rightarrow> bool" where
  "host_inv h \<longleftrightarrow>
     (\<forall>p d. gget (ho_daemons h) p = Some d \<longrightarrow> daemon_ok h p d)
     \<and> (\<forall>i. ho_pid h = Some i \<longrightarrow> i < ho_next h) \<and> (\<forall>i. ho_sock h = Some i \<longrightarrow> i < ho_next h)
     \<and> (\<forall>i p. gget (ho_live h) i = Some p \<longrightarrow> (\<exists>d. gget (ho_daemons h) p = Some d \<and> dm_sock d = Some i))
     \<and> (\<forall>i p. gget (ho_locks h) i = Some p \<longrightarrow> i < ho_next h)
     \<and> gwf (ho_locks h) \<and> gwf (ho_live h)"

lemma holder_unique:
  "host_inv h \<Longrightarrow> gget (ho_daemons h) p = Some d \<Longrightarrow> gget (ho_daemons h) q = Some d' \<Longrightarrow>
   holds (dm_pc d) \<Longrightarrow> holds (dm_pc d') \<Longrightarrow> p = q"
  unfolding host_inv_def daemon_ok_def pid_ok_def by (metis option.inject)

lemma put_daemon_simps [simp]:
  "ho_next (put_daemon p d h) = ho_next h" "ho_pid (put_daemon p d h) = ho_pid h"
  "ho_content (put_daemon p d h) = ho_content h" "ho_locks (put_daemon p d h) = ho_locks h"
  "ho_sock (put_daemon p d h) = ho_sock h" "ho_live (put_daemon p d h) = ho_live h"
  "ho_daemons (put_daemon p d h) = gput p d (ho_daemons h)"
  by (simp_all add: put_daemon_def)

lemma daemon_ok_put [simp]: "daemon_ok (put_daemon p d h) q d' = daemon_ok h q d'"
  by (simp add: daemon_ok_def pid_ok_def sock_ok_def)

lemma host_invD:
  assumes "host_inv h"
  shows "gget (ho_daemons h) p = Some d \<Longrightarrow> daemon_ok h p d"
    and "ho_pid h = Some i \<Longrightarrow> i < ho_next h" and "ho_sock h = Some i \<Longrightarrow> i < ho_next h"
    and "gget (ho_live h) i = Some p \<Longrightarrow> \<exists>d. gget (ho_daemons h) p = Some d \<and> dm_sock d = Some i"
    and "gget (ho_locks h) i = Some p \<Longrightarrow> i < ho_next h"
    and "gwf (ho_locks h)" and "gwf (ho_live h)"
  using assms by (simp_all add: host_inv_def)

lemma listens_holds: "listens pc \<Longrightarrow> holds pc"
  by (cases pc) auto

lemma at_path_listens: "at_path pc \<Longrightarrow> listens pc"
  by (cases pc) auto

text \<open>The steps that change only the process itself.\<close>

lemma inv_local:
  assumes inv: "host_inv h" and p: "gget (ho_daemons h) p = Some d"
    and sock: "dm_sock d' = dm_sock d" and ok: "daemon_ok h p d'"
  shows "host_inv (put_daemon p d' h)"
proof -
  have "\<exists>d''. gget (gput p d' (ho_daemons h)) q = Some d'' \<and> dm_sock d'' = Some i"
    if "gget (ho_live h) i = Some q" for i q
    using host_invD(4) [OF inv that] p sock by (auto simp: gget_gput)
  then show ?thesis using inv ok unfolding host_inv_def by (auto simp: gget_gput)
qed

text \<open>No other process is at the socket while one holds the lock.\<close>

lemma others_off_socket:
  assumes inv: "host_inv h" and p: "gget (ho_daemons h) p = Some d" "holds (dm_pc d)"
    and q: "q \<noteq> p" "gget (ho_daemons h) q = Some e"
  shows "\<not> holds (dm_pc e)" and "dm_sock e = None" and "\<not> at_path (dm_pc e)" and "dm_pc e \<notin> {PTcp, PServe, PStop}"
proof -
  show no: "\<not> holds (dm_pc e)" using holder_unique [OF inv p(1) q(2)] p(2) q(1) by blast
  then have off: "\<not> listens (dm_pc e)" using listens_holds by blast
  then show "\<not> at_path (dm_pc e)" using at_path_listens by blast
  show "dm_sock e = None" using host_invD(1) [OF inv q(2)] off by (auto simp: daemon_ok_def pid_ok_def sock_ok_def)
  show "dm_pc e \<notin> {PTcp, PServe, PStop}" using no by auto
qed

lemma inv_socket:
  assumes inv: "host_inv h" and p: "gget (ho_daemons h) p = Some d" "holds (dm_pc d)"
    and h1: "h1 = h\<lparr>ho_sock := so, ho_live := li, ho_next := n\<rparr>" and n: "ho_next h \<le> n"
    and so: "\<And>i. so = Some i \<Longrightarrow> i < n" and wf: "gwf li"
    and li: "\<And>i q. gget li i = Some q \<Longrightarrow> q = p \<and> dm_sock d' = Some i"
    and ok: "daemon_ok h1 p d'"
  shows "host_inv (put_daemon p d' h1)"
proof -
  have other: "daemon_ok h1 q e" if "q \<noteq> p" "gget (ho_daemons h) q = Some e" for q e
    using host_invD(1) [OF inv that(2)] others_off_socket [OF inv p that]
    by (simp add: daemon_ok_def pid_ok_def sock_ok_def h1)
  have "daemon_ok h1 q e" if "gget (gput p d' (ho_daemons h)) q = Some e" for q e
    using that ok other by (auto simp: gget_gput split: if_splits)
  moreover have "i < n" if "ho_pid h = Some i" for i using host_invD(2) [OF inv that] n by simp
  moreover have "i < n" if "gget (ho_locks h) i = Some q" for i q using host_invD(5) [OF inv that] n by simp
  moreover have "\<exists>e. gget (gput p d' (ho_daemons h)) q = Some e \<and> dm_sock e = Some i" if "gget li i = Some q" for i q
    using li [OF that] by (auto simp: gget_gput)
  ultimately show ?thesis
    using so wf host_invD(6) [OF inv] by (simp add: host_inv_def h1)
qed

lemma live_only_holder:
  assumes inv: "host_inv h" and p: "gget (ho_daemons h) p = Some d" "holds (dm_pc d)" and i: "gget (ho_live h) i = Some q"
  shows "q = p \<and> dm_sock d = Some i"
proof -
  obtain e where e: "gget (ho_daemons h) q = Some e" "dm_sock e = Some i" using host_invD(4) [OF inv i] by blast
  then show ?thesis using others_off_socket(2) [OF inv p, of q e] p(1) by (cases "q = p") auto
qed

text \<open>The steps on the pidfile and its lock.\<close>

lemma inv_pid:
  assumes inv: "host_inv h" and p: "gget (ho_daemons h) p = Some d" and sock: "dm_sock d' = dm_sock d"
    and h1: "h1 = h\<lparr>ho_pid := pd, ho_next := n, ho_locks := lk, ho_content := ct\<rparr>" and n: "ho_next h \<le> n"
    and pd: "\<And>i. pd = Some i \<Longrightarrow> i < n" and lk: "\<And>i q. gget lk i = Some q \<Longrightarrow> i < n" and wf: "gwf lk"
    and ok: "daemon_ok h1 p d'"
    and other: "\<And>q e. q \<noteq> p \<Longrightarrow> gget (ho_daemons h) q = Some e \<Longrightarrow> daemon_ok h q e \<Longrightarrow> daemon_ok h1 q e"
  shows "host_inv (put_daemon p d' h1)"
proof -
  have "daemon_ok h1 q e" if "gget (gput p d' (ho_daemons h)) q = Some e" for q e
    using that ok other host_invD(1) [OF inv] by (auto simp: gget_gput split: if_splits)
  moreover have "i < n" if "ho_sock h = Some i" for i using host_invD(3) [OF inv that] n by simp
  moreover have "\<exists>e. gget (gput p d' (ho_daemons h)) q = Some e \<and> dm_sock e = Some i" if "gget (ho_live h) i = Some q" for i q
    using host_invD(4) [OF inv that] p sock by (auto simp: gget_gput)
  ultimately show ?thesis using pd lk wf host_invD(7) [OF inv] by (simp add: host_inv_def h1)
qed

lemma daemon_ok_off:
  "daemon_ok h p d \<Longrightarrow> \<not> holds (dm_pc d) \<Longrightarrow> dm_sock d = None"
  unfolding daemon_ok_def pid_ok_def sock_ok_def by (metis listens_holds not_Some_eq)

lemma inv_acquire_open:
  assumes inv: "host_inv h" and p: "gget (ho_daemons h) p = Some d" "dm_pc d = PAcquire" and io: "li_open io"
  shows "host_inv (acquire_open io p d h)"
proof (cases "ho_pid h")
  case (Some i)
  have "daemon_ok h p (d\<lparr>dm_pc := PFlock i\<rparr>)"
    using host_invD(1) [OF inv p(1)] p(2) Some by (simp add: daemon_ok_def pid_ok_def sock_ok_def)
  then show ?thesis using inv_local [OF inv p(1), of "d\<lparr>dm_pc := PFlock i\<rparr>"] Some io
    by (simp add: acquire_open_def at_def)
next
  case None
  let ?i = "ho_next h"
  let ?h1 = "h\<lparr>ho_pid := Some ?i, ho_next := ?i + 1, ho_locks := ho_locks h, ho_content := ho_content h\<rparr>"
  have "daemon_ok ?h1 p (d\<lparr>dm_pc := PFlock ?i\<rparr>)"
    using host_invD(1) [OF inv p(1)] p(2) by (simp add: daemon_ok_def pid_ok_def sock_ok_def)
  moreover have "daemon_ok ?h1 q e" if e: "gget (ho_daemons h) q = Some e" "daemon_ok h q e" for q e
    using e(2) None host_invD(5) [OF inv] by (fastforce simp: daemon_ok_def pid_ok_def sock_ok_def)
  ultimately have "host_inv (put_daemon p (d\<lparr>dm_pc := PFlock ?i\<rparr>) ?h1)"
    using host_invD(5,6) [OF inv] by (intro inv_pid [OF inv p(1) _ refl]) (auto intro: less_SucI)
  then show ?thesis using None io by (simp add: acquire_open_def at_def)
qed

lemma inv_acquire_flock:
  assumes inv: "host_inv h" and p: "gget (ho_daemons h) p = Some d" "dm_pc d = PFlock i" and io: "li_flock io"
  shows "host_inv (acquire_flock io p i d h)"
proof (cases "gget (ho_locks h) i")
  case (Some q)
  have "daemon_ok h p (d\<lparr>dm_pc := PExit exitAlreadyRunning\<rparr>)"
    using host_invD(1) [OF inv p(1)] p(2) by (simp add: daemon_ok_def pid_ok_def sock_ok_def)
  then show ?thesis using inv_local [OF inv p(1), of "d\<lparr>dm_pc := PExit exitAlreadyRunning\<rparr>"] Some io
    by (simp add: acquire_flock_def at_def)
next
  case None
  let ?h1 = "h\<lparr>ho_pid := ho_pid h, ho_next := ho_next h, ho_locks := gput i p (ho_locks h), ho_content := ho_content h\<rparr>"
  let ?d = "d\<lparr>dm_file := Some i, dm_pc := PWritePid\<rparr>"
  have pid: "ho_pid h = Some i" using host_invD(1) [OF inv p(1)] p(2) by (simp add: daemon_ok_def pid_ok_def sock_ok_def)
  have "daemon_ok ?h1 p ?d"
    using host_invD(1) [OF inv p(1)] p(2) pid by (simp add: daemon_ok_def pid_ok_def sock_ok_def gget_gput)
  moreover have "daemon_ok ?h1 q e" if e: "gget (ho_daemons h) q = Some e" "daemon_ok h q e" for q e
  proof -
    have other: "gget (gput i p (ho_locks h)) j = Some q" if "gget (ho_locks h) j = Some q" for j
      using that None by (auto simp: gget_gput)
    show ?thesis using e(2) other unfolding daemon_ok_def pid_ok_def by simp blast
  qed
  ultimately have "host_inv (put_daemon p ?d ?h1)"
    using host_invD(2,5,6) [OF inv] pid
    by (intro inv_pid [OF inv p(1) _ refl]) (auto simp: gget_gput split: if_splits)
  then show ?thesis using None io by (simp add: acquire_flock_def at_def)
qed

lemma inv_acquire_write:
  assumes inv: "host_inv h" and p: "gget (ho_daemons h) p = Some d" "dm_pc d = PWritePid" and io: "li_write io"
  shows "host_inv (acquire_write io p d h)"
proof -
  obtain i where i: "dm_file d = Some i" "ho_pid h = Some i" "gget (ho_locks h) i = Some p"
    using host_invD(1) [OF inv p(1)] p(2) by (auto simp: daemon_ok_def pid_ok_def sock_ok_def)
  let ?h1 = "h\<lparr>ho_pid := ho_pid h, ho_next := ho_next h, ho_locks := ho_locks h, ho_content := gput i (pid_bytes p) (ho_content h)\<rparr>"
  let ?d = "d\<lparr>dm_pc := PProbe\<rparr>"
  have "daemon_ok ?h1 p ?d"
    using host_invD(1) [OF inv p(1)] p(2) i by (simp add: daemon_ok_def pid_ok_def sock_ok_def gget_gput)
  moreover have "daemon_ok ?h1 q e" if e: "q \<noteq> p" "gget (ho_daemons h) q = Some e" "daemon_ok h q e" for q e
    using e(3) others_off_socket(1) [OF inv p(1) _ e(1,2)] p(2) by (simp add: daemon_ok_def pid_ok_def sock_ok_def)
  ultimately have "host_inv (put_daemon p ?d ?h1)"
    using host_invD(2,5,6) [OF inv] by (intro inv_pid [OF inv p(1) _ refl]) auto
  moreover have "?h1 = h\<lparr>ho_content := gput i (pid_bytes p) (ho_content h)\<rparr>" by simp
  ultimately show ?thesis using i(1) io by (simp add: acquire_write_def at_def)
qed

lemma inv_release_unlink:
  assumes inv: "host_inv h" and p: "gget (ho_daemons h) p = Some d" "dm_pc d = PReleaseUnlink code"
    and guard: "\<not> lock_pending h"
  shows "host_inv (release_unlink p code d h)"
proof -
  obtain i where i: "dm_file d = Some i" "gget (ho_locks h) i = Some p"
    using host_invD(1) [OF inv p(1)] p(2) by (auto simp: daemon_ok_def pid_ok_def sock_ok_def)
  let ?h1 = "h\<lparr>ho_pid := None, ho_next := ho_next h, ho_locks := ho_locks h, ho_content := ho_content h\<rparr>"
  let ?d = "d\<lparr>dm_pc := PClose code\<rparr>"
  have "daemon_ok ?h1 p ?d"
    using host_invD(1) [OF inv p(1)] p(2) i by (auto simp: daemon_ok_def pid_ok_def sock_ok_def)
  moreover have "daemon_ok ?h1 q e" if e: "q \<noteq> p" "gget (ho_daemons h) q = Some e" "daemon_ok h q e" for q e
  proof -
    have "dm_pc e \<noteq> PFlock j" for j
    proof
      assume "dm_pc e = PFlock j"
      then have "lock_pending h" using gget_SomeD [OF e(2)] by (force simp: lock_pending_def list_ex_iff)
      with guard show False by simp
    qed
    then show ?thesis using e(3) others_off_socket(1) [OF inv p(1) _ e(1,2)] p(2) by (auto simp: daemon_ok_def pid_ok_def sock_ok_def)
  qed
  ultimately have "host_inv (put_daemon p ?d ?h1)"
    using host_invD(5,6) [OF inv] by (intro inv_pid [OF inv p(1) _ refl]) auto
  then show ?thesis by (simp add: release_unlink_def at_def)
qed

lemma inv_release_close:
  assumes inv: "host_inv h" and p: "gget (ho_daemons h) p = Some d" "dm_pc d = PClose code"
  shows "host_inv (release_close p code d h)"
proof -
  obtain i where i: "dm_file d = Some i" "gget (ho_locks h) i = Some p" "ho_pid h \<noteq> Some i"
    using host_invD(1) [OF inv p(1)] p(2) by (auto simp: daemon_ok_def pid_ok_def sock_ok_def)
  let ?h1 = "h\<lparr>ho_pid := ho_pid h, ho_next := ho_next h, ho_locks := gdel i (ho_locks h), ho_content := ho_content h\<rparr>"
  let ?d = "d\<lparr>dm_file := None, dm_pc := PExit code\<rparr>"
  have "daemon_ok ?h1 p ?d"
    using host_invD(1) [OF inv p(1)] p(2) by (simp add: daemon_ok_def pid_ok_def sock_ok_def)
  moreover have "daemon_ok ?h1 q e" if e: "q \<noteq> p" "gget (ho_daemons h) q = Some e" "daemon_ok h q e" for q e
  proof -
    have other: "gget (gdel i (ho_locks h)) j = Some q" if "gget (ho_locks h) j = Some q" for j
      using that i(2) e(1) by (auto simp: gget_gdel)
    show ?thesis using e(3) other i(3) unfolding daemon_ok_def pid_ok_def by simp blast
  qed
  ultimately have "host_inv (put_daemon p ?d ?h1)"
    using host_invD(2,5,6) [OF inv] by (intro inv_pid [OF inv p(1) _ refl]) (auto simp: gget_gdel split: if_splits)
  then show ?thesis using i by (simp add: release_close_def at_def unlock_def)
qed

text \<open>Steps of a holder that touch nothing but its own program counter.\<close>

lemma other_pcs:
  "holds pc \<Longrightarrow> pc \<noteq> PFlock i" "holds pc \<Longrightarrow> pc \<noteq> PClose code"
  "\<not> at_path pc \<Longrightarrow> pc \<noteq> PTcp \<and> pc \<noteq> PServe" "\<not> knows_socket pc \<Longrightarrow> pc \<noteq> PStop"
  by auto

lemma inv_quiet:
  assumes inv: "host_inv h" and p: "gget (ho_daemons h) p = Some d" "holds (dm_pc d)" "dm_pc d \<noteq> PWritePid"
    and pc: "holds pc" "\<not> at_path pc" and sock: "dm_sock d = None \<or> listens pc"
    and info: "if pc = PStop then dm_info d = dm_sock d else dm_info d = None"
  shows "host_inv (at p d pc h)"
proof -
  have "daemon_ok h p (d\<lparr>dm_pc := pc\<rparr>)"
    using host_invD(1) [OF inv p(1)] p(2,3) sock info pc pid_ok_holder [of h p d "d\<lparr>dm_pc := pc\<rparr>"]
    by (cases "pc = PStop") (auto simp: daemon_ok_def sock_ok_def other_pcs)
  then show ?thesis using inv_local [OF inv p(1), of "d\<lparr>dm_pc := pc\<rparr>"] by (simp add: at_def)
qed

lemma not_listening: "daemon_ok h p d \<Longrightarrow> \<not> listens (dm_pc d) \<Longrightarrow> dm_sock d = None"
  unfolding daemon_ok_def pid_ok_def sock_ok_def by (metis not_Some_eq)

lemma not_knowing: "daemon_ok h p d \<Longrightarrow> \<not> knows_socket (dm_pc d) \<Longrightarrow> dm_info d = None"
  unfolding daemon_ok_def sock_ok_def by blast

text \<open>Steps of a holder that unlink whatever is at the socket path.\<close>

lemma inv_unlink_path:
  assumes inv: "host_inv h" and p: "gget (ho_daemons h) p = Some d" "holds (dm_pc d)" "dm_pc d \<noteq> PWritePid"
    and pc: "holds pc" "\<not> at_path pc" "pc \<noteq> PStop" and sock: "dm_sock d = None \<or> listens pc"
    and info: "dm_info d = None"
  shows "host_inv (at p d pc (h\<lparr>ho_sock := None\<rparr>))"
proof -
  let ?h1 = "h\<lparr>ho_sock := None, ho_live := ho_live h, ho_next := ho_next h\<rparr>"
  have "daemon_ok ?h1 p (d\<lparr>dm_pc := pc\<rparr>)"
    using host_invD(1) [OF inv p(1)] p(2,3) sock info pc pid_ok_holder [of h p d "d\<lparr>dm_pc := pc\<rparr>"]
    by (auto simp: daemon_ok_def sock_ok_def other_pcs)
  then have "host_inv (put_daemon p (d\<lparr>dm_pc := pc\<rparr>) ?h1)"
    using host_invD(7) [OF inv] live_only_holder [OF inv p(1,2)]
    by (intro inv_socket [OF inv p(1,2) refl]) auto
  then show ?thesis by (simp add: at_def)
qed

text \<open>Steps of a holder that close its listener.\<close>

lemma inv_close_listener:
  assumes inv: "host_inv h" and p: "gget (ho_daemons h) p = Some d" "holds (dm_pc d)" "dm_pc d \<noteq> PWritePid"
    and pc: "holds pc" "\<not> at_path pc" "pc \<noteq> PStop" and info: "dm_info d = None \<or> knows_socket pc"
  shows "host_inv (at p (d\<lparr>dm_sock := None\<rparr>) pc (close_listener d h))"
proof -
  let ?li = "case dm_sock d of None \<Rightarrow> ho_live h | Some i \<Rightarrow> gdel i (ho_live h)"
  let ?h1 = "h\<lparr>ho_sock := ho_sock h, ho_live := ?li, ho_next := ho_next h\<rparr>"
  have ok: "daemon_ok ?h1 p (d\<lparr>dm_sock := None, dm_pc := pc\<rparr>)"
    using host_invD(1) [OF inv p(1)] p(2,3) pc info pid_ok_holder [of h p d "d\<lparr>dm_sock := None, dm_pc := pc\<rparr>"]
    by (auto simp: daemon_ok_def sock_ok_def other_pcs)
  have empty: "gget ?li i = None" for i
    using live_only_holder [OF inv p(1,2), of i] by (cases "gget (ho_live h) i") (auto simp: gget_gdel split: option.splits)
  have "gwf ?li" using host_invD(7) [OF inv] by (auto split: option.splits)
  then have "host_inv (put_daemon p (d\<lparr>dm_sock := None, dm_pc := pc\<rparr>) ?h1)"
    using ok empty host_invD(3) [OF inv] by (intro inv_socket [OF inv p(1,2) refl]) auto
  moreover have "?h1 = close_listener d h" by (simp add: close_listener_def split: option.splits)
  ultimately show ?thesis by (simp add: at_def)
qed

lemma inv_bind_socket:
  assumes inv: "host_inv h" and p: "gget (ho_daemons h) p = Some d" "dm_pc d = PBind first"
  shows "host_inv (bind_socket io p first d h)"
proof (cases "li_bind io = None \<and> ho_sock h = None")
  case False
  have "dm_sock d = None" "dm_info d = None"
    using not_listening [OF host_invD(1) [OF inv p(1)]] not_knowing [OF host_invD(1) [OF inv p(1)]] p(2) by simp_all
  then show ?thesis using False p(2) by (auto simp: bind_socket_def inv_quiet [OF inv p(1)] split: option.splits)
next
  case True
  let ?i = "ho_next h"
  let ?d = "d\<lparr>dm_sock := Some ?i, dm_pc := PChmod\<rparr>"
  let ?h1 = "h\<lparr>ho_sock := Some ?i, ho_live := gput ?i p (ho_live h), ho_next := ?i + 1\<rparr>"
  have "dm_sock d = None" using not_listening [OF host_invD(1) [OF inv p(1)]] p(2) by simp
  then have no_live: "gget (ho_live h) j = None" for j
    using live_only_holder [OF inv p(1), of j] p(2) by (cases "gget (ho_live h) j") auto
  have "daemon_ok ?h1 p ?d"
    using host_invD(1) [OF inv p(1)] p(2) by (auto simp: daemon_ok_def pid_ok_def sock_ok_def gget_gput)
  then have "host_inv (put_daemon p ?d ?h1)"
    using p(2) no_live host_invD(7) [OF inv]
    by (intro inv_socket [OF inv p(1) _ refl]) (auto simp: gget_gput split: if_splits)
  then show ?thesis using True by (simp add: bind_socket_def at_def)
qed

text \<open>A holder's own socket keeps being the one at the path.\<close>

lemma inv_kept_socket:
  assumes inv: "host_inv h" and p: "gget (ho_daemons h) p = Some d" "at_path (dm_pc d)"
    and d': "dm_file d' = dm_file d" "dm_sock d' = dm_sock d" "dm_pc d' \<in> {PTcp, PServe}" "dm_info d' = dm_sock d"
  shows "host_inv (put_daemon p d' h)"
proof (rule inv_local [OF inv p(1) d'(2)])
  have "holds (dm_pc d)" "dm_pc d \<noteq> PWritePid" using p(2) at_path_listens listens_holds by fastforce+
  moreover have "holds (dm_pc d')" "\<not> dm_pc d' = PStop" using d'(3) by auto
  moreover have "sock_ok h p d'"
    using host_invD(1) [OF inv p(1)] p(2) d' at_path_listens [of "dm_pc d'"]
    by (auto simp: daemon_ok_def sock_ok_def)
  ultimately show "daemon_ok h p d'" using host_invD(1) [OF inv p(1)] d'(1) pid_ok_holder [of h p d d'] by (simp add: daemon_ok_def)
qed

text \<open>A daemon that forgets its socket, with no listener any more.\<close>

lemma inv_forget:
  assumes inv: "host_inv h" and p: "gget (ho_daemons h) p = Some d" "holds (dm_pc d)" "dm_pc d \<noteq> PWritePid"
    and sock: "dm_sock d = None" and pc: "holds pc" "\<not> at_path pc" "pc \<noteq> PStop"
  shows "host_inv (at p (d\<lparr>dm_info := None\<rparr>) pc h)"
proof -
  have "daemon_ok h p (d\<lparr>dm_info := None, dm_pc := pc\<rparr>)"
    using host_invD(1) [OF inv p(1)] p(2,3) sock pc pid_ok_holder [of h p d "d\<lparr>dm_info := None, dm_pc := pc\<rparr>"]
    by (auto simp: daemon_ok_def sock_ok_def other_pcs)
  then show ?thesis using inv_local [OF inv p(1), of "d\<lparr>dm_info := None, dm_pc := pc\<rparr>"] by (simp add: at_def)
qed

text \<open>
  Stopping unlinks the path only when the daemon's own socket is there, so this needs the socket it
  recorded to be the one it holds.
\<close>

lemma inv_stop_stat:
  assumes inv: "host_inv h" and p: "gget (ho_daemons h) p = Some d" "dm_pc d = PStop"
  shows "host_inv (stop_stat p d h)"
proof -
  let ?pc = "if owned d h then PStopUnlink else PDrain"
  have "dm_info d = dm_sock d" using host_invD(1) [OF inv p(1)] p(2) by (simp add: daemon_ok_def pid_ok_def sock_ok_def)
  then have "daemon_ok h p (d\<lparr>dm_info := None, dm_pc := ?pc\<rparr>)"
    using host_invD(1) [OF inv p(1)] p(2) by (auto simp: daemon_ok_def pid_ok_def sock_ok_def owned_def)
  then show ?thesis using inv_local [OF inv p(1), of "d\<lparr>dm_info := None, dm_pc := ?pc\<rparr>"]
    by (simp add: stop_stat_def at_def)
qed

lemma inv_release_stat:
  assumes inv: "host_inv h" and p: "gget (ho_daemons h) p = Some d" "dm_pc d = PRelease code"
  shows "host_inv (release_stat p code d h)"
proof -
  note ok = host_invD(1) [OF inv p(1)]
  obtain i where i: "dm_file d = Some i" "ho_pid h = Some i" using ok p(2) by (auto simp: daemon_ok_def pid_ok_def sock_ok_def)
  have "dm_sock d = None" "dm_info d = None" using not_listening [OF ok] not_knowing [OF ok] p(2) by simp_all
  then show ?thesis using p(2) i by (simp add: release_stat_def inv_quiet [OF inv p(1)])
qed

lemma inv_daemon_step:
  assumes inv: "host_inv h" and p: "gget (ho_daemons h) p = Some d"
    and io: "li_open io" "li_flock io" "li_write io"
    and guard: "case dm_pc d of PReleaseUnlink code \<Rightarrow> \<not> lock_pending h | _ \<Rightarrow> True"
  shows "host_inv (daemon_step io p d h)"
proof -
  note ok = host_invD(1) [OF inv p]
  have sock: "listens (dm_pc d) \<or> dm_sock d = None" using not_listening [OF ok] by (cases "listens (dm_pc d)") auto
  have info: "knows_socket (dm_pc d) \<or> dm_info d = None" using not_knowing [OF ok] by (cases "knows_socket (dm_pc d)") auto
  have own: "dm_pc d \<in> {PTcp, PServe, PStop} \<Longrightarrow> dm_info d = dm_sock d" using ok by (simp add: daemon_ok_def pid_ok_def sock_ok_def)
  have path: "at_path (dm_pc d) \<Longrightarrow> dm_sock d = ho_sock h" using ok by (simp add: daemon_ok_def pid_ok_def sock_ok_def)
  have kept: "host_inv (at p d' pc h)"
    if "at_path (dm_pc d)" "dm_file d' = dm_file d" "dm_sock d' = dm_sock d" "pc \<in> {PTcp, PServe}" "dm_info d' = dm_sock d"
    for d' pc
    using inv_kept_socket [OF inv p, of "d'\<lparr>dm_pc := pc\<rparr>"] that by (simp add: at_def)
  note quiet = inv_quiet [OF inv p] and unlink = inv_unlink_path [OF inv p] and forget = inv_forget [OF inv p]
    and close = inv_close_listener [OF inv p]
  show ?thesis
  proof (cases "dm_pc d")
    case PChmod
    then show ?thesis using info path
      by (simp add: daemon_step_def chmod_socket_def close kept)
  next
    case PServe
    then show ?thesis using inv own by (simp add: daemon_step_def serving_def quiet kept)
  next
    case PTcp
    then show ?thesis using own
      by (simp add: daemon_step_def bind_tcp_def close kept split: tcp_result.split)
  qed (use inv guard io sock info in \<open>simp_all add: daemon_step_def probe_socket_def unlink_stale_def
         tcp_failed_def stop_unlink_def stop_drain_def quiet unlink close forget
         inv_acquire_open [OF inv p] inv_acquire_flock [OF inv p] inv_acquire_write [OF inv p]
         inv_bind_socket [OF inv p] inv_stop_stat [OF inv p] inv_release_stat [OF inv p]
         inv_release_unlink [OF inv p] inv_release_close [OF inv p] split: probe.split\<close>)
qed

text \<open>A process that dies.\<close>

lemma gwf_filter: "gwf m \<Longrightarrow> gwf (filter P m)"
  by (simp add: gwf_def distinct_map_filter)

lemma gget_dropped:
  assumes "gwf (m :: ('k, int) gomap)"
  shows "gget (filter (\<lambda>(i, q). q \<noteq> p) m) i = Some q \<longleftrightarrow> gget m i = Some q \<and> q \<noteq> p"
  using assms gwf_filter [OF assms] by (simp add: gget_eq_Some_iff)

lemma crash_ok:
  assumes wf: "gwf (ho_locks h)" "gwf (ho_live h)" and q: "q \<noteq> p"
  shows "daemon_ok (crash p h) q e = daemon_ok h q e"
  using q by (simp add: daemon_ok_def pid_ok_def sock_ok_def crash_def gget_dropped [OF wf(1)] gget_dropped [OF wf(2)])

lemma inv_crash:
  assumes inv: "host_inv h"
  shows "host_inv (crash p h)"
proof -
  note wf = host_invD(6,7) [OF inv]
  have "daemon_ok (crash p h) q e" if "gget (ho_daemons (crash p h)) q = Some e" for q e
  proof -
    have q: "q \<noteq> p" "gget (ho_daemons h) q = Some e" using that by (auto simp: crash_def gget_gdel split: if_splits)
    then show ?thesis using host_invD(1) [OF inv q(2)] by (simp add: crash_ok [OF wf q(1)])
  qed
  moreover have "\<exists>d. gget (gdel p (ho_daemons h)) q = Some d \<and> dm_sock d = Some i"
    if "gget (filter (\<lambda>(i, q). q \<noteq> p) (ho_live h)) i = Some q" for i q
    using that host_invD(4) [OF inv, of i q] by (auto simp: gget_dropped [OF wf(2)] gget_gdel)
  moreover have "i < ho_next h" if "gget (filter (\<lambda>(i, q). q \<noteq> p) (ho_locks h)) i = Some q" for i q
    using that host_invD(5) [OF inv, of i q] by (simp add: gget_dropped [OF wf(1)])
  ultimately show ?thesis using host_invD(2,3) [OF inv] gwf_filter [OF wf(1)] gwf_filter [OF wf(2)]
    by (simp add: host_inv_def crash_def)
qed

lemma inv_start:
  assumes inv: "host_inv h" and p: "gget (ho_daemons h) p = None"
  shows "host_inv (put_daemon p new_daemon h)"
proof -
  have "daemon_ok h p new_daemon" by (simp add: daemon_ok_def pid_ok_def sock_ok_def new_daemon_def)
  moreover have "\<exists>d. gget (gput p new_daemon (ho_daemons h)) q = Some d \<and> dm_sock d = Some i"
    if "gget (ho_live h) i = Some q" for i q
    using host_invD(4) [OF inv that] p by (auto simp: gget_gput)
  ultimately show ?thesis using inv unfolding host_inv_def by (simp add: gget_gput)
qed

lemma life_step_inv:
  assumes "life_step True h h'" and "host_inv h"
  shows "host_inv h'"
  using assms
proof cases
  case (start p)
  then show ?thesis using assms(2) inv_start by simp
next
  case (step p d io)
  then show ?thesis using inv_daemon_step [OF assms(2) step(2), of io] by simp
next
  case (crash p)
  then show ?thesis using assms(2) inv_crash by simp
qed

lemma readPid_pid_bytes:
  assumes "0 < p" and "p < 2 ^ 31"
  shows "readPid (pid_bytes p) = Some p"
proof -
  have "list_all is_digit (itoa p)" using assms(1) by (simp add: itoa_def itoa_nat_digits)
  then have "list_all (\<lambda>c. bval c < 128 \<and> \<not> is_space (bval c)) (itoa p)"
    by (auto simp: list_all_iff is_digit_def is_space_def)
  then have "trim_space (pid_bytes p) = itoa p" by (simp add: pid_bytes_def nl_def trim_space_line)
  moreover have "length (itoa p) \<le> 10"
    using length_itoa_nat [of 10 "nat p"] assms by (simp add: itoa_def nat_less_iff)
  then have "take 32 (pid_bytes p) = pid_bytes p" by (simp add: pid_bytes_def nl_def)
  ultimately show ?thesis using assms by (simp add: readPid_def atoi_itoa)
qed

lemma daemon_step_dom:
  "dom (gget (ho_daemons (daemon_step io p d h))) \<subseteq> insert p (dom (gget (ho_daemons h)))"
proof -
  have at_dom: "dom (gget (ho_daemons (at p d' pc h'))) = insert p (dom (gget (ho_daemons h')))" for d' pc h'
    by (auto simp: at_def gget_gput dom_def)
  show ?thesis
    by (cases "dm_pc d")
       (auto simp: daemon_step_def acquire_open_def acquire_flock_def acquire_write_def unlock_def probe_socket_def
          unlink_stale_def bind_socket_def chmod_socket_def close_listener_def bind_tcp_def tcp_failed_def
          serving_def stop_stat_def stop_unlink_def stop_drain_def release_stat_def release_unlink_def
          release_close_def at_dom split: option.splits tcp_result.splits)
qed

lemma life_step_pids:
  assumes "life_step guarded h h'" and "\<forall>p. gget (ho_daemons h) p \<noteq> None \<longrightarrow> 0 < p \<and> p < 2 ^ 31"
  shows "\<forall>p. gget (ho_daemons h') p \<noteq> None \<longrightarrow> 0 < p \<and> p < 2 ^ 31"
  using assms
proof cases
  case (step p d io)
  have "dom (gget (ho_daemons h')) \<subseteq> insert p (dom (gget (ho_daemons h)))"
    unfolding step(1) by (rule daemon_step_dom)
  then show ?thesis using assms(2) step(2) by (auto simp: subset_iff)
qed (auto simp: gget_gput crash_def gget_gdel)

lemma idle_inv: "idle_host h \<Longrightarrow> host_inv h"
  by (simp add: idle_host_def host_inv_def)

lemma life_steps_pids:
  "life_steps guarded h h' \<Longrightarrow> idle_host h \<Longrightarrow> \<forall>p. gget (ho_daemons h') p \<noteq> None \<longrightarrow> 0 < p \<and> p < 2 ^ 31"
  by (induction rule: rtranclp_induct) (auto simp: idle_host_def dest: life_step_pids)

lemma life_steps_inv: "life_steps True h h' \<Longrightarrow> idle_host h \<Longrightarrow> host_inv h'"
  by (induction rule: rtranclp_induct) (auto intro: idle_inv life_step_inv)


section \<open>Schedules\<close>

text \<open>An execution written down as the list of its steps.\<close>

datatype life_event = EvStart int | EvStep int life_io | EvCrash int

fun life_event_step :: "bool \<Rightarrow> life_event \<Rightarrow> host \<Rightarrow> host option" where
  "life_event_step guarded (EvStart p) h =
     (if gget (ho_daemons h) p = None \<and> 0 < p \<and> p < 2 ^ 31 then Some (put_daemon p new_daemon h) else None)"
| "life_event_step guarded (EvStep p io) h =
     (case gget (ho_daemons h) p of None \<Rightarrow> None
      | Some d \<Rightarrow>
          if guarded \<and> (\<not> li_open io \<or> \<not> li_flock io \<or> \<not> li_write io
                         \<or> (case dm_pc d of PReleaseUnlink code \<Rightarrow> lock_pending h | _ \<Rightarrow> False)) then None
          else Some (daemon_step io p d h))"
| "life_event_step guarded (EvCrash p) h = Some (crash p h)"

fun life_run :: "bool \<Rightarrow> life_event list \<Rightarrow> host \<Rightarrow> host option" where
  "life_run guarded [] h = Some h"
| "life_run guarded (e # es) h = Option.bind (life_event_step guarded e h) (life_run guarded es)"

lemma life_event_step_sound: "life_event_step guarded e h = Some h' \<Longrightarrow> life_step guarded h h'"
  by (cases e)
     (auto split: if_splits option.splits intro: life_step.start life_step.crash
       intro!: life_step.step split: dpc.splits)

lemma life_run_sound: "life_run guarded es h = Some h' \<Longrightarrow> life_steps guarded h h'"
  by (induction es arbitrary: h)
     (auto split: bind_splits intro: converse_rtranclp_into_rtranclp life_event_step_sound)

definition calm :: life_io where
  "calm = \<lparr>li_open = True, li_flock = True, li_write = True, li_dial = True, li_unlink = True, li_bind = None,
     li_chmod = True, li_tcp_port = True, li_tcp = TcpOk, li_stop = False\<rparr>"

definition after_crash :: host where
  "after_crash = \<lparr>ho_next = 2, ho_pid = Some 0, ho_content = [(0, ''41'' @ nl)], ho_locks = [], ho_sock = Some 1,
     ho_live = [], ho_daemons = []\<rparr>"

text \<open>
  Process 1 runs and is told to stop; 2 starts and opens the pidfile before 1 unlinks it; 3 starts after
  that, and looks at the socket before 2 has bound it.
\<close>

definition stopping :: life_io where "stopping = calm\<lparr>li_stop := True\<rparr>"

definition race :: "life_event list" where
  "race = EvStart 1 # replicate 9 (EvStep 1 calm) @ replicate 5 (EvStep 1 stopping)
     @ [EvStart 2, EvStep 2 calm] @ replicate 2 (EvStep 1 calm)
     @ replicate 3 (EvStep 2 calm) @ [EvStart 3] @ replicate 4 (EvStep 3 calm)
     @ replicate 4 (EvStep 2 calm)"

text \<open>A daemon that starts where another crashed takes over its pidfile and replaces its socket.\<close>

definition restarted :: "host option" where
  "restarted = life_run True (EvStart 42 # replicate 9 (EvStep 42 calm)) after_crash"

definition pc_of :: "int \<Rightarrow> host \<Rightarrow> dpc option" where
  "pc_of p h = map_option dm_pc (gget (ho_daemons h) p)"

lemma restarted_serves: "map_option (pc_of 42) restarted = Some (Some PServe)"
  by code_simp


text \<open>
  C31: without that proviso the lock does not keep a second daemon away from the stores: process 2 opens the
  pidfile that process 1 is about to unlink and then locks the unlinked file, process 3 creates and locks a new
  one; both pass the check, 2 serves while 3 loads (and so rewrites) the stores, and the pidfile names 3.
\<close>

theorem pidfile_release_race:
  "\<exists>h. life_steps False after_crash h \<and> pc_of 2 h = Some PServe \<and> pc_of 3 h = Some PLoad
     \<and> pid_Check h = (StatusAlive, 3, False)"
proof -
  have "map_option (\<lambda>h. (pc_of 2 h, pc_of 3 h, ho_pid h, gget (ho_locks h) 3, gget (ho_content h) 3 = Some (pid_bytes 3)))
            (life_run False race after_crash)
          = Some (Some PServe, Some PLoad, Some 3, Some 3, True)"
    by code_simp
  then obtain h where h: "life_run False race after_crash = Some h"
      "pc_of 2 h = Some PServe" "pc_of 3 h = Some PLoad" and pid: "ho_pid h = Some 3" "gget (ho_locks h) 3 = Some 3"
      "gget (ho_content h) 3 = Some (pid_bytes 3)"
    by auto
  have "pid_Check h = (StatusAlive, 3, False)"
    using pid by (simp add: pid_Check_def pid_content_def readPid_pid_bytes)
  then show ?thesis using h life_run_sound by blast
qed

section \<open>Waiting for the TCP port\<close>

lemma tcp_retry_ends:
  assumes "deadline < clock (n + fuel)"
  shows "\<exists>k r. n \<le> k \<and> k \<le> n + fuel \<and> listenTCPWithRetry res clock deadline n (Suc fuel) = Some r \<and> res k = r
    \<and> (\<forall>j. n \<le> j \<and> j < k \<longrightarrow> res j = TcpInUse) \<and> (r = TcpInUse \<longrightarrow> deadline < clock k)"
  using assms
proof (induction fuel arbitrary: n)
  case 0
  show ?case by (rule exI [of _ n], rule exI [of _ "res n"]) (use 0 in \<open>auto split: tcp_result.split\<close>)
next
  case (Suc fuel)
  show ?case
  proof (cases "res n = TcpInUse \<and> clock n \<le> deadline")
    case False
    then show ?thesis
      by (intro exI [of _ n] exI [of _ "res n"]) (auto split: tcp_result.split)
  next
    case True
    obtain k r where k: "Suc n \<le> k" "k \<le> Suc n + fuel"
        "listenTCPWithRetry res clock deadline (Suc n) (Suc fuel) = Some r" "res k = r"
        "\<forall>j. Suc n \<le> j \<and> j < k \<longrightarrow> res j = TcpInUse" "r = TcpInUse \<longrightarrow> deadline < clock k"
      using Suc.IH [of "Suc n"] Suc.prems by auto
    have "listenTCPWithRetry res clock deadline n (Suc (Suc fuel)) = Some r"
      using True k(3) by (subst listenTCPWithRetry.simps) simp
    moreover have "res j = TcpInUse" if "n \<le> j" "j < k" for j
      using that k(5) True by (cases "j = n") auto
    ultimately show ?thesis using k by (intro exI [of _ k] exI [of _ r]) auto
  qed
qed

lemma clock_after: "(\<And>n. clock n + tcpBindInterval \<le> clock (Suc n)) \<Longrightarrow> clock 0 + int n * tcpBindInterval \<le> clock n"
proof (induction n)
  case (Suc n)
  have "clock 0 + int n * tcpBindInterval \<le> clock n" using Suc.IH Suc.prems by blast
  then have "clock 0 + int n * tcpBindInterval + tcpBindInterval \<le> clock (Suc n)" using Suc.prems [of n] by linarith
  then show ?case by (simp add: algebra_simps)
qed simp

text \<open>
  Waiting for the TCP port ends: if each round of the loop takes at least the pause between attempts,
  the twelfth attempt is the last, and the result is that of the first attempt that did not find the port busy,
  or busy when the deadline has passed.
\<close>

lemma tcp_bind_terminates:
  assumes "start \<le> clock 0" and "\<And>n. clock n + tcpBindInterval \<le> clock (Suc n)"
  shows "\<exists>k r. k < 12 \<and> listenTCPWithRetry res clock (start + tcpBindTimeout) 0 12 = Some r \<and> res k = r
    \<and> (\<forall>j. j < k \<longrightarrow> res j = TcpInUse) \<and> (r = TcpInUse \<longrightarrow> start + tcpBindTimeout < clock k)"
proof -
  have "start + tcpBindTimeout < clock 11"
    using assms(1) clock_after [of clock 11, OF assms(2)] by (simp add: tcpBindTimeout_def tcpBindInterval_def)
  then obtain k r where "k \<le> 11" "listenTCPWithRetry res clock (start + tcpBindTimeout) 0 (Suc 11) = Some r"
      "res k = r" "\<forall>j. j < k \<longrightarrow> res j = TcpInUse" "r = TcpInUse \<longrightarrow> start + tcpBindTimeout < clock k"
    using tcp_retry_ends [of "start + tcpBindTimeout" clock 0 11 res]
    by (auto simp del: listenTCPWithRetry.simps)
  moreover have "Suc 11 = 12" by simp
  ultimately show ?thesis by (intro exI [of _ k] exI [of _ r]) (simp del: listenTCPWithRetry.simps)
qed

lemma tcp_bind_terminates_witness:
  "\<exists>k r. k < 12 \<and> listenTCPWithRetry (\<lambda>n. if n < 3 then TcpInUse else TcpOk) (\<lambda>n. int n * tcpBindInterval)
       (0 + tcpBindTimeout) 0 12 = Some r
     \<and> (if k < 3 then TcpInUse else TcpOk) = r \<and> (\<forall>j. j < k \<longrightarrow> (if j < 3 then TcpInUse else TcpOk) = TcpInUse)
     \<and> (r = TcpInUse \<longrightarrow> 0 + tcpBindTimeout < int k * tcpBindInterval)"
  by (rule tcp_bind_terminates) (simp_all add: tcpBindInterval_def)

end
