(* ===== verification/Servicemgr.thy ===== *)
theory Servicemgr
  imports Config Utf8
begin

text \<open>
  The installed service and what launchd and systemd say about it: \<open>internal/servicemgr/\<close>
  \<open>servicemgr.go\<close>, \<open>paths.go\<close>, \<open>launchd.go\<close> and \<open>systemd.go\<close>. The program that runs commands is the
  parameter \<open>runner\<close>, a function on the state of the world.
\<close>

datatype service_kind = KindNone | KindLaunchd | KindSystemd

datatype service_scope = ScopeUser | ScopeSystem

record service =
  sv_Kind :: service_kind
  sv_Scope :: service_scope
  sv_Label :: string
  sv_UnitPath :: string
  sv_Domain :: string
  sv_UID :: int

definition kind_String :: "service_kind \<Rightarrow> string" where
  "kind_String k = (case k of KindLaunchd \<Rightarrow> ''launchd'' | KindSystemd \<Rightarrow> ''systemd'' | _ \<Rightarrow> ''none'')"

definition scope_String :: "service_scope \<Rightarrow> string" where
  "scope_String s = (if s = ScopeSystem then ''system'' else ''user'')"

definition LaunchdLabel :: string where "LaunchdLabel = ''com.gelotto.hqsshd''"
definition SystemdUnit :: string where "SystemdUnit = ''hqsshd''"

text \<open>The machine: operating system, user ids, home directory (\<open>None\<close>: unknown), regular files.\<close>

record machine =
  mc_goos :: string
  mc_uid :: int
  mc_euid :: int
  mc_home :: "string option"
  mc_file :: "string \<Rightarrow> bool"

section \<open>Which service is installed\<close>

definition systemLaunchdPlist :: string where
  "systemLaunchdPlist = ''/Library/LaunchDaemons/'' @ LaunchdLabel @ ''.plist''"

definition systemSystemdUnit :: string where
  "systemSystemdUnit = ''/etc/systemd/user/'' @ SystemdUnit @ ''.service''"

definition home_or_empty :: "machine \<Rightarrow> string" where
  "home_or_empty m = (case mc_home m of None \<Rightarrow> [] | Some h \<Rightarrow> h)"

definition UserLaunchdPlist :: "machine \<Rightarrow> string" where
  "UserLaunchdPlist m = join_paths [home_or_empty m, ''Library'', ''LaunchAgents'', LaunchdLabel @ ''.plist'']"

definition UserSystemdUnit :: "machine \<Rightarrow> string" where
  "UserSystemdUnit m = join_paths [home_or_empty m, ''.config'', ''systemd'', ''user'', SystemdUnit @ ''.service'']"

definition DetectServices :: "machine \<Rightarrow> service list" where
  "DetectServices m =
     (if mc_goos m = ''darwin'' then
        (if mc_file m systemLaunchdPlist
         then [\<lparr>sv_Kind = KindLaunchd, sv_Scope = ScopeSystem, sv_Label = LaunchdLabel, sv_UnitPath = systemLaunchdPlist,
                sv_Domain = ''system'', sv_UID = mc_uid m\<rparr>] else [])
        @ (if mc_file m (UserLaunchdPlist m)
           then [\<lparr>sv_Kind = KindLaunchd, sv_Scope = ScopeUser, sv_Label = LaunchdLabel, sv_UnitPath = UserLaunchdPlist m,
                  sv_Domain = ''gui/'' @ itoa (mc_uid m), sv_UID = mc_uid m\<rparr>] else [])
      else if mc_goos m = ''linux'' then
        (if mc_file m (UserSystemdUnit m)
         then [\<lparr>sv_Kind = KindSystemd, sv_Scope = ScopeUser, sv_Label = SystemdUnit, sv_UnitPath = UserSystemdUnit m,
                sv_Domain = [], sv_UID = mc_uid m\<rparr>]
         else if mc_file m systemSystemdUnit
         then [\<lparr>sv_Kind = KindSystemd, sv_Scope = ScopeUser, sv_Label = SystemdUnit, sv_UnitPath = systemSystemdUnit,
                sv_Domain = [], sv_UID = mc_uid m\<rparr>]
         else [])
      else [])"

definition DetectService :: "machine \<Rightarrow> service option" where
  "DetectService m = (case DetectServices m of [] \<Rightarrow> None | s # _ \<Rightarrow> Some s)"

section \<open>Commands shown to the user\<close>

definition Target :: "service \<Rightarrow> string" where
  "Target s = sv_Domain s @ ''/'' @ sv_Label s"

definition service_String :: "service \<Rightarrow> string" where
  "service_String s =
     (case sv_Kind s of
        KindLaunchd \<Rightarrow> ''launchd '' @ Target s | KindSystemd \<Rightarrow> ''systemd --user '' @ sv_Label s
      | KindNone \<Rightarrow> ''no service'')"

definition NeedsSudo :: "machine \<Rightarrow> service \<Rightarrow> bool" where
  "NeedsSudo m s \<longleftrightarrow> sv_Kind s = KindLaunchd \<and> sv_Scope s = ScopeSystem \<and> mc_euid m \<noteq> 0"

definition sudo :: "machine \<Rightarrow> service \<Rightarrow> string" where
  "sudo m s = (if NeedsSudo m s then ''sudo '' else [])"

definition StartCommand :: "machine \<Rightarrow> service \<Rightarrow> string" where
  "StartCommand m s =
     (case sv_Kind s of
        KindLaunchd \<Rightarrow> sudo m s @ ''launchctl bootstrap '' @ sv_Domain s @ '' '' @ sv_UnitPath s @ '' && ''
          @ sudo m s @ ''launchctl kickstart '' @ Target s
      | KindSystemd \<Rightarrow> ''systemctl --user start '' @ sv_Label s
      | KindNone \<Rightarrow> ''hqsshd'')"

definition StopCommand :: "machine \<Rightarrow> service \<Rightarrow> string" where
  "StopCommand m s =
     (case sv_Kind s of
        KindLaunchd \<Rightarrow> sudo m s @ ''launchctl bootout '' @ Target s
      | KindSystemd \<Rightarrow> ''systemctl --user stop '' @ sv_Label s
      | KindNone \<Rightarrow> [])"

definition RestartCommand :: "machine \<Rightarrow> service \<Rightarrow> string" where
  "RestartCommand m s =
     (case sv_Kind s of
        KindLaunchd \<Rightarrow> sudo m s @ ''launchctl kickstart -k '' @ Target s
      | KindSystemd \<Rightarrow> ''systemctl --user restart '' @ sv_Label s
      | KindNone \<Rightarrow> [])"

definition StatusCommand :: "machine \<Rightarrow> service \<Rightarrow> string" where
  "StatusCommand m s =
     (case sv_Kind s of
        KindLaunchd \<Rightarrow> sudo m s @ ''launchctl print '' @ Target s
      | KindSystemd \<Rightarrow> ''systemctl --user status '' @ sv_Label s
      | KindNone \<Rightarrow> [])"

definition SystemLogFile :: string where "SystemLogFile = ''/Library/Logs/hqsshd/hqsshd.log''"

definition DefaultLogFile :: "machine \<Rightarrow> string" where
  "DefaultLogFile m =
     (case DataDir (mc_home m) of None \<Rightarrow> [] | Some d \<Rightarrow> join_paths [d, ''logs'', ''hqsshd.log''])"

definition LogFile :: "machine \<Rightarrow> service_scope \<Rightarrow> string" where
  "LogFile m scope = (if scope = ScopeSystem then SystemLogFile else DefaultLogFile m)"

definition LogFileFor :: "machine \<Rightarrow> service option \<Rightarrow> string" where
  "LogFileFor m svc = (case svc of None \<Rightarrow> DefaultLogFile m | Some s \<Rightarrow> LogFile m (sv_Scope s))"

definition LogsCommand :: "machine \<Rightarrow> service \<Rightarrow> string" where
  "LogsCommand m s =
     (case sv_Kind s of
        KindLaunchd \<Rightarrow> ''tail -f '' @ LogFile m (sv_Scope s)
      | KindSystemd \<Rightarrow> ''journalctl --user -u '' @ sv_Label s @ '' -f''
      | KindNone \<Rightarrow> [])"

definition LogsCommandArgs :: "machine \<Rightarrow> service \<Rightarrow> bool \<Rightarrow> int \<Rightarrow> string list" where
  "LogsCommandArgs m s follow lines =
     (case sv_Kind s of
        KindSystemd \<Rightarrow> [''journalctl'', ''--user'', ''-u'', sv_Label s, ''-n'', itoa lines, ''--no-pager'']
          @ (if follow then [''-f''] else [])
      | _ \<Rightarrow> [''tail'', ''-n'', itoa lines] @ (if follow then [''-f''] else []) @ [LogFile m (sv_Scope s)])"

definition StopHintFor :: "machine \<Rightarrow> int \<Rightarrow> string" where
  "StopHintFor m pid =
     (case DetectService m of
        Some svc \<Rightarrow> ''hqssh service stop   (or: '' @ StopCommand m svc @ '')''
      | None \<Rightarrow> if 0 < pid then ''kill '' @ itoa pid else ''hqssh doctor   (to find it)'')"

section \<open>Reading text\<close>

text \<open>\<open>strings.Cut\<close>.\<close>

fun cut :: "string \<Rightarrow> string \<Rightarrow> (string \<times> string) option" where
  "cut s sep =
     (if has_prefix s sep then Some ([], drop (length sep) s)
      else case s of [] \<Rightarrow> None | c # t \<Rightarrow> map_option (\<lambda>(a, b). (c # a, b)) (cut t sep))"

declare cut.simps [simp del]

text \<open>
  \<open>strings.ToLower\<close>, as far as a search for ASCII phrases can see it: two other letters than the ASCII ones
  have an ASCII lower case.
\<close>

definition lower_rune :: "nat \<times> bytes \<Rightarrow> bytes" where
  "lower_rune rb =
     (if 65 \<le> fst rb \<and> fst rb \<le> 90 then [char_of (fst rb + 32)]
      else if fst rb = 0x130 then ''i'' else if fst rb = 0x212A then ''k'' else snd rb)"

definition to_lower :: "bytes \<Rightarrow> bytes" where
  "to_lower s = concat (map lower_rune (segments s))"

text \<open>\<open>n, _ = strconv.Atoi(s)\<close>: 0 for text that is no number, the nearest value for one out of range.\<close>

definition atoi_value :: "string \<Rightarrow> int" where
  "atoi_value s =
     (case atoi s of
        Some i \<Rightarrow> i
      | None \<Rightarrow>
          (case s of
             [] \<Rightarrow> 0
           | c # t \<Rightarrow>
               if c = CHR ''-'' then (if atoi_unsigned t \<noteq> None then - (2 ^ 63) else 0)
               else if atoi_unsigned (if c = CHR ''+'' then t else s) \<noteq> None then 2 ^ 63 - 1 else 0))"

type_synonym raw = "(string, string) gomap"

definition raw_get :: "raw \<Rightarrow> string \<Rightarrow> string" where
  "raw_get r k = (case gget r k of None \<Rightarrow> [] | Some v \<Rightarrow> v)"

section \<open>launchd\<close>

record launchd_status =
  ls_Loaded :: bool
  ls_DomainFound :: bool
  ls_State :: string
  ls_PID :: int
  ls_Runs :: int
  ls_LastExit :: string
  ls_ExitTimeout :: int
  ls_Path :: string
  ls_Program :: string
  ls_StdoutPath :: string
  ls_StderrPath :: string
  ls_Raw :: raw
  ls_Stderr :: string

definition no_domain_phrases :: "string list" where
  "no_domain_phrases = [''could not find domain'', ''does not support'', ''no such process'', ''domain does not exist'']"

definition empty_launchd :: "string \<Rightarrow> launchd_status" where
  "empty_launchd stderr = \<lparr>ls_Loaded = False, ls_DomainFound = True, ls_State = [], ls_PID = 0, ls_Runs = 0,
     ls_LastExit = [], ls_ExitTimeout = 0, ls_Path = [], ls_Program = [], ls_StdoutPath = [], ls_StderrPath = [],
     ls_Raw = [], ls_Stderr = trim_space stderr\<rparr>"

text \<open>One line of the loop over the output, with the depth of blocks.\<close>

definition print_line :: "string \<Rightarrow> int \<times> raw \<Rightarrow> int \<times> raw" where
  "print_line line dr =
     (let t = trim_space line in
      if t = [] then dr
      else if has_suffix t ''{'' then (fst dr + 1, snd dr)
      else if t = ''}'' then (fst dr - 1, snd dr)
      else if fst dr \<noteq> 1 then dr
      else case cut t '' = '' of
        None \<Rightarrow> dr
      | Some (key, val) \<Rightarrow> (fst dr, gput (trim_space key) (trim_space val) (snd dr)))"

definition print_raw :: "string \<Rightarrow> raw" where
  "print_raw out = snd (fold print_line (split_on (CHR 0x0A) out) (0, []))"

definition ParseLaunchctlPrint :: "string \<Rightarrow> string \<Rightarrow> launchd_status" where
  "ParseLaunchctlPrint stdout stderr =
     (let st = empty_launchd stderr in
      if trim_space stdout = [] then
        (if list_ex (str_contains (to_lower stderr)) no_domain_phrases then st\<lparr>ls_DomainFound := False\<rparr> else st)
      else
        let raw = print_raw stdout in
        if raw = [] then st
        else st\<lparr>ls_Raw := raw, ls_Loaded := True, ls_State := raw_get raw ''state'', ls_PID := atoi_value (raw_get raw ''pid''),
               ls_Runs := atoi_value (raw_get raw ''runs''), ls_LastExit := raw_get raw ''last exit code'',
               ls_ExitTimeout := atoi_value (raw_get raw ''exit timeout''), ls_Path := raw_get raw ''path'',
               ls_Program := raw_get raw ''program'', ls_StdoutPath := raw_get raw ''stdout path'',
               ls_StderrPath := raw_get raw ''stderr path''\<rparr>)"

definition launchd_Running :: "launchd_status \<Rightarrow> bool" where
  "launchd_Running st \<longleftrightarrow> ls_Loaded st \<and> 0 < ls_PID st \<and> ls_State st = ''running''"

definition trim_parens :: "string \<Rightarrow> string" where
  "trim_parens s =
     (let paren = (\<lambda>c. c = CHR ''('' \<or> c = CHR '')'') in rev (dropWhile paren (rev (dropWhile paren s))))"

definition launchd_Summary :: "launchd_status \<Rightarrow> string" where
  "launchd_Summary st =
     (if \<not> ls_DomainFound st then ''launchd domain not available''
      else if \<not> ls_Loaded st then ''not loaded''
      else
        let state = (if ls_State st = [] then ''unknown'' else ls_State st);
            parts = (if 0 < ls_PID st then [''pid '' @ itoa (ls_PID st)] else [])
              @ (if 0 < ls_Runs st then [''runs '' @ itoa (ls_Runs st)] else [])
              @ (if ls_LastExit st \<noteq> [] then [''last exit: '' @ trim_parens (ls_LastExit st)] else [])
        in (if parts = [] then state else state @ '' ('' @ join_with '', '' parts @ '')''))"

definition launchdDomains :: "int \<Rightarrow> string list" where
  "launchdDomains uid = [''gui/'' @ itoa uid, ''user/'' @ itoa uid, ''system'']"

definition launchctlNotFound :: "string \<Rightarrow> bool" where
  "launchctlNotFound stderr \<longleftrightarrow>
     list_ex (str_contains (to_lower stderr))
       [''could not find service'', ''no such service'', ''could not find domain'', ''does not support'',
        ''no such process'', ''domain does not exist'']"

section \<open>systemd\<close>

record systemd_status =
  ss_LoadState :: string
  ss_ActiveState :: string
  ss_SubState :: string
  ss_Result :: string
  ss_MainPID :: int
  ss_NRestarts :: int
  ss_Raw :: raw
  ss_Stderr :: string

definition systemdShowProps :: string where
  "systemdShowProps = ''LoadState,ActiveState,SubState,Result,MainPID,NRestarts''"

definition show_line :: "string \<Rightarrow> raw \<Rightarrow> raw" where
  "show_line line r =
     (case cut (trim_space line) ''='' of
        None \<Rightarrow> r
      | Some (key, val) \<Rightarrow> if key = [] then r else gput key val r)"

definition ParseSystemctlShow :: "string \<Rightarrow> string \<Rightarrow> systemd_status" where
  "ParseSystemctlShow stdout stderr =
     (let raw = fold show_line (split_on (CHR 0x0A) stdout) []
      in \<lparr>ss_LoadState = raw_get raw ''LoadState'', ss_ActiveState = raw_get raw ''ActiveState'',
          ss_SubState = raw_get raw ''SubState'', ss_Result = raw_get raw ''Result'',
          ss_MainPID = atoi_value (raw_get raw ''MainPID''), ss_NRestarts = atoi_value (raw_get raw ''NRestarts''),
          ss_Raw = raw, ss_Stderr = trim_space stderr\<rparr>)"

definition systemd_Installed :: "systemd_status \<Rightarrow> bool" where
  "systemd_Installed st \<longleftrightarrow> ss_LoadState st \<noteq> [] \<and> ss_LoadState st \<noteq> ''not-found''"

definition systemd_Running :: "systemd_status \<Rightarrow> bool" where
  "systemd_Running st \<longleftrightarrow> ss_ActiveState st = ''active'' \<and> 0 < ss_MainPID st"

definition systemd_Summary :: "systemd_status \<Rightarrow> string" where
  "systemd_Summary st =
     (if \<not> systemd_Installed st then
        (if ss_Stderr st \<noteq> [] then ''unavailable: '' @ ss_Stderr st else ''not loaded'')
      else
        let s = ss_ActiveState st @ (if ss_SubState st \<noteq> [] then ''/'' @ ss_SubState st else []);
            parts = (if 0 < ss_MainPID st then [''pid '' @ itoa (ss_MainPID st)] else [])
              @ (if 0 < ss_NRestarts st then [''restarts '' @ itoa (ss_NRestarts st)] else [])
              @ (if ss_Result st \<noteq> [] \<and> ss_Result st \<noteq> ''success'' then [''result: '' @ ss_Result st] else [])
        in (if parts = [] then s else s @ '' ('' @ join_with '', '' parts @ '')''))"

text \<open>\<open>None\<close> when the property is absent.\<close>

fun linger_lines :: "string list \<Rightarrow> bool option" where
  "linger_lines [] = None"
| "linger_lines (l # ls) =
     (case cut_prefix (trim_space l) ''Linger='' of Some v \<Rightarrow> Some (v = ''yes'') | None \<Rightarrow> linger_lines ls)"

definition ParseLinger :: "string \<Rightarrow> bool option" where
  "ParseLinger stdout = linger_lines (split_on (CHR 0x0A) stdout)"

section \<open>What launchctl prints is what is read\<close>

text \<open>The output of \<open>launchctl print\<close>: lines and blocks, indented by tabs.\<close>

datatype item = Entry string string | Block string "item list"

fun show_item :: "nat \<Rightarrow> item \<Rightarrow> string list" where
  "show_item d (Entry k v) = [replicate d (CHR 0x09) @ k @ '' = '' @ v]"
| "show_item d (Block k is) =
     (replicate d (CHR 0x09) @ k @ '' = {'') # concat (map (show_item (Suc d)) is) @ [replicate d (CHR 0x09) @ ''}'']"

definition print_text :: "string \<Rightarrow> item list \<Rightarrow> string" where
  "print_text name is = concat (map (\<lambda>l. l @ [CHR 0x0A]) (show_item 0 (Block name is)))"

definition plain_text :: "string \<Rightarrow> bool" where
  "plain_text s \<longleftrightarrow> s \<noteq> [] \<and> list_all (\<lambda>c. bval c < 128 \<and> c \<noteq> CHR 0x0A) s
     \<and> \<not> is_space (bval (hd s)) \<and> \<not> is_space (bval (last s))"

fun plain_item :: "item \<Rightarrow> bool" where
  "plain_item (Entry k v) \<longleftrightarrow> plain_text k \<and> CHR ''='' \<notin> set k \<and> plain_text v \<and> last v \<noteq> CHR ''{''"
| "plain_item (Block k is) \<longleftrightarrow> plain_text k \<and> list_all plain_item is"

fun entries :: "item list \<Rightarrow> (string \<times> string) list" where
  "entries [] = []"
| "entries (Entry k v # is) = (k, v) # entries is"
| "entries (Block k bs # is) = entries is"

lemma dropWhile_ascii:
  "dropWhile (is_space \<circ> fst) (map (\<lambda>c. (bval c, [c])) s) = map (\<lambda>c. (bval c, [c])) (dropWhile (\<lambda>c. is_space (bval c)) s)"
  by (induction s) simp_all

lemma trim_space_ascii:
  assumes "list_all (\<lambda>c. bval c < 128) s"
  shows "trim_space s = rev (dropWhile (\<lambda>c. is_space (bval c)) (rev (dropWhile (\<lambda>c. is_space (bval c)) s)))"
  unfolding trim_space_def segments_ascii [OF assms]
  by (simp only: dropWhile_ascii rev_map) (simp add: comp_def)

lemma tab_is_space: "is_space (bval (CHR 0x09))"
  by (simp add: is_space_def bval_def)

lemma tab_ascii: "bval (CHR 0x09) < 128"
  by (simp add: bval_def)

lemma dropWhile_tabs: "dropWhile (\<lambda>c. is_space (bval c)) (replicate d (CHR 0x09) @ s) = dropWhile (\<lambda>c. is_space (bval c)) s"
  by (induction d) (simp_all add: tab_is_space)

lemma trim_tabs:
  assumes "plain_text s"
  shows "trim_space (replicate d (CHR 0x09) @ s) = s"
proof -
  have "list_all (\<lambda>c. bval c < 128) (replicate d (CHR 0x09))" by (induction d) (simp_all add: tab_ascii)
  moreover have "list_all (\<lambda>c. bval c < 128) s"
    using assms by (simp add: plain_text_def list_all_iff)
  ultimately have "list_all (\<lambda>c. bval c < 128) (replicate d (CHR 0x09) @ s)" by simp
  moreover have "dropWhile (\<lambda>c. is_space (bval c)) s = s" using assms by (cases s) (auto simp: plain_text_def)
  moreover have "dropWhile (\<lambda>c. is_space (bval c)) (rev s) = rev s"
    using assms by (cases s rule: rev_cases) (auto simp: plain_text_def)
  ultimately show ?thesis by (simp add: trim_space_ascii dropWhile_tabs)
qed

lemma trim_plain: "plain_text s \<Longrightarrow> trim_space s = s"
  using trim_tabs [of s 0] by simp

lemma cut_at_equals:
  "CHR ''='' \<notin> set k \<Longrightarrow> k = [] \<or> last k \<noteq> CHR '' '' \<Longrightarrow> cut (k @ '' = '' @ v) '' = '' = Some (k, v)"
proof (induction k)
  case Nil
  then show ?case by (subst cut.simps) (simp add: has_prefix_def)
next
  case (Cons c k)
  have "\<not> has_prefix (c # k @ '' = '' @ v) '' = ''"
    using Cons.prems by (cases k; cases "tl k") (auto simp: has_prefix_def split: if_splits)
  then show ?case using Cons by (subst cut.simps) (auto split: if_splits)
qed

lemma blank_is_space': "is_space (bval (CHR '' ''))"
  by (simp add: is_space_def bval_def)

lemma plain_join:
  assumes "plain_text k" and "plain_text v"
  shows "plain_text (k @ '' = '' @ v)"
  using assms by (auto simp: plain_text_def list_all_iff bval_def)

lemma print_line_entry:
  assumes "plain_item (Entry k v)"
  shows "print_line (replicate d (CHR 0x09) @ k @ '' = '' @ v) (n, r) = (n, if n = 1 then gput k v r else r)"
proof -
  have kv: "plain_text k" "plain_text v" "CHR ''='' \<notin> set k" "last v \<noteq> CHR ''{''" using assms by auto
  have "last k \<noteq> CHR '' ''" using kv(1) blank_is_space' by (auto simp: plain_text_def)
  then have "cut (k @ '' = '' @ v) '' = '' = Some (k, v)" using kv(3) cut_at_equals by blast
  moreover have "trim_space (replicate d (CHR 0x09) @ k @ '' = '' @ v) = k @ '' = '' @ v"
    using trim_tabs [OF plain_join [OF kv(1,2)]] .
  moreover have "\<not> has_suffix (k @ '' = '' @ v) ''{''"
    using kv(2,4) by (cases v rule: rev_cases) (auto simp: has_suffix_iff plain_text_def append_eq_append_conv2)
  moreover have "k @ '' = '' @ v \<noteq> ''}''" by (cases k) auto
  ultimately show ?thesis using kv(1,2) by (simp add: print_line_def trim_plain)
qed

lemma print_line_block:
  assumes "plain_text k"
  shows "print_line (replicate d (CHR 0x09) @ k @ '' = {'') (n, r) = (n + 1, r)"
    and "print_line (replicate d (CHR 0x09) @ ''}'') (n, r) = (n - 1, r)"
proof -
  have "plain_text (k @ '' = {'')"
    using assms by (auto simp: plain_text_def list_all_iff bval_def is_space_def)
  from trim_tabs [OF this] show "print_line (replicate d (CHR 0x09) @ k @ '' = {'') (n, r) = (n + 1, r)"
    by (simp add: print_line_def has_suffix_def)
  have "plain_text ''}''" by (simp add: plain_text_def bval_def is_space_def)
  from trim_tabs [OF this] show "print_line (replicate d (CHR 0x09) @ ''}'') (n, r) = (n - 1, r)"
    by (simp add: print_line_def has_suffix_def)
qed

lemma fold_item:
  assumes "plain_item x" and "1 \<le> n"
  shows "fold print_line (show_item d x) (n, r) = (n, if n = 1 then gput_all (entries [x]) r else r)"
  using assms
proof (induction x arbitrary: d n r)
  case (Entry k v)
  then show ?case using print_line_entry [of k v d n r] by simp
next
  case (Block k bs)
  have inner: "fold print_line (concat (map (show_item (Suc d)) cs)) (n + 1, r) = (n + 1, r)" if "set cs \<subseteq> set bs" for cs r
    using that
  proof (induction cs arbitrary: r)
    case (Cons c cs)
    have "plain_item c" using Block.prems(1) Cons.prems by (auto simp: list_all_iff)
    then show ?case using Cons Block.IH [of c "n + 1" "Suc d" r] Block.prems(2) by simp
  qed simp
  have "plain_text k" using Block.prems(1) by simp
  from print_line_block [OF this] show ?case using inner [of bs] by simp
qed

lemma entries_Cons: "entries (x # is) = entries [x] @ entries is"
  by (cases x) simp_all

lemma gput_all_append: "gput_all (xs @ ys) m = gput_all ys (gput_all xs m)"
  by (induction xs arbitrary: m) auto

lemma fold_items:
  "list_all plain_item is \<Longrightarrow> fold print_line (concat (map (show_item d) is)) (1, r) = (1, gput_all (entries is) r)"
proof (induction "is" arbitrary: r)
  case (Cons x xs)
  then show ?case using fold_item [of x 1 d r] by (simp add: entries_Cons [of x xs] gput_all_append)
qed simp

definition line_char :: "char \<Rightarrow> bool" where
  "line_char c \<longleftrightarrow> bval c < 128 \<and> c \<noteq> CHR 0x0A"

lemma line_chars: "line_char (CHR 0x09)" "line_char (CHR '' '')" "line_char (CHR ''='')" "line_char (CHR ''{'')"
    "line_char (CHR ''}'')"
  by (simp_all add: line_char_def bval_def)

lemma tabs_line: "list_all line_char (replicate d (CHR 0x09))"
  by (induction d) (simp_all add: line_chars)

lemma item_lines:
  "plain_item x \<Longrightarrow> list_all (list_all line_char) (show_item d x)"
proof (induction x arbitrary: d)
  case (Entry k v)
  then show ?case by (simp add: plain_text_def line_chars tabs_line) (simp add: line_char_def list_all_iff)
next
  case (Block k bs)
  have "list_all (list_all line_char) (concat (map (show_item (Suc d)) cs))" if "set cs \<subseteq> set bs" for cs
    using that Block by (induction cs) (auto simp: list_all_iff)
  from this [of bs] show ?case using Block.prems
    by (simp add: plain_text_def line_chars tabs_line) (simp add: line_char_def list_all_iff)
qed

lemma visible_ascii:
  assumes "list_all (\<lambda>c. bval c < 128) s" and "c \<in> set s" and "\<not> is_space (bval c)"
  shows "trim_space s \<noteq> []"
proof -
  have "c \<in> set (dropWhile (\<lambda>c. is_space (bval c)) t)" if "c \<in> set t" for t
    using that assms(3) by (induction t) auto
  from this [of s] have "c \<in> set (rev (dropWhile (\<lambda>c. is_space (bval c)) s))" using assms(2) by simp
  moreover have "c \<in> set t \<Longrightarrow> dropWhile (\<lambda>c. is_space (bval c)) t \<noteq> []" for t
    using assms(3) by (induction t) auto
  ultimately show ?thesis unfolding trim_space_ascii [OF assms(1)] by simp
qed

lemma print_text_visible:
  assumes "plain_text name" and "list_all plain_item is"
  shows "trim_space (print_text name is) \<noteq> []"
proof (rule visible_ascii)
  have "list_all (list_all line_char) (show_item 0 (Block name is))" using assms by (intro item_lines) simp
  then show "list_all (\<lambda>c. bval c < 128) (print_text name is)"
    by (auto simp: print_text_def list_all_iff line_char_def bval_def simp del: show_item.simps)
  show "CHR ''{'' \<in> set (print_text name is)" by (simp add: print_text_def)
  show "\<not> is_space (bval (CHR ''{''))" by (simp add: is_space_def bval_def)
qed

lemma print_raw_text:
  assumes "plain_text name" and "list_all plain_item is"
  shows "print_raw (print_text name is) = gput_all (entries is) []"
proof -
  have "list_all (list_all line_char) (show_item 0 (Block name is))" using assms by (intro item_lines) simp
  then have "list_all (\<lambda>l. CHR 0x0A \<notin> set l) (show_item 0 (Block name is))"
    by (auto simp: list_all_iff line_char_def simp del: show_item.simps)
  then have lines: "split_on (CHR 0x0A) (print_text name is) = show_item 0 (Block name is) @ [[]]"
    unfolding print_text_def by (rule split_lines)
  have "fold print_line (show_item 0 (Block name is)) (0, []) = (0, gput_all (entries is) [])"
    using print_line_block [OF assms(1), of 0] fold_items [OF assms(2)] by simp
  then show ?thesis unfolding print_raw_def lines by (simp add: print_line_def trim_space_def)
qed

text \<open>
  What \<open>launchctl print\<close> says of the job is read back whatever blocks its output has: the keys of the outer
  block and nothing from the blocks inside it (one of which has a state of its own).
\<close>

lemma launchctl_print_read_back:
  assumes "plain_text name" and "list_all plain_item is"
    and "map_of (rev (entries is)) ''state'' = Some state" and "map_of (rev (entries is)) ''pid'' = Some (itoa pid)"
    and "- (2 ^ 63) \<le> pid" and "pid < 2 ^ 63"
  shows "ls_Loaded (ParseLaunchctlPrint (print_text name is) err)
    \<and> ls_State (ParseLaunchctlPrint (print_text name is) err) = state
    \<and> ls_PID (ParseLaunchctlPrint (print_text name is) err) = pid
    \<and> gget (ls_Raw (ParseLaunchctlPrint (print_text name is) err)) = map_of (rev (entries is))"
proof -
  let ?raw = "gput_all (entries is) []"
  have get: "gget ?raw = map_of (rev (entries is))" by (rule ext) (simp add: gget_gput_all split: option.splits)
  have "?raw \<noteq> []"
  proof
    assume "?raw = []"
    then have "gget ([] :: raw) ''state'' = Some state" using get assms(3) by (metis (no_types))
    then show False by simp
  qed
  moreover have "trim_space (print_text name is) \<noteq> []" by (rule print_text_visible [OF assms(1,2)])
  ultimately show ?thesis
    using get assms(3-6) print_raw_text [OF assms(1,2)]
    by (simp add: ParseLaunchctlPrint_def Let_def raw_get_def atoi_value_def atoi_itoa)
qed

lemma plain_itoa:
  assumes "0 \<le> p"
  shows "plain_text (itoa p)" and "last (itoa p) \<noteq> CHR ''{''"
proof -
  have digits: "is_digit c" if "c \<in> set (itoa p)" for c
    using assms itoa_nat_digits [of "nat p"] that by (simp add: itoa_def list_all_iff)
  have digit: "bval c < 128 \<and> c \<noteq> CHR 0x0A \<and> \<not> is_space (bval c) \<and> c \<noteq> CHR ''{''" if "is_digit c" for c
    using that by (auto simp: is_digit_def is_space_def bval_def)
  have ne: "itoa p \<noteq> []" using assms by (simp add: itoa_def)
  then have "hd (itoa p) \<in> set (itoa p)" "last (itoa p) \<in> set (itoa p)" by simp_all
  then have ends: "is_digit (hd (itoa p))" "is_digit (last (itoa p))" using digits by blast+
  show "plain_text (itoa p)"
    unfolding plain_text_def list_all_iff using ne digits digit ends by blast
  show "last (itoa p) \<noteq> CHR ''{''" using digit ends(2) by blast
qed

definition sample_job :: "item list" where
  "sample_job = [Entry ''state'' ''running'', Block ''resource coalition'' [Entry ''state'' ''active''],
     Entry ''pid'' (itoa 2933)]"

lemma launchctl_print_read_back_witness:
  "ls_Loaded (ParseLaunchctlPrint (print_text ''gui/501/com.gelotto.hqsshd'' sample_job) [])
    \<and> ls_State (ParseLaunchctlPrint (print_text ''gui/501/com.gelotto.hqsshd'' sample_job) []) = ''running''
    \<and> ls_PID (ParseLaunchctlPrint (print_text ''gui/501/com.gelotto.hqsshd'' sample_job) []) = 2933
    \<and> gget (ls_Raw (ParseLaunchctlPrint (print_text ''gui/501/com.gelotto.hqsshd'' sample_job) []))
        = map_of (rev (entries sample_job))"
proof (rule launchctl_print_read_back)
  show "plain_text ''gui/501/com.gelotto.hqsshd''" by (simp add: plain_text_def bval_def is_space_def)
  show "list_all plain_item sample_job"
    using plain_itoa [of 2933] by (simp add: sample_job_def) (simp add: plain_text_def bval_def is_space_def)
qed (simp_all add: sample_job_def)

end
