(* ===== verification/Servicemgr_Ops.thy ===== *)
theory Servicemgr_Ops
  imports Servicemgr
begin

text \<open>
  Driving the service manager: \<open>internal/servicemgr/ops.go\<close> and the queries of \<open>launchd.go\<close> and
  \<open>systemd.go\<close>. A command is run by the parameter \<open>run\<close>, which maps the world and the words of the
  command line to the world after it and what it printed; \<open>clock\<close> and \<open>pause\<close> are the time and waiting
  (\<open>Inl\<close>: the error of the context when that ended meanwhile).
\<close>

record run_result =
  rr_out :: string
  rr_err :: string
  rr_code :: int
  rr_fail :: "string option"

type_synonym 'w runner = "'w \<Rightarrow> string list \<Rightarrow> 'w \<times> run_result"

record 'w sys =
  sy_run :: "'w runner"
  sy_clock :: "'w \<Rightarrow> time"
  sy_pause :: "time \<Rightarrow> 'w \<Rightarrow> string + 'w"
  sy_machine :: machine

text \<open>The last component of a \<open>LaunchctlErr\<close> is what is appended when the error is wrapped.\<close>

datatype op_error = LaunchctlErr string int string string | OpErr string

definition output_text :: "string \<Rightarrow> string" where
  "output_text stderr = (if trim_space stderr = [] then ''(no output)'' else trim_space stderr)"

fun op_error_Error :: "op_error \<Rightarrow> string" where
  "op_error_Error (LaunchctlErr cmd code stderr hint) =
     cmd @ '' failed (exit '' @ itoa code @ ''): '' @ output_text stderr @ hint"
| "op_error_Error (OpErr e) = e"

definition cmdError :: "string list \<Rightarrow> run_result \<Rightarrow> string" where
  "cmdError argv r =
     (let cmdline = trim_space (join_with '' '' argv) in
      case rr_fail r of
        Some e \<Rightarrow> cmdline @ '': '' @ e
      | None \<Rightarrow> cmdline @ '' failed (exit '' @ itoa (rr_code r) @ ''): '' @ output_text (rr_err r))"

section \<open>Queries\<close>

definition launchctlPrint :: "'w sys \<Rightarrow> string \<Rightarrow> 'w \<Rightarrow> 'w \<times> launchd_status \<times> string option" where
  "launchctlPrint sy target w =
     (let (w1, r) = sy_run sy w [''launchctl'', ''print'', target] in
      case rr_fail r of
        Some e \<Rightarrow> (w1, (empty_launchd [])\<lparr>ls_DomainFound := False\<rparr>, Some (''launchctl print '' @ target @ '': '' @ e))
      | None \<Rightarrow>
          let st = ParseLaunchctlPrint (rr_out r) (rr_err r)
          in (w1, st,
              if rr_code r \<noteq> 0 \<and> \<not> ls_Loaded st \<and> \<not> launchctlNotFound (rr_err r)
              then Some (''launchctl print '' @ target @ '': exit '' @ itoa (rr_code r) @ '': '' @ trim_space (rr_err r))
              else None))"

definition status_domains :: "service \<Rightarrow> string list" where
  "status_domains s = sv_Domain s
     # (if sv_Scope s = ScopeSystem then [] else filter (\<lambda>d. d \<noteq> sv_Domain s) (launchdDomains (sv_UID s)))"

text \<open>The loop over the domains, with what the first one answered.\<close>

fun find_domain ::
  "'w sys \<Rightarrow> service \<Rightarrow> string list \<Rightarrow> launchd_status \<times> string option \<Rightarrow> 'w
     \<Rightarrow> 'w \<times> launchd_status \<times> string \<times> string option" where
  "find_domain sy s [] (st, err) w = (w, st, sv_Domain s, err)"
| "find_domain sy s (d # ds) first w =
     (let (w1, st, err) = launchctlPrint sy (d @ ''/'' @ sv_Label s) w
      in if err = None \<and> ls_Loaded st then (w1, st, d, None) else find_domain sy s ds first w1)"

definition LaunchdStatusErr :: "'w sys \<Rightarrow> service \<Rightarrow> 'w \<Rightarrow> 'w \<times> launchd_status \<times> string \<times> string option" where
  "LaunchdStatusErr sy s w =
     (let (w1, st, err) = launchctlPrint sy (Target s) w
      in if err = None \<and> ls_Loaded st then (w1, st, sv_Domain s, None)
         else find_domain sy s (tl (status_domains s)) (st, err) w1)"

definition LaunchdStatus :: "'w sys \<Rightarrow> service \<Rightarrow> 'w \<Rightarrow> 'w \<times> launchd_status \<times> string" where
  "LaunchdStatus sy s w = (let (w1, st, d, err) = LaunchdStatusErr sy s w in (w1, st, d))"

definition GUIDomainAvailable :: "'w sys \<Rightarrow> int \<Rightarrow> 'w \<Rightarrow> 'w \<times> bool \<times> string" where
  "GUIDomainAvailable sy uid w =
     (let (w1, r) = sy_run sy w [''launchctl'', ''print'', ''gui/'' @ itoa uid] in
      if rr_fail r \<noteq> None \<or> rr_code r \<noteq> 0 then (w1, False, [])
      else case filter (\<lambda>t. has_prefix t ''session = '') (map trim_space (split_on (CHR 0x0A) (rr_out r))) of
             [] \<Rightarrow> (w1, True, []) | t # _ \<Rightarrow> (w1, True, t))"

definition systemdStatusErr :: "'w sys \<Rightarrow> service \<Rightarrow> 'w \<Rightarrow> 'w \<times> systemd_status \<times> string option" where
  "systemdStatusErr sy s w =
     (let (w1, r) = sy_run sy w [''systemctl'', ''--user'', ''show'', sv_Label s, ''-p'', systemdShowProps];
          st = ParseSystemctlShow (rr_out r) (rr_err r);
          what = ''systemctl --user show '' @ sv_Label s @ '': ''
      in case rr_fail r of
           Some e \<Rightarrow> (w1, if ss_Stderr st = [] then st\<lparr>ss_Stderr := e\<rparr> else st, Some (what @ e))
         | None \<Rightarrow>
             (w1, st, if rr_code r \<noteq> 0 \<and> trim_space (rr_out r) = []
                      then Some (what @ ''exit '' @ itoa (rr_code r) @ '': '' @ trim_space (rr_err r)) else None))"

definition SystemdStatus :: "'w sys \<Rightarrow> service \<Rightarrow> 'w \<Rightarrow> 'w \<times> systemd_status" where
  "SystemdStatus sy s w = (let (w1, st, err) = systemdStatusErr sy s w in (w1, st))"

definition LingerEnabled :: "'w sys \<Rightarrow> string \<Rightarrow> 'w \<Rightarrow> 'w \<times> bool option" where
  "LingerEnabled sy user w =
     (let (w1, r) = sy_run sy w [''loginctl'', ''show-user'', user, ''-p'', ''Linger'']
      in (w1, if rr_fail r \<noteq> None \<or> rr_code r \<noteq> 0 then None else ParseLinger (rr_out r)))"

text \<open>\<open>StatusInfo\<close> and \<open>Status\<close>.\<close>

record status_info =
  si_Loaded :: bool
  si_Running :: bool
  si_PID :: int
  si_Summary :: string
  si_Launchd :: "launchd_status option"
  si_Systemd :: "systemd_status option"
  si_Domain :: string
  si_Problems :: "string list"

definition ServiceStatus :: "'w sys \<Rightarrow> service \<Rightarrow> 'w \<Rightarrow> 'w \<times> (string + status_info)" where
  "ServiceStatus sy s w =
     (case sv_Kind s of
        KindLaunchd \<Rightarrow>
          (let (w1, st, d, err) = LaunchdStatusErr sy s w in
           case err of
             Some e \<Rightarrow> (w1, Inl e)
           | None \<Rightarrow> (w1, Inr \<lparr>si_Loaded = ls_Loaded st, si_Running = launchd_Running st, si_PID = ls_PID st,
               si_Summary = launchd_Summary st, si_Launchd = Some st, si_Systemd = None, si_Domain = d,
               si_Problems =
                 (if \<not> ls_DomainFound st
                  then [''launchd domain '' @ sv_Domain s @ '' is not available (no GUI login session)''] else [])
                 @ (if d \<noteq> sv_Domain s \<and> ls_Loaded st
                    then [''job is loaded in '' @ d @ '', not '' @ sv_Domain s
                          @ '' (no GUI session when it was loaded): it stops with your last login session and does not start at boot'']
                    else [])\<rparr>))
      | KindSystemd \<Rightarrow>
          (let (w1, st, err) = systemdStatusErr sy s w in
           case err of
             Some e \<Rightarrow> (w1, Inl e)
           | None \<Rightarrow> (w1, Inr \<lparr>si_Loaded = systemd_Installed st, si_Running = systemd_Running st, si_PID = ss_MainPID st,
               si_Summary = systemd_Summary st, si_Launchd = None, si_Systemd = Some st, si_Domain = sv_Domain s, si_Problems = []\<rparr>))
      | KindNone \<Rightarrow> (w, Inl ''no service installed''))"

section \<open>Waiting\<close>

definition opTimeout :: time where "opTimeout = 15 * second"
definition opPoll :: time where "opPoll = 250 * 1000000"
definition bootstrapRetries :: nat where "bootstrapRetries = 10"

text \<open>
  \<open>wait\<close>: \<open>probe\<close> looks once and says what it saw. No result means that the fuel was used up, not that
  the loop has ended.
\<close>

fun wait_loop ::
  "'w sys \<Rightarrow> service_kind \<Rightarrow> ('w \<Rightarrow> 'w \<times> bool \<times> string) \<Rightarrow> string \<Rightarrow> time \<Rightarrow> nat \<Rightarrow> 'w
     \<Rightarrow> ('w \<times> op_error option) option" where
  "wait_loop sy k probe failMsg deadline 0 w = None"
| "wait_loop sy k probe failMsg deadline (Suc fuel) w =
     (let (w1, ok, summary) = probe w in
      if ok then Some (w1, None)
      else if deadline < sy_clock sy w1
      then Some (w1, Some (OpErr (failMsg @ '': '' @ kind_String k @ '' reports '' @ summary)))
      else case sy_pause sy opPoll w1 of
             Inl e \<Rightarrow> Some (w1, Some (OpErr e))
           | Inr w2 \<Rightarrow> wait_loop sy k probe failMsg deadline fuel w2)"

definition wait_fuel :: nat where "wait_fuel = 62"

definition wait_service ::
  "'w sys \<Rightarrow> service \<Rightarrow> ('w \<Rightarrow> 'w \<times> bool \<times> string) \<Rightarrow> string \<Rightarrow> 'w \<Rightarrow> ('w \<times> op_error option) option" where
  "wait_service sy s probe failMsg w =
     wait_loop sy (sv_Kind s) probe failMsg (sy_clock sy w + opTimeout) wait_fuel w"

definition launchd_probe :: "'w sys \<Rightarrow> service \<Rightarrow> (launchd_status \<Rightarrow> bool) \<Rightarrow> 'w \<Rightarrow> 'w \<times> bool \<times> string" where
  "launchd_probe sy s ok w = (let (w1, st, d) = LaunchdStatus sy s w in (w1, ok st, launchd_Summary st))"

definition systemd_probe :: "'w sys \<Rightarrow> service \<Rightarrow> (systemd_status \<Rightarrow> bool) \<Rightarrow> 'w \<Rightarrow> 'w \<times> bool \<times> string" where
  "systemd_probe sy s ok w = (let (w1, st) = SystemdStatus sy s w in (w1, ok st, systemd_Summary st))"

section \<open>Commands that change the service\<close>

definition launchctl :: "'w sys \<Rightarrow> service \<Rightarrow> string list \<Rightarrow> 'w \<Rightarrow> 'w \<times> op_error option" where
  "launchctl sy s args w =
     (let argv = (if NeedsSudo (sy_machine sy) s then [''sudo''] else []) @ [''launchctl''] @ args;
          (w1, r) = sy_run sy w argv
      in (w1,
          if rr_fail r \<noteq> None then Some (OpErr (cmdError argv r))
          else if rr_code r \<noteq> 0 then Some (LaunchctlErr (join_with '' '' argv) (rr_code r) (rr_err r) [])
          else None))"

definition systemctl :: "'w sys \<Rightarrow> string list \<Rightarrow> 'w \<Rightarrow> 'w \<times> op_error option" where
  "systemctl sy args w =
     (let argv = [''systemctl'', ''--user''] @ args; (w1, r) = sy_run sy w argv
      in (w1, if rr_fail r \<noteq> None \<or> rr_code r \<noteq> 0 then Some (OpErr (cmdError argv r)) else None))"

text \<open>The first match of the pattern \<open>(?:failed|error): (\d+):\<close>.\<close>

definition code_here :: "string \<Rightarrow> string option" where
  "code_here s =
     (case (case cut_prefix s ''failed: '' of None \<Rightarrow> cut_prefix s ''error: '' | r \<Rightarrow> r) of
        None \<Rightarrow> None
      | Some t \<Rightarrow>
          let ds = takeWhile is_digit t
          in if ds \<noteq> [] \<and> has_prefix (drop (length ds) t) '':'' then Some ds else None)"

fun find_code :: "string \<Rightarrow> string option" where
  "find_code [] = None"
| "find_code (c # s) = (case code_here (c # s) of Some ds \<Rightarrow> Some ds | None \<Rightarrow> find_code s)"

definition launchctlCode :: "int \<Rightarrow> string \<Rightarrow> int" where
  "launchctlCode code stderr =
     (if code \<noteq> 0 then code else case find_code stderr of None \<Rightarrow> 0 | Some ds \<Rightarrow> atoi_value ds)"

definition NoGUISessionHint :: string where
  "NoGUISessionHint =
     ''LaunchAgents live in the GUI login session, which does not exist until someone logs in at the Mac's console.''
     @ [CHR 0x0A] @ ''Log in at the Mac once; the service then starts at every GUI login.''"

fun wrap_error :: "op_error \<Rightarrow> string \<Rightarrow> op_error" where
  "wrap_error (LaunchctlErr cmd code stderr hint) t = LaunchctlErr cmd code stderr (hint @ [CHR 0x0A] @ t)"
| "wrap_error (OpErr e) t = OpErr (e @ [CHR 0x0A] @ t)"

text \<open>The attempts of \<open>bootstrapInto\<close>.\<close>

fun bootstrap_attempts ::
  "'w sys \<Rightarrow> service \<Rightarrow> string \<Rightarrow> nat \<Rightarrow> op_error option \<Rightarrow> 'w \<Rightarrow> 'w \<times> op_error option" where
  "bootstrap_attempts sy s domain 0 lastErr w = (w, lastErr)"
| "bootstrap_attempts sy s domain (Suc n) lastErr w =
     (let (w1, err) = launchctl sy s [''bootstrap'', domain, sv_UnitPath s] w in
      case err of
        None \<Rightarrow> (w1, None)
      | Some (OpErr e) \<Rightarrow> (w1, Some (OpErr e))
      | Some (LaunchctlErr cmd code stderr hint) \<Rightarrow>
          let e = LaunchctlErr cmd code stderr hint; c = launchctlCode code stderr in
          if c = 37 then
            (case sy_pause sy second w1 of
               Inl err \<Rightarrow> (w1, Some (OpErr err))
             | Inr w2 \<Rightarrow> bootstrap_attempts sy s domain n (Some e) w2)
          else if c = 5 then
            (let (w2, st, perr) = launchctlPrint sy (domain @ ''/'' @ sv_Label s) w1
             in if ls_Loaded st then (w2, None)
                else (w2, Some (wrap_error e (''launchd rejected the job: check `plutil -lint '' @ sv_UnitPath s
                       @ ''` and that the program it points to is executable''))))
          else if c = 133 then
            (w1, Some (wrap_error e (''the service is disabled in launchd; run: launchctl enable '' @ domain @ ''/'' @ sv_Label s)))
          else (w1, Some e))"

definition bootstrapInto :: "'w sys \<Rightarrow> service \<Rightarrow> string \<Rightarrow> 'w \<Rightarrow> 'w \<times> op_error option" where
  "bootstrapInto sy s domain w =
     (let (w1, _) = launchctl sy s [''enable'', domain @ ''/'' @ sv_Label s] w
      in bootstrap_attempts sy s domain bootstrapRetries None w1)"

fun domain_missing :: "op_error \<Rightarrow> bool" where
  "domain_missing (LaunchctlErr cmd code stderr hint) \<longleftrightarrow> launchctlCode code stderr = 125"
| "domain_missing (OpErr e) \<longleftrightarrow> False"

fun bootstrap_domains ::
  "'w sys \<Rightarrow> service \<Rightarrow> string list \<Rightarrow> op_error \<Rightarrow> 'w \<Rightarrow> 'w \<times> (op_error + string)" where
  "bootstrap_domains sy s [] lastErr w = (w, Inl (wrap_error lastErr NoGUISessionHint))"
| "bootstrap_domains sy s (d # ds) lastErr w =
     (let (w1, err) = bootstrapInto sy s d w in
      case err of
        None \<Rightarrow> (w1, Inr d)
      | Some e \<Rightarrow> if domain_missing e then bootstrap_domains sy s ds e w1 else (w1, Inl e))"

definition bootstrap :: "'w sys \<Rightarrow> service \<Rightarrow> 'w \<Rightarrow> 'w \<times> (op_error + string)" where
  "bootstrap sy s w =
     bootstrap_domains sy s
       (sv_Domain s # (if sv_Scope s = ScopeUser then [''user/'' @ itoa (sv_UID s)] else [])) (OpErr []) w"

section \<open>Start, stop and restart\<close>

definition no_service :: op_error where "no_service = OpErr ''no service installed''"

definition kick_and_wait :: "'w sys \<Rightarrow> service \<Rightarrow> string \<Rightarrow> launchd_status \<Rightarrow> 'w \<Rightarrow> ('w \<times> op_error option) option" where
  "kick_and_wait sy s domain st w =
     (let (w1, err) = (if ls_PID st = 0 then launchctl sy s [''kickstart'', domain @ ''/'' @ sv_Label s] w else (w, None))
      in if err \<noteq> None then Some (w1, err)
         else wait_service sy s (launchd_probe sy s (\<lambda>st. 0 < ls_PID st)) ''no process after start'' w1)"

definition StartService :: "'w sys \<Rightarrow> service \<Rightarrow> 'w \<Rightarrow> ('w \<times> op_error option) option" where
  "StartService sy s w =
     (case sv_Kind s of
        KindLaunchd \<Rightarrow>
          (let (w1, st, domain) = LaunchdStatus sy s w in
           if ls_Loaded st then kick_and_wait sy s domain st w1
           else let (w2, r) = bootstrap sy s w1 in
                case r of
                  Inl e \<Rightarrow> Some (w2, Some e)
                | Inr d \<Rightarrow> let (w3, st3, _) = LaunchdStatus sy s w2 in kick_and_wait sy s d st3 w3)
      | KindSystemd \<Rightarrow>
          (let (w1, err) = systemctl sy [''start'', sv_Label s] w
           in if err \<noteq> None then Some (w1, err)
              else wait_service sy s (systemd_probe sy s (\<lambda>st. 0 < ss_MainPID st)) ''no process after start'' w1)
      | KindNone \<Rightarrow> Some (w, Some no_service))"

definition StopService :: "'w sys \<Rightarrow> service \<Rightarrow> 'w \<Rightarrow> ('w \<times> op_error option) option" where
  "StopService sy s w =
     (case sv_Kind s of
        KindLaunchd \<Rightarrow>
          (let (w1, st, domain, err) = LaunchdStatusErr sy s w in
           case err of
             Some e \<Rightarrow> Some (w1, Some (OpErr e))
           | None \<Rightarrow>
               if \<not> ls_Loaded st then Some (w1, None)
               else let (w2, err2) = launchctl sy s [''bootout'', domain @ ''/'' @ sv_Label s] w1
                    in if err2 \<noteq> None then Some (w2, err2)
                       else wait_service sy s (launchd_probe sy s (\<lambda>st. \<not> ls_Loaded st \<or> ls_PID st = 0))
                              ''process still running after stop'' w2)
      | KindSystemd \<Rightarrow>
          (let (w1, err) = systemctl sy [''stop'', sv_Label s] w
           in if err \<noteq> None then Some (w1, err)
              else wait_service sy s (systemd_probe sy s (\<lambda>st. ss_MainPID st = 0)) ''process still running after stop'' w1)
      | KindNone \<Rightarrow> Some (w, Some no_service))"

definition RestartService :: "'w sys \<Rightarrow> service \<Rightarrow> 'w \<Rightarrow> ('w \<times> op_error option) option" where
  "RestartService sy s w =
     (case sv_Kind s of
        KindLaunchd \<Rightarrow>
          (let (w1, st, domain) = LaunchdStatus sy s w in
           if \<not> ls_Loaded st then StartService sy s w1
           else let (w2, err) = launchctl sy s [''kickstart'', ''-k'', domain @ ''/'' @ sv_Label s] w1
                in if err \<noteq> None then Some (w2, err)
                   else wait_service sy s (launchd_probe sy s (\<lambda>st'. 0 < ls_PID st' \<and> ls_PID st' \<noteq> ls_PID st))
                          ''no new process after restart'' w2)
      | KindSystemd \<Rightarrow>
          (let (w1, st) = SystemdStatus sy s w; (w2, err) = systemctl sy [''restart'', sv_Label s] w1
           in if err \<noteq> None then Some (w2, err)
              else wait_service sy s (systemd_probe sy s (\<lambda>st'. 0 < ss_MainPID st' \<and> ss_MainPID st' \<noteq> ss_MainPID st))
                     ''no new process after restart'' w2)
      | KindNone \<Rightarrow> Some (w, Some no_service))"

section \<open>What a finished operation has seen\<close>

text \<open>One query of the process the service manager shows, 0 for none.\<close>

definition query_pid :: "'w sys \<Rightarrow> service \<Rightarrow> 'w \<Rightarrow> 'w \<times> int" where
  "query_pid sy s w =
     (case sv_Kind s of
        KindLaunchd \<Rightarrow> (let (w1, st, d) = LaunchdStatus sy s w in (w1, ls_PID st))
      | _ \<Rightarrow> (let (w1, st) = SystemdStatus sy s w in (w1, ss_MainPID st)))"

definition saw_pid :: "'w sys \<Rightarrow> service \<Rightarrow> 'w \<Rightarrow> (int \<Rightarrow> bool) \<Rightarrow> bool" where
  "saw_pid sy s w' P \<longleftrightarrow> (\<exists>w0 p. query_pid sy s w0 = (w', p) \<and> P p)"

lemma parsed_unloaded: "\<not> ls_Loaded (ParseLaunchctlPrint out err) \<Longrightarrow> ls_PID (ParseLaunchctlPrint out err) = 0"
  by (auto simp: ParseLaunchctlPrint_def empty_launchd_def Let_def split: if_splits)

lemma print_unloaded:
  assumes "launchctlPrint sy t w = (w1, st, err)" and "\<not> ls_Loaded st"
  shows "ls_PID st = 0"
  using assms parsed_unloaded
  by (auto simp: launchctlPrint_def Let_def empty_launchd_def split: prod.splits option.splits)

lemma find_domain_unloaded:
  assumes "find_domain sy s ds first w = (w1, st, d, err)" and "\<not> ls_Loaded (fst first) \<Longrightarrow> ls_PID (fst first) = 0"
    and "\<not> ls_Loaded st"
  shows "ls_PID st = 0"
  using assms
proof (induction ds arbitrary: w)
  case Nil
  then show ?case by (cases first) simp
next
  case (Cons d' ds)
  obtain w2 st2 err2 where q: "launchctlPrint sy (d' @ CHR ''/'' # sv_Label s) w = (w2, st2, err2)"
    by (cases "launchctlPrint sy (d' @ CHR ''/'' # sv_Label s) w") auto
  show ?case using Cons.prems Cons.IH [of w2] by (auto simp: q split: if_splits)
qed

lemma status_unloaded:
  assumes "LaunchdStatusErr sy s w = (w1, st, d, err)" and "\<not> ls_Loaded st"
  shows "ls_PID st = 0"
proof -
  obtain w2 st2 err2 where q: "launchctlPrint sy (Target s) w = (w2, st2, err2)"
    by (cases "launchctlPrint sy (Target s) w") auto
  show ?thesis
    using assms print_unloaded [OF q] find_domain_unloaded [of sy s "tl (status_domains s)" "(st2, err2)" w2 w1 st d err]
    by (auto simp: LaunchdStatusErr_def q split: if_splits)
qed

lemma wait_loop_saw:
  "wait_loop sy k probe msg dl fuel w = Some (w', None) \<Longrightarrow> \<exists>w0 sum. probe w0 = (w', True, sum)"
proof (induction fuel arbitrary: w)
  case (Suc fuel)
  obtain w1 ok sum where "probe w = (w1, ok, sum)" by (cases "probe w") auto
  then show ?case using Suc by (cases ok) (auto split: if_splits sum.splits)
qed simp

lemma wait_saw_launchd:
  assumes "wait_service sy s (launchd_probe sy s ok) msg w = Some (w', None)" and "sv_Kind s = KindLaunchd"
    and "\<And>st. ok st \<Longrightarrow> (\<not> ls_Loaded st \<Longrightarrow> ls_PID st = 0) \<Longrightarrow> P (ls_PID st)"
  shows "saw_pid sy s w' P"
proof -
  obtain w0 sum where "launchd_probe sy s ok w0 = (w', True, sum)"
    using wait_loop_saw [OF assms(1) [unfolded wait_service_def]] by blast
  then obtain st d err where q: "LaunchdStatusErr sy s w0 = (w', st, d, err)" "ok st"
    by (auto simp: launchd_probe_def LaunchdStatus_def split: prod.splits)
  have "P (ls_PID st)" by (rule assms(3) [OF q(2)]) (rule status_unloaded [OF q(1)])
  then show ?thesis using q(1) assms(2)
    by (auto simp: saw_pid_def query_pid_def LaunchdStatus_def intro!: exI [of _ w0])
qed

lemma wait_saw_systemd:
  assumes "wait_service sy s (systemd_probe sy s ok) msg w = Some (w', None)" and "sv_Kind s = KindSystemd"
    and "\<And>st. ok st \<Longrightarrow> P (ss_MainPID st)"
  shows "saw_pid sy s w' P"
proof -
  obtain w0 sum where "systemd_probe sy s ok w0 = (w', True, sum)"
    using wait_loop_saw [OF assms(1) [unfolded wait_service_def]] by blast
  then obtain st where "SystemdStatus sy s w0 = (w', st)" "ok st"
    by (auto simp: systemd_probe_def split: prod.splits)
  then show ?thesis using assms(2,3) by (auto simp: saw_pid_def query_pid_def intro!: exI [of _ w0])
qed

lemma start_saw:
  assumes "StartService sy s w = Some (w', None)"
  shows "saw_pid sy s w' (\<lambda>p. 0 < p)"
  using assms
  by (auto simp: StartService_def kick_and_wait_def no_service_def Let_def
      split: service_kind.splits prod.splits if_splits sum.splits
      elim!: wait_saw_launchd wait_saw_systemd)

lemma stop_saw:
  assumes "StopService sy s w = Some (w', None)"
  shows "saw_pid sy s w' (\<lambda>p. p = 0)"
proof (cases "sv_Kind s")
  case KindLaunchd
  obtain w1 st d err where q: "LaunchdStatusErr sy s w = (w1, st, d, err)"
    by (cases "LaunchdStatusErr sy s w") auto
  show ?thesis
  proof (cases "ls_Loaded st")
    case False
    then show ?thesis using assms KindLaunchd q status_unloaded [OF q]
      by (auto simp: StopService_def saw_pid_def query_pid_def LaunchdStatus_def split: option.splits intro!: exI [of _ w])
  next
    case True
    then show ?thesis using assms KindLaunchd q
      by (auto simp: StopService_def split: option.splits prod.splits if_splits elim!: wait_saw_launchd)
  qed
qed (use assms in \<open>auto simp: StopService_def no_service_def split: prod.splits if_splits elim!: wait_saw_systemd\<close>)

lemma restart_saw:
  assumes "RestartService sy s w = Some (w', None)"
  shows "saw_pid sy s w' (\<lambda>p. 0 < p \<and> p \<noteq> snd (query_pid sy s w))"
proof (cases "sv_Kind s")
  case KindLaunchd
  obtain w1 st d err where q: "LaunchdStatusErr sy s w = (w1, st, d, err)"
    by (cases "LaunchdStatusErr sy s w") auto
  have old: "snd (query_pid sy s w) = ls_PID st" using q KindLaunchd by (simp add: query_pid_def LaunchdStatus_def)
  show ?thesis
  proof (cases "ls_Loaded st")
    case False
    then have "StartService sy s w1 = Some (w', None)" using assms KindLaunchd q by (simp add: RestartService_def LaunchdStatus_def)
    then have "saw_pid sy s w' (\<lambda>p. 0 < p)" by (rule start_saw)
    then show ?thesis using old status_unloaded [OF q False] by (auto simp: saw_pid_def)
  next
    case True
    then show ?thesis unfolding old using assms KindLaunchd q
      by (auto simp: RestartService_def LaunchdStatus_def split: prod.splits if_splits elim!: wait_saw_launchd)
  qed
next
  case KindSystemd
  then show ?thesis using assms
    by (auto simp: RestartService_def query_pid_def split: prod.splits if_splits elim!: wait_saw_systemd)
qed (use assms in \<open>simp add: RestartService_def no_service_def\<close>)

section \<open>Every operation ends\<close>

text \<open>Commands take time, and a pause takes at least what it was asked for.\<close>

definition time_flows :: "'w sys \<Rightarrow> bool" where
  "time_flows sy \<longleftrightarrow>
     (\<forall>w argv. sy_clock sy w \<le> sy_clock sy (fst (sy_run sy w argv)))
     \<and> (\<forall>d w w'. sy_pause sy d w = Inr w' \<longrightarrow> sy_clock sy w + d \<le> sy_clock sy w')"

lemma print_clock: "time_flows sy \<Longrightarrow> launchctlPrint sy t w = (w1, r) \<Longrightarrow> sy_clock sy w \<le> sy_clock sy w1"
  by (auto simp: time_flows_def launchctlPrint_def Let_def split: prod.splits option.splits)
     (metis fst_conv)+

lemma find_domain_clock:
  "time_flows sy \<Longrightarrow> find_domain sy s ds first w = (w1, r) \<Longrightarrow> sy_clock sy w \<le> sy_clock sy w1"
proof (induction ds arbitrary: w)
  case Nil
  then show ?case by (cases first) simp
next
  case (Cons d ds)
  obtain w2 st err where q: "launchctlPrint sy (d @ CHR ''/'' # sv_Label s) w = (w2, st, err)"
    by (cases "launchctlPrint sy (d @ CHR ''/'' # sv_Label s) w") auto
  show ?case
    using Cons.prems Cons.IH [of w2] print_clock [OF Cons.prems(1) q] by (auto simp: q split: if_splits)
qed

lemma launchd_probe_clock: "time_flows sy \<Longrightarrow> sy_clock sy w \<le> sy_clock sy (fst (launchd_probe sy s ok w))"
proof -
  assume t: "time_flows sy"
  obtain w2 st err where q: "launchctlPrint sy (Target s) w = (w2, st, err)"
    by (cases "launchctlPrint sy (Target s) w") auto
  obtain w3 r where f: "find_domain sy s (tl (status_domains s)) (st, err) w2 = (w3, r)"
    by (cases "find_domain sy s (tl (status_domains s)) (st, err) w2") auto
  show ?thesis
    using print_clock [OF t q] find_domain_clock [OF t f]
    by (auto simp: launchd_probe_def LaunchdStatus_def LaunchdStatusErr_def q f split: prod.splits)
qed

lemma systemd_probe_clock: "time_flows sy \<Longrightarrow> sy_clock sy w \<le> sy_clock sy (fst (systemd_probe sy s ok w))"
  by (auto simp: systemd_probe_def SystemdStatus_def systemdStatusErr_def Let_def time_flows_def
      split: prod.splits option.splits) (metis fst_conv)+

lemma wait_loop_ends:
  assumes "time_flows sy" and "\<And>w. sy_clock sy w \<le> sy_clock sy (fst (probe w))"
    and "deadline < sy_clock sy w + int fuel * opPoll"
  shows "wait_loop sy k probe msg deadline (Suc fuel) w \<noteq> None"
  using assms(3)
proof (induction fuel arbitrary: w)
  case 0
  obtain w1 ok sum where "probe w = (w1, ok, sum)" by (cases "probe w") auto
  then show ?case using 0 assms(2) [of w] by simp
next
  case (Suc fuel)
  obtain w1 ok sum where q: "probe w = (w1, ok, sum)" by (cases "probe w") auto
  show ?case
  proof (cases "sy_pause sy opPoll w1")
    case (Inr w2)
    have "sy_clock sy w + opPoll \<le> sy_clock sy w2"
      using assms(1) Inr assms(2) [of w] q unfolding time_flows_def by fastforce
    then have "deadline < sy_clock sy w2 + int fuel * opPoll" using Suc.prems by (simp add: algebra_simps)
    from Suc.IH [OF this] show ?thesis using q Inr by (subst wait_loop.simps) (simp del: wait_loop.simps)
  qed (use q in simp)
qed

lemma wait_service_ends:
  assumes "time_flows sy" and "\<And>w. sy_clock sy w \<le> sy_clock sy (fst (probe w))"
  shows "wait_service sy s probe msg w \<noteq> None"
proof -
  have "sy_clock sy w + opTimeout < sy_clock sy w + int 61 * opPoll" by (simp add: opTimeout_def opPoll_def)
  from wait_loop_ends [OF assms this] have "wait_loop sy (sv_Kind s) probe msg (sy_clock sy w + opTimeout) (Suc 61) w \<noteq> None" .
  moreover have "Suc 61 = wait_fuel" by (simp add: wait_fuel_def)
  ultimately show ?thesis unfolding wait_service_def by metis
qed

lemmas waits_end = wait_service_ends [OF _ launchd_probe_clock] wait_service_ends [OF _ systemd_probe_clock]

lemma kick_and_wait_ends: "time_flows sy \<Longrightarrow> kick_and_wait sy s d st w \<noteq> None"
  by (auto simp: kick_and_wait_def waits_end simp del: not_None_eq split: prod.splits)

lemma start_ends: "time_flows sy \<Longrightarrow> StartService sy s w \<noteq> None"
  by (auto simp: StartService_def kick_and_wait_ends waits_end simp del: not_None_eq split: service_kind.splits prod.splits sum.splits)

lemma stop_ends: "time_flows sy \<Longrightarrow> StopService sy s w \<noteq> None"
  by (auto simp: StopService_def waits_end simp del: not_None_eq split: service_kind.splits prod.splits option.splits)

lemma restart_ends: "time_flows sy \<Longrightarrow> RestartService sy s w \<noteq> None"
  by (auto simp: RestartService_def start_ends waits_end simp del: not_None_eq split: service_kind.splits prod.splits)


text \<open>A machine whose systemd always shows process 7; the world is the time.\<close>

definition demo_sys :: "time sys" where
  "demo_sys = \<lparr>sy_run = \<lambda>w argv. (w + 1, \<lparr>rr_out = ''MainPID=7'', rr_err = [], rr_code = 0, rr_fail = None\<rparr>),
     sy_clock = \<lambda>w. w, sy_pause = \<lambda>d w. Inr (w + d),
     sy_machine = \<lparr>mc_goos = ''linux'', mc_uid = 1000, mc_euid = 1000, mc_home = Some ''/home/u'', mc_file = \<lambda>p. True\<rparr>\<rparr>"

definition demo_service :: service where
  "demo_service = hd (DetectServices (sy_machine demo_sys))"


end
