(* ===== verification/Cli_Config.thy ===== *)
theory Cli_Config
  imports Config
begin

text \<open>
  The settings of the command line tool, \<open>internal/cli/config/config.go\<close>: the hosts of
  \<open>~/.hqssh/config.yaml\<close> and how flags, environment and file combine into the settings of one
  connection. The environment is a function (the empty string where a variable is unset), the home
  directory is \<open>None\<close> where it cannot be found, and the YAML decoder is an argument: it gives
  what it has decoded and, if it failed, its error.
\<close>

section \<open>The file\<close>

record cli_host =
  ch_Host :: string
  ch_User :: string
  ch_Port :: int
  ch_Key :: string
  ch_Password :: string
  ch_DaemonPort :: int
  ch_AuthToken :: string

record cli_config =
  cf_DefaultHost :: string
  cf_Hosts :: "(string, cli_host) gomap"

record resolved =
  rs_Host :: string
  rs_User :: string
  rs_Port :: int
  rs_Key :: string
  rs_Password :: string
  rs_DaemonPort :: int
  rs_AuthToken :: string

definition DefaultDaemonPort :: int where "DefaultDaemonPort = 50051"

definition GetConfigPath :: "string option \<Rightarrow> string" where
  "GetConfigPath home =
     (case home of None \<Rightarrow> [] | Some h \<Rightarrow> join_paths [h, ''.hqssh'', ''config.yaml''])"

datatype cli_warning = WarnPermissions string "16 word" | WarnParse string string

text \<open>
  \<open>loaded\<close> is the package variable \<open>globalConfig\<close>: the first call reads the file, later calls give
  what the first one found. The answer doubles as the new value of the variable.
\<close>

definition CliLoad ::
  "(bytes \<Rightarrow> cli_config \<Rightarrow> cli_config \<times> string option) \<Rightarrow> string option \<Rightarrow> (string \<Rightarrow> 16 word option)
     \<Rightarrow> (string \<Rightarrow> file_read) \<Rightarrow> cli_config option \<Rightarrow> cli_config \<times> cli_warning list" where
  "CliLoad unmarshal home mode read loaded =
     (case loaded of
        Some c \<Rightarrow> (c, [])
      | None \<Rightarrow>
          let c = \<lparr>cf_DefaultHost = [], cf_Hosts = []\<rparr> in
          case home of
            None \<Rightarrow> (c, [])
          | Some h \<Rightarrow>
              let path = join_paths [h, ''.hqssh'', ''config.yaml''];
                  perms = (case mode path of
                             Some m \<Rightarrow> if and m 0x3F \<noteq> 0 then [WarnPermissions path m] else []
                           | None \<Rightarrow> []) in
              case read path of
                FileData d \<Rightarrow>
                  (case unmarshal d c of
                     (c', None) \<Rightarrow> (c', perms)
                   | (c', Some e) \<Rightarrow> (c', perms @ [WarnParse path e]))
              | _ \<Rightarrow> (c, perms))"

section \<open>Resolving one connection\<close>

text \<open>\<open>filepath.Join(home, path[1:])\<close> for every path that starts with a tilde.\<close>

definition expandPath :: "string option \<Rightarrow> string \<Rightarrow> string" where
  "expandPath home path =
     (case path of
        c # rest \<Rightarrow> if c = CHR ''~'' then (case home of Some h \<Rightarrow> join_paths [h, rest] | None \<Rightarrow> path) else path
      | [] \<Rightarrow> path)"

record cli_flags =
  fl_Host :: string
  fl_User :: string
  fl_Key :: string
  fl_Password :: string
  fl_Port :: int
  fl_DaemonPort :: int

text \<open>The value of a variable that holds a number, where it is set to one.\<close>

definition env_int :: "(string \<Rightarrow> string) \<Rightarrow> string \<Rightarrow> int option" where
  "env_int getenv name = (if getenv name = [] then None else atoi (getenv name))"

definition host_of :: "string \<Rightarrow> cli_host \<Rightarrow> string" where
  "host_of name h = (if ch_Host h \<noteq> [] then ch_Host h else name)"

definition resolve_default :: "(string \<Rightarrow> string) \<Rightarrow> string option \<Rightarrow> cli_config \<Rightarrow> resolved" where
  "resolve_default getenv home cfg =
     (let r = \<lparr>rs_Host = [], rs_User = getenv ''USER'', rs_Port = 22, rs_Key = [], rs_Password = [],
               rs_DaemonPort = DefaultDaemonPort, rs_AuthToken = []\<rparr> in
      if cf_DefaultHost cfg = [] then r
      else case gget (cf_Hosts cfg) (cf_DefaultHost cfg) of
        None \<Rightarrow> r\<lparr>rs_Host := cf_DefaultHost cfg\<rparr>
      | Some h \<Rightarrow>
          r\<lparr>rs_Host := host_of (cf_DefaultHost cfg) h,
            rs_User := (if ch_User h \<noteq> [] then ch_User h else rs_User r),
            rs_Port := (if ch_Port h \<noteq> 0 then ch_Port h else rs_Port r),
            rs_Key := (if ch_Key h \<noteq> [] then expandPath home (ch_Key h) else rs_Key r),
            rs_Password := (if ch_Password h \<noteq> [] then ch_Password h else rs_Password r),
            rs_DaemonPort := (if ch_DaemonPort h \<noteq> 0 then ch_DaemonPort h else rs_DaemonPort r),
            rs_AuthToken := ch_AuthToken h\<rparr>)"

definition resolve_env :: "(string \<Rightarrow> string) \<Rightarrow> string option \<Rightarrow> resolved \<Rightarrow> resolved" where
  "resolve_env getenv home r =
     (let env = getenv ''HQSSH_HOST'';
          r = (if env = [] then r
               else if env \<noteq> rs_Host r then r\<lparr>rs_AuthToken := [], rs_Password := [], rs_Host := env\<rparr>
               else r\<lparr>rs_Host := env\<rparr>);
          r = (if getenv ''HQSSH_USER'' = [] then r else r\<lparr>rs_User := getenv ''HQSSH_USER''\<rparr>);
          r = (case env_int getenv ''HQSSH_PORT'' of Some p \<Rightarrow> r\<lparr>rs_Port := p\<rparr> | None \<Rightarrow> r);
          r = (if getenv ''HQSSH_KEY'' = [] then r else r\<lparr>rs_Key := expandPath home (getenv ''HQSSH_KEY'')\<rparr>);
          r = (if getenv ''HQSSH_AUTH_TOKEN'' = [] then r else r\<lparr>rs_AuthToken := getenv ''HQSSH_AUTH_TOKEN''\<rparr>)
      in case env_int getenv ''HQSSH_DAEMON_PORT'' of Some p \<Rightarrow> r\<lparr>rs_DaemonPort := p\<rparr> | None \<Rightarrow> r)"

text \<open>\<open>-H\<close>: an alias of the file or a host name. \<open>envDaemonPort\<close> is 0 where the variable is not a number.\<close>

definition resolve_host ::
  "(string \<Rightarrow> string) \<Rightarrow> string option \<Rightarrow> cli_config \<Rightarrow> cli_flags \<Rightarrow> resolved \<Rightarrow> resolved" where
  "resolve_host getenv home cfg f r =
     (let envAuthToken = getenv ''HQSSH_AUTH_TOKEN'';
          envDaemonPort = (case env_int getenv ''HQSSH_DAEMON_PORT'' of Some p \<Rightarrow> p | None \<Rightarrow> 0) in
      if fl_Host f = [] then r
      else case gget (cf_Hosts cfg) (fl_Host f) of
        Some h \<Rightarrow>
          r\<lparr>rs_Host := host_of (fl_Host f) h,
            rs_User := (if fl_User f = [] \<and> ch_User h \<noteq> [] then ch_User h else rs_User r),
            rs_Port := (if fl_Port f = 0 \<and> ch_Port h \<noteq> 0 then ch_Port h else rs_Port r),
            rs_Key := (if fl_Key f = [] \<and> ch_Key h \<noteq> [] then expandPath home (ch_Key h) else rs_Key r),
            rs_Password := ch_Password h,
            rs_AuthToken := (if ch_AuthToken h = [] then envAuthToken else ch_AuthToken h),
            rs_DaemonPort :=
              (if fl_DaemonPort f \<noteq> 0 then rs_DaemonPort r
               else if ch_DaemonPort h \<noteq> 0 then ch_DaemonPort h
               else if envDaemonPort \<noteq> 0 then envDaemonPort
               else DefaultDaemonPort)\<rparr>
      | None \<Rightarrow>
          r\<lparr>rs_Host := fl_Host f, rs_AuthToken := envAuthToken, rs_Password := [],
            rs_DaemonPort :=
              (if fl_DaemonPort f \<noteq> 0 then rs_DaemonPort r
               else if envDaemonPort \<noteq> 0 then envDaemonPort
               else DefaultDaemonPort)\<rparr>)"

definition resolve_flags :: "string option \<Rightarrow> cli_flags \<Rightarrow> resolved \<Rightarrow> resolved" where
  "resolve_flags home f r =
     r\<lparr>rs_User := (if fl_User f \<noteq> [] then fl_User f else rs_User r),
       rs_Port := (if fl_Port f \<noteq> 0 then fl_Port f else rs_Port r),
       rs_Key := (if fl_Key f \<noteq> [] then expandPath home (fl_Key f) else rs_Key r),
       rs_Password := (if fl_Password f \<noteq> [] then fl_Password f else rs_Password r),
       rs_DaemonPort := (if fl_DaemonPort f \<noteq> 0 then fl_DaemonPort f else rs_DaemonPort r)\<rparr>"

definition Resolve ::
  "(string \<Rightarrow> string) \<Rightarrow> string option \<Rightarrow> cli_config \<Rightarrow> cli_flags \<Rightarrow> resolved" where
  "Resolve getenv home cfg f =
     resolve_flags home f (resolve_host getenv home cfg f
       (resolve_env getenv home (resolve_default getenv home cfg)))"

section \<open>Where each setting comes from\<close>

text \<open>The first value given in a list of sources, and a number as a source (0 is not given).\<close>

fun first_given :: "'a option list \<Rightarrow> 'a option" where
  "first_given [] = None"
| "first_given (Some x # xs) = Some x"
| "first_given (None # xs) = first_given xs"

definition given :: "'a :: zero \<Rightarrow> 'a option" where
  "given n = (if n = 0 then None else Some n)"

definition given_str :: "string \<Rightarrow> string option" where
  "given_str s = (if s = [] then None else Some s)"

definition default_entry :: "cli_config \<Rightarrow> cli_host option" where
  "default_entry cfg = (if cf_DefaultHost cfg = [] then None else gget (cf_Hosts cfg) (cf_DefaultHost cfg))"

definition flag_entry :: "cli_config \<Rightarrow> cli_flags \<Rightarrow> cli_host option" where
  "flag_entry cfg f = (if fl_Host f = [] then None else gget (cf_Hosts cfg) (fl_Host f))"

lemmas source_defs = given_def given_str_def default_entry_def flag_entry_def

text \<open>What one stage does to one setting, as the source it adds.\<close>

definition over :: "'a option \<Rightarrow> 'a \<Rightarrow> 'a" where
  "over src x = (case src of Some y \<Rightarrow> y | None \<Rightarrow> x)"

lemma over_simps [simp]: "over None x = x" "over (Some y) x = y"
  by (simp_all add: over_def)

lemma over_first_given: "Some (over src x) = first_given (src # [Some x])"
  by (cases src) simp_all

lemma first_given_over: "first_given (src # xs) = Some y \<longleftrightarrow> (case src of Some x \<Rightarrow> x = y | None \<Rightarrow> first_given xs = Some y)"
  by (cases src) simp_all

lemma resolve_default_sel:
  "rs_User (resolve_default getenv home cfg) =
     over (Option.bind (default_entry cfg) (given_str o ch_User)) (getenv ''USER'')"
  "rs_Port (resolve_default getenv home cfg) = over (Option.bind (default_entry cfg) (given o ch_Port)) 22"
  "rs_Key (resolve_default getenv home cfg) =
     over (map_option (expandPath home) (Option.bind (default_entry cfg) (given_str o ch_Key))) []"
  "rs_DaemonPort (resolve_default getenv home cfg) =
     over (Option.bind (default_entry cfg) (given o ch_DaemonPort)) DefaultDaemonPort"
  "rs_AuthToken (resolve_default getenv home cfg) = (case default_entry cfg of Some h \<Rightarrow> ch_AuthToken h | None \<Rightarrow> [])"
  "rs_Password (resolve_default getenv home cfg) = (case default_entry cfg of Some h \<Rightarrow> ch_Password h | None \<Rightarrow> [])"
  "rs_Host (resolve_default getenv home cfg) =
     (case default_entry cfg of Some h \<Rightarrow> host_of (cf_DefaultHost cfg) h | None \<Rightarrow> cf_DefaultHost cfg)"
  by (simp_all add: resolve_default_def source_defs Let_def split: option.split)

lemma resolve_env_sel:
  "rs_User (resolve_env getenv home r) = over (given_str (getenv ''HQSSH_USER'')) (rs_User r)"
  "rs_Port (resolve_env getenv home r) = over (env_int getenv ''HQSSH_PORT'') (rs_Port r)"
  "rs_Key (resolve_env getenv home r) =
     over (map_option (expandPath home) (given_str (getenv ''HQSSH_KEY''))) (rs_Key r)"
  "rs_DaemonPort (resolve_env getenv home r) = over (env_int getenv ''HQSSH_DAEMON_PORT'') (rs_DaemonPort r)"
  "rs_Host (resolve_env getenv home r) = over (given_str (getenv ''HQSSH_HOST'')) (rs_Host r)"
  "rs_Password (resolve_env getenv home r) =
     (if getenv ''HQSSH_HOST'' \<in> {[], rs_Host r} then rs_Password r else [])"
  "rs_AuthToken (resolve_env getenv home r) =
     over (given_str (getenv ''HQSSH_AUTH_TOKEN''))
       (if getenv ''HQSSH_HOST'' \<in> {[], rs_Host r} then rs_AuthToken r else [])"
  by (simp_all add: resolve_env_def Let_def given_str_def split: option.split)

lemma resolve_host_sel:
  "rs_User (resolve_host getenv home cfg f r) =
     over (if fl_User f = [] then Option.bind (flag_entry cfg f) (given_str o ch_User) else None) (rs_User r)"
  "rs_Port (resolve_host getenv home cfg f r) =
     over (if fl_Port f = 0 then Option.bind (flag_entry cfg f) (given o ch_Port) else None) (rs_Port r)"
  "rs_Key (resolve_host getenv home cfg f r) =
     over (if fl_Key f = [] then map_option (expandPath home) (Option.bind (flag_entry cfg f) (given_str o ch_Key))
           else None) (rs_Key r)"
  "rs_Host (resolve_host getenv home cfg f r) =
     (if fl_Host f = [] then rs_Host r
      else case flag_entry cfg f of Some h \<Rightarrow> host_of (fl_Host f) h | None \<Rightarrow> fl_Host f)"
  "rs_Password (resolve_host getenv home cfg f r) =
     (if fl_Host f = [] then rs_Password r
      else case flag_entry cfg f of Some h \<Rightarrow> ch_Password h | None \<Rightarrow> [])"
  "rs_AuthToken (resolve_host getenv home cfg f r) =
     (if fl_Host f = [] then rs_AuthToken r
      else over (Option.bind (flag_entry cfg f) (given_str o ch_AuthToken)) (getenv ''HQSSH_AUTH_TOKEN''))"
  by (simp_all add: resolve_host_def source_defs Let_def split: option.split)

lemma resolve_host_DaemonPort:
  "rs_DaemonPort (resolve_host getenv home cfg f r) =
     (if fl_Host f = [] \<or> fl_DaemonPort f \<noteq> 0 then rs_DaemonPort r
      else over (Option.bind (flag_entry cfg f) (given o ch_DaemonPort))
        (over (Option.bind (env_int getenv ''HQSSH_DAEMON_PORT'') given) DefaultDaemonPort))"
  by (simp add: resolve_host_def source_defs Let_def split: option.split)

lemma resolve_flags_sel:
  "rs_User (resolve_flags home f r) = over (given_str (fl_User f)) (rs_User r)"
  "rs_Port (resolve_flags home f r) = over (given (fl_Port f)) (rs_Port r)"
  "rs_Key (resolve_flags home f r) = over (map_option (expandPath home) (given_str (fl_Key f))) (rs_Key r)"
  "rs_Password (resolve_flags home f r) = over (given_str (fl_Password f)) (rs_Password r)"
  "rs_DaemonPort (resolve_flags home f r) = over (given (fl_DaemonPort f)) (rs_DaemonPort r)"
  "rs_Host (resolve_flags home f r) = rs_Host r"
  "rs_AuthToken (resolve_flags home f r) = rs_AuthToken r"
  by (simp_all add: resolve_flags_def given_def given_str_def)

lemmas resolve_sel = resolve_default_sel resolve_env_sel resolve_host_sel resolve_host_DaemonPort
  resolve_flags_sel

text \<open>
  The order of the sources: the flag, the entry of the host that \<open>-H\<close> names, the environment, the
  entry of the default host, the built-in value. The daemon port of a host named by \<open>-H\<close> skips the
  default host's entry, and an environment variable comes after that host's own entry, although
  before every entry when no \<open>-H\<close> is given.
\<close>
lemma Resolve_precedence:
  "Some (rs_User (Resolve getenv home cfg f)) = first_given
     [given_str (fl_User f), Option.bind (flag_entry cfg f) (given_str o ch_User),
      given_str (getenv ''HQSSH_USER''), Option.bind (default_entry cfg) (given_str o ch_User),
      Some (getenv ''USER'')]"
  "Some (rs_Port (Resolve getenv home cfg f)) = first_given
     [given (fl_Port f), Option.bind (flag_entry cfg f) (given o ch_Port),
      env_int getenv ''HQSSH_PORT'', Option.bind (default_entry cfg) (given o ch_Port), Some 22]"
  "Some (rs_Key (Resolve getenv home cfg f)) = first_given
     (map (map_option (expandPath home))
       [given_str (fl_Key f), Option.bind (flag_entry cfg f) (given_str o ch_Key),
        given_str (getenv ''HQSSH_KEY''), Option.bind (default_entry cfg) (given_str o ch_Key)]
      @ [Some []])"
  "Some (rs_DaemonPort (Resolve getenv home cfg f)) = first_given
     (given (fl_DaemonPort f)
      # (if fl_Host f = []
         then [env_int getenv ''HQSSH_DAEMON_PORT'', Option.bind (default_entry cfg) (given o ch_DaemonPort)]
         else [Option.bind (flag_entry cfg f) (given o ch_DaemonPort),
               Option.bind (env_int getenv ''HQSSH_DAEMON_PORT'') given])
      @ [Some DefaultDaemonPort])"
  unfolding Resolve_def resolve_sel by (auto simp: over_def given_def given_str_def split: option.splits)

text \<open>A value that is the entry's own, of an entry whose host is the resolved one.\<close>

definition own_value :: "cli_config \<Rightarrow> (cli_host \<Rightarrow> string) \<Rightarrow> string \<Rightarrow> string \<Rightarrow> bool" where
  "own_value cfg field host v \<longleftrightarrow>
     (\<exists>name h. gget (cf_Hosts cfg) name = Some h \<and> v = field h \<and> host = host_of name h)"

lemma own_value_default:
  "default_entry cfg = Some h \<Longrightarrow> own_value cfg field (host_of (cf_DefaultHost cfg) h) (field h)"
  unfolding own_value_def by (auto simp: default_entry_def split: if_splits)

lemma own_value_flag:
  "flag_entry cfg f = Some h \<Longrightarrow> own_value cfg field (host_of (fl_Host f) h) (field h)"
  unfolding own_value_def by (auto simp: flag_entry_def split: if_splits)

lemma env_credentials:
  defines "r \<equiv> \<lambda>getenv home cfg. resolve_env getenv home (resolve_default getenv home cfg)"
  shows "rs_AuthToken (r getenv home cfg) \<in> {[], getenv ''HQSSH_AUTH_TOKEN''}
      \<or> own_value cfg ch_AuthToken (rs_Host (r getenv home cfg)) (rs_AuthToken (r getenv home cfg))"
    and "rs_Password (r getenv home cfg) = []
      \<or> own_value cfg ch_Password (rs_Host (r getenv home cfg)) (rs_Password (r getenv home cfg))"
proof -
  have host: "rs_Host (r getenv home cfg) = host_of (cf_DefaultHost cfg) h"
    if "default_entry cfg = Some h" "getenv ''HQSSH_HOST'' \<in> {[], rs_Host (resolve_default getenv home cfg)}" for h
    using that by (auto simp: r_def resolve_env_sel resolve_default_sel given_str_def)
  show "rs_AuthToken (r getenv home cfg) \<in> {[], getenv ''HQSSH_AUTH_TOKEN''}
      \<or> own_value cfg ch_AuthToken (rs_Host (r getenv home cfg)) (rs_AuthToken (r getenv home cfg))"
    using own_value_default [of cfg _ ch_AuthToken] host unfolding r_def
    by (cases "default_entry cfg") (auto simp: resolve_env_sel(7) resolve_default_sel(5) given_str_def)
  show "rs_Password (r getenv home cfg) = []
      \<or> own_value cfg ch_Password (rs_Host (r getenv home cfg)) (rs_Password (r getenv home cfg))"
    using own_value_default [of cfg _ ch_Password] host unfolding r_def
    by (cases "default_entry cfg") (auto simp: resolve_env_sel(6) resolve_default_sel(6))
qed

text \<open>
  A stored token or password travels only with its own host. Whatever the flags, the environment
  and the file say, the token of the resolved settings is empty, the one of the environment, or that
  of an entry whose host is the resolved one; the password is empty, the one typed for \<open>-p\<close>, or
  that of such an entry.
\<close>
lemma Resolve_credentials:
  "(rs_AuthToken (Resolve getenv home cfg f) \<in> {[], getenv ''HQSSH_AUTH_TOKEN''}
     \<or> own_value cfg ch_AuthToken (rs_Host (Resolve getenv home cfg f)) (rs_AuthToken (Resolve getenv home cfg f)))
   \<and> (rs_Password (Resolve getenv home cfg f) \<in> {[], fl_Password f}
     \<or> own_value cfg ch_Password (rs_Host (Resolve getenv home cfg f)) (rs_Password (Resolve getenv home cfg f)))"
proof -
  let ?r = "resolve_env getenv home (resolve_default getenv home cfg)"
  have "rs_AuthToken (Resolve getenv home cfg f) \<in> {[], getenv ''HQSSH_AUTH_TOKEN''}
     \<or> own_value cfg ch_AuthToken (rs_Host (Resolve getenv home cfg f)) (rs_AuthToken (Resolve getenv home cfg f))"
    using env_credentials(1) [of getenv home cfg] own_value_flag [of cfg f _ ch_AuthToken]
    by (cases "fl_Host f = []"; cases "flag_entry cfg f")
      (simp_all add: Resolve_def resolve_flags_sel resolve_host_sel over_def given_str_def)
  moreover have "rs_Password (Resolve getenv home cfg f) \<in> {[], fl_Password f}
     \<or> own_value cfg ch_Password (rs_Host (Resolve getenv home cfg f)) (rs_Password (Resolve getenv home cfg f))"
    using env_credentials(2) [of getenv home cfg] own_value_flag [of cfg f _ ch_Password]
    by (cases "fl_Host f = []"; cases "flag_entry cfg f")
      (simp_all add: Resolve_def resolve_flags_sel resolve_host_sel over_def given_str_def)
  ultimately show ?thesis ..
qed

end
