(* ===== verification/Cli_Client.thy ===== *)
theory Cli_Client
  imports Cli_Config Server_Base
begin

text \<open>
  The connection of the command line tool to a daemon, \<open>internal/cli/client/client.go\<close>: the keys and
  the host key check of an SSH connection, the retries, the errors and their advice, and the token
  that goes with every call. The SSH and gRPC libraries, the files and the terminal are arguments:
  what a dial answers, how a private key parses, what is typed as a passphrase.
\<close>

definition nl :: string where "nl = [CHR 0x0A]"

section \<open>Looking for a pattern in an error text\<close>

definition lower_byte :: "char \<Rightarrow> char" where
  "lower_byte c = (if 65 \<le> bval c \<and> bval c \<le> 90 then char_of (bval c + 32) else c)"

definition bytesContains :: "bytes \<Rightarrow> bytes \<Rightarrow> bool" where
  "bytesContains s substr \<longleftrightarrow>
     substr = []
     \<or> (length substr \<le> length s
        \<and> list_ex (\<lambda>i. list_all (\<lambda>j. s ! (i + j) = substr ! j) [0..<length substr])
             [0..<Suc (length s - length substr)])"

definition contains_ci :: "string \<Rightarrow> string \<Rightarrow> bool" where
  "contains_ci s substr \<longleftrightarrow> bytesContains (map lower_byte s) (map lower_byte substr)"

definition permanentPatterns :: "string list" where
  "permanentPatterns =
     [''authentication failed'', ''permission denied'', ''no authentication methods'',
      ''host key verification failed'', ''known_hosts'', ''knownhosts'', ''key mismatch'', ''key is revoked'']"

definition isPermanentError :: "string \<Rightarrow> bool" where
  "isPermanentError errStr \<longleftrightarrow> list_ex (contains_ci errStr) permanentPatterns"

section \<open>Keys and the host key check\<close>

record client_config =
  cl_Host :: string
  cl_Port :: int
  cl_User :: string
  cl_KeyPath :: string
  cl_Password :: string
  cl_InsecureHostKey :: bool
  cl_DaemonPort :: int
  cl_AuthToken :: string

datatype 'k parsed_key = KeyOk 'k | PassphraseMissing | KeyMalformed string

record 'k key_io =
  ki_read :: "string \<Rightarrow> file_read"
  ki_parse :: "bytes \<Rightarrow> 'k parsed_key"
  ki_parse_with :: "bytes \<Rightarrow> string \<Rightarrow> string + 'k"
  ki_prompt :: "string \<Rightarrow> string + string"
  ki_home :: "string option"
  ki_known_hosts :: "string \<Rightarrow> string + unit"
  ki_loopback6 :: "string \<Rightarrow> bool"

text \<open>The error of a key: \<open>KeyMissing\<close> is the one \<open>os.IsNotExist\<close> recognises.\<close>

datatype key_error = KeyMissing string | KeyProblem string

fun key_error_text :: "key_error \<Rightarrow> string" where
  "key_error_text (KeyMissing e) = e"
| "key_error_text (KeyProblem e) = e"

definition loadPrivateKey :: "'k key_io \<Rightarrow> string \<Rightarrow> key_error + 'k" where
  "loadPrivateKey io path =
     (case ki_read io path of
        FileMissing \<Rightarrow> Inl (KeyMissing (''open '' @ path @ '': no such file or directory''))
      | FileUnreadable e \<Rightarrow> Inl (KeyProblem e)
      | FileData key \<Rightarrow>
          (case ki_parse io key of
             KeyOk k \<Rightarrow> Inr k
           | KeyMalformed e \<Rightarrow> Inl (KeyProblem e)
           | PassphraseMissing \<Rightarrow>
               (case ki_prompt io path of
                  Inl e \<Rightarrow> Inl (KeyProblem (''passphrase prompt: '' @ e))
                | Inr phrase \<Rightarrow>
                    (case ki_parse_with io key phrase of Inl e \<Rightarrow> Inl (KeyProblem e) | Inr k \<Rightarrow> Inr k))))"

text \<open>
  The loop over the default keys: the first that loads is used, a missing file is passed over, and
  the others are remembered with their problem.
\<close>

fun default_keys :: "'k key_io \<Rightarrow> string list \<Rightarrow> string list \<Rightarrow> 'k option \<times> string list" where
  "default_keys io [] problems = (None, problems)"
| "default_keys io (name # names) problems =
     (let keyPath = join_paths [case ki_home io of Some h \<Rightarrow> h | None \<Rightarrow> [], ''.ssh'', name] in
      case loadPrivateKey io keyPath of
        Inr k \<Rightarrow> (Some k, problems)
      | Inl (KeyMissing e) \<Rightarrow> default_keys io names problems
      | Inl (KeyProblem e) \<Rightarrow> default_keys io names (problems @ [keyPath @ '': '' @ e]))"

definition defaultKeyNames :: "string list" where
  "defaultKeyNames = [''id_ed25519'', ''id_rsa'', ''id_ecdsa'']"

datatype 'k auth_method = PublicKeys 'k | SshPassword string

datatype host_key_check = IgnoreHostKey | KnownHosts string

record 'k ssh_config =
  sc_User :: string
  sc_Auth :: "'k auth_method list"
  sc_HostKey :: host_key_check

text \<open>
  \<open>net.ParseIP(host)\<close> and \<open>IsLoopback\<close> for a dotted IPv4 address: four decimal numbers up to 255
  without leading zeros, the first of them 127. IPv6 addresses are an argument.
\<close>

definition ip4_part :: "string \<Rightarrow> bool" where
  "ip4_part p \<longleftrightarrow>
     p \<noteq> [] \<and> length p \<le> 3 \<and> list_all is_digit p \<and> (hd p = CHR ''0'' \<longrightarrow> length p = 1) \<and> digits_value p \<le> 255"

definition isLoopback :: "(string \<Rightarrow> bool) \<Rightarrow> string \<Rightarrow> bool" where
  "isLoopback loopback6 host \<longleftrightarrow>
     host = ''localhost''
     \<or> (if CHR '':'' \<in> set host then loopback6 host
        else let ps = split_on CHR ''.'' host in length ps = 4 \<and> list_all ip4_part ps \<and> hd ps = ''127'')"

definition no_auth_message :: "string list \<Rightarrow> string" where
  "no_auth_message problems =
     ''no authentication methods available'' @ nl @ nl
     @ ''Tried default keys: ~/.ssh/id_ed25519, ~/.ssh/id_rsa, ~/.ssh/id_ecdsa'' @ nl
     @ concat (map (\<lambda>p. ''  could not load '' @ p @ nl) problems)
     @ nl @ ''Options:'' @ nl
     @ ''  -k, --key PATH    Specify a private key file'' @ nl
     @ ''  -p, --password    Use password authentication''"

definition buildSSHConfig :: "'k key_io \<Rightarrow> client_config \<Rightarrow> string + 'k ssh_config" where
  "buildSSHConfig io cfg =
     (let keys =
        (if cl_KeyPath cfg \<noteq> [] then
           (case loadPrivateKey io (cl_KeyPath cfg) of
              Inl e \<Rightarrow> Inl (''load key '' @ cl_KeyPath cfg @ '': '' @ key_error_text e)
            | Inr k \<Rightarrow> Inr ([PublicKeys k], []))
         else case default_keys io defaultKeyNames [] of
             (Some k, problems) \<Rightarrow> Inr ([PublicKeys k], problems)
           | (None, problems) \<Rightarrow> Inr ([], problems)) in
      case keys of
        Inl e \<Rightarrow> Inl e
      | Inr (methods, problems) \<Rightarrow>
          let methods = methods @ (if cl_Password cfg \<noteq> [] then [SshPassword (cl_Password cfg)] else []) in
          if methods = [] then Inl (no_auth_message problems)
          else if cl_InsecureHostKey cfg \<or> isLoopback (ki_loopback6 io) (cl_Host cfg) then
            Inr \<lparr>sc_User = cl_User cfg, sc_Auth = methods, sc_HostKey = IgnoreHostKey\<rparr>
          else
            let path = join_paths [case ki_home io of Some h \<Rightarrow> h | None \<Rightarrow> [], ''.ssh'', ''known_hosts''] in
            case ki_known_hosts io path of
              Inl e \<Rightarrow> Inl (''failed to load known_hosts: '' @ e @ nl
                            @ ''(use --insecure to skip host key verification)'')
            | Inr _ \<Rightarrow> Inr \<lparr>sc_User = cl_User cfg, sc_Auth = methods, sc_HostKey = KnownHosts path\<rparr>)"

section \<open>One attempt\<close>

definition ssh_addr :: "client_config \<Rightarrow> string" where
  "ssh_addr cfg = cl_Host cfg @ '':'' @ itoa (cl_Port cfg)"

text \<open>The advice for a failed \<open>ssh.Dial\<close>: the first pattern of its text decides.\<close>

definition auth_failed_advice :: "client_config \<Rightarrow> string" where
  "auth_failed_advice cfg =
     ''SSH authentication failed to '' @ cl_User cfg @ ''@'' @ cl_Host cfg @ nl @ nl @ ''Try:'' @ nl
     @ ''  -k, --key PATH    Use a specific key file'' @ nl
     @ ''  -p, --password    Use password authentication'' @ nl
     @ ''  --insecure        Skip host key verification (if that'' @ [CHR 0x27] @ ''s the issue)''"

definition unknown_host_advice :: "string \<Rightarrow> string" where
  "unknown_host_advice h =
     ''host '' @ [CHR 0x27] @ h @ [CHR 0x27] @ '' not in ~/.ssh/known_hosts'' @ nl @ nl
     @ ''Run '' @ [CHR 0x27] @ ''ssh '' @ h @ [CHR 0x27]
     @ '' first to add it, or use --insecure to skip verification''"

definition changed_host_advice :: "string \<Rightarrow> string" where
  "changed_host_advice h =
     ''WARNING: host key for '' @ [CHR 0x27] @ h @ [CHR 0x27] @ '' has changed!'' @ nl @ nl
     @ ''This could indicate a man-in-the-middle attack.'' @ nl
     @ ''If the server was reinstalled, update ~/.ssh/known_hosts:'' @ nl
     @ ''  ssh-keygen -R '' @ h @ nl @ nl
     @ ''Then reconnect, or use --insecure to skip verification''"

definition revoked_host_advice :: "string \<Rightarrow> string" where
  "revoked_host_advice h =
     ''host key for '' @ [CHR 0x27] @ h @ [CHR 0x27] @ '' has been revoked in ~/.ssh/known_hosts''"

definition dial_error :: "client_config \<Rightarrow> string \<Rightarrow> string" where
  "dial_error cfg errStr =
     (if contains_ci errStr ''connection refused'' then
        ''SSH connection refused to '' @ ssh_addr cfg @ nl @ nl @ ''Check that:'' @ nl
        @ ''  - The host is correct'' @ nl @ ''  - SSH is running on port '' @ itoa (cl_Port cfg) @ nl
        @ ''  - Firewall allows connections''
      else if contains_ci errStr ''no route to host'' \<or> contains_ci errStr ''network is unreachable'' then
        ''cannot reach '' @ cl_Host cfg @ nl @ nl
        @ ''Check your network connection and that the host is correct''
      else if contains_ci errStr ''permission denied'' \<or> contains_ci errStr ''authentication failed'' then
        auth_failed_advice cfg
      else if contains_ci errStr ''key is unknown'' then unknown_host_advice (cl_Host cfg)
      else if contains_ci errStr ''key mismatch'' then changed_host_advice (cl_Host cfg)
      else if contains_ci errStr ''key is revoked'' then revoked_host_advice (cl_Host cfg)
      else ''SSH connect to '' @ ssh_addr cfg @ '': '' @ errStr)"

text \<open>
  What one attempt meets: the error of \<open>ssh.Dial\<close>, of the local listener and of \<open>grpc.NewClient\<close>, and
  whether the caller's context has ended after the attempt or while waiting for the next one.
\<close>

record attempt_io =
  ai_dial :: "string option"
  ai_listen :: "string option"
  ai_grpc :: "string option"
  ai_ctx :: "string option"
  ai_wait :: "string option"

text \<open>A connected client: the port the tunnel leads to and the token sent with every call.\<close>

record cli_client =
  cn_daemonPort :: int
  cn_token :: string

definition defaultDaemonPort :: int where "defaultDaemonPort = 50051"

definition connectWith :: "client_config \<Rightarrow> attempt_io \<Rightarrow> string + cli_client" where
  "connectWith cfg io =
     (case ai_dial io of
        Some e \<Rightarrow> Inl (dial_error cfg e)
      | None \<Rightarrow>
          (case ai_listen io of
             Some e \<Rightarrow> Inl (''local listener: '' @ e)
           | None \<Rightarrow>
               (case ai_grpc io of
                  Some e \<Rightarrow> Inl (''gRPC connect: '' @ e)
                | None \<Rightarrow>
                    Inr \<lparr>cn_daemonPort = (if cl_DaemonPort cfg \<le> 0 then defaultDaemonPort else cl_DaemonPort cfg),
                         cn_token = cl_AuthToken cfg\<rparr>)))"

section \<open>Retries\<close>

definition maxRetries :: nat where "maxRetries = 3"
definition initialBackoff :: time where "initialBackoff = 1 * second"

datatype connect_event = Dial | WaitFor time

text \<open>The loop of \<open>ConnectWithRetry\<close>, with what it does: its dials and its waits.\<close>

function connect_loop ::
  "client_config \<Rightarrow> (nat \<Rightarrow> attempt_io) \<Rightarrow> nat \<Rightarrow> time \<Rightarrow> string \<Rightarrow> (string + cli_client) \<times> connect_event list" where
  "connect_loop cfg io attempt backoff lastErr =
     (if maxRetries < attempt then
        (Inl (''failed after '' @ itoa (int maxRetries) @ '' attempts: '' @ lastErr), [])
      else case connectWith cfg (io attempt) of
        Inr c \<Rightarrow> (Inr c, [Dial])
      | Inl err \<Rightarrow>
          if isPermanentError err then (Inl err, [Dial])
          else (case ai_ctx (io attempt) of
            Some e \<Rightarrow> (Inl e, [Dial])
          | None \<Rightarrow>
              if attempt < maxRetries then
                (case ai_wait (io attempt) of
                   Some e \<Rightarrow> (Inl e, [Dial, WaitFor backoff])
                 | None \<Rightarrow>
                     let (r, es) = connect_loop cfg io (attempt + 1) (backoff * 2) err
                     in (r, Dial # WaitFor backoff # es))
              else
                let (r, es) = connect_loop cfg io (attempt + 1) backoff err in (r, Dial # es)))"
  by pat_completeness auto
termination by (relation "measure (\<lambda>(cfg, io, attempt, backoff, e). Suc maxRetries - attempt)") auto

declare connect_loop.simps [simp del]

definition ConnectWithRetry ::
  "'k key_io \<Rightarrow> client_config \<Rightarrow> (nat \<Rightarrow> attempt_io) \<Rightarrow> (string + cli_client) \<times> connect_event list" where
  "ConnectWithRetry keys cfg io =
     (case buildSSHConfig keys cfg of
        Inl e \<Rightarrow> (Inl (''SSH config: '' @ e), [])
      | Inr _ \<Rightarrow> connect_loop cfg io 1 initialBackoff [])"

section \<open>The token\<close>

text \<open>
  The values of the authorization header of a call: \<open>localDialOptions\<close> adds the credentials only for a
  token that is not empty.
\<close>

definition GetRequestMetadata :: "string \<Rightarrow> (string \<times> string) list" where
  "GetRequestMetadata token = [(''authorization'', ''Bearer '' @ token)]"

definition client_metadata :: "string \<Rightarrow> string list option" where
  "client_metadata token =
     Some (if token \<noteq> [] then map snd (GetRequestMetadata token) else [])"

definition LocalAuthToken ::
  "(bytes \<Rightarrow> config \<Rightarrow> string + config) \<Rightarrow> (string \<Rightarrow> file_read) \<Rightarrow> string option \<Rightarrow> string" where
  "LocalAuthToken unmarshal read home =
     (case LoadConfig unmarshal read home of Inl e \<Rightarrow> [] | Inr c \<Rightarrow> AuthToken c)"

section \<open>Facts about the search\<close>

text \<open>The letters of ASCII, spelled out, so that the case of a text is quick to evaluate.\<close>

lemma lower_byte_table [code]:
  "lower_byte c = (case map_of (zip ''ABCDEFGHIJKLMNOPQRSTUVWXYZ'' ''abcdefghijklmnopqrstuvwxyz'') c of
     Some d \<Rightarrow> d | None \<Rightarrow> c)"
proof (cases "65 \<le> bval c \<and> bval c \<le> 90")
  case True
  then have c: "bval c \<in> set [65..<91]" unfolding set_upt by simp
  have "\<forall>n \<in> set [65..<91]. map_of (zip ''ABCDEFGHIJKLMNOPQRSTUVWXYZ'' ''abcdefghijklmnopqrstuvwxyz'') (char_of n)
      = Some (char_of (n + 32))"
    by code_simp
  from bspec [OF this c] show ?thesis using True by (simp add: lower_byte_def bval_def)
next
  case False
  then have "c \<notin> set ''ABCDEFGHIJKLMNOPQRSTUVWXYZ''" by (auto simp: bval_def)
  then have "map_of (zip ''ABCDEFGHIJKLMNOPQRSTUVWXYZ'' ''abcdefghijklmnopqrstuvwxyz'') c = None"
    by (simp add: map_of_zip_is_None)
  with False show ?thesis by (auto simp: lower_byte_def)
qed

lemma str_contains_iff: "str_contains s p \<longleftrightarrow> (\<exists>a b. s = a @ p @ b)"
proof (induction s)
  case (Cons c s)
  note IH = Cons.IH
  show ?case
  proof
    assume *: "str_contains (c # s) p"
    show "\<exists>a b. c # s = a @ p @ b"
    proof (cases "has_prefix (c # s) p")
      case True
      then obtain b where "c # s = [] @ p @ b" by (auto simp: has_prefix_iff)
      then show ?thesis by blast
    next
      case False
      with * IH obtain a b where "s = a @ p @ b" by auto
      then have "c # s = (c # a) @ p @ b" by simp
      then show ?thesis by blast
    qed
  next
    assume "\<exists>a b. c # s = a @ p @ b"
    then obtain a b where ab: "c # s = a @ p @ b" by blast
    show "str_contains (c # s) p"
    proof (cases a)
      case Nil
      with ab have "has_prefix (c # s) p" by (auto simp: has_prefix_iff)
      then show ?thesis by simp
    next
      case (Cons x a')
      with ab have "s = a' @ p @ b" by simp
      with IH have "str_contains s p" by blast
      then show ?thesis by simp
    qed
  qed
qed simp

lemma sub_at:
  "list_all (\<lambda>j. s ! (i + j) = p ! j) [0..<length p] \<longleftrightarrow> take (length p) (drop i s) = p"
  if "i + length p \<le> length s"
proof -
  have "take (length p) (drop i s) = p \<longleftrightarrow> (\<forall>j < length p. s ! (i + j) = p ! j)"
    using that by (subst list_eq_iff_nth_eq) (auto simp: min_def)
  then show ?thesis by (auto simp: list_all_iff)
qed

lemma bytesContains_iff: "bytesContains s p \<longleftrightarrow> str_contains s p"
proof
  assume *: "bytesContains s p"
  show "str_contains s p"
  proof (cases "p = []")
    case False
    with * obtain i where i: "length p \<le> length s" "i < Suc (length s - length p)"
      "list_all (\<lambda>j. s ! (i + j) = p ! j) [0..<length p]"
      by (auto simp: bytesContains_def list_ex_iff simp del: upt_Suc)
    then have "i + length p \<le> length s" by simp
    with i(3) have "take (length p) (drop i s) = p" by (simp only: sub_at)
    then have "s = take i s @ p @ drop (length p) (drop i s)"
      by (metis append_take_drop_id)
    then show ?thesis unfolding str_contains_iff by blast
  qed (auto simp: str_contains_iff)
next
  assume "str_contains s p"
  then obtain a b where s: "s = a @ p @ b" by (auto simp: str_contains_iff)
  then have "length a + length p \<le> length s" "take (length p) (drop (length a) s) = p" by simp_all
  then show "bytesContains s p"
    by (auto simp: bytesContains_def list_ex_iff sub_at simp del: upt_Suc intro!: bexI [of _ "length a"])
qed

lemma contains_ci_iff [code]: "contains_ci s p \<longleftrightarrow> str_contains (map lower_byte s) (map lower_byte p)"
  by (simp add: contains_ci_def bytesContains_iff)

lemma has_prefix_rec [code]:
  "has_prefix s [] = True" "has_prefix [] (d # p) = False" "has_prefix (c # s) (d # p) = (c = d \<and> has_prefix s p)"
  by (simp_all add: has_prefix_def)

lemma contains_ci_within: "contains_ci s p \<Longrightarrow> contains_ci (a @ s @ b) p"
  by (auto simp: contains_ci_iff str_contains_iff) (metis append.assoc)

lemma contains_ci_self: "contains_ci p p"
  unfolding contains_ci_iff str_contains_iff by (metis append_Nil append_Nil2)

lemma contains_ci_here [simp]: "contains_ci (p @ b) p" "contains_ci (a @ p) p" "contains_ci (a @ p @ b) p"
  using contains_ci_within [OF contains_ci_self, of "[]" p b] contains_ci_within [OF contains_ci_self, of a p "[]"]
    contains_ci_within [OF contains_ci_self, of a p b] by simp_all

lemma isPermanentErrorI: "p \<in> set permanentPatterns \<Longrightarrow> contains_ci s p \<Longrightarrow> isPermanentError s"
  by (auto simp: isPermanentError_def list_ex_iff)

section \<open>What an SSH connection is made with\<close>

text \<open>
  The host key is checked against \<open>known_hosts\<close> for every host that is not a loopback address,
  unless \<open>--insecure\<close> was given, and there is always something to authenticate with: the explicit
  key, or the first default key that loads, then the password.
\<close>
lemma buildSSHConfig_checked:
  "buildSSHConfig io cfg = Inr sc \<Longrightarrow>
     (sc_HostKey sc = IgnoreHostKey \<longleftrightarrow> cl_InsecureHostKey cfg \<or> isLoopback (ki_loopback6 io) (cl_Host cfg))
     \<and> sc_Auth sc \<noteq> [] \<and> sc_User sc = cl_User cfg
     \<and> (cl_Password cfg \<noteq> [] \<longleftrightarrow> SshPassword (cl_Password cfg) \<in> set (sc_Auth sc))
     \<and> (cl_KeyPath cfg \<noteq> [] \<longrightarrow> (\<exists>k. loadPrivateKey io (cl_KeyPath cfg) = Inr k \<and> hd (sc_Auth sc) = PublicKeys k))"
  by (auto simp: buildSSHConfig_def Let_def split: sum.splits option.splits prod.splits if_splits)

section \<open>The retries\<close>

text \<open>How attempt \<open>n\<close> ends the loop; \<open>None\<close> where another attempt follows if there is one left.\<close>

definition attempt_end :: "client_config \<Rightarrow> attempt_io \<Rightarrow> (string + cli_client) option" where
  "attempt_end cfg io =
     (case connectWith cfg io of
        Inr c \<Rightarrow> Some (Inr c)
      | Inl err \<Rightarrow> if isPermanentError err then Some (Inl err) else map_option Inl (ai_ctx io))"

definition attempt_error :: "client_config \<Rightarrow> attempt_io \<Rightarrow> string" where
  "attempt_error cfg io = (case connectWith cfg io of Inl e \<Rightarrow> e | Inr _ \<Rightarrow> [])"

lemma connect_loop_step:
  "connect_loop cfg io n b e =
     (if 3 < n then (Inl (''failed after '' @ itoa 3 @ '' attempts: '' @ e), [])
      else case attempt_end cfg (io n) of
        Some r \<Rightarrow> (r, [Dial])
      | None \<Rightarrow>
          if n < 3 then
            (case ai_wait (io n) of
               Some e \<Rightarrow> (Inl e, [Dial, WaitFor b])
             | None \<Rightarrow> let (r, es) = connect_loop cfg io (n + 1) (b * 2) (attempt_error cfg (io n))
                       in (r, Dial # WaitFor b # es))
          else let (r, es) = connect_loop cfg io (n + 1) b (attempt_error cfg (io n)) in (r, Dial # es))"
  by (subst connect_loop.simps)
     (simp add: attempt_end_def attempt_error_def maxRetries_def split: sum.split option.split)

lemma connect_with_retry_unrolled:
  "ConnectWithRetry keys cfg io =
     (case buildSSHConfig keys cfg of
        Inl e \<Rightarrow> (Inl (''SSH config: '' @ e), [])
      | Inr _ \<Rightarrow>
        (case attempt_end cfg (io 1) of
           Some r \<Rightarrow> (r, [Dial])
         | None \<Rightarrow> (case ai_wait (io 1) of
           Some e \<Rightarrow> (Inl e, [Dial, WaitFor (1 * second)])
         | None \<Rightarrow> (case attempt_end cfg (io 2) of
           Some r \<Rightarrow> (r, [Dial, WaitFor (1 * second), Dial])
         | None \<Rightarrow> (case ai_wait (io 2) of
           Some e \<Rightarrow> (Inl e, [Dial, WaitFor (1 * second), Dial, WaitFor (2 * second)])
         | None \<Rightarrow>
           (case attempt_end cfg (io 3) of
              Some r \<Rightarrow> r
            | None \<Rightarrow> Inl (''failed after 3 attempts: '' @ attempt_error cfg (io 3)),
            [Dial, WaitFor (1 * second), Dial, WaitFor (2 * second), Dial]))))))"
proof -
  have three: "connect_loop cfg io 3 b e =
      (case attempt_end cfg (io 3) of Some r \<Rightarrow> r
       | None \<Rightarrow> Inl (''failed after 3 attempts: '' @ attempt_error cfg (io 3)), [Dial])" for b e
  proof -
    have "connect_loop cfg io 4 b e = (Inl (''failed after 3 attempts: '' @ e), [])" for b e
      by (subst connect_loop_step) (simp add: itoa_def itoa_nat.simps digit_char_def)
    then show ?thesis by (subst connect_loop_step) (simp split: option.split)
  qed
  have two: "connect_loop cfg io 2 b e =
      (case attempt_end cfg (io 2) of Some r \<Rightarrow> (r, [Dial])
       | None \<Rightarrow> (case ai_wait (io 2) of Some e \<Rightarrow> (Inl e, [Dial, WaitFor b])
       | None \<Rightarrow> (case attempt_end cfg (io 3) of Some r \<Rightarrow> r
           | None \<Rightarrow> Inl (''failed after 3 attempts: '' @ attempt_error cfg (io 3)), [Dial, WaitFor b, Dial])))" for b e
    using three by (subst connect_loop_step) (simp split: option.split)
  have one: "connect_loop cfg io 1 b e =
      (case attempt_end cfg (io 1) of Some r \<Rightarrow> (r, [Dial])
       | None \<Rightarrow> (case ai_wait (io 1) of Some e \<Rightarrow> (Inl e, [Dial, WaitFor b])
       | None \<Rightarrow> (let (r, es) = connect_loop cfg io 2 (b * 2) (attempt_error cfg (io 1))
                  in (r, Dial # WaitFor b # es))))" for b e
    by (subst connect_loop_step) (simp add: numeral_2_eq_2 split: option.split)
  show ?thesis
    by (simp add: ConnectWithRetry_def initialBackoff_def one [unfolded One_nat_def] two split: sum.split option.split)
qed

text \<open>
  C39: connecting ends, after at most three attempts with waits of one and two seconds between them,
  and connects exactly if one of the three attempts connects and those before it failed with errors
  worth another try while the caller had not given up; the client is the one of that attempt, which is
  the last. No attempt follows one that ended the matter.
\<close>
theorem connect_with_retry_ends:
  "(\<exists>k. snd (ConnectWithRetry keys cfg io) = take k [Dial, WaitFor (1 * second), Dial, WaitFor (2 * second), Dial])
   \<and> (fst (ConnectWithRetry keys cfg io) = Inr c \<longleftrightarrow>
        (\<exists>sc. buildSSHConfig keys cfg = Inr sc)
        \<and> (\<exists>n \<in> {1, 2, 3}. connectWith cfg (io n) = Inr c
             \<and> length (filter (\<lambda>e. e = Dial) (snd (ConnectWithRetry keys cfg io))) = n
             \<and> (\<forall>m \<in> {1..<n}. attempt_end cfg (io m) = None \<and> ai_wait (io m) = None)))
   \<and> (\<forall>n \<in> {1, 2, 3}. attempt_end cfg (io n) \<noteq> None \<longrightarrow>
        length (filter (\<lambda>e. e = Dial) (snd (ConnectWithRetry keys cfg io))) \<le> n)"
proof -
  let ?es = "snd (ConnectWithRetry keys cfg io)"
  let ?all = "[Dial, WaitFor (1 * second), Dial, WaitFor (2 * second), Dial]"
  have end_Inr: "attempt_end cfg x = Some (Inr c) \<longleftrightarrow> connectWith cfg x = Inr c" for x
    by (simp add: attempt_end_def split: sum.split)
  have connect_end: "connectWith cfg x = Inr c \<Longrightarrow> attempt_end cfg x = Some (Inr c)" for x
    by (simp add: end_Inr)
  have trace: "?es \<in> {take 0 ?all, take 1 ?all, take 2 ?all, take 3 ?all, take 4 ?all, take 5 ?all}"
    by (simp add: connect_with_retry_unrolled eval_nat_numeral split: sum.split option.split)
  have upto: "{Suc 0..<Suc 0} = {}" "{Suc 0..<2} = {Suc 0}" "{Suc 0..<3} = {Suc 0, 2}" by auto
  have "fst (ConnectWithRetry keys cfg io) = Inr c \<longleftrightarrow>
        (\<exists>sc. buildSSHConfig keys cfg = Inr sc)
        \<and> (\<exists>n \<in> {1, 2, 3}. connectWith cfg (io n) = Inr c \<and> length (filter (\<lambda>e. e = Dial) ?es) = n
             \<and> (\<forall>m \<in> {1..<n}. attempt_end cfg (io m) = None \<and> ai_wait (io m) = None))"
    unfolding connect_with_retry_unrolled using end_Inr [of "io 1"] end_Inr [of "io 2"] end_Inr [of "io 3"]
    by (cases "buildSSHConfig keys cfg"; cases "attempt_end cfg (io 1)"; cases "ai_wait (io 1)";
        cases "attempt_end cfg (io 2)"; cases "ai_wait (io 2)"; cases "attempt_end cfg (io 3)")
       (simp_all add: upto)
  moreover have "\<forall>n \<in> {1, 2, 3}. attempt_end cfg (io n) \<noteq> None \<longrightarrow> length (filter (\<lambda>e. e = Dial) ?es) \<le> n"
    unfolding connect_with_retry_unrolled
    by (simp split: sum.split option.split)
  ultimately show ?thesis using trace by blast
qed

definition sample_keys :: "string key_io" where
  "sample_keys = \<lparr>ki_read = (\<lambda>p. FileData ''key''), ki_parse = KeyOk, ki_parse_with = (\<lambda>k p. Inr k),
     ki_prompt = (\<lambda>p. Inr ''pass''), ki_home = Some ''/h'', ki_known_hosts = (\<lambda>p. Inr ()), ki_loopback6 = (\<lambda>h. False)\<rparr>"

definition sample_client :: client_config where
  "sample_client = \<lparr>cl_Host = ''example.org'', cl_Port = 22, cl_User = ''me'', cl_KeyPath = ''/k'', cl_Password = [],
     cl_InsecureHostKey = False, cl_DaemonPort = 0, cl_AuthToken = ''tok''\<rparr>"

definition sample_attempt :: "string option \<Rightarrow> string option \<Rightarrow> attempt_io" where
  "sample_attempt dial listen = \<lparr>ai_dial = dial, ai_listen = listen, ai_grpc = None, ai_ctx = None, ai_wait = None\<rparr>"

lemma connect_with_retry_ends_witness:
  "length (filter (\<lambda>e. e = Dial) (snd (ConnectWithRetry sample_keys sample_client
     (\<lambda>n. sample_attempt None (if n = 1 then Some ''busy'' else None))))) \<le> 2"
proof -
  let ?io = "\<lambda>n :: nat. sample_attempt None (if n = 1 then Some ''busy'' else None)"
  have "attempt_end sample_client (?io 2) \<noteq> None"
    by (simp add: attempt_end_def connectWith_def sample_attempt_def)
  then show ?thesis
    using connect_with_retry_ends [of sample_keys sample_client ?io] by blast
qed

text \<open>
  A host key that is unknown, changed or revoked, and rejected credentials, are reported at once and
  never tried again, whatever the host, the user and the rest of the error text.
\<close>

lemma isPermanentError_within: "isPermanentError s \<Longrightarrow> isPermanentError (s @ b)" "isPermanentError s \<Longrightarrow> isPermanentError (a @ s)"
  using contains_ci_within [of s _ "[]" b] contains_ci_within [of s _ a "[]"]
  by (auto simp: isPermanentError_def list_ex_iff)

lemma permanent_literals:
  "isPermanentError ''SSH authentication failed to ''"
  "isPermanentError '' not in ~/.ssh/known_hosts''"
  "isPermanentError ''If the server was reinstalled, update ~/.ssh/known_hosts:''"
  "isPermanentError '' has been revoked in ~/.ssh/known_hosts''"
  by code_simp+

lemma advice_permanent:
  "isPermanentError (auth_failed_advice cfg)" "isPermanentError (unknown_host_advice h)"
  "isPermanentError (changed_host_advice h)" "isPermanentError (revoked_host_advice h)"
  unfolding auth_failed_advice_def unknown_host_advice_def changed_host_advice_def revoked_host_advice_def
  by (rule permanent_literals | rule permanent_literals [THEN isPermanentError_within(1)]
      | rule isPermanentError_within(2))+

lemma dial_error_permanent:
  assumes "list_ex (contains_ci e)
      [''permission denied'', ''authentication failed'', ''key is unknown'', ''key mismatch'', ''key is revoked'']"
    and "\<not> list_ex (contains_ci e) [''connection refused'', ''no route to host'', ''network is unreachable'']"
  shows "isPermanentError (dial_error cfg e)"
  using assms advice_permanent by (auto simp: dial_error_def)

text \<open>
  An unknown, changed or revoked host key and rejected credentials are reported at once. Where the
  text of the failed dial has one of the patterns for them and none of the patterns for an unreachable
  host, there is no second attempt, and the answer is the advice for the error, which starts by saying
  what was rejected.
\<close>
lemma rejection_is_not_retried:
  assumes "buildSSHConfig keys cfg = Inr sc" and "ai_dial (io 1) = Some e"
    and "list_ex (contains_ci e)
      [''permission denied'', ''authentication failed'', ''key is unknown'', ''key mismatch'', ''key is revoked'']"
    and "\<not> list_ex (contains_ci e) [''connection refused'', ''no route to host'', ''network is unreachable'']"
  shows "\<exists>advice \<in> {auth_failed_advice cfg, unknown_host_advice (cl_Host cfg), changed_host_advice (cl_Host cfg),
                 revoked_host_advice (cl_Host cfg)}.
      ConnectWithRetry keys cfg io = (Inl advice, [Dial])"
proof -
  have "attempt_end cfg (io 1) = Some (Inl (dial_error cfg e))"
    using dial_error_permanent [OF assms(3,4)] assms(2) by (simp add: attempt_end_def connectWith_def)
  then have "ConnectWithRetry keys cfg io = (Inl (dial_error cfg e), [Dial])"
    using assms(1) by (simp add: connect_with_retry_unrolled)
  moreover have "dial_error cfg e \<in> {auth_failed_advice cfg, unknown_host_advice (cl_Host cfg),
      changed_host_advice (cl_Host cfg), revoked_host_advice (cl_Host cfg)}"
    using assms(3,4) by (auto simp: dial_error_def)
  ultimately show ?thesis by blast
qed

lemma rejection_is_not_retried_witness:
  "snd (ConnectWithRetry sample_keys sample_client
     (\<lambda>n. sample_attempt (Some ''ssh: handshake failed: knownhosts: key mismatch'') None)) = [Dial]"
proof -
  let ?e = "''ssh: handshake failed: knownhosts: key mismatch''"
  have sc: "buildSSHConfig sample_keys sample_client = Inr \<lparr>sc_User = ''me'', sc_Auth = [PublicKeys ''key''],
      sc_HostKey = KnownHosts ''/h/.ssh/known_hosts''\<rparr>"
    by code_simp
  have dial: "ai_dial (sample_attempt (Some ?e) None) = Some ?e" by (simp add: sample_attempt_def)
  have yes: "list_ex (contains_ci ?e)
      [''permission denied'', ''authentication failed'', ''key is unknown'', ''key mismatch'', ''key is revoked'']"
    by code_simp
  have no: "\<not> list_ex (contains_ci ?e) [''connection refused'', ''no route to host'', ''network is unreachable'']"
    by code_simp
  show ?thesis
    using rejection_is_not_retried [OF sc, of "\<lambda>n. sample_attempt (Some ?e) None", OF dial yes no] by auto
qed

text \<open>
  The text of the SSH library for credentials it could not use has none of the patterns, so a wrong
  key or password is tried three times and reported without the advice.
\<close>
lemma unable_to_authenticate_is_retried:
  "\<not> isPermanentError (dial_error sample_client
     ''ssh: handshake failed: ssh: unable to authenticate, attempted methods [none publickey], no supported methods remain'')"
  by code_simp

section \<open>The token\<close>

text \<open>
  C34: the token reaches the daemon as it was configured. A call of a client with some token is let
  through to the handler exactly if the daemon asks for no token or for this one, even a token that
  itself starts with \<open>Bearer\<close> or is not sent at all because it is empty; any other call is answered
  \<open>Unauthenticated\<close> and changes nothing. In particular a local client, which takes the token from the
  daemon's own file, is always let in by a daemon that was started with this file.
\<close>
theorem client_token_accepted:
  "(AuthToken c \<in> {[], token} \<longrightarrow> intercepted c (client_metadata token) handler s = handler s)
   \<and> (AuthToken c \<notin> {[], token} \<longrightarrow>
        (\<exists>msg. intercepted c (client_metadata token) handler s = (s, Inl (Unauthenticated, msg))))
   \<and> (LoadConfig unmarshal read home = Inr c \<longrightarrow>
        intercepted c (client_metadata (LocalAuthToken unmarshal read home)) handler s = handler s)"
  by (auto simp: intercepted_def validateAuth_def client_metadata_def GetRequestMetadata_def bearer_def
      LocalAuthToken_def)

lemma client_token_accepted_witness:
  "intercepted ((DefaultConfig ''/h'')\<lparr>AuthToken := ''Bearer x''\<rparr>) (client_metadata ''Bearer x'')
      (\<lambda>n :: nat. (Suc n, Inr n)) 4 = (5, Inr 4)
   \<and> intercepted (DefaultConfig []) (client_metadata (LocalAuthToken (\<lambda>d c. Inr c) (\<lambda>p. FileMissing) None))
      (\<lambda>n :: nat. (Suc n, Inr n)) 4 = (5, Inr 4)"
  using client_token_accepted [of "(DefaultConfig ''/h'')\<lparr>AuthToken := ''Bearer x''\<rparr>" "''Bearer x''"
      "\<lambda>n :: nat. (Suc n, Inr n)" 4 "\<lambda>d c. Inr c" "\<lambda>p. FileMissing" None]
    client_token_accepted [of "DefaultConfig []" "[]"
      "\<lambda>n :: nat. (Suc n, Inr n)" 4 "\<lambda>d c. Inr c" "\<lambda>p. FileMissing" None]
  by (simp add: LoadConfig_def DefaultConfigPath_def DataDir_def)

end
