(* ===== verification/Cli_Base.thy ===== *)
theory Cli_Base
  imports Cli_Client Servicemgr Stream_Scanner
begin

text \<open>
  What the commands of the command line tool share, \<open>internal/cli/cmd/helpers.go\<close> and \<open>root.go\<close>: the
  global flags, the choice of the daemon to talk to and the advice when there is none, the matching
  of ids and names by a prefix, and the detach keys of an attached terminal.
\<close>

section \<open>Small helpers\<close>

definition hostFlag :: "string \<Rightarrow> string" where
  "hostFlag label = (if label = [] then [] else '' -H '' @ label)"

definition shortID :: "string \<Rightarrow> string" where
  "shortID i = (if 8 < length i then take 8 i else i)"

definition pidLabel :: "int \<Rightarrow> string" where
  "pidLabel pid = (if 0 < pid then ''pid '' @ itoa pid else ''pid unknown (pre-1.4.0 daemon)'')"

text \<open>\<open>max\<close> is at least 3 at every call; the source slices with a negative bound, a panic, below that.\<close>

definition cli_truncate :: "string \<Rightarrow> nat \<Rightarrow> string" where
  "cli_truncate s n = (if length s \<le> n then s else take (n - 3) s @ ''...'')"

text \<open>
  \<open>strings.EqualFold\<close>: for ASCII strings equality up to the case of letters; for other strings it needs
  the tables of Unicode, which are the argument \<open>ufold\<close>.
\<close>

definition ascii :: "string \<Rightarrow> bool" where
  "ascii s \<longleftrightarrow> list_all (\<lambda>c. bval c < 128) s"

definition EqualFold :: "(string \<Rightarrow> string \<Rightarrow> bool) \<Rightarrow> string \<Rightarrow> string \<Rightarrow> bool" where
  "EqualFold ufold s t =
     (if ascii s \<and> ascii t then map lower_byte s = map lower_byte t else ufold s t)"

section \<open>The daemon to talk to\<close>

record cli_globals =
  gl_host :: string
  gl_port :: "int option"
  gl_user :: "string option"
  gl_key :: string
  gl_password :: "(string + string) option"
  gl_insecure :: bool
  gl_socket :: string
  gl_daemonPort :: int

text \<open>
  \<open>resolveConfig\<close>: \<open>-P\<close> and \<open>-u\<close> count only where they were given, and \<open>-p\<close> asks for the password;
  \<open>Inl\<close> is the exit after a failed prompt.
\<close>

definition resolveConfig ::
  "cli_globals \<Rightarrow> (string \<Rightarrow> string) \<Rightarrow> string option \<Rightarrow> cli_config \<Rightarrow> string + resolved" where
  "resolveConfig g getenv home cfg =
     (case gl_password g of
        Some (Inl e) \<Rightarrow> Inl (''Error reading password: '' @ e)
      | pw \<Rightarrow>
          Inr (Resolve getenv home cfg
            \<lparr>fl_Host = gl_host g, fl_User = (case gl_user g of Some u \<Rightarrow> u | None \<Rightarrow> []), fl_Key = gl_key g,
             fl_Password = (case pw of Some (Inr p) \<Rightarrow> p | _ \<Rightarrow> []),
             fl_Port = (case gl_port g of Some p \<Rightarrow> p | None \<Rightarrow> 0), fl_DaemonPort = gl_daemonPort g\<rparr>))"

datatype socket_probe = ProbeOk | ProbeRefused | ProbeMissing | ProbeError string

text \<open>
  The surroundings of a command: its environment and files, the machine as the service detection sees
  it, what a probe of a socket and \<open>grpc.NewClient\<close> answer, and what the SSH attempts meet.
\<close>

record 'k cli_world =
  cw_getenv :: "string \<Rightarrow> string"
  cw_home :: "string option"
  cw_config :: cli_config
  cw_daemon_config :: "string + config"
  cw_probe :: "string \<Rightarrow> socket_probe"
  cw_grpc :: "string \<Rightarrow> string option"
  cw_keys :: "'k key_io"
  cw_attempts :: "nat \<Rightarrow> attempt_io"
  cw_machine :: machine

definition InstallCommand :: string where
  "InstallCommand = ''curl -fsSL https://hqssh.com/install | sh''"

definition localSocketPath :: "'k cli_world \<Rightarrow> string \<Rightarrow> string" where
  "localSocketPath w socket =
     (if socket \<noteq> [] then socket
      else case cw_daemon_config w of
        Inr c \<Rightarrow> if Socket c \<noteq> [] then Socket c else DefaultSocketPath
      | Inl _ \<Rightarrow> DefaultSocketPath)"

definition DefaultTCPAddr :: string where "DefaultTCPAddr = ''127.0.0.1:50051''"

definition localTCPAddr :: "'k cli_world \<Rightarrow> string" where
  "localTCPAddr w =
     (case cw_daemon_config w of
        Inl _ \<Rightarrow> DefaultTCPAddr
      | Inr c \<Rightarrow> if TCPPort c \<le> 0 then [] else ''127.0.0.1:'' @ itoa (TCPPort c))"

definition localDaemonHint :: "machine \<Rightarrow> string" where
  "localDaemonHint m =
     (case DetectService m of
        Some svc \<Rightarrow>
          ''Local:   hqssh service start                    # start the installed ''
            @ kind_String (sv_Kind svc) @ '' service'' @ nl
          @ ''         hqssh doctor                           # diagnose'' @ nl
      | None \<Rightarrow>
          ''Local:   hqsshd                                 # run the daemon in the foreground'' @ nl
          @ ''         '' @ InstallCommand @ ''   # install it as a background service'' @ nl)
     @ ''Remote:  hqssh sessions -H server.example.com   # or config file / HQSSH_HOST'' @ nl
     @ ''Socket:  hqssh sessions -S /path/to/hqssh.sock''"

definition probeLocalSocket :: "'k cli_world \<Rightarrow> string \<Rightarrow> string option" where
  "probeLocalSocket w path =
     (case cw_probe w path of
        ProbeOk \<Rightarrow> None
      | ProbeRefused \<Rightarrow>
          Some (''daemon socket '' @ path @ '' exists but nothing is listening (connection refused)'' @ nl @ nl
            @ ''The daemon crashed, was killed, or is restarting. Diagnose with:'' @ nl
            @ ''  hqssh doctor'' @ nl @ ''  hqssh service status'')
      | ProbeError e \<Rightarrow> Some (''daemon socket '' @ path @ '': '' @ e @ nl @ nl @ ''Diagnose with: hqssh doctor'')
      | ProbeMissing \<Rightarrow>
          Some (''no daemon found (nothing at '' @ path @ '')'' @ nl @ nl @ localDaemonHint (cw_machine w)))"

text \<open>A connection: through a Unix socket, or through an SSH tunnel; with the token it sends.\<close>

datatype daemon_conn = ViaSocket string string | ViaTunnel cli_client

text \<open>\<open>ConnectLocal\<close> with \<open>LocalAuthToken\<close>.\<close>

definition ConnectLocal :: "'k cli_world \<Rightarrow> string \<Rightarrow> string + daemon_conn" where
  "ConnectLocal w path =
     (case cw_grpc w path of
        Some e \<Rightarrow> Inl (''gRPC connect to '' @ path @ '': '' @ e)
      | None \<Rightarrow> Inr (ViaSocket path (case cw_daemon_config w of Inl _ \<Rightarrow> [] | Inr c \<Rightarrow> AuthToken c)))"

definition tunnel_config :: "cli_globals \<Rightarrow> resolved \<Rightarrow> client_config" where
  "tunnel_config g r =
     \<lparr>cl_Host = rs_Host r, cl_Port = rs_Port r, cl_User = rs_User r, cl_KeyPath = rs_Key r,
      cl_Password = rs_Password r, cl_InsecureHostKey = gl_insecure g, cl_DaemonPort = rs_DaemonPort r,
      cl_AuthToken = rs_AuthToken r\<rparr>"

text \<open>The connection and its host label, which is empty for a local daemon.\<close>

definition connectDaemon :: "'k cli_world \<Rightarrow> cli_globals \<Rightarrow> string + (daemon_conn \<times> string)" where
  "connectDaemon w g =
     (let local = (\<lambda>path what.
            case probeLocalSocket w path of
              Some e \<Rightarrow> Inl e
            | None \<Rightarrow>
                (case ConnectLocal w path of
                   Inl e \<Rightarrow> Inl (''connect to '' @ what @ '': '' @ e)
                 | Inr c \<Rightarrow> Inr (c, []))) in
      if gl_socket g \<noteq> [] then local (gl_socket g) (''socket '' @ gl_socket g)
      else case resolveConfig g (cw_getenv w) (cw_home w) (cw_config w) of
        Inl e \<Rightarrow> Inl e
      | Inr r \<Rightarrow>
          if rs_Host r \<noteq> [] then
            (case fst (ConnectWithRetry (cw_keys w) (tunnel_config g r) (cw_attempts w)) of
               Inl e \<Rightarrow> Inl (''connect: '' @ e)
             | Inr c \<Rightarrow> Inr (ViaTunnel c, rs_Host r))
          else local (localSocketPath w (gl_socket g)) ''local daemon'')"

section \<open>Ids by prefix\<close>

definition id_matches :: "string \<Rightarrow> string \<Rightarrow> bool" where
  "id_matches idPrefix i \<longleftrightarrow>
     i = idPrefix \<or> (length idPrefix \<le> length i \<and> take (length idPrefix) i = idPrefix)"

definition name_matches :: "(string \<Rightarrow> string \<Rightarrow> bool) \<Rightarrow> string \<Rightarrow> string \<Rightarrow> bool" where
  "name_matches ufold idPrefix name \<longleftrightarrow>
     length idPrefix \<le> length name \<and> EqualFold ufold (take (length idPrefix) name) idPrefix"

text \<open>
  The end of the \<open>resolve\<close> functions: none is an error, several are an error that lists them, and one
  is the answer.
\<close>

definition quoted :: "string \<Rightarrow> string" where "quoted s = [CHR 0x27] @ s @ [CHR 0x27]"

definition pick_match :: "string \<Rightarrow> string \<Rightarrow> string \<Rightarrow> ('a \<Rightarrow> string) \<Rightarrow> 'a list \<Rightarrow> string + 'a" where
  "pick_match what idPrefix missing show matches =
     (case matches of
        [] \<Rightarrow> Inl missing
      | [x] \<Rightarrow> Inr x
      | _ \<Rightarrow>
          Inl (''ambiguous '' @ what @ '' ID '' @ quoted idPrefix @ '' matches '' @ itoa (int (length matches))
            @ '' '' @ what @ ''s:'' @ nl @ concat (map (\<lambda>m. ''  '' @ show m @ nl) matches) @ nl
            @ ''Use a longer ID prefix to be specific''))"

lemma id_matches_iff: "id_matches p i \<longleftrightarrow> has_prefix i p"
  by (auto simp: id_matches_def has_prefix_iff) (metis append_take_drop_id)

lemma pick_match_Inr: "pick_match what p missing sh xs = Inr x \<longleftrightarrow> xs = [x]"
  by (cases xs rule: remdups_adj.cases) (auto simp: pick_match_def split: list.splits)

lemma pick_match_one [simp]: "pick_match what p missing sh [x] = Inr x"
  by (simp add: pick_match_def)

lemma pick_match_cases:
  obtains x where "xs = [x]" "pick_match what p missing sh xs = Inr x"
  | e where "length xs \<noteq> 1" "pick_match what p missing sh xs = Inl e"
  by (cases xs rule: remdups_adj.cases) (auto simp: pick_match_def)

section \<open>The detach keys\<close>

text \<open>
  \<open>detachScanner\<close>: \<open>armed\<close> says that a prefix byte was seen and is not resolved yet. The answer is
  what to forward and whether the chord was completed, which ends the scan.
\<close>

definition detachPrefix :: char where "detachPrefix = CHR 0x02"

fun scan :: "bool \<Rightarrow> bytes \<Rightarrow> bytes \<Rightarrow> bool \<times> bytes \<times> bool" where
  "scan armed [] send = (armed, send, False)"
| "scan armed (b # buf) send =
     (if armed then
        (if b = CHR ''d'' then (False, send, True)
         else if b = detachPrefix then scan False buf (send @ [detachPrefix])
         else scan False buf (send @ [detachPrefix, b]))
      else if b = detachPrefix then scan True buf send
      else scan False buf (send @ [b]))"

text \<open>
  The goroutine that reads the terminal. Before each read it looks whether the session has ended; a read
  gives bytes or fails; a message that cannot be sent ends it, and so does the chord.
\<close>

datatype stdin_event = StdinDone | StdinError | StdinRead bytes bool

datatype input_end = InputOpen | InputClosed | InputDetached

fun input_pump :: "bool \<Rightarrow> stdin_event list \<Rightarrow> bytes list \<times> input_end" where
  "input_pump armed [] = ([], InputOpen)"
| "input_pump armed (StdinDone # evs) = ([], InputClosed)"
| "input_pump armed (StdinError # evs) = ([], InputClosed)"
| "input_pump armed (StdinRead buf sent # evs) =
     (let (armed, send, detach) = scan armed buf [] in
      if send \<noteq> [] \<and> \<not> sent then ([], InputClosed)
      else if detach then (if send = [] then [] else [send], InputDetached)
      else let (msgs, e) = input_pump armed evs in ((if send = [] then [] else [send]) @ msgs, e))"

text \<open>What the keys mean, without any reading or chunks.\<close>

fun typed :: "bytes \<Rightarrow> bytes \<times> bool" where
  "typed [] = ([], False)"
| "typed [b] = (if b = detachPrefix then [] else [b], False)"
| "typed (b # c # bs) =
     (if b \<noteq> detachPrefix then (let (s, d) = typed (c # bs) in (b # s, d))
      else if c = CHR ''d'' then ([], True)
      else if c = detachPrefix then (let (s, d) = typed bs in (detachPrefix # s, d))
      else (let (s, d) = typed bs in (detachPrefix # c # s, d)))"

text \<open>How to type any bytes: the prefix twice where it is meant itself.\<close>

definition type_out :: "bytes \<Rightarrow> bytes" where
  "type_out bs = concat (map (\<lambda>b. if b = detachPrefix then [b, b] else [b]) bs)"

lemma scan_send: "scan armed buf send = (let (a, s, d) = scan armed buf [] in (a, send @ s, d))"
proof (induction buf arbitrary: armed send)
  case (Cons b buf)
  show ?case
    using Cons.IH [of False "send @ [detachPrefix]"] Cons.IH [of False "[detachPrefix]"]
      Cons.IH [of False "send @ [detachPrefix, b]"] Cons.IH [of False "[detachPrefix, b]"]
      Cons.IH [of True send] Cons.IH [of False "send @ [b]"] Cons.IH [of False "[b]"]
    by (simp add: Let_def split: prod.splits)
qed simp

text \<open>
  After the chord nothing is scanned, so as a scanner of a stream the state is \<open>None\<close> from then on.
\<close>

definition scan_chunk :: "bool option \<Rightarrow> bytes \<Rightarrow> bool option \<times> bytes" where
  "scan_chunk st buf =
     (case st of
        None \<Rightarrow> (None, [])
      | Some armed \<Rightarrow> let (a, s, d) = scan armed buf [] in (if d then None else Some a, s))"

lemma scan_chunk_Nil: "scan_chunk st [] = (st, [])"
  by (simp add: scan_chunk_def split: option.split)

lemma scan_append:
  "scan armed (x @ y) [] =
     (let (a, s, d) = scan armed x [] in
      if d then (a, s, d) else let (a', s', d') = scan a y [] in (a', s @ s', d'))"
proof (induction x arbitrary: armed)
  case (Cons b x)
  show ?case
    using Cons.IH scan_send [of False "x @ y" "[detachPrefix]"] scan_send [of False x "[detachPrefix]"]
      scan_send [of False "x @ y" "[detachPrefix, b]"] scan_send [of False x "[detachPrefix, b]"]
      scan_send [of False "x @ y" "[b]"] scan_send [of False x "[b]"]
    by (simp add: Let_def split: prod.splits)
qed simp

lemma scan_chunk_append:
  "scan_chunk st (x @ y) =
     (let (s1, r1) = scan_chunk st x; (s2, r2) = scan_chunk s1 y in (s2, r1 @ r2))"
  by (simp add: scan_chunk_def scan_append Let_def split: option.split prod.split)

interpretation detach: stream_scanner scan_chunk "[]" "(@)"
  by unfold_locales (rule scan_chunk_Nil, rule scan_chunk_append)

lemma typed_plain: "b \<noteq> detachPrefix \<Longrightarrow> typed (b # r) = (b # fst (typed r), snd (typed r))"
  by (cases r) (simp_all add: case_prod_beta Let_def)

lemma typed_prefix:
  "typed (detachPrefix # c # r) =
     (if c = CHR ''d'' then ([], True)
      else ((if c = detachPrefix then [detachPrefix] else [detachPrefix, c]) @ fst (typed r), snd (typed r)))"
  by (simp add: case_prod_beta Let_def)

lemma scan_snd: "snd (scan armed buf send) = (send @ fst (snd (scan armed buf [])), snd (snd (scan armed buf [])))"
  by (subst scan_send) (simp add: case_prod_beta Let_def)

lemma prefix_not_d: "detachPrefix \<noteq> CHR ''d''"
  by (simp add: detachPrefix_def)

lemma scan_typed: "snd (scan armed buf []) = typed ((if armed then [detachPrefix] else []) @ buf)"
proof (induction buf arbitrary: armed)
  case (Cons b buf)
  have False_IH: "snd (scan False buf send) = (send @ fst (typed buf), snd (typed buf))" for send
    by (subst scan_snd) (simp add: Cons.IH)
  have True_IH: "snd (scan True buf []) = typed (detachPrefix # buf)"
    by (simp add: Cons.IH)
  show ?case
    by (cases armed; cases "b = detachPrefix"; cases "b = CHR ''d''")
      (simp_all add: False_IH True_IH typed_plain typed_prefix prefix_not_d del: typed.simps)
qed simp

lemma scan_chunk_Some: "scan armed b [] = (a, s, d) \<Longrightarrow> scan_chunk (Some armed) b = (if d then None else Some a, s)"
  by (simp add: scan_chunk_def)

lemma scan_chunk_None: "scan_chunk None b = (None, [])"
  by (simp add: scan_chunk_def)

lemma input_pump_run:
  "concat (fst (input_pump armed (map (\<lambda>b. StdinRead b True) bufs)))
     = snd (run_chunks scan_chunk [] (@) (Some armed) bufs)
   \<and> (snd (input_pump armed (map (\<lambda>b. StdinRead b True) bufs)) = InputDetached
        \<longleftrightarrow> fst (run_chunks scan_chunk [] (@) (Some armed) bufs) = None)"
proof (induction bufs arbitrary: armed)
  case (Cons b bufs)
  have none: "run_chunks scan_chunk [] (@) None bufs = (None, [])"
    using detach.run_chunks_concat [of None bufs] by (simp add: scan_chunk_def)
  obtain a s d where sc: "scan armed b [] = (a, s, d)" by (cases "scan armed b []") auto
  note ch = scan_chunk_Some [OF this]
  show ?case
    using Cons.IH [of a] by (cases d) (auto simp: sc ch none split: prod.splits)
qed simp

fun stdin_bytes :: "stdin_event list \<Rightarrow> bytes" where
  "stdin_bytes [] = []"
| "stdin_bytes (StdinRead buf sent # evs) = buf @ stdin_bytes evs"
| "stdin_bytes (_ # evs) = stdin_bytes evs"

lemma input_pump_prefix:
  "\<exists>r. snd (scan_chunk (Some armed) (stdin_bytes evs)) = concat (fst (input_pump armed evs)) @ r"
proof (induction evs arbitrary: armed rule: stdin_bytes.induct)
  case (2 buf sent evs)
  obtain a s d where sc: "scan armed buf [] = (a, s, d)" by (cases "scan armed buf []") auto
  have app: "snd (scan_chunk (Some armed) (stdin_bytes (StdinRead buf sent # evs)))
      = s @ snd (scan_chunk (if d then None else Some a) (stdin_bytes evs))"
    unfolding stdin_bytes.simps scan_chunk_append scan_chunk_Some [OF sc]
    by (simp add: case_prod_beta Let_def)
  show ?case
  proof (cases "s \<noteq> [] \<and> \<not> sent \<or> d")
    case True
    then show ?thesis using app scan_chunk_None by (auto simp: sc)
  next
    case False
    from 2 [of a] obtain r where "snd (scan_chunk (Some a) (stdin_bytes evs)) = concat (fst (input_pump a evs)) @ r" ..
    then show ?thesis using app False by (auto simp: sc Let_def split: prod.splits)
  qed
qed simp_all

lemma typed_type_out: "typed (type_out bs) = (bs, False)"
proof (induction bs)
  case (Cons b bs)
  have one: "typed (b # rest) = (b # fst (typed rest), snd (typed rest))" if "b \<noteq> detachPrefix" for rest
    using that by (cases rest) (auto simp: Let_def split: prod.splits)
  show ?case
    using Cons one by (simp add: type_out_def detachPrefix_def)
qed (simp add: type_out_def)

section \<open>Properties\<close>

text \<open>
  C35: what is typed at an attached terminal means the same however the terminal's reads cut it up, even
  between the two keys of a chord. The bytes sent to the session are those of \<open>typed\<close>: a doubled prefix
  is one prefix, a prefix before another key is both, and \<open>d\<close> after a prefix detaches and ends the
  input. Every sequence of bytes can be typed, and when the session ends, a read fails or a message
  cannot be sent, what was sent until then is the start of it.
\<close>
theorem detach_keys_in_any_reads:
  "concat (fst (input_pump False (map (\<lambda>b. StdinRead b True) bufs))) = fst (typed (concat bufs))
   \<and> (snd (input_pump False (map (\<lambda>b. StdinRead b True) bufs)) = InputDetached \<longleftrightarrow> snd (typed (concat bufs)))
   \<and> typed (type_out bs) = (bs, False)
   \<and> (\<exists>r. fst (typed (stdin_bytes evs)) = concat (fst (input_pump False evs)) @ r)"
proof -
  have chunk: "scan_chunk (Some False) x = (if snd (typed x) then None else Some (fst (scan False x [])), fst (typed x))" for x
    using scan_typed [of False x] by (simp add: scan_chunk_def case_prod_beta Let_def)
  show ?thesis
    using input_pump_run [of False bufs] detach.run_chunks_concat [of "Some False" bufs]
      input_pump_prefix [of False evs] typed_type_out [of bs]
    by (auto simp: chunk split: if_splits)
qed

section \<open>Credentials\<close>

lemma attempt_end_Inr: "attempt_end cfg x = Some (Inr c) \<Longrightarrow> cn_token c = cl_AuthToken cfg"
  by (auto simp: attempt_end_def connectWith_def split: sum.splits option.splits if_splits)

lemma connected_client:
  assumes "fst (ConnectWithRetry keys cfg io) = Inr c"
  obtains sc where "buildSSHConfig keys cfg = Inr sc" "cn_token c = cl_AuthToken cfg"
  using assms that unfolding connect_with_retry_unrolled
  by (auto split: sum.splits option.splits intro: attempt_end_Inr)

lemma buildSSHConfig_password:
  "buildSSHConfig keys cfg = Inr sc \<Longrightarrow> SshPassword p \<in> set (sc_Auth sc) \<Longrightarrow> p = cl_Password cfg \<and> p \<noteq> []"
  by (auto simp: buildSSHConfig_def Let_def split: sum.splits option.splits prod.splits if_splits)

text \<open>What the flags say of the password: the one typed for \<open>-p\<close>, or none.\<close>

definition typed_password :: "cli_globals \<Rightarrow> string" where
  "typed_password g = (case gl_password g of Some (Inr p) \<Rightarrow> p | _ \<Rightarrow> [])"

lemma resolveConfig_credentials:
  assumes "resolveConfig g getenv home cfg = Inr r"
  shows "rs_AuthToken r \<in> {[], getenv ''HQSSH_AUTH_TOKEN''} \<or> own_value cfg ch_AuthToken (rs_Host r) (rs_AuthToken r)"
    and "rs_Password r \<in> {[], typed_password g} \<or> own_value cfg ch_Password (rs_Host r) (rs_Password r)"
proof -
  obtain f where r: "r = Resolve getenv home cfg f" "fl_Password f = typed_password g"
    using assms by (auto simp: resolveConfig_def typed_password_def split: option.splits sum.splits)
  show "rs_AuthToken r \<in> {[], getenv ''HQSSH_AUTH_TOKEN''} \<or> own_value cfg ch_AuthToken (rs_Host r) (rs_AuthToken r)"
    using conjunct1 [OF Resolve_credentials [of getenv home cfg f]] r by simp
  show "rs_Password r \<in> {[], typed_password g} \<or> own_value cfg ch_Password (rs_Host r) (rs_Password r)"
    using conjunct2 [OF Resolve_credentials [of getenv home cfg f]] r by simp
qed

text \<open>
  C33: a stored secret only goes to its own host. A command that is connected talks to a local socket,
  with the token of the daemon's own file or none, or through a tunnel to the host that it names: then
  the token sent with every call is empty, the one of \<open>HQSSH_AUTH_TOKEN\<close>, or the one of a file entry
  for this very host; a password offered to the host was typed for \<open>-p\<close> or is that of such an entry;
  and the host's key was checked, unless \<open>--insecure\<close> was given or the host is a loopback address.
\<close>
theorem stored_credentials_stay_with_their_host:
  assumes "connectDaemon w g = Inr (conn, label)"
  shows "case conn of
      ViaSocket path token \<Rightarrow>
        label = [] \<and> path = localSocketPath w (gl_socket g)
        \<and> (token = [] \<or> (\<exists>c. cw_daemon_config w = Inr c \<and> token = AuthToken c))
    | ViaTunnel c \<Rightarrow>
        label \<noteq> [] \<and> gl_socket g = []
        \<and> (cn_token c \<in> {[], cw_getenv w ''HQSSH_AUTH_TOKEN''} \<or> own_value (cw_config w) ch_AuthToken label (cn_token c))
        \<and> (\<exists>r sc. resolveConfig g (cw_getenv w) (cw_home w) (cw_config w) = Inr r \<and> rs_Host r = label
             \<and> buildSSHConfig (cw_keys w) (tunnel_config g r) = Inr sc
             \<and> (\<forall>p. SshPassword p \<in> set (sc_Auth sc) \<longrightarrow> p = typed_password g \<or> own_value (cw_config w) ch_Password label p)
             \<and> (sc_HostKey sc = IgnoreHostKey \<longrightarrow> gl_insecure g \<or> isLoopback (ki_loopback6 (cw_keys w)) label))"
proof (cases conn)
  case (ViaSocket path token)
  with assms show ?thesis
    by (auto simp: connectDaemon_def ConnectLocal_def localSocketPath_def Let_def split: option.splits sum.splits if_splits)
next
  case (ViaTunnel c)
  obtain r where r: "resolveConfig g (cw_getenv w) (cw_home w) (cw_config w) = Inr r" "gl_socket g = []"
      "rs_Host r = label" "label \<noteq> []"
      "fst (ConnectWithRetry (cw_keys w) (tunnel_config g r) (cw_attempts w)) = Inr c"
    using assms ViaTunnel
    by (auto simp: connectDaemon_def ConnectLocal_def Let_def split: option.splits sum.splits if_splits)
  from connected_client [OF r(5)] obtain sc where sc: "buildSSHConfig (cw_keys w) (tunnel_config g r) = Inr sc"
      "cn_token c = rs_AuthToken r"
    by (metis client_config.select_convs(8) tunnel_config_def)
  have "p = typed_password g \<or> own_value (cw_config w) ch_Password label p" if "SshPassword p \<in> set (sc_Auth sc)" for p
    using buildSSHConfig_password [OF sc(1) that] resolveConfig_credentials(2) [OF r(1)] r(3)
    by (auto simp: tunnel_config_def)
  moreover have "sc_HostKey sc = IgnoreHostKey \<longrightarrow> gl_insecure g \<or> isLoopback (ki_loopback6 (cw_keys w)) label"
    using buildSSHConfig_checked [OF sc(1)] r(3) by (simp add: tunnel_config_def)
  ultimately show ?thesis
    using ViaTunnel r resolveConfig_credentials(1) [OF r(1)] sc by auto
qed

definition demo_machine :: machine where
  "demo_machine = \<lparr>mc_goos = ''linux'', mc_uid = 1000, mc_euid = 1000, mc_home = Some ''/h'', mc_file = (\<lambda>p. False)\<rparr>"

definition demo_cli_config :: cli_config where
  "demo_cli_config = \<lparr>cf_DefaultHost = ''box'', cf_Hosts =
     [(''box'', \<lparr>ch_Host = ''example.org'', ch_User = ''me'', ch_Port = 0, ch_Key = [], ch_Password = ''pw'',
        ch_DaemonPort = 0, ch_AuthToken = ''tok''\<rparr>)]\<rparr>"

definition demo_world :: "string cli_world" where
  "demo_world = \<lparr>cw_getenv = (\<lambda>v. []), cw_home = Some ''/h'', cw_config = demo_cli_config,
     cw_daemon_config = Inl ''unreadable'', cw_probe = (\<lambda>p. ProbeMissing), cw_grpc = (\<lambda>p. None),
     cw_keys = sample_keys, cw_attempts = (\<lambda>n. sample_attempt None None), cw_machine = demo_machine\<rparr>"

definition demo_globals :: "string \<Rightarrow> cli_globals" where
  "demo_globals h = \<lparr>gl_host = h, gl_port = None, gl_user = None, gl_key = [], gl_password = None,
     gl_insecure = False, gl_socket = [], gl_daemonPort = 0\<rparr>"

lemma stored_credentials_stay_with_their_host_witness:
  "\<exists>c. connectDaemon demo_world (demo_globals []) = Inr (ViaTunnel c, ''example.org'')
     \<and> own_value (cw_config demo_world) ch_AuthToken ''example.org'' (cn_token c) \<and> cn_token c = ''tok''"
proof -
  have conn: "connectDaemon demo_world (demo_globals []) =
      Inr (ViaTunnel \<lparr>cn_daemonPort = 50051, cn_token = ''tok''\<rparr>, ''example.org'')"
    by code_simp
  show ?thesis
    using stored_credentials_stay_with_their_host [OF conn] conn by (auto simp: demo_world_def)
qed

end
