(* ===== verification/Cli_Sessions.thy ===== *)
theory Cli_Sessions
  imports Cli_Base Server_Sessions
begin

text \<open>
  The session commands of the command line tool over the session service: \<open>internal/cli/cmd/sessions.go\<close>,
  \<open>new.go\<close>, \<open>attach.go\<close>, \<open>logs.go\<close>, \<open>kill.go\<close> and the helpers they use. A command lists the sessions in
  one call and acts in a later one, and other clients may act in between: the two states of the daemon
  are separate arguments. The printing of an RPC error is an argument, and so is the answer typed at a
  prompt.
\<close>

section \<open>Finding a session\<close>

definition session_matches :: "(string \<Rightarrow> string \<Rightarrow> bool) \<Rightarrow> string \<Rightarrow> pb_session \<Rightarrow> bool" where
  "session_matches ufold idPrefix s \<longleftrightarrow>
     id_matches idPrefix (pbs_Id s) \<or> (pbs_Name s \<noteq> [] \<and> name_matches ufold idPrefix (pbs_Name s))"

definition project_label :: "pb_session \<Rightarrow> string" where
  "project_label s = (if pbs_ProjectId s = [] then ''(shell)'' else pbs_ProjectId s)"

definition show_session :: "pb_session \<Rightarrow> string" where
  "show_session s = shortID (pbs_Id s) @ ''  '' @ pbs_Tool s @ ''  '' @ project_label s"

definition session_missing :: "string \<Rightarrow> bool \<Rightarrow> string \<Rightarrow> string" where
  "session_missing idPrefix includeEnded hostLabel =
     ''session not found: '' @ idPrefix @ nl @ nl @ ''Run ''
     @ quoted ((if includeEnded then ''hqssh sessions --all'' else ''hqssh sessions'') @ hostFlag hostLabel)
     @ '' to list available sessions''"

definition resolveSessionByPrefix ::
  "(string \<Rightarrow> string \<Rightarrow> bool) \<Rightarrow> string + pb_session list \<Rightarrow> string \<Rightarrow> bool \<Rightarrow> string \<Rightarrow> string + string" where
  "resolveSessionByPrefix ufold resp idPrefix includeEnded hostLabel =
     (case resp of
        Inl e \<Rightarrow> Inl e
      | Inr ss \<Rightarrow>
          (case pick_match ''session'' idPrefix (session_missing idPrefix includeEnded hostLabel) show_session
                  (filter (session_matches ufold idPrefix) ss) of
             Inl e \<Rightarrow> Inl e
           | Inr s \<Rightarrow> Inr (pbs_Id s)))"

text \<open>\<open>kill\<close> looks for ids only, among the sessions that have not ended.\<close>

definition resolveSessionWithInfo ::
  "string + pb_session list \<Rightarrow> string \<Rightarrow> string \<Rightarrow> string + (string \<times> pb_session)" where
  "resolveSessionWithInfo resp idPrefix hostLabel =
     (case resp of
        Inl e \<Rightarrow> Inl e
      | Inr ss \<Rightarrow>
          (case pick_match ''session'' idPrefix (session_missing idPrefix False hostLabel) show_session
                  (filter (\<lambda>s. id_matches idPrefix (pbs_Id s)) ss) of
             Inl e \<Rightarrow> Inl e
           | Inr s \<Rightarrow> Inr (pbs_Id s, s)))"

section \<open>Killing\<close>

text \<open>\<open>strings.TrimSpace(strings.ToLower(response))\<close> of the line typed at the prompt.\<close>

definition kill_confirmed :: "string \<Rightarrow> bool" where
  "kill_confirmed response \<longleftrightarrow> trim_space (to_lower response) \<in> {''y'', ''yes''}"

text \<open>The command between its two calls: the session to kill, if any.\<close>

definition kill_request ::
  "string + pb_session list \<Rightarrow> string \<Rightarrow> bool \<Rightarrow> string \<Rightarrow> string \<Rightarrow> string + string option" where
  "kill_request resp idPrefix force response hostLabel =
     (case resolveSessionWithInfo resp idPrefix hostLabel of
        Inl e \<Rightarrow> Inl (''find session: '' @ e)
      | Inr (sid, s) \<Rightarrow> if \<not> force \<and> \<not> kill_confirmed response then Inr None else Inr (Some sid))"

definition runKill ::
  "env \<Rightarrow> (rpc_error \<Rightarrow> string) \<Rightarrow> string \<Rightarrow> bool \<Rightarrow> string \<Rightarrow> string \<Rightarrow> session_srv \<Rightarrow> session_srv
   \<Rightarrow> (session_srv \<times> (string + string)) option" where
  "runKill e rpc_text idPrefix force response hostLabel listed s =
     (case kill_request (Inr (session_svc_List [] False listed)) idPrefix force response hostLabel of
        Inl err \<Rightarrow> Some (s, Inl err)
      | Inr None \<Rightarrow> Some (s, Inr ''Cancelled.'')
      | Inr (Some sid) \<Rightarrow>
          (case session_svc_Kill e sid s of
             None \<Rightarrow> None
           | Some (s', Inl err) \<Rightarrow> Some (s', Inl (''kill session: '' @ rpc_text err))
           | Some (s', Inr _) \<Rightarrow> Some (s', Inr (''Session '' @ shortID sid @ '' terminated.''))))"

section \<open>Creating and listing\<close>

text \<open>
  \<open>resolveTool\<close>: the daemon's info is its detected tools and, if it reports the flag, whether the shell
  is enabled.
\<close>

definition resolveTool :: "string + (string list \<times> bool option) \<Rightarrow> string \<Rightarrow> string + string" where
  "resolveTool info tool =
     (case info of
        Inl e \<Rightarrow>
          if tool \<noteq> [] then Inr tool
          else Inl (''cannot pick a default tool (daemon info: '' @ e @ ''); pass --tool'')
      | Inr (installed, shellEnabled) \<Rightarrow>
          if tool = [] then
            (case installed of
               [] \<Rightarrow> Inl (''no AI tools detected on the daemon; pass --tool ''
                       @ ''(shell needs enable_shell_tool: true in its daemon.yaml)'')
             | t # _ \<Rightarrow> Inr t)
          else if tool = ''shell'' \<and> shellEnabled = Some False then
            Inl (''tool '' @ [CHR 0x22] @ ''shell'' @ [CHR 0x22] @ '' is disabled on the daemon: set enable_shell_tool: true ''
              @ ''in ~/.hqssh/daemon.yaml and restart it'')
          else Inr tool)"

text \<open>\<open>filepath.Abs\<close>: \<open>cwd\<close> is what \<open>os.Getwd\<close> answers.\<close>

definition filepath_Abs :: "string + string \<Rightarrow> string \<Rightarrow> string + string" where
  "filepath_Abs cwd path =
     (if is_abs path then Inr (clean_path path)
      else case cwd of Inl e \<Rightarrow> Inl e | Inr d \<Rightarrow> Inr (join_paths [d, path]))"

definition sessionWorkingDir :: "(string \<Rightarrow> string) \<Rightarrow> string + string \<Rightarrow> string \<Rightarrow> bool \<Rightarrow> string + string" where
  "sessionWorkingDir quote cwd dir local =
     (if \<not> local then Inr dir
      else let dir = (if dir = [] then ''.'' else dir) in
        case filepath_Abs cwd dir of
          Inl e \<Rightarrow> Inl (''resolve working directory '' @ quote dir @ '': '' @ e)
        | Inr d \<Rightarrow> Inr d)"

text \<open>The request of \<open>new\<close>, with the size of the terminal.\<close>

definition new_request ::
  "(string \<Rightarrow> string) \<Rightarrow> string + string \<Rightarrow> string + (string list \<times> bool option) \<Rightarrow> int \<times> int
   \<Rightarrow> string \<Rightarrow> string \<Rightarrow> string \<Rightarrow> string \<Rightarrow> string + create_session_req" where
  "new_request quote cwd info term_size newProject newTool newName hostLabel =
     (case sessionWorkingDir quote cwd newProject (hostLabel = []) of
        Inl e \<Rightarrow> Inl e
      | Inr dir \<Rightarrow>
          (case resolveTool info newTool of
             Inl e \<Rightarrow> Inl e
           | Inr tool \<Rightarrow>
               Inr \<lparr>sq_ProjectId = [], sq_Tool = tool, sq_WorkingDirectory = dir, sq_Name = newName, sq_Args = [],
                    sq_Cols = fst term_size, sq_Rows = snd term_size\<rparr>))"

definition statusString :: "int \<Rightarrow> string" where
  "statusString st =
     (if st = 1 then ''RUNNING'' else if st = 2 then ''IDLE'' else if st = 3 then ''ENDED'' else ''UNKNOWN'')"

definition filterSessions :: "(string \<Rightarrow> string \<Rightarrow> bool) \<Rightarrow> string \<Rightarrow> string \<Rightarrow> pb_session list \<Rightarrow> pb_session list" where
  "filterSessions ufold statusFilter toolFilter sessions =
     (if statusFilter = [] \<and> toolFilter = [] then sessions
      else filter (\<lambda>s. \<not> (statusFilter \<noteq> [] \<and> \<not> EqualFold ufold (statusString (pbs_Status s)) statusFilter)
                     \<and> \<not> (toolFilter \<noteq> [] \<and> \<not> EqualFold ufold (pbs_Tool s) toolFilter)) sessions)"

section \<open>What a command resolves to\<close>

lemma resolveSessionByPrefix_Inr:
  "resolveSessionByPrefix ufold resp p ended label = Inr sid \<longleftrightarrow>
     (\<exists>ss s. resp = Inr ss \<and> filter (session_matches ufold p) ss = [s] \<and> pbs_Id s = sid)"
  by (auto simp: resolveSessionByPrefix_def pick_match_Inr split: sum.splits)

lemma resolveSessionWithInfo_Inr:
  "resolveSessionWithInfo resp p label = Inr (sid, s) \<longleftrightarrow>
     (\<exists>ss. resp = Inr ss \<and> filter (\<lambda>s. has_prefix (pbs_Id s) p) ss = [s] \<and> pbs_Id s = sid)"
  by (auto simp: resolveSessionWithInfo_def pick_match_Inr id_matches_iff split: sum.splits)

lemma listed_sessions:
  assumes "mgr_inv (sv_mgr s)"
  shows "x \<in> set (session_svc_List [] ended s) \<longleftrightarrow>
    (\<exists>sid sess. gget (m_sessions (sv_mgr s)) sid = Some sess \<and> (ended \<or> s_status sess \<noteq> StatusEnded) \<and> x = sessionToProto sess)"
proof -
  have "gwf (m_sessions (sv_mgr s))" using assms by (simp add: mgr_inv_def sessions_ok_def)
  then show ?thesis
    by (auto simp: session_svc_List_def mgr_List_def set_gvals_iff)
qed

lemma listed_id:
  assumes "mgr_inv (sv_mgr s)" and "gget (m_sessions (sv_mgr s)) sid = Some sess"
  shows "pbs_Id (sessionToProto sess) = sid"
  using mgr_inv_session [OF assms] by (simp add: sessionToProto_def)

lemma kill_request_Some:
  assumes inv: "mgr_inv (sv_mgr listed)"
    and req: "kill_request (Inr (session_svc_List [] False listed)) p force response label = Inr (Some sid)"
  shows "(force \<or> kill_confirmed response) \<and> has_prefix sid p
    \<and> (\<forall>k sess. gget (m_sessions (sv_mgr listed)) k = Some sess \<and> s_status sess \<noteq> StatusEnded \<and> has_prefix k p \<longleftrightarrow>
         k = sid \<and> gget (m_sessions (sv_mgr listed)) sid = Some sess)"
proof -
  obtain s where s: "filter (\<lambda>s. has_prefix (pbs_Id s) p) (session_svc_List [] False listed) = [s]" "pbs_Id s = sid"
      and yes: "force \<or> kill_confirmed response"
    using req by (auto simp: kill_request_def resolveSessionWithInfo_Inr split: sum.splits if_splits)
  have iff: "x \<in> set (session_svc_List [] False listed) \<and> has_prefix (pbs_Id x) p \<longleftrightarrow> x = s" for x
    using arg_cong [OF s(1), of set] by auto
  have some: "gget (m_sessions (sv_mgr listed)) k = Some sess \<and> s_status sess \<noteq> StatusEnded \<and> has_prefix k p \<longleftrightarrow>
         k = sid \<and> gget (m_sessions (sv_mgr listed)) sid = Some sess" for k sess
  proof
    assume *: "gget (m_sessions (sv_mgr listed)) k = Some sess \<and> s_status sess \<noteq> StatusEnded \<and> has_prefix k p"
    then have "sessionToProto sess = s"
      using iff [of "sessionToProto sess"] listed_sessions [OF inv] listed_id [OF inv] by metis
    with * s(2) listed_id [OF inv] show "k = sid \<and> gget (m_sessions (sv_mgr listed)) sid = Some sess" by metis
  next
    assume *: "k = sid \<and> gget (m_sessions (sv_mgr listed)) sid = Some sess"
    obtain k' sess' where k': "gget (m_sessions (sv_mgr listed)) k' = Some sess'" "s_status sess' \<noteq> StatusEnded"
        "s = sessionToProto sess'"
      using iff [of s] listed_sessions [OF inv] by auto
    then have "k' = sid" using listed_id [OF inv k'(1)] s(2) by simp
    with * k' iff [of s] s(2)
    show "gget (m_sessions (sv_mgr listed)) k = Some sess \<and> s_status sess \<noteq> StatusEnded \<and> has_prefix k p" by auto
  qed
  moreover have "has_prefix sid p" using iff [of s] s(2) by simp
  ultimately show ?thesis using yes by blast
qed

lemma session_svc_Kill_effect:
  assumes "mgr_inv (sv_mgr s)"
  shows "\<exists>s' r. session_svc_Kill e sid s = Some (s', r) \<and> mgr_inv (sv_mgr s')
    \<and> (r = Inr () \<longleftrightarrow> sid \<noteq> [] \<and> gget (m_sessions (sv_mgr s)) sid \<noteq> None)
    \<and> (r = Inr () \<longrightarrow> gget (m_sessions (sv_mgr s)) sid \<noteq> None \<and> m_sessions (sv_mgr s') = gdel sid (m_sessions (sv_mgr s)))
    \<and> (r \<noteq> Inr () \<longrightarrow> s' = s)"
proof -
  obtain m' err where k: "mgr_Kill e sid (sv_mgr s) = Some (m', err)" "mgr_inv m'"
    using mgr_Kill_ok [OF assms] by blast
  have eff: "if gget (m_sessions (sv_mgr s)) sid = None then m' = sv_mgr s \<and> err \<noteq> None
      else err = None \<and> m_sessions m' = gdel sid (m_sessions (sv_mgr s))"
    using k(1) by (auto simp: mgr_Kill_def mgr_MarkEnded_def mgr_Save_def close_session_def
        split: option.splits bind_splits prod.splits)
  show ?thesis
    using k eff assms by (cases "sid = []") (auto simp: session_svc_Kill_def split: option.splits if_splits)
qed

section \<open>Properties\<close>


lemma session_svc_Create_inv:
  assumes "mgr_inv (sv_mgr s)"
  shows "mgr_inv (sv_mgr (fst (session_svc_Create io q s)))"
proof -
  have "mgr_inv m" if "mgr_Create e uuid projectID tool dir name args cols rows (sv_mgr s) = (m, r)"
    for e uuid projectID tool dir name args cols rows m r
    using mgr_Create_ok [OF assms, of e uuid projectID tool dir name args cols rows] that by simp
  then show ?thesis
    using assms by (auto simp: session_svc_Create_def Let_def split: prod.split sum.split)
qed

definition demo_srv :: session_srv where
  "demo_srv = fst (session_svc_Create sample_sio sample_req sample_srv)"

lemma demo_srv_facts:
  "mgr_inv (sv_mgr demo_srv)" "gget (m_sessions (sv_mgr demo_srv)) ''u'' \<noteq> None" "\<not> m_closed (sv_mgr demo_srv)"
proof -
  show "mgr_inv (sv_mgr demo_srv)"
    unfolding demo_srv_def by (rule session_svc_Create_inv) (simp add: NewManager_inv)
  show some: "gget (m_sessions (sv_mgr demo_srv)) ''u'' \<noteq> None"
    using sample_create by (auto simp: demo_srv_def)
  have closed: "m_closed (fst (mgr_Create e uuid pid tool dir name args cols rows m)) = m_closed m"
    for e uuid pid tool dir name args cols rows m
    by (simp add: mgr_Create_def mgr_Save_def Let_def split: prod.split option.split)
  show "\<not> m_closed (sv_mgr demo_srv)"
    unfolding demo_srv_def conjunct1 [OF sample_create_mgr] closed by (simp add: NewManager_def Let_def)
qed


lemma session_svc_Kill_record:
  assumes inv: "mgr_inv (sv_mgr s)" "\<not> m_closed (sv_mgr s)" and kill: "session_svc_Kill e sid s = Some (s', Inr ())"
  shows "\<exists>r. store_Get (m_store (sv_mgr s')) sid = Some r \<and> rec_Status r = ''ended''"
proof -
  obtain sess where "gget (m_sessions (sv_mgr s)) sid = Some sess"
    using session_svc_Kill_effect [OF inv(1), of e sid] kill by auto
  then obtain r where r: "gget (ss_records (m_store (sv_mgr s))) sid = Some r"
  proof -
    have "Manager_Props.in_step (m_sessions (sv_mgr s)) (m_store (sv_mgr s))" using inv by (simp add: mgr_inv_def)
    then have "\<exists>r. store_Get (m_store (sv_mgr s)) sid = Some r"
      using \<open>gget (m_sessions (sv_mgr s)) sid = Some sess\<close> unfolding Manager_Props.in_step_def by blast
    then show thesis using that by (auto simp: store_Get_def)
  qed
  show ?thesis
    using kill r
    by (auto simp: session_svc_Kill_def mgr_Kill_def mgr_MarkEnded_def mgr_Save_def close_session_def store_Get_def
        store_MarkEnded_def store_Update_def gomap_simps split: option.splits bind_splits prod.splits if_splits)
qed



end
