(* ===== verification/Cli_Tasks.thy ===== *)
theory Cli_Tasks
  imports Cli_Base Server_Tasks Server_Projects
begin

text \<open>
  The task and project commands of the command line tool over the task and project services:
  \<open>internal/cli/cmd/tasks.go\<close>, \<open>task_crud.go\<close>, \<open>run.go\<close>, \<open>cancel.go\<close>, \<open>projects.go\<close>. As for the session
  commands, the state of the daemon that a command lists and the one it acts on are separate arguments,
  and the printing of an RPC error is an argument.
\<close>

section \<open>Finding tasks, runs and projects\<close>

definition resolveTaskID :: "string + pb_task list \<Rightarrow> string \<Rightarrow> string \<Rightarrow> string + string" where
  "resolveTaskID resp idPrefix hostLabel =
     (case resp of
        Inl e \<Rightarrow> Inl e
      | Inr ts \<Rightarrow>
          (case pick_match ''task'' idPrefix
                  (''task not found: '' @ idPrefix @ nl @ nl @ ''Run '' @ quoted (''hqssh tasks'' @ hostFlag hostLabel)
                     @ '' to list available tasks'')
                  (\<lambda>t. shortID (pt_Id t) @ ''  '' @ pt_Name t @ ''  '' @ pt_Tool t)
                  (filter (\<lambda>t. id_matches idPrefix (pt_Id t)) ts) of
             Inl e \<Rightarrow> Inl e
           | Inr t \<Rightarrow> Inr (pt_Id t)))"

definition runStatusString :: "int \<Rightarrow> string" where
  "runStatusString st =
     (if st = 1 then ''PENDING'' else if st = 2 then ''RUNNING'' else if st = 3 then ''COMPLETED''
      else if st = 4 then ''FAILED'' else if st = 5 then ''CANCELLED'' else ''UNKNOWN'')"

definition resolveRunID :: "string + pb_run list \<Rightarrow> string \<Rightarrow> string \<Rightarrow> string + string" where
  "resolveRunID resp idPrefix hostLabel =
     (case resp of
        Inl e \<Rightarrow> Inl e
      | Inr rs \<Rightarrow>
          (case pick_match ''run'' idPrefix
                  (''run not found: '' @ idPrefix @ nl @ nl @ ''Run '' @ quoted (''hqssh runs'' @ hostFlag hostLabel)
                     @ '' to list recent runs'')
                  (\<lambda>r. shortID (pr_Id r) @ ''  task:'' @ shortID (pr_TaskId r) @ ''  '' @ runStatusString (pr_Status r))
                  (filter (\<lambda>r. id_matches idPrefix (pr_Id r)) rs) of
             Inl e \<Rightarrow> Inl e
           | Inr r \<Rightarrow> Inr (pr_Id r)))"

definition project_matches :: "(string \<Rightarrow> string \<Rightarrow> bool) \<Rightarrow> string \<Rightarrow> pb_project \<Rightarrow> bool" where
  "project_matches ufold idPrefix p \<longleftrightarrow> id_matches idPrefix (pp_Id p) \<or> name_matches ufold idPrefix (pp_Name p)"

definition resolveProjectByPrefix ::
  "(string \<Rightarrow> string \<Rightarrow> bool) \<Rightarrow> string + pb_project list \<Rightarrow> string \<Rightarrow> string + string" where
  "resolveProjectByPrefix ufold resp idPrefix =
     (case resp of
        Inl e \<Rightarrow> Inl e
      | Inr ps \<Rightarrow>
          (case pick_match ''project'' idPrefix
                  (''project not found: '' @ idPrefix @ nl @ nl @ ''Run '' @ quoted ''hqssh projects''
                     @ '' to list available projects'')
                  (\<lambda>p. shortID (pp_Id p) @ ''  '' @ pp_Name p @ ''  '' @ pp_Path p)
                  (filter (project_matches ufold idPrefix) ps) of
             Inl e \<Rightarrow> Inl e
           | Inr p \<Rightarrow> Inr (pp_Id p)))"

section \<open>Creating, changing and deleting tasks\<close>

definition parseScope :: "string \<Rightarrow> int" where
  "parseScope s =
     (if s = ''system'' then 2 else if s = ''project'' then 3 else if s = ''global'' then 1 else 0)"

definition scopeString :: "int \<Rightarrow> string" where
  "scopeString s =
     (if s = 1 then ''GLOBAL'' else if s = 2 then ''SYSTEM'' else if s = 3 then ''PROJECT'' else ''UNKNOWN'')"

definition invalid_scope :: "string \<Rightarrow> string" where
  "invalid_scope s = ''invalid scope: '' @ s @ '' (use '' @ quoted ''system'' @ '' or '' @ quoted ''project'' @ '')''"

record task_create_flags =
  tc_name :: string
  tc_description :: string
  tc_tool :: string
  tc_scope :: string
  tc_project :: string
  tc_prompt :: string
  tc_timeout :: int

text \<open>\<open>tool\<close> is what \<open>resolveTool\<close> makes of the flag.\<close>

definition create_task_request ::
  "(string \<Rightarrow> string + string) \<Rightarrow> task_create_flags \<Rightarrow> string + create_task_req" where
  "create_task_request resolve_tool f =
     (let scope = parseScope (tc_scope f) in
      if scope = 0 then Inl (invalid_scope (tc_scope f))
      else if scope = 3 \<and> tc_project f = [] then
        Inl (''--project is required when scope is '' @ quoted ''project'')
      else case resolve_tool (tc_tool f) of
        Inl e \<Rightarrow> Inl e
      | Inr tool \<Rightarrow>
          Inr \<lparr>cq_Name = tc_name f, cq_Description = tc_description f, cq_Tool = tool, cq_Scope = scope,
               cq_ProjectId = tc_project f, cq_Prompt = tc_prompt f, cq_Interactive = False,
               cq_TimeoutSeconds = to_int32 (tc_timeout f)\<rparr>)"

text \<open>The flags of \<open>task update\<close>: \<open>None\<close> is a flag that was not given.\<close>

record task_update_flags =
  tu_name :: "string option"
  tu_description :: "string option"
  tu_tool :: "string option"
  tu_scope :: "string option"
  tu_project :: "string option"
  tu_prompt :: "string option"
  tu_timeout :: "int option"

definition update_task_request :: "string \<Rightarrow> task_update_flags \<Rightarrow> string + update_task_req" where
  "update_task_request taskID f =
     (case (case tu_scope f of
              Some s \<Rightarrow> if parseScope s = 0 then Inl (invalid_scope s) else Inr (Some (parseScope s))
            | None \<Rightarrow> Inr None) of
        Inl e \<Rightarrow> Inl e
      | Inr scope \<Rightarrow>
          if tu_name f = None \<and> tu_description f = None \<and> tu_tool f = None \<and> scope = None
             \<and> tu_project f = None \<and> tu_prompt f = None \<and> tu_timeout f = None then
            Inl (''nothing to update: pass at least one of --name, --description, --tool, --scope, ''
              @ ''--project, --prompt, --timeout'')
          else
            Inr \<lparr>uq_Id = taskID, uq_Name = tu_name f, uq_Description = tu_description f, uq_Tool = tu_tool f,
                 uq_Scope = scope, uq_ProjectId = tu_project f, uq_Prompt = tu_prompt f, uq_Interactive = None,
                 uq_TimeoutSeconds = map_option to_int32 (tu_timeout f)\<rparr>)"

definition runTaskUpdate ::
  "task_io \<Rightarrow> (rpc_error \<Rightarrow> string) \<Rightarrow> string \<Rightarrow> task_update_flags \<Rightarrow> string \<Rightarrow> task_srv \<Rightarrow> task_srv
   \<Rightarrow> task_srv \<times> (string + string)" where
  "runTaskUpdate io rpc_text idPrefix f hostLabel listed s =
     (case resolveTaskID (Inr (task_svc_List 0 [] listed)) idPrefix hostLabel of
        Inl e \<Rightarrow> (s, Inl e)
      | Inr taskID \<Rightarrow>
          (case update_task_request taskID f of
             Inl e \<Rightarrow> (s, Inl e)
           | Inr q \<Rightarrow>
               (case task_svc_Update io q s of
                  (s', Inl err) \<Rightarrow> (s', Inl (''update task: '' @ rpc_text err))
                | (s', Inr t) \<Rightarrow> (s', Inr (''Task updated: '' @ pt_Name t @ '' ('' @ shortID (pt_Id t) @ '')'')))))"

text \<open>\<open>confirm\<close> is the word read by \<open>fmt.Scanln\<close>.\<close>

definition runTaskDelete ::
  "task_io \<Rightarrow> (rpc_error \<Rightarrow> string) \<Rightarrow> string \<Rightarrow> bool \<Rightarrow> string \<Rightarrow> string \<Rightarrow> task_srv \<Rightarrow> task_srv
   \<Rightarrow> task_srv \<times> (string + string)" where
  "runTaskDelete io rpc_text idPrefix force confirm hostLabel listed s =
     (case resolveTaskID (Inr (task_svc_List 0 [] listed)) idPrefix hostLabel of
        Inl e \<Rightarrow> (s, Inl e)
      | Inr taskID \<Rightarrow>
          if \<not> force \<and> confirm \<noteq> ''y'' \<and> confirm \<noteq> ''Y'' then (s, Inr ''Cancelled.'')
          else
            (case task_svc_Delete io taskID s of
               (s', Inl err) \<Rightarrow> (s', Inl (''delete task: '' @ rpc_text err))
             | (s', Inr _) \<Rightarrow> (s', Inr (''Task deleted: '' @ shortID taskID))))"

section \<open>Waiting for a run\<close>

text \<open>
  The loop of \<open>run\<close> after the run was started: an interrupt while it waits, or after a second the
  answer to a status request.
\<close>

datatype poll_event = PollInterrupt | PollAnswer "string + pb_run"

datatype poll_end = PollWaiting | PollCancelled string | PollFailed string | PollDone pb_run

fun poll_run :: "string \<Rightarrow> poll_event list \<Rightarrow> poll_end" where
  "poll_run runID [] = PollWaiting"
| "poll_run runID (PollInterrupt # evs) = PollCancelled runID"
| "poll_run runID (PollAnswer (Inl e) # evs) = PollFailed (''get run status: '' @ e)"
| "poll_run runID (PollAnswer (Inr r) # evs) =
     (if pr_Status r = 3 \<or> pr_Status r = 4 \<or> pr_Status r = 5 then PollDone r else poll_run (pr_Id r) evs)"

text \<open>What the command then does: the runs it asks the daemon to cancel, and its error.\<close>

definition run_outcome :: "poll_end \<Rightarrow> string list \<times> string option" where
  "run_outcome e =
     (case e of
        PollWaiting \<Rightarrow> ([], None)
      | PollCancelled runID \<Rightarrow> ([runID], Some ''cancelled'')
      | PollFailed err \<Rightarrow> ([], Some err)
      | PollDone r \<Rightarrow> ([], if pr_Status r = 4 then Some ''task failed'' else None))"

text \<open>
  An interrupt between two requests cancels the run; one that lands while a status request is under way
  makes that request fail, and the command ends with the run still going.
\<close>
lemma interrupt_during_status_request:
  "run_outcome (poll_run runID (PollAnswer (Inl ''context canceled'') # evs)) =
     ([], Some (''get run status: '' @ ''context canceled''))"
  "run_outcome (poll_run runID (PollInterrupt # evs)) = ([runID], Some ''cancelled'')"
  by (simp_all add: run_outcome_def)

section \<open>What the commands change\<close>

lemma resolveTaskID_Inr:
  "resolveTaskID resp p label = Inr k \<longleftrightarrow>
     (\<exists>ts t. resp = Inr ts \<and> filter (\<lambda>t. has_prefix (pt_Id t) p) ts = [t] \<and> pt_Id t = k)"
  by (auto simp: resolveTaskID_def pick_match_Inr id_matches_iff split: sum.splits)

lemma listed_tasks:
  assumes "task_wf (x_tasks (tv_exec s))"
  shows "x \<in> set (task_svc_List 0 [] s) \<longleftrightarrow>
    (\<exists>k t. task_Get (x_tasks (tv_exec s)) k = Some t \<and> x = taskToProto t)"
proof -
  have "gwf (ts_tasks (x_tasks (tv_exec s)))" using assms by (simp add: task_wf_def map_wf_def)
  then show ?thesis
    by (force simp: task_svc_List_def task_List_def protoToTaskScope_def TaskScopeUnspecified_def task_Get_def
        set_gvals_iff)
qed

lemma resolved_task:
  assumes wf: "task_wf (x_tasks (tv_exec s))" and r: "resolveTaskID (Inr (task_svc_List 0 [] s)) p label = Inr k"
  shows "has_prefix k p \<and> task_Get (x_tasks (tv_exec s)) k \<noteq> None
    \<and> (\<forall>k' t. task_Get (x_tasks (tv_exec s)) k' = Some t \<and> has_prefix k' p \<longrightarrow> k' = k)"
proof -
  obtain x where x: "filter (\<lambda>t. has_prefix (pt_Id t) p) (task_svc_List 0 [] s) = [x]" "pt_Id x = k"
    using r by (auto simp: resolveTaskID_Inr)
  have iff: "y \<in> set (task_svc_List 0 [] s) \<and> has_prefix (pt_Id y) p \<longleftrightarrow> y = x" for y
    using arg_cong [OF x(1), of set] by auto
  have key: "pt_Id (taskToProto t) = k'" if "task_Get (x_tasks (tv_exec s)) k' = Some t" for k' t
    using task_wf_key [OF wf] that by (simp add: taskToProto_def task_Get_def)
  have "k' = k" if "task_Get (x_tasks (tv_exec s)) k' = Some t" "has_prefix k' p" for k' t
    using iff [of "taskToProto t"] listed_tasks [OF wf] key [OF that(1)] that x(2) by auto
  moreover obtain k' t where "task_Get (x_tasks (tv_exec s)) k' = Some t" "x = taskToProto t"
    using iff [of x] listed_tasks [OF wf] by auto
  then have "task_Get (x_tasks (tv_exec s)) k \<noteq> None" using key x(2) by auto
  ultimately show ?thesis using iff [of x] x(2) by blast
qed

lemma update_task_request_Inr:
  "update_task_request k f = Inr q \<Longrightarrow>
     uq_Id q = k \<and> uq_Name q = tu_name f \<and> uq_Description q = tu_description f \<and> uq_Tool q = tu_tool f
     \<and> uq_Scope q = map_option parseScope (tu_scope f) \<and> uq_ProjectId q = tu_project f
     \<and> uq_Prompt q = tu_prompt f \<and> uq_Interactive q = None
     \<and> uq_TimeoutSeconds q = map_option to_int32 (tu_timeout f)"
  by (auto simp: update_task_request_def split: option.splits if_splits)

lemma task_svc_Update_Inr:
  assumes "task_svc_Update io q s = (s', Inr r)"
  obtains t where "task_Get (x_tasks (tv_exec s)) (uq_Id q) = Some t"
    "x_tasks (tv_exec s') = fst (task_Update (tio_now io) (uq_Id q) (update_patch q t) (x_tasks (tv_exec s)))"
proof -
  obtain t where t: "task_Get (x_tasks (tv_exec s)) (uq_Id q) = Some t" "update_error io q t s = None" "uq_Id q \<noteq> []"
    using assms by (auto simp: task_svc_Update_def split: if_splits option.splits)
  obtain ts t' where u: "task_Update (tio_now io) (uq_Id q) (update_patch q t) (x_tasks (tv_exec s)) = (ts, Some t')"
    using t(1) by (simp add: task_Update_def task_Get_def Let_def)
  have "s' = fst (save_tasks io (set_tasks ts s))"
    using assms t u by (auto simp: task_svc_Update_def split: prod.splits)
  then show thesis using that [OF t(1)] u by simp
qed

section \<open>Properties\<close>


definition demo_tasks :: task_srv where
  "demo_tasks = Server_Tasks.sample_srv\<lparr>tv_exec := (tv_exec Server_Tasks.sample_srv)
     \<lparr>x_tasks := task_put sample_task (NewTaskStore ''/d'')\<rparr>\<rparr>"

definition rename_flags :: task_update_flags where
  "rename_flags = \<lparr>tu_name = Some ''new'', tu_description = None, tu_tool = None, tu_scope = None,
     tu_project = None, tu_prompt = None, tu_timeout = None\<rparr>"


end
