(* ===== verification/Doctor.thy ===== *)
theory Doctor
  imports Cli_Base Servicemgr_Ops Lifecycle
begin

text \<open>
  The diagnosis of a local installation, \<open>internal/doctor\<close>: the report with its counts and its text
  (\<open>doctor.go\<close>) and the checks (\<open>checks.go\<close>). A check looks at the machine, which is an argument,
  may run commands, which moves the world of the service manager on, and keeps what it found for the
  checks after it.
\<close>

definition em_dash :: string where "em_dash = [CHR 0xE2, CHR 0x80, CHR 0x94]"

definition plural :: "int \<Rightarrow> string" where
  "plural n = (if n = 1 then [] else ''s'')"

section \<open>Checks and reports\<close>

datatype check_status = CheckPass | CheckWarn | CheckFail | CheckSkip

definition check_status_String :: "check_status \<Rightarrow> string" where
  "check_status_String s =
     (case s of CheckPass \<Rightarrow> ''PASS'' | CheckWarn \<Rightarrow> ''WARN'' | CheckFail \<Rightarrow> ''FAIL'' | CheckSkip \<Rightarrow> ''SKIP'')"

record check =
  ck_Name :: string
  ck_Status :: check_status
  ck_Detail :: string
  ck_Hint :: string

definition pass_check :: "string \<Rightarrow> string \<Rightarrow> check" where
  "pass_check name detail = \<lparr>ck_Name = name, ck_Status = CheckPass, ck_Detail = detail, ck_Hint = []\<rparr>"

definition warn_check :: "string \<Rightarrow> string \<Rightarrow> string \<Rightarrow> check" where
  "warn_check name detail hint = \<lparr>ck_Name = name, ck_Status = CheckWarn, ck_Detail = detail, ck_Hint = hint\<rparr>"

definition fail_check :: "string \<Rightarrow> string \<Rightarrow> string \<Rightarrow> check" where
  "fail_check name detail hint = \<lparr>ck_Name = name, ck_Status = CheckFail, ck_Detail = detail, ck_Hint = hint\<rparr>"

definition skip_check :: "string \<Rightarrow> string \<Rightarrow> check" where
  "skip_check name detail = \<lparr>ck_Name = name, ck_Status = CheckSkip, ck_Detail = detail, ck_Hint = []\<rparr>"

lemmas check_defs = pass_check_def warn_check_def fail_check_def skip_check_def

record report =
  rp_OS :: string
  rp_Arch :: string
  rp_CLIVersion :: string
  rp_Checks :: "check list"
  rp_LogPath :: string
  rp_LogTail :: "string list"

fun any_failed :: "check list \<Rightarrow> bool" where
  "any_failed [] = False"
| "any_failed (c # cs) = (if ck_Status c = CheckFail then True else any_failed cs)"

definition Failed :: "report \<Rightarrow> bool" where
  "Failed r = any_failed (rp_Checks r)"

fun count_checks :: "check list \<Rightarrow> nat \<times> nat \<times> nat \<times> nat \<Rightarrow> nat \<times> nat \<times> nat \<times> nat" where
  "count_checks [] n = n"
| "count_checks (c # cs) (p, w, f, s) =
     count_checks cs
       (case ck_Status c of
          CheckPass \<Rightarrow> (p + 1, w, f, s) | CheckWarn \<Rightarrow> (p, w + 1, f, s)
        | CheckFail \<Rightarrow> (p, w, f + 1, s) | CheckSkip \<Rightarrow> (p, w, f, s + 1))"

definition Counts :: "report \<Rightarrow> nat \<times> nat \<times> nat \<times> nat" where
  "Counts r = count_checks (rp_Checks r) (0, 0, 0, 0)"

text \<open>\<open>%-*s\<close>: padded to a width in runes, which are bytes in the names and words padded here.\<close>

definition pad_right :: "nat \<Rightarrow> string \<Rightarrow> string" where
  "pad_right n s = s @ replicate (n - length s) CHR '' ''"

fun hint_lines :: "nat \<Rightarrow> bool \<Rightarrow> string list \<Rightarrow> string" where
  "hint_lines width first [] = []"
| "hint_lines width first (l # ls) =
     pad_right 4 [] @ ''  '' @ pad_right width [] @ ''  '' @ (if first then ''fix: '' else ''     '') @ l @ nl
     @ hint_lines width False ls"

definition Render :: "report \<Rightarrow> string" where
  "Render r =
     (let width = foldl (\<lambda>n c. if n < length (ck_Name c) then length (ck_Name c) else n) 0 (rp_Checks r);
          (pass, warn, fail, skip) = Counts r in
      ''hqssh doctor '' @ em_dash @ '' '' @ rp_OS r @ ''/'' @ rp_Arch r @ '', hqssh '' @ rp_CLIVersion r @ nl @ nl
      @ concat (map (\<lambda>c.
          pad_right 4 (check_status_String (ck_Status c)) @ ''  '' @ pad_right width (ck_Name c) @ ''  '' @ ck_Detail c @ nl
          @ (if ck_Hint c \<noteq> [] \<and> ck_Status c \<noteq> CheckPass
             then hint_lines width True (split_on (CHR 0x0A) (ck_Hint c)) else [])) (rp_Checks r))
      @ (if Failed r \<and> rp_LogTail r \<noteq> [] then
           nl @ ''--- last '' @ itoa (int (length (rp_LogTail r))) @ '' lines of '' @ rp_LogPath r @ '' ---'' @ nl
           @ concat (map (\<lambda>l. l @ nl) (rp_LogTail r))
         else [])
      @ nl @ itoa (int pass) @ '' passed, '' @ itoa (int warn) @ '' warning'' @ plural (int warn) @ '', ''
      @ itoa (int fail) @ '' failed'' @ (if 0 < skip then '', '' @ itoa (int skip) @ '' skipped'' else []) @ nl)"

section \<open>Helpers of the checks\<close>

definition trim_right_nl :: "string \<Rightarrow> string" where
  "trim_right_nl s = rev (dropWhile (\<lambda>c. c = CHR 0x0A) (rev s))"

definition tailLines :: "string \<Rightarrow> nat \<Rightarrow> string list" where
  "tailLines s n =
     (let lines = split_on (CHR 0x0A) (trim_right_nl s) in
      if lines = [[]] then []
      else if n < length lines then drop (length lines - n) lines else lines)"

text \<open>\<open>readTail\<close> of a file with this content: the bytes it returns.\<close>

definition readTail :: "bytes \<Rightarrow> nat \<Rightarrow> bytes" where
  "readTail content maxBytes =
     (let offset = length content - maxBytes; data = drop offset content in
      if 0 < offset \<and> CHR 0x0A \<in> set data then tl (dropWhile (\<lambda>c. c \<noteq> CHR 0x0A) data) else data)"

definition error_line :: "string \<Rightarrow> bool" where
  "error_line l \<longleftrightarrow> str_contains l ''level=ERROR''
     \<or> str_contains l ([CHR 0x22] @ ''level'' @ [CHR 0x22] @ '':'' @ [CHR 0x22] @ ''ERROR'' @ [CHR 0x22])"

definition countErrors :: "string list \<Rightarrow> string" where
  "countErrors lines =
     (let n = length (filter error_line lines) in
      if n = 0 then ''no errors in the last '' @ itoa (int (length lines)) @ '' lines''
      else itoa (int n) @ '' ERROR line'' @ plural (int n) @ '' in the last '' @ itoa (int (length lines)))"

text \<open>\<open>Duration.Round(time.Minute)\<close>, half away from zero; Go's \<open>/\<close> and \<open>%\<close> truncate towards zero.\<close>

definition minute :: time where "minute = 60 * second"

definition round_minute :: "time \<Rightarrow> time" where
  "round_minute d = sgn d * ((\<bar>d\<bar> + 30 * second) div minute * minute)"

definition tdiv :: "int \<Rightarrow> int \<Rightarrow> int" where "tdiv a b = sgn a * (\<bar>a\<bar> div b)"
definition tmod :: "int \<Rightarrow> int \<Rightarrow> int" where "tmod a b = a - tdiv a b * b"

definition fmtDuration :: "time \<Rightarrow> string" where
  "fmtDuration d =
     (let d = round_minute d; h = tdiv d (60 * minute); m = tmod (tdiv d minute) 60 in
      if 48 \<le> h then itoa (tdiv h 24) @ ''d '' @ itoa (tmod h 24) @ ''h''
      else if 0 < h then itoa h @ ''h '' @ itoa m @ ''m''
      else itoa m @ ''m'')"

text \<open>
  \<open>%.1f\<close> and \<open>%.0f\<close> of a size over a power of two: the exact quotient, rounded half to even.
\<close>

definition round_half_even :: "nat \<Rightarrow> nat \<Rightarrow> nat" where
  "round_half_even a b =
     (let q = a div b; r = a mod b in if 2 * r < b \<or> (2 * r = b \<and> even q) then q else q + 1)"

definition fmtBytes :: "nat \<Rightarrow> string" where
  "fmtBytes n =
     (if 1048576 \<le> n then
        (let t = round_half_even (10 * n) 1048576 in itoa (int (t div 10)) @ ''.'' @ itoa (int (t mod 10)) @ '' MB'')
      else if 1024 \<le> n then itoa (int (round_half_even n 1024)) @ '' KB''
      else itoa (int n) @ '' B'')"

definition orDefault :: "string \<Rightarrow> string \<Rightarrow> string" where
  "orDefault s d = (if s = [] then d else s)"

text \<open>The port of \<open>net.SplitHostPort\<close>.\<close>

definition split_port :: "string \<Rightarrow> string option" where
  "split_port s =
     (if CHR '':'' \<notin> set s then None
      else
        let port = rev (takeWhile (\<lambda>c. c \<noteq> CHR '':'') (rev s)); host = take (length s - length port - 1) s;
            brackets = {CHR ''['', CHR '']''} in
        if set port \<inter> brackets \<noteq> {} then None
        else case host of
          [] \<Rightarrow> Some port
        | c # h \<Rightarrow>
            if c = CHR ''['' then
              (if h \<noteq> [] \<and> last h = CHR '']'' \<and> set (butlast h) \<inter> brackets = {} then Some port else None)
            else if CHR '':'' \<in> set host \<or> set host \<inter> brackets \<noteq> {} then None else Some port)"

definition portOf :: "string \<Rightarrow> string" where
  "portOf addr = (case split_port addr of None \<Rightarrow> addr | Some p \<Rightarrow> p)"

section \<open>Facts about reports and tails\<close>

lemma any_failed_iff: "any_failed cs \<longleftrightarrow> (\<exists>c \<in> set cs. ck_Status c = CheckFail)"
  by (induction cs) auto

lemma count_checks_eq:
  "count_checks cs (p, w, f, s) =
     (p + length (filter (\<lambda>c. ck_Status c = CheckPass) cs), w + length (filter (\<lambda>c. ck_Status c = CheckWarn) cs),
      f + length (filter (\<lambda>c. ck_Status c = CheckFail) cs), s + length (filter (\<lambda>c. ck_Status c = CheckSkip) cs))"
  by (induction cs arbitrary: p w f s) (auto split: check_status.split)

lemma status_partition:
  "length (filter (\<lambda>c. ck_Status c = CheckPass) cs) + length (filter (\<lambda>c. ck_Status c = CheckWarn) cs)
   + length (filter (\<lambda>c. ck_Status c = CheckFail) cs) + length (filter (\<lambda>c. ck_Status c = CheckSkip) cs) = length cs"
proof (induction cs)
  case (Cons c cs)
  then show ?case by (cases "ck_Status c") simp_all
qed simp

lemma trim_right_nl_append: "trim_right_nl y \<noteq> [] \<Longrightarrow> trim_right_nl (x @ y) = x @ trim_right_nl y"
  by (auto simp: trim_right_nl_def dropWhile_append dropWhile_eq_Nil_conv)

lemma tailLines_suffix: "\<exists>pre. split_on (CHR 0x0A) (trim_right_nl s) = pre @ tailLines s n"
proof -
  let ?ls = "split_on (CHR 0x0A) (trim_right_nl s)"
  have "tailLines s n = [] \<or> tailLines s n = drop (length ?ls - n) ?ls \<or> tailLines s n = ?ls"
    by (simp add: tailLines_def Let_def)
  moreover have "?ls = take (length ?ls - n) ?ls @ drop (length ?ls - n) ?ls" by (rule append_take_drop_id [symmetric])
  ultimately show ?thesis by (metis append_Nil append_Nil2)
qed

lemma length_tailLines: "length (tailLines s n) \<le> n \<or> tailLines s n = []"
  by (simp add: tailLines_def Let_def)

text \<open>
  The log tail of a report is the end of the log: its lines, at most as many as asked for, are the last
  lines of the file, also where only the end of the file is read, as long as a line ends in that part.
\<close>
lemma log_tail_is_end_of_log:
  assumes "length content \<le> maxBytes \<or> CHR 0x0A \<in> set (drop (length content - maxBytes) content)"
  shows "\<exists>pre. split_on (CHR 0x0A) (trim_right_nl content) = pre @ tailLines (readTail content maxBytes) n"
proof (cases "length content \<le> maxBytes")
  case True
  then show ?thesis using tailLines_suffix by (simp add: readTail_def)
next
  case False
  let ?data = "drop (length content - maxBytes) content"
  have "CHR 0x0A \<in> set ?data" using assms False by blast
  then obtain a rest where d: "?data = a @ CHR 0x0A # rest" "CHR 0x0A \<notin> set a" by (metis split_list_first)
  then have "dropWhile (\<lambda>c. c \<noteq> CHR 0x0A) (a @ CHR 0x0A # rest) = CHR 0x0A # rest"
    by (subst dropWhile_append2) auto
  then have rt: "readTail content maxBytes = rest" using False d(1) by (simp add: readTail_def)
  obtain b where c: "content = b @ CHR 0x0A # rest"
    using d(1) by (metis append.assoc append_take_drop_id)
  show ?thesis
  proof (cases "trim_right_nl rest = []")
    case True
    then have "tailLines rest n = []" by (simp add: tailLines_def)
    then show ?thesis by (simp add: rt)
  next
    case False
    have "trim_right_nl content = b @ CHR 0x0A # trim_right_nl rest"
      using trim_right_nl_append [OF False, of "b @ [CHR 0x0A]"] by (simp add: c)
    moreover obtain pre where "split_on (CHR 0x0A) (trim_right_nl rest) = pre @ tailLines rest n"
      using tailLines_suffix by blast
    ultimately show ?thesis by (simp add: rt split_on_append_sep)
  qed
qed

end
