(* ===== verification/Doctor_Checks.thy ===== *)
theory Doctor_Checks
  imports Doctor
begin

text \<open>
  The checks of \<open>internal/doctor/checks.go\<close> and the run over all of them. What the machine answers is the
  record \<open>doctor_io\<close>; the state that the checks hand on is \<open>doctor_env\<close>. The configuration is loaded
  once, before the first check.
\<close>

record daemon_answer =
  da_version :: string
  da_pid :: int
  da_uptime :: time
  da_sessions :: int
  da_tools :: "string list"

datatype data_dir = DataMissing | DataNotDir | DataUnwritable string | DataOk "string list"

record 'w doctor_io =
  di_sys :: "'w sys"
  di_version :: string
  di_arch :: string
  di_look_path :: "string \<Rightarrow> string option"
  di_executable :: "string option"
  di_is_executable :: "string \<Rightarrow> bool"
  di_getenv :: "string \<Rightarrow> string"
  di_eval_symlinks :: "string \<Rightarrow> string option"
  di_username :: "string option"
  di_pid_check :: "string \<Rightarrow> string + (pid_status \<times> int)"
  di_probe :: "string \<Rightarrow> socket_probe"
  di_grpc :: "string \<Rightarrow> string option"
  di_ask :: "string \<Rightarrow> string \<Rightarrow> string + daemon_answer"
  di_dial :: "string \<Rightarrow> string option"
  di_boot_time :: "time option"
  di_now :: time
  di_mtime :: "string \<Rightarrow> time option"
  di_load :: "string \<Rightarrow> string + config"
  di_perm_problem :: "string \<Rightarrow> string option"
  di_max_socket :: nat
  di_read :: "string \<Rightarrow> file_read"
  di_data_dir :: "string \<Rightarrow> data_dir"
  di_lsof :: string
  di_detect_tools :: "config \<Rightarrow> string list"

record doctor_opts =
  op_SocketPath :: string
  op_TCPAddr :: string
  op_ConfigPath :: string
  op_LogLines :: nat

text \<open>The part of \<open>env\<close> that the checks write.\<close>

record doctor_env =
  en_opts :: doctor_opts
  en_daemonPath :: string
  en_service :: "service option"
  en_svcStatus :: "status_info option"
  en_pidfile :: "pid_status \<times> int"
  en_socketAnswer :: "daemon_answer option"
  en_tcpAnswer :: "daemon_answer option"
  en_cfg :: "string + config"
  en_token :: string
  en_logPath :: string
  en_logTail :: "string list"

text \<open>Probing the daemon's own socket and port unless the options say otherwise.\<close>

definition doctor_defaults :: "string + config \<Rightarrow> doctor_opts \<Rightarrow> doctor_opts" where
  "doctor_defaults cfg o' =
     o'\<lparr>op_SocketPath :=
          (if op_SocketPath o' \<noteq> [] then op_SocketPath o'
           else case cfg of Inr c \<Rightarrow> if Socket c \<noteq> [] then Socket c else DefaultSocketPath | Inl _ \<Rightarrow> DefaultSocketPath),
        op_TCPAddr :=
          (if op_TCPAddr o' \<noteq> [] then op_TCPAddr o'
           else case cfg of
             Inr c \<Rightarrow> if 0 < TCPPort c then ''127.0.0.1:'' @ itoa (TCPPort c) else []
           | Inl _ \<Rightarrow> DefaultTCPAddr),
        op_LogLines := (if op_LogLines o' = 0 then 20 else op_LogLines o')\<rparr>"

definition cfgTCPDisabled :: "doctor_env \<Rightarrow> bool" where
  "cfgTCPDisabled e = (case en_cfg e of Inl _ \<Rightarrow> False | Inr c \<Rightarrow> TCPPort c = 0)"

definition startHint :: "doctor_env \<Rightarrow> string" where
  "startHint e =
     (if en_service e = None then
        ''hqsshd   # run in the foreground, or install the service: '' @ InstallCommand
      else case en_svcStatus e of
        Some info \<Rightarrow>
          if si_Running info then
            ''the service reports a running process but it does not answer; check `hqssh service logs -n 50`, then: hqssh service restart''
          else ''hqssh service start''
      | None \<Rightarrow> ''hqssh service start'')"

text \<open>The last field of \<open>strings.Fields\<close>; the output of the daemon is ASCII.\<close>

definition ascii_space :: "char \<Rightarrow> bool" where
  "ascii_space c \<longleftrightarrow> bval c = 32 \<or> (9 \<le> bval c \<and> bval c \<le> 13)"

definition parseVersionOutput :: "string \<Rightarrow> string" where
  "parseVersionOutput out =
     (let word = rev (takeWhile (\<lambda>c. \<not> ascii_space c) (dropWhile ascii_space (rev out)))
      in if word = [] then ''unknown'' else word)"

section \<open>The checks\<close>

definition checkBinaries :: "'w doctor_io \<Rightarrow> doctor_env \<Rightarrow> 'w \<Rightarrow> ('w \<times> doctor_env) \<times> check list" where
  "checkBinaries io e w =
     (let name = ''binaries'';
          path = (case di_look_path io ''hqsshd'' of
                    Some p \<Rightarrow> p
                  | None \<Rightarrow>
                      (case di_executable io of
                         Some self \<Rightarrow>
                           (let candidate = join_paths [dir_name self, ''hqsshd''] in
                            if di_is_executable io candidate then candidate else [])
                       | None \<Rightarrow> [])) in
      if path = [] then
        ((w, e), [fail_check name ''hqsshd binary not found on PATH'' (''install it: '' @ InstallCommand)])
      else
        let e = e\<lparr>en_daemonPath := path\<rparr>; (w, r) = sy_run (di_sys io) w [path, ''--version''] in
        if rr_fail r \<noteq> None \<or> rr_code r \<noteq> 0 then
          ((w, e), [fail_check name (path @ '' --version failed'')
             (''the binary may be corrupt or blocked; reinstall: '' @ InstallCommand)])
        else
          let daemonVersion = parseVersionOutput (rr_out r);
              detail = ''hqssh '' @ di_version io @ '', hqsshd '' @ daemonVersion @ '' ('' @ path @ '')'' in
          if daemonVersion \<noteq> di_version io then
            ((w, e), [warn_check name (detail @ '' '' @ em_dash @ '' versions differ'')
               (''rerun the installer so both binaries match: '' @ InstallCommand)])
          else ((w, e), [pass_check name detail]))"

definition split_list_env :: "string \<Rightarrow> string list" where
  "split_list_env s = (if s = [] then [] else split_on (CHR '':'') s)"

definition checkPath :: "'w doctor_io \<Rightarrow> doctor_env \<Rightarrow> check list" where
  "checkPath io e =
     (if en_daemonPath e = [] then [skip_check ''path'' ''no hqsshd binary to locate'']
      else
        let dir = dir_name (en_daemonPath e) in
        if dir \<in> set (split_list_env (di_getenv io ''PATH'')) then [pass_check ''path'' (dir @ '' is in PATH'')]
        else [warn_check ''path'' (dir @ '' is not in PATH'')
                (''export PATH='' @ [CHR 0x22] @ dir @ '':$PATH'' @ [CHR 0x22] @ ''   (add to your shell profile)'')])"

definition sameBinary :: "'w doctor_io \<Rightarrow> string \<Rightarrow> string \<Rightarrow> bool" where
  "sameBinary io a b \<longleftrightarrow>
     a = b \<or> (case (di_eval_symlinks io a, di_eval_symlinks io b) of
                (Some ra, Some rb) \<Rightarrow> ra = rb | _ \<Rightarrow> False)"

definition checkServicePlatform ::
  "'w doctor_io \<Rightarrow> service \<Rightarrow> status_info \<Rightarrow> 'w \<Rightarrow> 'w \<times> check list" where
  "checkServicePlatform io svc info w =
     (case sv_Kind svc of
        KindLaunchd \<Rightarrow>
          (let exit_checks =
                 (case si_Launchd info of
                    Some l \<Rightarrow>
                      if ls_Loaded l \<and> 0 < ls_ExitTimeout l \<and> ls_ExitTimeout l < 30 then
                        [warn_check ''launchd''
                           (''ExitTimeOut is '' @ itoa (ls_ExitTimeout l)
                             @ ''s; launchd SIGKILLs the daemon mid-shutdown if it takes longer'')
                           (''rerun the installer to get the 30s setting: '' @ InstallCommand)]
                      else []
                  | None \<Rightarrow> []) in
           if sv_Scope svc = ScopeUser then
             let (w, guiOK, _) = GUIDomainAvailable (di_sys io) (sv_UID svc) w in
             (w, exit_checks
               @ (if \<not> guiOK then
                    [warn_check ''launchd''
                       (''gui/'' @ itoa (sv_UID svc)
                         @ '' is not available (no console login): LaunchAgents only start at GUI login'')
                       NoGUISessionHint]
                  else [])
               @ (if di_getenv io ''SSH_CONNECTION'' \<noteq> [] \<and> guiOK then
                    [pass_check ''launchd''
                       ''GUI session present; note a user agent still needs a console login after every reboot'']
                  else []))
           else (w, exit_checks))
      | KindSystemd \<Rightarrow>
          (case di_username io of
             None \<Rightarrow> (w, [])
           | Some user \<Rightarrow>
               (let (w, linger) = LingerEnabled (di_sys io) user w in
                (w, if linger = Some False then
                      [warn_check ''systemd'' ''lingering is off: the service stops at logout and does not start at boot''
                         (''loginctl enable-linger '' @ user)]
                    else [])))
      | KindNone \<Rightarrow> (w, []))"

definition service_state_check :: "service \<Rightarrow> status_info \<Rightarrow> check" where
  "service_state_check svc info =
     (let name = ''service'' in
      if \<not> si_Loaded info then
        fail_check name (service_String svc @ '' is installed but not loaded ('' @ si_Summary info @ '')'')
          (case si_Launchd info of
             Some l \<Rightarrow> if sv_Kind svc = KindLaunchd \<and> \<not> ls_DomainFound l then NoGUISessionHint else ''hqssh service start''
           | None \<Rightarrow> ''hqssh service start'')
      else if \<not> si_Running info then
        fail_check name (service_String svc @ '': '' @ si_Summary info)
          ''hqssh service logs -n 50   # then: hqssh service start''
      else pass_check name (service_String svc @ '': '' @ si_Summary info))"

text \<open>The warnings about a second service definition and about a second binary.\<close>

definition second_service_check :: "service list \<Rightarrow> check list" where
  "second_service_check services =
     (case services of
        svc # svc2 # _ \<Rightarrow>
          [warn_check ''service'' (''both '' @ sv_UnitPath svc @ '' and '' @ sv_UnitPath svc2 @ '' exist'')
             (''keep one: rerun the installer with the scope you want (it removes the other), or delete ''
               @ ''the unwanted plist and bootout its job'')]
      | _ \<Rightarrow> [])"

definition two_installs_check :: "'w doctor_io \<Rightarrow> string \<Rightarrow> status_info \<Rightarrow> check list" where
  "two_installs_check io daemonPath info =
     (case si_Launchd info of
        Some l \<Rightarrow>
          if ls_Program l \<noteq> [] \<and> daemonPath \<noteq> [] \<and> \<not> sameBinary io (ls_Program l) daemonPath then
            [warn_check ''service''
               (''the service runs '' @ ls_Program l @ '' but PATH resolves hqsshd to '' @ daemonPath)
               (''two installs; rerun the installer (it writes the plist for its own install dir) or ''
                 @ ''remove the stray copy'')]
          else []
      | None \<Rightarrow> [])"

definition checkService :: "'w doctor_io \<Rightarrow> doctor_env \<Rightarrow> 'w \<Rightarrow> ('w \<times> doctor_env) \<times> check list" where
  "checkService io e w =
     (let name = ''service''; m = sy_machine (di_sys io); services = DetectServices m in
      if services = [] then
        ((w, e), [warn_check name ''no background service installed''
           (''run the daemon by hand with `hqsshd`, or install the service: '' @ InstallCommand)])
      else
        let svc = hd services; e = e\<lparr>en_service := Some svc\<rparr>; checks = second_service_check services in
        case ServiceStatus (di_sys io) svc w of
          (w, Inl err) \<Rightarrow>
            ((w, e), checks @ [warn_check name (''could not query '' @ service_String svc @ '': '' @ err)
               (''run by hand: '' @ StatusCommand m svc)])
        | (w, Inr info) \<Rightarrow>
            let (w, platform) = checkServicePlatform io svc info w
            in ((w, e\<lparr>en_svcStatus := Some info\<rparr>),
                checks @ [service_state_check svc info]
                @ map (\<lambda>p. warn_check name p (''rerun the installer: '' @ InstallCommand)) (si_Problems info)
                @ two_installs_check io (en_daemonPath e) info @ platform))"

definition doctor_data_dir :: "'w doctor_io \<Rightarrow> string option" where
  "doctor_data_dir io = DataDir (mc_home (sy_machine (di_sys io)))"

definition checkPidfile :: "'w doctor_io \<Rightarrow> doctor_env \<Rightarrow> doctor_env \<times> check list" where
  "checkPidfile io e =
     (let name = ''pidfile'' in
      case doctor_data_dir io of
        None \<Rightarrow> (e, [skip_check name ''cannot resolve home directory''])
      | Some dir \<Rightarrow>
          let path = join_paths [dir, ''hqsshd.pid''] in
          case di_pid_check io path of
            Inl err \<Rightarrow> (e, [warn_check name (path @ '': '' @ err) (''rm '' @ path)])
          | Inr (st, pid) \<Rightarrow>
              (e\<lparr>en_pidfile := (st, pid)\<rparr>,
               case st of
                 StatusAlive \<Rightarrow> [pass_check name (path @ '': locked by pid '' @ itoa pid)]
               | StatusStale \<Rightarrow>
                   [warn_check name (''stale pidfile (pid '' @ itoa pid
                        @ '' wrote it; nobody holds its lock, so that daemon is gone)'')
                      ''harmless: the next start takes it over'']
               | StatusNone \<Rightarrow> [skip_check name ''no pidfile (daemon not running, or older than v1.4.0)'']))"

definition checkSocket :: "'w doctor_io \<Rightarrow> doctor_env \<Rightarrow> doctor_env \<times> check list" where
  "checkSocket io e =
     (let name = ''socket''; path = op_SocketPath (en_opts e) in
      case di_probe io path of
        ProbeMissing \<Rightarrow> (e, [fail_check name (''no socket at '' @ path) (startHint e)])
      | ProbeRefused \<Rightarrow>
          (e, [fail_check name (path @ '' exists but nothing is listening (stale socket: daemon crashed or was killed)'')
                 (startHint e)])
      | ProbeError err \<Rightarrow>
          (e, [fail_check name (path @ '': '' @ err) ''check permissions on the socket and its directory''])
      | ProbeOk \<Rightarrow>
          (case di_grpc io path of
             Some err \<Rightarrow> (e, [fail_check name (path @ '': '' @ err) ''hqssh service restart''])
           | None \<Rightarrow>
               (case di_ask io path (en_token e) of
                  Inl err \<Rightarrow>
                    (e, [fail_check name (path @ '' accepts connections but hqsshd does not answer: '' @ err)
                           (''hqssh service restart   # Unauthenticated means daemon.yaml's auth_token differs from ''
                             @ ''the running daemon's; restart it'')])
                | Inr ans \<Rightarrow>
                    (e\<lparr>en_socketAnswer := Some ans\<rparr>,
                     [pass_check name (path @ '': hqsshd '' @ da_version ans @ '' '' @ pidLabel (da_pid ans) @ '', up ''
                        @ fmtDuration (da_uptime ans) @ '', '' @ itoa (da_sessions ans) @ '' session''
                        @ plural (da_sessions ans))]))))"

definition checkTCP :: "'w doctor_io \<Rightarrow> doctor_env \<Rightarrow> doctor_env \<times> check list" where
  "checkTCP io e =
     (let name = ''tcp''; addr = op_TCPAddr (en_opts e) in
      if addr = [] \<or> cfgTCPDisabled e then
        (e, [warn_check name ''tcp_port is 0: the mobile app cannot connect (it uses the TCP port through the SSH tunnel)''
               ''set tcp_port: 50051 in ~/.hqssh/daemon.yaml''])
      else case di_dial io addr of
        Some err \<Rightarrow>
          (e, [fail_check name (addr @ '': '' @ err)
                 (if en_socketAnswer e \<noteq> None then
                    ''the daemon serves the socket but the port is held by something else (it keeps retrying); ''
                    @ ''find the owner: lsof -nP -iTCP:'' @ portOf addr
                  else ''hqssh service restart   # the mobile app connects here through the SSH tunnel'')])
      | None \<Rightarrow>
          (case di_grpc io addr of
             Some err \<Rightarrow> (e, [fail_check name (addr @ '': '' @ err) ''hqssh service restart''])
           | None \<Rightarrow>
               (case di_ask io addr (en_token e) of
                  Inl err \<Rightarrow>
                    (e, [fail_check name (addr @ '' is open but hqsshd does not answer: '' @ err)
                           (''something else may own the port; run: lsof -nP -iTCP:'' @ portOf addr)])
                | Inr ans \<Rightarrow>
                    (e\<lparr>en_tcpAnswer := Some ans\<rparr>,
                     [pass_check name (addr @ '': hqsshd '' @ da_version ans @ '' '' @ pidLabel (da_pid ans))]))))"

definition bootDelayThreshold :: time where "bootDelayThreshold = 5 * minute"

text \<open>The late start of a macOS user agent: measured only on the first spawn of an agent older than the boot.\<close>

definition checkBootDelay :: "'w doctor_io \<Rightarrow> doctor_env \<Rightarrow> check list" where
  "checkBootDelay io e =
     (case (en_service e, map_option si_Launchd (en_svcStatus e), en_socketAnswer e, di_boot_time io) of
        (Some svc, Some (Some l), Some ans, Some boot) \<Rightarrow>
          if sv_Kind svc \<noteq> KindLaunchd \<or> sv_Scope svc \<noteq> ScopeUser \<or> ls_Runs l \<noteq> 1 \<or> da_uptime ans \<le> 0 then []
          else (case di_mtime io (sv_UnitPath svc) of
              None \<Rightarrow> []
            | Some installed \<Rightarrow>
                if \<not> installed < boot then []
                else
                  let delay = (di_now io - da_uptime ans) - boot in
                  if delay \<le> bootDelayThreshold then
                    [pass_check ''boot'' (''daemon started '' @ fmtDuration delay @ '' after boot'')]
                  else
                    [warn_check ''boot''
                       (''after the last reboot the daemon only started '' @ fmtDuration delay @ '' later '' @ em_dash
                         @ '' a user agent waits for a GUI login, and the phone could not reach it until then'')
                       ''log in at the Mac's console after a reboot; the service starts at GUI login''])
      | _ \<Rightarrow> [])"

text \<open>Whether the answers on the two transports come from two daemons.\<close>

definition twoDaemons :: "daemon_answer \<Rightarrow> daemon_answer \<Rightarrow> bool" where
  "twoDaemons s t =
     (if 0 < da_pid s \<and> 0 < da_pid t then da_pid s \<noteq> da_pid t
      else
        let diff = da_uptime s - da_uptime t; diff = (if diff < 0 then - diff else diff)
        in 5 * second < diff)"

definition checkConsistency :: "doctor_env \<Rightarrow> check list" where
  "checkConsistency e =
     (let name = ''consistency'' in
      case (en_socketAnswer e, en_tcpAnswer e) of
        (Some s, Some t) \<Rightarrow>
          if twoDaemons s t then
            [fail_check name (''socket is served by pid '' @ itoa (da_pid s) @ '' but TCP by pid '' @ itoa (da_pid t)
                 @ '': two daemons are running'')
               (''kill '' @ itoa (da_pid t) @ ''   # then: hqssh service restart'')]
          else
            let checks =
                  (case en_svcStatus e of
                     Some info \<Rightarrow>
                       if si_Running info \<and> 0 < da_pid s \<and> si_PID info \<noteq> da_pid s then
                         [warn_check name
                            (''the service runs pid '' @ itoa (si_PID info) @ '' but pid '' @ itoa (da_pid s)
                              @ '' answers on the socket: a daemon outside the service owns it'')
                            (''kill '' @ itoa (da_pid s) @ ''   # then: hqssh service restart'')]
                       else []
                   | None \<Rightarrow> [])
                  @ (if fst (en_pidfile e) = StatusAlive \<and> 0 < da_pid s \<and> snd (en_pidfile e) \<noteq> da_pid s then
                       [warn_check name
                          (''pidfile says '' @ itoa (snd (en_pidfile e)) @ '' but pid '' @ itoa (da_pid s) @ '' answers'')
                          ''hqssh service restart'']
                     else [])
            in if checks = [] then
                 (if 0 < da_pid s then
                    [pass_check name (''socket, TCP and service agree (pid '' @ itoa (da_pid s) @ '')'')]
                  else
                    [pass_check name ''socket and TCP agree (matched by uptime; pre-1.4.0 daemon reports no pid)''])
               else checks
      | _ \<Rightarrow> [skip_check name ''needs both transports answering''])"

definition checkConfig :: "'w doctor_io \<Rightarrow> doctor_env \<Rightarrow> check list" where
  "checkConfig io e =
     (let name = ''config'';
          path = (if op_ConfigPath (en_opts e) \<noteq> [] then op_ConfigPath (en_opts e)
                  else case DefaultConfigPath (mc_home (sy_machine (di_sys io))) of Some p \<Rightarrow> p | None \<Rightarrow> []) in
      case en_cfg e of
        Inl err \<Rightarrow>
          [fail_check name (path @ '': '' @ err) ''fix the YAML; the daemon exits with code 2 until it parses'']
      | Inr cfg \<Rightarrow>
          (case ValidateConfig cfg of
             Some err \<Rightarrow>
               [fail_check name (path @ '': '' @ err) ''fix the value; the daemon exits with code 2 until it validates'']
           | None \<Rightarrow>
               (case di_perm_problem io path of
                  Some problem \<Rightarrow> [warn_check name problem (''chmod 600 '' @ path)] | None \<Rightarrow> [])
               @ (if di_max_socket io < length (Socket cfg) then
                    [fail_check name
                       (''socket path is '' @ itoa (int (length (Socket cfg))) @ '' bytes, this OS allows ''
                         @ itoa (int (di_max_socket io)))
                       (''set a shorter '' @ quoted ''socket:'' @ '' in '' @ path)]
                  else [])
               @ [pass_check name
                    ((if di_mtime io path \<noteq> None then path else ''defaults'') @ '': socket '' @ Socket cfg
                      @ '', tcp_port '' @ itoa (TCPPort cfg) @ '', log.file ''
                      @ orDefault (lc_File (LogConf cfg)) ''stdout'')]))"

text \<open>The end of \<open>checkLog\<close>, for a log in a file.\<close>

definition check_log_file :: "'w doctor_io \<Rightarrow> string \<Rightarrow> doctor_env \<Rightarrow> doctor_env \<times> check list" where
  "check_log_file io path e =
     (let name = ''log''; e = e\<lparr>en_logPath := path\<rparr> in
      case di_read io path of
        FileMissing \<Rightarrow>
          (e, [warn_check name (path @ '' does not exist (the daemon has not logged anything yet)'') ''hqssh service start''])
      | FileUnreadable err \<Rightarrow> (e, [warn_check name (path @ '': '' @ err) []])
      | FileData content \<Rightarrow>
          let tail = tailLines (readTail content (64 * 1024)) (op_LogLines (en_opts e)) in
          (e\<lparr>en_logTail := tail\<rparr>,
           [pass_check name (path @ '' ('' @ countErrors tail @ '', '' @ fmtBytes (length content) @ '')'')]))"

definition checkLog :: "'w doctor_io \<Rightarrow> doctor_env \<Rightarrow> 'w \<Rightarrow> ('w \<times> doctor_env) \<times> check list" where
  "checkLog io e w =
     (let n = op_LogLines (en_opts e);
          file = (case en_cfg e of Inr c \<Rightarrow> lc_File (LogConf c) | Inl _ \<Rightarrow> []);
          stdout = (case en_svcStatus e of
                      Some info \<Rightarrow> (case si_Launchd info of Some l \<Rightarrow> ls_StdoutPath l | None \<Rightarrow> [])
                    | None \<Rightarrow> []);
          journal = (case en_service e of
                       Some svc \<Rightarrow> if sv_Kind svc = KindSystemd then Some (sv_Label svc) else None | None \<Rightarrow> None) in
      if file = [] \<and> stdout = [] \<and> journal \<noteq> None then
        let label = the journal; path = ''journalctl --user -u '' @ label;
            (w, r) = sy_run (di_sys io) w [''journalctl'', ''--user'', ''-u'', label, ''-n'', itoa (int n), ''--no-pager''];
            tail = tailLines (rr_out r) n
        in ((w, e\<lparr>en_logPath := path, en_logTail := tail\<rparr>),
            [pass_check ''log'' (path @ '' ('' @ countErrors tail @ '')'')])
      else
        let (e, cs) = check_log_file io
              (if file \<noteq> [] then file else if stdout \<noteq> [] then stdout
               else LogFileFor (sy_machine (di_sys io)) (en_service e)) e
        in ((w, e), cs))"

definition checkDataDir :: "'w doctor_io \<Rightarrow> check list" where
  "checkDataDir io =
     (let name = ''data-dir'' in
      case doctor_data_dir io of
        None \<Rightarrow> [skip_check name ''cannot resolve home directory'']
      | Some dir \<Rightarrow>
          (case di_data_dir io dir of
             DataMissing \<Rightarrow> [warn_check name (dir @ '' does not exist yet (created on first start)'') []]
           | DataNotDir \<Rightarrow> [fail_check name (dir @ '' is not a directory'') (''mv '' @ dir @ '' '' @ dir @ ''.bak'')]
           | DataUnwritable err \<Rightarrow>
               [fail_check name (dir @ '' is not writable: '' @ err)
                  ''chown/chmod the directory so hqsshd can write to it'']
           | DataOk names \<Rightarrow>
               let temps = filter (\<lambda>n. has_suffix n ''.tmp'') names in
               if temps \<noteq> [] then
                 [warn_check name (dir @ '' has leftover temp files from an interrupted write: '' @ join_with '', '' temps)
                    ''harmless: hqsshd v1.4.0+ removes them on start'']
               else [pass_check name (dir @ '' is writable'')]))"

definition checkLsof :: "'w doctor_io \<Rightarrow> check list" where
  "checkLsof io =
     (if mc_goos (sy_machine (di_sys io)) \<noteq> ''darwin'' then []
      else if di_lsof io \<noteq> [] then [pass_check ''lsof'' (di_lsof io @ '' (the daemon resolves it the same way)'')]
      else [warn_check ''lsof'' ''lsof not found: external session discovery cannot resolve working directories''
              ''lsof ships with macOS at /usr/sbin/lsof; check the system installation''])"

definition codesign_ident :: "string \<Rightarrow> string" where
  "codesign_ident stderr =
     foldl (\<lambda>ident line. case cut_prefix (trim_space line) ''Identifier='' of Some v \<Rightarrow> v | None \<Rightarrow> ident)
       [] (split_on (CHR 0x0A) stderr)"

definition checkCodesign :: "'w doctor_io \<Rightarrow> doctor_env \<Rightarrow> 'w \<Rightarrow> 'w \<times> check list" where
  "checkCodesign io e w =
     (let name = ''codesign'' in
      if mc_goos (sy_machine (di_sys io)) \<noteq> ''darwin'' \<or> en_daemonPath e = [] then (w, [])
      else if di_look_path io ''codesign'' = None then (w, [])
      else
        let (w, r) = sy_run (di_sys io) w [''codesign'', ''-dv'', en_daemonPath e] in
        if rr_fail r \<noteq> None \<or> rr_code r \<noteq> 0 then
          (w, [warn_check name ''hqsshd is not code-signed''
                 (''rerun the installer, which ad-hoc signs it: '' @ InstallCommand)])
        else
          let ident = codesign_ident (rr_err r) in
          if ident = [] \<or> ident = ''a.out'' then
            (w, [warn_check name
                   (''hqsshd carries a linker signature with identifier '' @ orDefault ident ''(none)''
                     @ ''; TCC and Console show it as '' @ [CHR 0x22] @ ''a.out'' @ [CHR 0x22])
                   (''rerun the installer, which signs it as '' @ LaunchdLabel @ '': '' @ InstallCommand)])
          else (w, [pass_check name (''signed as '' @ ident)]))"

definition checkTools :: "'w doctor_io \<Rightarrow> doctor_env \<Rightarrow> check list" where
  "checkTools io e =
     (let name = ''tools'' in
      case en_cfg e of
        Inl _ \<Rightarrow> [skip_check name ''config unreadable'']
      | Inr cfg \<Rightarrow>
          let configured = map tc_Name (Tools cfg) in
          case en_socketAnswer e of
            Some ans \<Rightarrow>
              if da_tools ans = [] then
                [warn_check name (''the daemon detects none of the configured AI tools ('' @ join_with '', '' configured @ '')'')
                   (''install one, or check that its directory is on the daemon's PATH ''
                     @ ''(`hqssh service logs` shows the PATH the daemon added)'')]
              else [pass_check name (''daemon detects: '' @ join_with '', '' (da_tools ans))]
          | None \<Rightarrow>
              let found = di_detect_tools io cfg in
              if found = [] then
                [warn_check name (''none of the configured AI tools ('' @ join_with '', '' configured
                     @ '') detected from this shell (daemon not running; its own environment may differ)'') []]
              else [pass_check name (''detected from this shell: '' @ join_with '', '' found
                      @ '' (daemon not running; its own environment may differ)'')])"

section \<open>The run\<close>

definition doctor_config :: "'w doctor_io \<Rightarrow> doctor_opts \<Rightarrow> string + config" where
  "doctor_config io o' =
     (if op_ConfigPath o' \<noteq> [] then di_load io (op_ConfigPath o')
      else case DefaultConfigPath (mc_home (sy_machine (di_sys io))) of
        Some path \<Rightarrow> di_load io path | None \<Rightarrow> Inr (DefaultConfig []))"

definition doctor_start :: "'w doctor_io \<Rightarrow> doctor_opts \<Rightarrow> doctor_env" where
  "doctor_start io o' =
     (let cfg = doctor_config io o' in
      \<lparr>en_opts = doctor_defaults cfg o', en_daemonPath = [], en_service = None, en_svcStatus = None,
       en_pidfile = (StatusNone, 0), en_socketAnswer = None, en_tcpAnswer = None, en_cfg = cfg,
       en_token = (case cfg of Inr c \<Rightarrow> AuthToken c | Inl _ \<Rightarrow> []), en_logPath = [], en_logTail = []\<rparr>)"

text \<open>A step of the run; those that run no command leave the world alone, and some only look.\<close>

type_synonym 'w doctor_step = "'w doctor_io \<Rightarrow> doctor_env \<Rightarrow> 'w \<Rightarrow> ('w \<times> doctor_env) \<times> check list"

definition noting :: "('w doctor_io \<Rightarrow> doctor_env \<Rightarrow> doctor_env \<times> check list) \<Rightarrow> 'w doctor_step" where
  "noting f io e w = (let (e, cs) = f io e in ((w, e), cs))"

definition looking :: "('w doctor_io \<Rightarrow> doctor_env \<Rightarrow> check list) \<Rightarrow> 'w doctor_step" where
  "looking f io e w = ((w, e), f io e)"

definition running :: "('w doctor_io \<Rightarrow> doctor_env \<Rightarrow> 'w \<Rightarrow> 'w \<times> check list) \<Rightarrow> 'w doctor_step" where
  "running f io e w = (let (w, cs) = f io e w in ((w, e), cs))"

definition doctor_steps :: "'w doctor_step list" where
  "doctor_steps =
     [checkBinaries, looking checkPath, checkService, noting checkPidfile, noting checkSocket, noting checkTCP,
      looking checkBootDelay, looking (\<lambda>io. checkConsistency), looking checkConfig, checkLog,
      looking (\<lambda>io e. checkDataDir io), looking (\<lambda>io e. checkLsof io), running checkCodesign, looking checkTools]"

fun run_steps :: "'w doctor_step list \<Rightarrow> 'w doctor_io \<Rightarrow> doctor_env \<Rightarrow> 'w \<Rightarrow> ('w \<times> doctor_env) \<times> check list" where
  "run_steps [] io e w = ((w, e), [])"
| "run_steps (f # fs) io e w =
     (let ((w, e), cs) = f io e w; (r, cs') = run_steps fs io e w in (r, cs @ cs'))"

definition doctor_Run :: "'w doctor_io \<Rightarrow> doctor_opts \<Rightarrow> 'w \<Rightarrow> 'w \<times> report" where
  "doctor_Run io o' w =
     (let ((w, e), cs) = run_steps doctor_steps io (doctor_start io o') w;
          r = \<lparr>rp_OS = mc_goos (sy_machine (di_sys io)), rp_Arch = di_arch io, rp_CLIVersion = di_version io,
               rp_Checks = cs, rp_LogPath = en_logPath e, rp_LogTail = []\<rparr> in
      (w, if Failed r then r\<lparr>rp_LogTail := en_logTail e\<rparr> else r))"

section \<open>Every failure comes with advice\<close>

definition advised :: "check \<Rightarrow> bool" where
  "advised c \<longleftrightarrow> ck_Name c \<noteq> []
     \<and> (ck_Status c = CheckFail \<longrightarrow> ck_Hint c \<noteq> []) \<and> (ck_Status c \<in> {CheckPass, CheckSkip} \<longrightarrow> ck_Hint c = [])"

lemma advised_intros [simp, intro]:
  "name \<noteq> [] \<Longrightarrow> advised (pass_check name detail)" "name \<noteq> [] \<Longrightarrow> advised (skip_check name detail)"
  "name \<noteq> [] \<Longrightarrow> advised (warn_check name detail hint)"
  "name \<noteq> [] \<Longrightarrow> hint \<noteq> [] \<Longrightarrow> advised (fail_check name detail hint)"
  by (simp_all add: advised_def check_defs)

lemma check_status_simps [simp]:
  "ck_Status (pass_check n d) = CheckPass" "ck_Status (warn_check n d h) = CheckWarn"
  "ck_Status (fail_check n d h) = CheckFail" "ck_Status (skip_check n d) = CheckSkip"
  by (simp_all add: check_defs)

lemma advice_not_empty [simp]: "InstallCommand \<noteq> []" "startHint e \<noteq> []" "NoGUISessionHint \<noteq> []"
  by (simp_all add: InstallCommand_def startHint_def NoGUISessionHint_def split: option.split)

lemma checkPath_advised: "c \<in> set (checkPath io e) \<Longrightarrow> advised c"
  by (auto simp: checkPath_def Let_def split: if_splits)

lemma checkBootDelay_advised: "c \<in> set (checkBootDelay io e) \<Longrightarrow> advised c"
  by (cases "en_service e"; cases "en_svcStatus e"; cases "si_Launchd (the (en_svcStatus e))";
      cases "en_socketAnswer e"; cases "di_boot_time io")
    (auto simp: checkBootDelay_def Let_def split: option.splits if_splits)

lemma checkConsistency_advised: "c \<in> set (checkConsistency e) \<Longrightarrow> advised c"
  by (auto simp: checkConsistency_def Let_def split: option.splits if_splits)

lemma checkConfig_advised: "c \<in> set (checkConfig io e) \<Longrightarrow> advised c"
  by (auto simp: checkConfig_def Let_def split: option.splits sum.splits if_splits)

lemma checkDataDir_advised: "c \<in> set (checkDataDir io) \<Longrightarrow> advised c"
  by (auto simp: checkDataDir_def Let_def split: option.splits data_dir.splits if_splits)

lemma checkLsof_advised: "c \<in> set (checkLsof io) \<Longrightarrow> advised c"
  by (auto simp: checkLsof_def Let_def split: if_splits)

lemma checkTools_advised: "c \<in> set (checkTools io e) \<Longrightarrow> advised c"
  by (auto simp: checkTools_def Let_def split: option.splits sum.splits if_splits)

lemma checkPidfile_advised: "c \<in> set (snd (checkPidfile io e)) \<Longrightarrow> advised c"
  by (auto simp: checkPidfile_def Let_def split: option.splits sum.splits pid_status.splits if_splits)

lemma checkSocket_advised: "c \<in> set (snd (checkSocket io e)) \<Longrightarrow> advised c"
  by (auto simp: checkSocket_def Let_def split: option.splits sum.splits socket_probe.splits if_splits)

lemma checkTCP_advised: "c \<in> set (snd (checkTCP io e)) \<Longrightarrow> advised c"
  by (auto simp: checkTCP_def Let_def split: option.splits sum.splits if_splits)

lemma checkBinaries_advised: "c \<in> set (snd (checkBinaries io e w)) \<Longrightarrow> advised c"
  by (auto simp: checkBinaries_def Let_def split: prod.splits option.splits if_splits)

lemma checkCodesign_advised: "c \<in> set (snd (checkCodesign io e w)) \<Longrightarrow> advised c"
  by (auto simp: checkCodesign_def Let_def split: prod.splits if_splits)

lemma checkServicePlatform_advised: "c \<in> set (snd (checkServicePlatform io svc info w)) \<Longrightarrow> advised c"
  by (auto simp: checkServicePlatform_def Let_def split: service_kind.splits option.splits prod.splits if_splits)

lemma service_state_advised: "advised (service_state_check svc info)"
  by (auto simp: service_state_check_def Let_def split: option.split)

lemma service_warnings_advised:
  "c \<in> set (second_service_check services) \<Longrightarrow> advised c" "c \<in> set (two_installs_check io p info) \<Longrightarrow> advised c"
  by (auto simp: second_service_check_def two_installs_check_def split: list.splits option.splits if_splits)

lemma checkService_advised:
  assumes c: "c \<in> set (snd (checkService io e w))"
  shows "advised c"
proof (cases "DetectServices (sy_machine (di_sys io)) = []")
  case True
  then show ?thesis using c by (simp add: checkService_def Let_def)
next
  case False
  obtain w' st where st: "ServiceStatus (di_sys io) (hd (DetectServices (sy_machine (di_sys io)))) w = (w', st)" by fastforce
  show ?thesis
  proof (cases st)
    case (Inl err)
    then show ?thesis
      using c False service_warnings_advised by (auto simp: checkService_def Let_def st)
  next
    case (Inr info)
    obtain w2 platform where p: "checkServicePlatform io (hd (DetectServices (sy_machine (di_sys io)))) info w' = (w2, platform)"
      by fastforce
    have "c \<in> set platform \<Longrightarrow> advised c" using checkServicePlatform_advised [of c io _ info w'] p by (metis snd_conv)
    then show ?thesis
      using c False Inr service_warnings_advised service_state_advised by (auto simp: checkService_def Let_def st p)
  qed
qed

lemma check_log_file_advised: "c \<in> set (snd (check_log_file io path e)) \<Longrightarrow> advised c"
  by (auto simp: check_log_file_def Let_def split: file_read.splits)

lemma checkLog_advised: "c \<in> set (snd (checkLog io e w)) \<Longrightarrow> advised c"
  unfolding checkLog_def Let_def case_prod_beta
  by (simp only: if_distrib [of snd] snd_conv split: if_splits)
    (simp_all add: check_log_file_advised)

lemmas step_defs = noting_def looking_def running_def

lemma doctor_steps_advised:
  assumes "f \<in> set doctor_steps" and "c \<in> set (snd (f io e w))"
  shows "advised c"
proof -
  have "\<forall>f \<in> set doctor_steps. c \<in> set (snd (f io e w)) \<longrightarrow> advised c"
    unfolding doctor_steps_def list.set ball_simps(5,7) step_defs case_prod_beta Let_def snd_conv
    by (intro conjI impI TrueI; erule checkPath_advised checkBootDelay_advised checkConsistency_advised
        checkConfig_advised checkDataDir_advised checkLsof_advised checkTools_advised checkPidfile_advised
        checkSocket_advised checkTCP_advised checkBinaries_advised checkCodesign_advised checkService_advised
        checkLog_advised)
  from bspec [OF this assms(1)] show ?thesis using assms(2) by (rule mp)
qed

lemma run_steps_checks:
  "c \<in> set (snd (run_steps fs io e w)) \<Longrightarrow> \<exists>f e w. f \<in> set fs \<and> c \<in> set (snd (f io e w))"
proof (induction fs arbitrary: e w)
  case (Cons f fs)
  obtain w1 e1 cs where f: "f io e w = ((w1, e1), cs)" by (metis prod.exhaust)
  have "c \<in> set cs \<or> c \<in> set (snd (run_steps fs io e1 w1))"
    using Cons.prems by (simp add: f case_prod_beta Let_def)
  then show ?case
  proof
    assume "c \<in> set cs"
    then have "f \<in> set (f # fs) \<and> c \<in> set (snd (f io e w))" by (simp add: f)
    then show ?thesis by (intro exI)
  next
    assume "c \<in> set (snd (run_steps fs io e1 w1))"
    from Cons.IH [OF this] show ?thesis by (elim exE conjE) (intro exI conjI list.set_intros(2))
  qed
qed simp

lemma run_steps_append:
  "run_steps (fs @ gs) io e w =
     (let ((w1, e1), cs) = run_steps fs io e w; (r, cs') = run_steps gs io e1 w1 in (r, cs @ cs'))"
  by (induction fs arbitrary: e w) (simp_all add: case_prod_beta Let_def)

section \<open>Two daemons\<close>

text \<open>What the steps before the transports leave as it was.\<close>

definition keeps :: "doctor_env \<Rightarrow> doctor_env \<Rightarrow> bool" where
  "keeps e e' \<longleftrightarrow> en_opts e' = en_opts e \<and> en_cfg e' = en_cfg e \<and> en_token e' = en_token e"

lemma checkBinaries_keeps: "keeps e (snd (fst (checkBinaries io e w)))"
  by (simp add: keeps_def checkBinaries_def Let_def split: prod.split)

lemma checkService_keeps: "keeps e (snd (fst (checkService io e w)))"
  by (simp add: keeps_def checkService_def Let_def split: prod.split sum.split)

lemma checkPidfile_keeps: "keeps e (fst (checkPidfile io e))"
  by (simp add: keeps_def checkPidfile_def Let_def split: option.split sum.split prod.split)

lemma keeps_trans: "keeps e1 e2 \<Longrightarrow> keeps e2 e3 \<Longrightarrow> keeps e1 e3"
  by (simp add: keeps_def)

lemma run_steps_keeps:
  assumes "\<forall>f \<in> set fs. \<forall>e w. keeps e (snd (fst (f io e w)))"
  shows "keeps e (snd (fst (run_steps fs io e w)))"
  using assms
proof (induction fs arbitrary: e w)
  case (Cons f fs)
  obtain w1 e1 cs where f: "f io e w = ((w1, e1), cs)" by (metis prod.exhaust)
  have "keeps e (snd (fst (f io e w)))" using Cons.prems by simp
  then have "keeps e e1" by (simp add: f)
  moreover have "keeps e1 (snd (fst (run_steps fs io e1 w1)))" using Cons by simp
  ultimately show ?case by (simp add: f case_prod_beta Let_def) (rule keeps_trans)
qed (simp add: keeps_def)

lemma first_steps_keep:
  "f \<in> set [checkBinaries, looking checkPath, checkService, noting checkPidfile] \<Longrightarrow> keeps e (snd (fst (f io e w)))"
  using checkBinaries_keeps [of e io w] checkService_keeps [of e io w] checkPidfile_keeps [of e io]
  by (auto simp: step_defs case_prod_beta keeps_def)

definition serves :: "'w doctor_io \<Rightarrow> doctor_env \<Rightarrow> daemon_answer \<Rightarrow> daemon_answer \<Rightarrow> bool" where
  "serves io e s t \<longleftrightarrow>
     (let path = op_SocketPath (en_opts e); addr = op_TCPAddr (en_opts e) in
      di_probe io path = ProbeOk \<and> di_grpc io path = None \<and> di_ask io path (en_token e) = Inr s
      \<and> addr \<noteq> [] \<and> \<not> cfgTCPDisabled e \<and> di_dial io addr = None \<and> di_grpc io addr = None
      \<and> di_ask io addr (en_token e) = Inr t)"

lemma serves_keeps: "keeps e e' \<Longrightarrow> serves io e s t = serves io e' s t"
  by (simp add: serves_def keeps_def cfgTCPDisabled_def)

lemma checkSocket_serves: "serves io e s t \<Longrightarrow> fst (checkSocket io e) = e\<lparr>en_socketAnswer := Some s\<rparr>"
  by (simp add: serves_def checkSocket_def Let_def)

lemma checkTCP_serves:
  "serves io e s t \<Longrightarrow> fst (checkTCP io (e\<lparr>en_socketAnswer := Some s\<rparr>)) = e\<lparr>en_socketAnswer := Some s, en_tcpAnswer := Some t\<rparr>"
  by (simp add: serves_def checkTCP_def cfgTCPDisabled_def Let_def)

lemma doctor_steps_consistency:
  fixes io :: "'a doctor_io"
  assumes "serves io (doctor_start io o') s t"
  shows "\<exists>pre post e. snd (run_steps doctor_steps io (doctor_start io o') w) = pre @ checkConsistency e @ post
    \<and> en_socketAnswer e = Some s \<and> en_tcpAnswer e = Some t"
proof -
  let ?first = "[checkBinaries, looking checkPath, checkService, noting checkPidfile]"
  define transports :: "'a doctor_step list"
    where "transports = [noting checkSocket, noting checkTCP, looking checkBootDelay]"
  obtain rest :: "'a doctor_step list" where steps: "doctor_steps = ?first @ transports @ looking (\<lambda>io. checkConsistency) # rest"
    by (simp add: doctor_steps_def transports_def)
  obtain w1 e1 c1 where r1: "run_steps ?first io (doctor_start io o') w = ((w1, e1), c1)" by (metis prod.exhaust)
  have all: "\<forall>f \<in> set ?first. \<forall>e w. keeps e (snd (fst (f io e w)))" by (intro ballI allI) (rule first_steps_keep)
  have "keeps (doctor_start io o') e1" using run_steps_keeps [OF all, of "doctor_start io o'" w] by (simp only: r1 fst_conv snd_conv)
  then have "serves io e1 s t" using assms serves_keeps by blast
  note sv = checkSocket_serves [OF this] checkTCP_serves [OF this]
  obtain w2 e2 c2 where r2: "run_steps transports io e1 w1 = ((w2, e2), c2)" by (metis prod.exhaust)
  have "snd (fst (run_steps transports io e1 w1)) = e1\<lparr>en_socketAnswer := Some s, en_tcpAnswer := Some t\<rparr>"
    using sv by (simp add: case_prod_beta Let_def step_defs transports_def)
  then have "e2 = e1\<lparr>en_socketAnswer := Some s, en_tcpAnswer := Some t\<rparr>" by (simp only: r2 fst_conv snd_conv)
  then have e2: "en_socketAnswer e2 = Some s" "en_tcpAnswer e2 = Some t" by simp_all
  obtain r3 c3 where r3: "run_steps rest io e2 w2 = (r3, c3)" by (metis prod.exhaust)
  have "snd (run_steps doctor_steps io (doctor_start io o') w) = (c1 @ c2) @ checkConsistency e2 @ c3"
    unfolding steps run_steps_append r1 by (simp add: run_steps_append r2 r3 looking_def)
  then show ?thesis using e2 by blast
qed

lemma consistency_two_daemons:
  assumes "en_socketAnswer e = Some s" and "en_tcpAnswer e = Some t"
  shows "(\<exists>c \<in> set (checkConsistency e). ck_Status c = CheckFail) \<longleftrightarrow> twoDaemons s t"
  using assms by (auto simp: checkConsistency_def Let_def split: option.splits if_splits)

lemma two_daemons_advice:
  "en_socketAnswer e = Some s \<Longrightarrow> en_tcpAnswer e = Some t \<Longrightarrow> twoDaemons s t \<Longrightarrow>
     checkConsistency e =
       [fail_check ''consistency''
          (''socket is served by pid '' @ itoa (da_pid s) @ '' but TCP by pid '' @ itoa (da_pid t)
            @ '': two daemons are running'')
          (''kill '' @ itoa (da_pid t) @ ''   # then: hqssh service restart'')]"
  by (simp add: checkConsistency_def)

section \<open>The report\<close>

text \<open>
  Every run of the doctor ends in a report whose counts add up to its checks, that has failed exactly if the
  count of failures is positive, in which every check is named, every failure comes with a command or an advice
  and no passed or skipped check does, and that ships lines of the log only when it failed.
\<close>

lemma doctor_report:
  "let r = snd (doctor_Run io o' w); (pass, warn, fail, skip) = Counts r in
     pass + warn + fail + skip = length (rp_Checks r)
     \<and> Failed r = (0 < fail)
     \<and> list_all advised (rp_Checks r)
     \<and> (Failed r \<or> rp_LogTail r = [])"
proof -
  define r where "r = snd (doctor_Run io o' w)"
  have cs: "rp_Checks r = snd (run_steps doctor_steps io (doctor_start io o') w)"
    and tail: "Failed r \<or> rp_LogTail r = []"
    by (auto simp: r_def doctor_Run_def Let_def case_prod_beta Failed_def)
  have "\<forall>c \<in> set (rp_Checks r). advised c"
  proof
    fix c assume "c \<in> set (rp_Checks r)"
    from run_steps_checks [OF this [unfolded cs]] show "advised c" by (elim exE conjE) (rule doctor_steps_advised)
  qed
  moreover have "Failed r = (0 < length (filter (\<lambda>c. ck_Status c = CheckFail) (rp_Checks r)))"
    by (auto simp: Failed_def any_failed_iff filter_empty_conv)
  ultimately show ?thesis
    using tail status_partition [of "rp_Checks r"] unfolding r_def [symmetric]
    by (simp add: Counts_def count_checks_eq list_all_iff Let_def)
qed

text \<open>
  C38: When the socket and the TCP port both answer and the answers come from two daemons (by their pids, or by
  their uptimes where a daemon reports no pid), the run fails with the check that names both pids and the command
  that kills the one on the TCP port; whatever the other checks find, it is not lost.
\<close>

theorem doctor_reports_two_daemons:
  assumes "serves io (doctor_start io o') s t" and "twoDaemons s t"
  shows "Failed (snd (doctor_Run io o' w))
    \<and> list_ex (\<lambda>c. c = fail_check ''consistency''
          (''socket is served by pid '' @ itoa (da_pid s) @ '' but TCP by pid '' @ itoa (da_pid t)
            @ '': two daemons are running'')
          (''kill '' @ itoa (da_pid t) @ ''   # then: hqssh service restart'')) (rp_Checks (snd (doctor_Run io o' w)))"
proof -
  let ?r = "snd (doctor_Run io o' w)"
  have cs: "rp_Checks ?r = snd (run_steps doctor_steps io (doctor_start io o') w)"
    by (auto simp: doctor_Run_def Let_def case_prod_beta)
  obtain pre post e where e: "rp_Checks ?r = pre @ checkConsistency e @ post"
      "en_socketAnswer e = Some s" "en_tcpAnswer e = Some t"
    using doctor_steps_consistency [OF assms(1), of w] unfolding cs by blast
  have "list_ex (\<lambda>c. c = hd (checkConsistency e)) (rp_Checks ?r)"
    unfolding e(1) two_daemons_advice [OF e(2,3) assms(2)] by simp
  then have found: "list_ex (\<lambda>c. c = hd (checkConsistency e) \<and> ck_Status c = CheckFail) (rp_Checks ?r)"
    unfolding two_daemons_advice [OF e(2,3) assms(2)] by (auto simp: list_ex_iff)
  then have "Failed ?r" by (auto simp: Failed_def any_failed_iff list_ex_iff)
  then show ?thesis using found unfolding two_daemons_advice [OF e(2,3) assms(2)] by (auto simp: list_ex_iff)
qed

definition demo_answer :: "int \<Rightarrow> time \<Rightarrow> daemon_answer" where
  "demo_answer pid up = \<lparr>da_version = ''1.2.0'', da_pid = pid, da_uptime = up, da_sessions = 0, da_tools = []\<rparr>"

definition demo_doctor_io :: "int \<Rightarrow> time doctor_io" where
  "demo_doctor_io pid =
     \<lparr>di_sys = demo_sys, di_version = ''1.4.0'', di_arch = ''amd64'', di_look_path = (\<lambda>p. None), di_executable = None,
      di_is_executable = (\<lambda>p. False), di_getenv = (\<lambda>k. []), di_eval_symlinks = (\<lambda>p. None), di_username = None,
      di_pid_check = (\<lambda>p. Inr (StatusNone, 0)), di_probe = (\<lambda>p. ProbeOk), di_grpc = (\<lambda>a. None),
      di_ask = (\<lambda>a tok. Inr (if a = DefaultSocketPath then demo_answer pid (60 * second) else demo_answer pid second)),
      di_dial = (\<lambda>a. None), di_boot_time = None, di_now = 0, di_mtime = (\<lambda>p. None),
      di_load = (\<lambda>p. Inr (DefaultConfig ''/h'')), di_perm_problem = (\<lambda>p. None), di_max_socket = 108,
      di_read = (\<lambda>p. FileMissing), di_data_dir = (\<lambda>p. DataMissing), di_lsof = [], di_detect_tools = (\<lambda>c. [])\<rparr>"

definition demo_doctor_opts :: doctor_opts where
  "demo_doctor_opts = \<lparr>op_SocketPath = [], op_TCPAddr = [], op_ConfigPath = [], op_LogLines = 0\<rparr>"

lemma demo_serves:
  "serves (demo_doctor_io 0) (doctor_start (demo_doctor_io 0) demo_doctor_opts) (demo_answer 0 (60 * second)) (demo_answer 0 second)"
  by (simp add: serves_def doctor_start_def doctor_config_def doctor_defaults_def demo_doctor_io_def demo_doctor_opts_def
      demo_sys_def DefaultConfigPath_def DataDir_def DefaultConfig_def DefaultSocketPath_def DefaultTCPPort_def cfgTCPDisabled_def)

lemma doctor_reports_two_daemons_witness:
  "Failed (snd (doctor_Run (demo_doctor_io 0) demo_doctor_opts 5))
   \<and> list_ex (\<lambda>c. ck_Hint c = ''kill 0   # then: hqssh service restart'') (rp_Checks (snd (doctor_Run (demo_doctor_io 0) demo_doctor_opts 5)))"
proof -
  have two: "twoDaemons (demo_answer 0 (60 * second)) (demo_answer 0 second)" by (simp add: twoDaemons_def demo_answer_def)
  have pid: "''kill '' @ itoa (da_pid (demo_answer 0 second)) @ ''   # then: hqssh service restart''
      = ''kill 0   # then: hqssh service restart''" by (simp add: demo_answer_def itoa_def itoa_nat.simps [of 0] digit_char_def)
  show ?thesis
    using doctor_reports_two_daemons [OF demo_serves two, of 5] unfolding pid list_ex_iff
    by (metis check.select_convs(4) fail_check_def)
qed

end
