(* ===== verification/Cli_Output.thy ===== *)
theory Cli_Output
  imports Cli_Sessions Cli_Tasks Doctor Server_Main
begin

text \<open>
  What the other commands of the command line tool ask the daemon and print: the lists of \<open>sessions.go\<close>,
  \<open>tasks.go\<close>, \<open>runs.go\<close>, \<open>history.go\<close> and \<open>projects.go\<close>, the log of \<open>logs.go\<close>, \<open>info.go\<close>, and the commands that
  add, remove and cancel. A list is printed as the values given to the JSON encoder, as a text, or as the rows
  written to \<open>text/tabwriter\<close>, which only aligns them, and the text after the table.
\<close>

section \<open>Times and sizes\<close>

text \<open>
  \<open>now\<close> is in nanoseconds, \<open>ts\<close> in seconds. The source computes hours and days in floating point, which
  agrees with the division here except within a microsecond before a full day.
\<close>

definition formatTime :: "time \<Rightarrow> int \<Rightarrow> string" where
  "formatTime now ts =
     (if ts = 0 then ''Never''
      else
        let diff = now - ts * second in
        if diff < minute then ''Just now''
        else if diff < 60 * minute then itoa (diff div minute) @ ''m ago''
        else if diff < 24 * 60 * minute then itoa (diff div (60 * minute)) @ ''h ago''
        else itoa (diff div (24 * 60 * minute)) @ ''d ago'')"

text \<open>Start and end in seconds, so a span has no fraction; spans are below the 292 years of a \<open>Duration\<close>.\<close>

definition formatDuration :: "time \<Rightarrow> int \<Rightarrow> int \<Rightarrow> string" where
  "formatDuration now startedAt completedAt =
     (if startedAt = 0 then ''-''
      else
        let d = (if completedAt = 0 then now div second else completedAt) - startedAt in
        if d < 60 then itoa d @ ''.0s''
        else if d < 3600 then itoa (d div 60) @ ''m '' @ itoa (d mod 60) @ ''s''
        else itoa (d div 3600) @ ''h '' @ itoa (d div 60 mod 60) @ ''m'')"

text \<open>\<open>%.1f\<close> of a quotient by a power of two.\<close>

definition one_decimal :: "nat \<Rightarrow> nat \<Rightarrow> string" where
  "one_decimal a b = (let t = round_half_even (10 * a) b in itoa (int (t div 10)) @ ''.'' @ itoa (int (t mod 10)))"

definition formatBytes :: "int \<Rightarrow> string" where
  "formatBytes b =
     (if b = 0 then ''-''
      else if b < 1024 then itoa b @ ''B''
      else if b < 1024 * 1024 then one_decimal (nat b) 1024 @ ''KB''
      else one_decimal (nat b) (1024 * 1024) @ ''MB'')"

definition formatUptime :: "int \<Rightarrow> string" where
  "formatUptime s =
     (if s < 60 then itoa s @ ''s''
      else if s < 3600 then itoa (s div 60) @ ''m '' @ itoa (s mod 60) @ ''s''
      else if s < 86400 then itoa (s div 3600) @ ''h '' @ itoa (s mod 3600 div 60) @ ''m''
      else itoa (s div 86400) @ ''d '' @ itoa (s mod 86400 div 3600) @ ''h'')"

section \<open>Lists\<close>

datatype 'j listing = ListJson "'j list" | ListText string | ListTable "string list list" string

record out_session =
  js_ID :: string
  js_Name :: string
  js_Tool :: string
  js_Status :: string
  js_ProjectID :: string
  js_WorkingDir :: string
  js_ClientCount :: int
  js_CreatedAt :: int
  js_LastActivity :: int

definition to_out_session :: "pb_session \<Rightarrow> out_session" where
  "to_out_session s =
     \<lparr>js_ID = pbs_Id s, js_Name = pbs_Name s, js_Tool = pbs_Tool s, js_Status = statusString (pbs_Status s),
      js_ProjectID = pbs_ProjectId s, js_WorkingDir = pbs_WorkingDirectory s, js_ClientCount = pbs_ClientCount s,
      js_CreatedAt = pbs_CreatedAt s, js_LastActivity = pbs_LastActivity s\<rparr>"

text \<open>\<open>upper\<close> is \<open>strings.ToUpper\<close>.\<close>

definition session_row :: "(string \<Rightarrow> string) \<Rightarrow> time \<Rightarrow> pb_session \<Rightarrow> string list" where
  "session_row upper now s =
     [shortID (pbs_Id s), cli_truncate (if pbs_Name s = [] then upper (pbs_Tool s) else pbs_Name s) 30,
      statusString (pbs_Status s), itoa (pbs_ClientCount s), formatTime now (pbs_LastActivity s)]"

definition no_sessions_text :: "string \<Rightarrow> string" where
  "no_sessions_text hostLabel =
     ''No active sessions.'' @ nl @ nl @ ''To create a new session:'' @ nl
     @ ''  hqssh new --tool claude'' @ hostFlag hostLabel @ nl @ nl
     @ ''Or start from the HQSSH mobile app, then attach with:'' @ nl
     @ ''  hqssh attach <session-id>'' @ hostFlag hostLabel @ nl"

text \<open>\<open>resp\<close> is the answer to the list request, an error as its text.\<close>

definition runSessions ::
  "(string \<Rightarrow> string \<Rightarrow> bool) \<Rightarrow> (string \<Rightarrow> string) \<Rightarrow> time \<Rightarrow> string + pb_session list \<Rightarrow> string \<Rightarrow> string \<Rightarrow> bool
   \<Rightarrow> string \<Rightarrow> string + out_session listing" where
  "runSessions ufold upper now resp statusFilter toolFilter json hostLabel =
     (case resp of
        Inl e \<Rightarrow> Inl (''list sessions: '' @ e)
      | Inr ss \<Rightarrow>
          let sessions = filterSessions ufold statusFilter toolFilter ss in
          Inr (if json then ListJson (map to_out_session sessions)
               else if sessions = [] then ListText (no_sessions_text hostLabel)
               else ListTable
                 ([''ID'', ''NAME'', ''STATUS'', ''CLIENTS'', ''LAST ACTIVITY'']
                  # [''--'', ''----'', ''------'', ''-------'', ''-------------'']
                  # map (session_row upper now) sessions)
                 (nl @ ''To attach to a session:'' @ nl @ ''  hqssh attach <ID>'' @ hostFlag hostLabel @ nl)))"

record out_task =
  jt_ID :: string
  jt_Name :: string
  jt_Description :: string
  jt_Tool :: string
  jt_Scope :: string
  jt_ProjectID :: string
  jt_Timeout :: int

definition to_out_task :: "pb_task \<Rightarrow> out_task" where
  "to_out_task t =
     \<lparr>jt_ID = pt_Id t, jt_Name = pt_Name t, jt_Description = pt_Description t, jt_Tool = pt_Tool t,
      jt_Scope = scopeString (pt_Scope t), jt_ProjectID = pt_ProjectId t, jt_Timeout = pt_TimeoutSeconds t\<rparr>"

definition runTasks :: "string + pb_task list \<Rightarrow> bool \<Rightarrow> string \<Rightarrow> string + out_task listing" where
  "runTasks resp json hostLabel =
     (case resp of
        Inl e \<Rightarrow> Inl (''list tasks: '' @ e)
      | Inr ts \<Rightarrow>
          Inr (if json then ListJson (map to_out_task ts)
               else if ts = [] then
                 ListText (''No tasks defined.'' @ nl @ nl @ ''Create tasks from the HQSSH mobile app to automate commands.'' @ nl)
               else ListTable
                 ([''ID'', ''NAME'', ''TOOL'', ''SCOPE'', ''DESCRIPTION''] # [''--'', ''----'', ''----'', ''-----'', ''-----------'']
                  # map (\<lambda>t. [shortID (pt_Id t), cli_truncate (pt_Name t) 20, pt_Tool t, scopeString (pt_Scope t),
                              cli_truncate (pt_Description t) 40]) ts)
                 (nl @ ''To run a task:'' @ nl @ ''  hqssh run <ID>'' @ hostFlag hostLabel @ nl)))"

record out_run =
  jr_ID :: string
  jr_TaskID :: string
  jr_Status :: string
  jr_StartedAt :: int
  jr_CompletedAt :: int
  jr_Duration :: string

definition to_out_run :: "time \<Rightarrow> pb_run \<Rightarrow> out_run" where
  "to_out_run now r =
     \<lparr>jr_ID = pr_Id r, jr_TaskID = pr_TaskId r, jr_Status = runStatusString (pr_Status r),
      jr_StartedAt = pr_StartedAt r, jr_CompletedAt = pr_CompletedAt r,
      jr_Duration = formatDuration now (pr_StartedAt r) (pr_CompletedAt r)\<rparr>"

definition run_row :: "time \<Rightarrow> pb_run \<Rightarrow> string list" where
  "run_row now r =
     [shortID (pr_Id r), shortID (pr_TaskId r), runStatusString (pr_Status r),
      formatDuration now (pr_StartedAt r) (pr_CompletedAt r), formatTime now (pr_StartedAt r)]"

text \<open>\<open>runs\<close>: the filter is resolved against one list of tasks, the runs come from a later state.\<close>

definition runRuns ::
  "time \<Rightarrow> string \<Rightarrow> int \<Rightarrow> bool \<Rightarrow> string \<Rightarrow> task_srv \<Rightarrow> task_srv \<Rightarrow> string + out_run listing" where
  "runRuns now task limit json hostLabel listed s =
     (case (if task = [] then Inr [] else resolveTaskID (Inr (task_svc_List 0 [] listed)) task hostLabel) of
        Inl e \<Rightarrow> Inl (''find task: '' @ e)
      | Inr taskFilter \<Rightarrow>
          let rs = task_svc_ListRuns taskFilter (to_int32 limit) s in
          Inr (if json then ListJson (map (to_out_run now) rs)
               else if rs = [] then
                 ListText (''No task runs found.'' @ nl @ nl @ ''Run a task with:'' @ nl
                   @ ''  hqssh run <task-id>'' @ hostFlag hostLabel @ nl)
               else ListTable
                 ([''RUN ID'', ''TASK'', ''STATUS'', ''DURATION'', ''STARTED'']
                  # [''------'', ''----'', ''------'', ''--------'', ''-------''] # map (run_row now) rs) []))"

record out_history =
  jh_ID :: string
  jh_Name :: string
  jh_Tool :: string
  jh_WorkingDir :: string
  jh_ProjectID :: string
  jh_CreatedAt :: int
  jh_EndedAt :: int
  jh_Duration :: string
  jh_LogSizeBytes :: int

definition to_out_history :: "time \<Rightarrow> pb_session \<Rightarrow> out_history" where
  "to_out_history now s =
     \<lparr>jh_ID = pbs_Id s, jh_Name = pbs_Name s, jh_Tool = pbs_Tool s, jh_WorkingDir = pbs_WorkingDirectory s,
      jh_ProjectID = pbs_ProjectId s, jh_CreatedAt = pbs_CreatedAt s, jh_EndedAt = pbs_EndedAt s,
      jh_Duration = formatDuration now (pbs_CreatedAt s) (pbs_EndedAt s), jh_LogSizeBytes = pbs_LogSizeBytes s\<rparr>"

definition history_row :: "time \<Rightarrow> pb_session \<Rightarrow> string list" where
  "history_row now s =
     [shortID (pbs_Id s), cli_truncate (if pbs_Name s = [] then pbs_Tool s else pbs_Name s) 30,
      formatDuration now (pbs_CreatedAt s) (pbs_EndedAt s), formatBytes (pbs_LogSizeBytes s),
      formatTime now (pbs_EndedAt s)]"

definition runHistory :: "time \<Rightarrow> string + pb_session list \<Rightarrow> bool \<Rightarrow> string + out_history listing" where
  "runHistory now resp json =
     (case resp of
        Inl e \<Rightarrow> Inl (''list history: '' @ e)
      | Inr ss \<Rightarrow>
          Inr (if json then ListJson (map (to_out_history now) ss)
               else if ss = [] then ListText (''No session history found.'' @ nl)
               else ListTable
                 ([''ID'', ''NAME'', ''DURATION'', ''LOG SIZE'', ''ENDED'']
                  # [''--'', ''----'', ''--------'', ''--------'', ''-----''] # map (history_row now) ss) []))"

record out_project =
  jp_ID :: string
  jp_Name :: string
  jp_Path :: string
  jp_Tools :: "string list"
  jp_LastAccessed :: int
  jp_IsFavorite :: bool

definition to_out_project :: "pb_project \<Rightarrow> out_project" where
  "to_out_project p =
     \<lparr>jp_ID = pp_Id p, jp_Name = pp_Name p, jp_Path = pp_Path p, jp_Tools = pp_DetectedTools p,
      jp_LastAccessed = pp_LastAccessed p, jp_IsFavorite = pp_IsFavorite p\<rparr>"

definition project_row :: "time \<Rightarrow> pb_project \<Rightarrow> string list" where
  "project_row now p =
     [shortID (pp_Id p), cli_truncate (pp_Name p) 20, cli_truncate (pp_Path p) 40,
      (if pp_DetectedTools p = [] then ''-'' else join_with '', '' (pp_DetectedTools p)),
      (if 0 < pp_LastAccessed p then formatTime now (pp_LastAccessed p) else ''Never'')]"

definition runProjects :: "time \<Rightarrow> string + pb_project list \<Rightarrow> bool \<Rightarrow> string \<Rightarrow> string + out_project listing" where
  "runProjects now resp json hostLabel =
     (case resp of
        Inl e \<Rightarrow> Inl (''list projects: '' @ e)
      | Inr ps \<Rightarrow>
          Inr (if json then ListJson (map to_out_project ps)
               else if ps = [] then
                 ListText (''No projects registered.'' @ nl @ nl @ ''To register a project:'' @ nl
                   @ ''  hqssh projects add /path/to/repo'' @ hostFlag hostLabel @ nl @ nl
                   @ ''To discover projects automatically:'' @ nl
                   @ ''  hqssh projects discover'' @ hostFlag hostLabel @ nl)
               else ListTable
                 ([''ID'', ''NAME'', ''PATH'', ''TOOLS'', ''LAST ACCESSED'']
                  # [''--'', ''----'', ''----'', ''-----'', ''-------------''] # map (project_row now) ps) []))"

section \<open>Logs and information\<close>

text \<open>
  \<open>logs\<close>: the bytes written to the standard output, and the error or the note on the standard error. The daemon
  streams the log in chunks, and its error ends the stream.
\<close>

definition runLogs ::
  "(string \<Rightarrow> string \<Rightarrow> bool) \<Rightarrow> (rpc_error \<Rightarrow> string) \<Rightarrow> stream \<Rightarrow> (nat \<Rightarrow> nat) \<Rightarrow> (bytes \<Rightarrow> bytes) \<Rightarrow> string \<Rightarrow> string
   \<Rightarrow> session_srv \<Rightarrow> session_srv \<Rightarrow> bytes \<times> (string + string)" where
  "runLogs ufold rpc_text stream sz enc sessionID hostLabel listed s =
     (case resolveSessionByPrefix ufold (Inr (session_svc_List [] True listed)) sessionID True hostLabel of
        Inl e \<Rightarrow> ([], Inl (''find session: '' @ e))
      | Inr fullID \<Rightarrow>
          let (chunks, err) = session_svc_GetSessionLog stream sz enc fullID 0 s; out = concat chunks in
          (out, case err of
                  Some e \<Rightarrow> Inl (''read session log: '' @ rpc_text e)
                | None \<Rightarrow> Inr (if out = [] then ''No output captured yet.'' @ nl else [])))"

record info_json =
  ij_Host :: string
  ij_Hostname :: string
  ij_OS :: string
  ij_Arch :: string
  ij_DaemonVersion :: string
  ij_InstalledTools :: "string list"
  ij_UptimeSeconds :: int
  ij_ActiveSessions :: int
  ij_ActiveProjects :: int

definition runInfo ::
  "string + pb_system_info \<Rightarrow> string + pb_system_status \<Rightarrow> bool \<Rightarrow> string \<Rightarrow> string + (info_json + string)" where
  "runInfo info status json hostLabel =
     (let host = (if hostLabel = [] then ''localhost'' else hostLabel) in
      case info of
        Inl e \<Rightarrow> Inl (''get info: '' @ e)
      | Inr i \<Rightarrow>
          (case status of
             Inl e \<Rightarrow> Inl (''get status: '' @ e)
           | Inr u \<Rightarrow>
               Inr (if json then
                      Inl \<lparr>ij_Host = host, ij_Hostname = pi_Hostname i, ij_OS = pi_Os i, ij_Arch = pi_Arch i,
                           ij_DaemonVersion = pi_DaemonVersion i, ij_InstalledTools = pi_InstalledTools i,
                           ij_UptimeSeconds = pu_UptimeSeconds u, ij_ActiveSessions = pu_ActiveSessions u,
                           ij_ActiveProjects = pu_ActiveProjects u\<rparr>
                    else
                      Inr (nl @ ''Host:       '' @ host @ nl
                        @ ''Hostname:   '' @ pi_Hostname i @ nl
                        @ ''OS:         '' @ pi_Os i @ '' ('' @ pi_Arch i @ '')'' @ nl
                        @ ''Daemon:     hqsshd '' @ pi_DaemonVersion i @ nl
                        @ ''Uptime:     '' @ formatUptime (pu_UptimeSeconds u) @ nl
                        @ ''Sessions:   '' @ itoa (pu_ActiveSessions u) @ '' active'' @ nl
                        @ ''Projects:   '' @ itoa (pu_ActiveProjects u) @ '' registered'' @ nl
                        @ (if pi_InstalledTools i \<noteq> [] then ''Tools:      '' @ join_with '', '' (pi_InstalledTools i) @ nl
                           else ''Tools:      none detected'' @ nl)
                        @ nl))))"

section \<open>Commands that change the daemon\<close>

definition runCancel ::
  "task_io \<Rightarrow> (rpc_error \<Rightarrow> string) \<Rightarrow> string \<Rightarrow> string \<Rightarrow> task_srv \<Rightarrow> task_srv \<Rightarrow> task_srv \<times> (string + string)" where
  "runCancel io rpc_text idPrefix hostLabel listed s =
     (case resolveRunID (Inr (task_svc_ListRuns [] 100 listed)) idPrefix hostLabel of
        Inl e \<Rightarrow> (s, Inl e)
      | Inr runID \<Rightarrow>
          (case task_svc_CancelRun io runID s of
             (s', Inl err) \<Rightarrow> (s', Inl (''cancel run: '' @ rpc_text err))
           | (s', Inr _) \<Rightarrow> (s', Inr (''Run cancelled: '' @ shortID runID @ nl))))"

text \<open>\<open>info\<close> is the answer that \<open>resolveTool\<close> picks the tool from.\<close>

definition runTaskCreate ::
  "task_io \<Rightarrow> (rpc_error \<Rightarrow> string) \<Rightarrow> string + (string list \<times> bool option) \<Rightarrow> task_create_flags \<Rightarrow> task_srv
   \<Rightarrow> task_srv \<times> (string + string)" where
  "runTaskCreate io rpc_text info f s =
     (case create_task_request (resolveTool info) f of
        Inl e \<Rightarrow> (s, Inl e)
      | Inr q \<Rightarrow>
          (case task_svc_Create io q s of
             (s', Inl err) \<Rightarrow> (s', Inl (''create task: '' @ rpc_text err))
           | (s', Inr t) \<Rightarrow>
               (s', Inr (''Task created: '' @ pt_Name t @ '' ('' @ shortID (pt_Id t) @ '')'' @ nl
                 @ ''  Tool:  '' @ pt_Tool t @ nl @ ''  Scope: '' @ scopeString (pt_Scope t) @ nl
                 @ (if pt_Prompt t \<noteq> [] then ''  Prompt: '' @ cli_truncate (pt_Prompt t) 60 @ nl else [])))))"

definition runProjectAdd ::
  "project_io \<Rightarrow> (rpc_error \<Rightarrow> string) \<Rightarrow> string \<Rightarrow> project_srv \<Rightarrow> project_srv \<times> (string + string)" where
  "runProjectAdd io rpc_text path s =
     (case project_Add io path [] s of
        (s', Inl err) \<Rightarrow> (s', Inl (''add project: '' @ rpc_text err))
      | (s', Inr p) \<Rightarrow>
          (s', Inr (''Project registered: '' @ pp_Name p @ '' ('' @ shortID (pp_Id p) @ '')'' @ nl
            @ ''  Path: '' @ pp_Path p @ nl
            @ (if pp_DetectedTools p \<noteq> [] then ''  Tools: '' @ join_with '', '' (pp_DetectedTools p) @ nl else []))))"

text \<open>\<open>resp\<close> is the answer to the list request.\<close>

definition runProjectRemove ::
  "project_io \<Rightarrow> (rpc_error \<Rightarrow> string) \<Rightarrow> (string \<Rightarrow> string \<Rightarrow> bool) \<Rightarrow> string \<Rightarrow> string + pb_project list
   \<Rightarrow> project_srv \<Rightarrow> project_srv \<times> (string + string)" where
  "runProjectRemove io rpc_text ufold idPrefix resp s =
     (case resolveProjectByPrefix ufold resp idPrefix of
        Inl e \<Rightarrow> (s, Inl e)
      | Inr projectID \<Rightarrow>
          (case project_Remove io projectID s of
             (s', Inl err) \<Rightarrow> (s', Inl (''remove project: '' @ rpc_text err))
           | (s', Inr _) \<Rightarrow> (s', Inr (''Project removed: '' @ shortID projectID @ nl))))"

definition discovered_line :: "pb_project \<Rightarrow> string" where
  "discovered_line p =
     ''  '' @ shortID (pp_Id p) @ ''  '' @ pp_Name p @ ''  '' @ pp_Path p
     @ (if pp_DetectedTools p \<noteq> [] then '' ['' @ join_with '', '' (pp_DetectedTools p) @ '']'' else []) @ nl"

definition runProjectDiscover ::
  "project_io \<Rightarrow> (rpc_error \<Rightarrow> string) \<Rightarrow> string list \<Rightarrow> project_srv \<Rightarrow> project_srv \<times> (string + string)" where
  "runProjectDiscover io rpc_text directories s =
     (case project_Discover io directories 0 s of
        (s', Inl err) \<Rightarrow> (s', Inl (''discover projects: '' @ rpc_text err))
      | (s', Inr (discovered, scanned)) \<Rightarrow>
          (s', Inr (''Scanned '' @ itoa (int scanned) @ '' directories, found '' @ itoa (int (length discovered))
            @ '' projects'' @ nl @ concat (map discovered_line discovered))))"

definition runProjectTools ::
  "project_io \<Rightarrow> (rpc_error \<Rightarrow> string) \<Rightarrow> (string \<Rightarrow> string \<Rightarrow> bool) \<Rightarrow> string \<Rightarrow> string + pb_project list
   \<Rightarrow> project_srv \<Rightarrow> project_srv \<times> (string + string)" where
  "runProjectTools io rpc_text ufold idPrefix resp s =
     (case resolveProjectByPrefix ufold resp idPrefix of
        Inl e \<Rightarrow> (s, Inl e)
      | Inr projectID \<Rightarrow>
          (case project_GetTools io projectID s of
             (s', Inl err) \<Rightarrow> (s', Inl (''get tools: '' @ rpc_text err))
           | (s', Inr ts) \<Rightarrow>
               (s', Inr (if ts = [] then ''No AI tools detected for this project.'' @ nl
                         else ''Detected tools:'' @ nl @ concat (map (\<lambda>t. ''  - '' @ t @ nl) ts)))))"

section \<open>Facts\<close>

lemma shortID_length: "length (shortID i) \<le> 8"
  by (simp add: shortID_def)

lemma cli_truncate_length: "3 \<le> n \<Longrightarrow> length (cli_truncate s n) \<le> n"
  by (auto simp: cli_truncate_def)

text \<open>\<open>even_rows\<close>: every row of a table has a cell for every column of its header.\<close>

definition even_rows :: "'j listing \<Rightarrow> bool" where
  "even_rows l = (case l of ListTable (header # rows) _ \<Rightarrow> list_all (\<lambda>r. length r = length header) rows
                  | ListTable [] _ \<Rightarrow> False | _ \<Rightarrow> True)"

lemma listings_even:
  "runSessions ufold upper now resp1 sf tf json label = Inr l1 \<Longrightarrow> even_rows l1"
  "runTasks resp2 json label = Inr l2 \<Longrightarrow> even_rows l2"
  "runRuns now task limit json label listed s = Inr l3 \<Longrightarrow> even_rows l3"
  "runHistory now resp1 json = Inr l4 \<Longrightarrow> even_rows l4"
  "runProjects now resp5 json label = Inr l5 \<Longrightarrow> even_rows l5"
  by (auto simp: even_rows_def runSessions_def runTasks_def runRuns_def runHistory_def runProjects_def Let_def
      list_all_iff session_row_def run_row_def history_row_def project_row_def split: sum.splits if_splits)

text \<open>Without \<open>--json\<close> a list is empty exactly if the text says so; with it no entry is lost.\<close>

lemma runHistory_entries:
  "runHistory now (Inr ss) True = Inr (ListJson js) \<Longrightarrow> map jh_ID js = map pbs_Id ss"
  "runHistory now (Inr ss) False = Inr (ListTable rows after) \<Longrightarrow> map hd (drop 2 rows) = map (shortID \<circ> pbs_Id) ss"
  by (auto simp: runHistory_def to_out_history_def history_row_def split: if_splits)

text \<open>
  What \<open>logs\<close> prints is the log of the session from its start, all of it unless there is an error; the note
  that there is no output comes for an empty log only.
\<close>

lemma runLogs_prints_the_log:
  assumes "resolveSessionByPrefix ufold (Inr (session_svc_List [] True listed)) p True label = Inr sid" and "sid \<noteq> []"
    and "ReadLog enc (m_logDir (sv_mgr s)) sid (m_logs (sv_mgr s)) = Inr data"
  shows "\<exists>rest. data = fst (runLogs ufold rpc_text stream sz enc p label listed s) @ rest
    \<and> (isl (snd (runLogs ufold rpc_text stream sz enc p label listed s)) \<longleftrightarrow> rest \<noteq> [])
    \<and> (snd (runLogs ufold rpc_text stream sz enc p label listed s) = Inr (''No output captured yet.'' @ nl) \<longleftrightarrow> data = [])"
proof -
  obtain sent err where g: "session_svc_GetSessionLog stream sz enc sid 0 s = (sent, err)" by fastforce
  obtain rest where "data = concat sent @ rest" "err = None \<longleftrightarrow> rest = []"
    using GetSessionLog_streams [OF g assms(2,3)] by auto
  then show ?thesis using assms(1) g by (cases err) (auto simp: runLogs_def Let_def)
qed

lemma resolveRunID_Inr:
  "resolveRunID resp p label = Inr k \<longleftrightarrow>
     (\<exists>rs r. resp = Inr rs \<and> filter (\<lambda>r. has_prefix (pr_Id r) p) rs = [r] \<and> pr_Id r = k)"
  by (auto simp: resolveRunID_def pick_match_Inr id_matches_iff split: sum.splits)

text \<open>\<open>cancel\<close> touches one run or none, and no task; it only finds the run among the hundred newest.\<close>

lemma runCancel_only_the_match:
  assumes "runCancel io rpc_text p label listed s = (s', out)"
  shows "x_tasks (tv_exec s') = x_tasks (tv_exec s)
    \<and> (s' = s \<or> (\<exists>k d. tv_exec s' = (fst (exec_Cancel (tio_now io) k (tv_exec s)))\<lparr>x_disk := d\<rparr>
         \<and> map pr_Id (filter (\<lambda>r. has_prefix (pr_Id r) p) (task_svc_ListRuns [] 100 listed)) = [k]))"
proof (cases "resolveRunID (Inr (task_svc_ListRuns [] 100 listed)) p label")
  case (Inl e)
  then show ?thesis using assms by (simp add: runCancel_def)
next
  case (Inr k)
  obtain r where "filter (\<lambda>r. has_prefix (pr_Id r) p) (task_svc_ListRuns [] 100 listed) = [r]" "pr_Id r = k"
    using Inr by (auto simp: resolveRunID_Inr)
  then have k: "map pr_Id (filter (\<lambda>r. has_prefix (pr_Id r) p) (task_svc_ListRuns [] 100 listed)) = [k]" by simp
  obtain x e where c: "exec_Cancel (tio_now io) k (tv_exec s) = (x, e)" by fastforce
  have "s' = s \<or> tv_exec s' = x \<or> tv_exec s' = tv_exec (fst (save_runs io (s\<lparr>tv_exec := x\<rparr>)))"
    using assms Inr c by (cases e) (auto simp: runCancel_def task_svc_CancelRun_def split: if_splits prod.splits sum.splits)
  moreover have "x = x\<lparr>x_disk := x_disk x\<rparr>" by simp
  moreover obtain d err where "run_Save (tio_save_runs io) (x_runs x) (x_disk x) = (d, err)" by fastforce
  then have "tv_exec (fst (save_runs io (s\<lparr>tv_exec := x\<rparr>))) = x\<lparr>x_disk := d\<rparr>" by (simp add: save_runs_def)
  ultimately have "s' = s \<or> (\<exists>d. tv_exec s' = x\<lparr>x_disk := d\<rparr>)" by metis
  moreover have "x_tasks x = x_tasks (tv_exec s)" using exec_Cancel_tasks [of "tio_now io" k "tv_exec s"] c by simp
  ultimately show ?thesis using k c by (auto 0 3)
qed

end
