(* ===== verification/Cli_Service.thy ===== *)
theory Cli_Service
  imports Cli_Output Doctor_Checks
begin

text \<open>
  The commands about the local installation: \<open>internal/cli/cmd/service.go\<close>, \<open>doctor.go\<close>, the version of \<open>root.go\<close>
  and \<open>queryLocalDaemon\<close> of \<open>helpers.go\<close>. The service manager is that of the theory Servicemgr_Ops; the lines of
  progress on the standard error are left out.
\<close>

section \<open>Asking the local daemon\<close>

text \<open>The callers only look whether there was an error. \<open>info\<close> and \<open>status\<close> are the two calls.\<close>

definition queryLocalDaemon ::
  "'k cli_world \<Rightarrow> (daemon_conn \<Rightarrow> string + pb_system_info) \<Rightarrow> (daemon_conn \<Rightarrow> string + pb_system_status) \<Rightarrow> string
   \<Rightarrow> (pb_system_info \<times> pb_system_status) option" where
  "queryLocalDaemon w info status path =
     (case cw_probe w path of
        ProbeOk \<Rightarrow>
          (case ConnectLocal w path of
             Inl e \<Rightarrow> None
           | Inr c \<Rightarrow>
               (case info c of
                  Inl e \<Rightarrow> None
                | Inr di \<Rightarrow> (case status c of Inl e \<Rightarrow> None | Inr st \<Rightarrow> Some (di, st))))
      | _ \<Rightarrow> None)"

definition buildVersion :: "string \<Rightarrow> string \<Rightarrow> string \<Rightarrow> string \<Rightarrow> string" where
  "buildVersion version commit goos goarch =
     version @ '' (commit '' @ commit @ '', '' @ goos @ ''/'' @ goarch @ '')''"

definition runVersion :: "string \<Rightarrow> (pb_system_info \<times> pb_system_status) option \<Rightarrow> string" where
  "runVersion build daemon =
     ''hqssh '' @ build @ nl
     @ (case daemon of
          None \<Rightarrow> ''daemon: not running'' @ nl
        | Some (di, st) \<Rightarrow> ''daemon: hqsshd '' @ pi_DaemonVersion di @ '' ('' @ pidLabel (pu_Pid st) @ '')'' @ nl)"

section \<open>The service commands\<close>

definition localService :: "machine \<Rightarrow> string \<Rightarrow> string + service" where
  "localService m host =
     (if host \<noteq> [] then Inl ''service commands run locally; for a remote host use: ssh <host> hqssh service ...''
      else case DetectService m of
        Some svc \<Rightarrow> Inr svc
      | None \<Rightarrow>
          Inl (''no hqsshd service is installed on this machine'' @ nl @ nl
            @ ''  Install:   '' @ InstallCommand @ nl @ ''  Or run it in the foreground:   hqsshd''))"

text \<open>\<open>reach\<close> says whether a TCP connection to the address can be made. The answer is the text and whether the
  command exits with status 0.\<close>

definition daemon_line :: "string \<Rightarrow> (pb_system_info \<times> pb_system_status) option \<Rightarrow> string" where
  "daemon_line socketPath daemon =
     (case daemon of
        Some (di, st) \<Rightarrow>
          ''Daemon:   hqsshd '' @ pi_DaemonVersion di @ '' '' @ pidLabel (pu_Pid st) @ '', up ''
          @ formatUptime (pu_UptimeSeconds st) @ '', '' @ itoa (pu_ActiveSessions st) @ '' session(s)   (socket ''
          @ socketPath @ '')'' @ nl
      | None \<Rightarrow> ''Daemon:   not answering on '' @ socketPath @ nl)"

definition tcp_line :: "(string \<Rightarrow> bool) \<Rightarrow> string \<Rightarrow> string" where
  "tcp_line reach addr =
     (if addr = [] then ''TCP:      disabled (tcp_port: 0 '' @ em_dash @ '' the mobile app cannot connect)'' @ nl
      else if reach addr then ''TCP:      '' @ addr @ '' ok'' @ nl
      else ''TCP:      '' @ addr @ '' not listening (the mobile app needs this)'' @ nl)"

definition runServiceStatus ::
  "'w sys \<Rightarrow> 'k cli_world \<Rightarrow> string \<Rightarrow> string \<Rightarrow> (string \<Rightarrow> (pb_system_info \<times> pb_system_status) option)
   \<Rightarrow> (string \<Rightarrow> bool) \<Rightarrow> 'w \<Rightarrow> 'w \<times> (string + string \<times> bool)" where
  "runServiceStatus sy cw host socket query reach w =
     (let m = sy_machine sy in
      case localService m host of
        Inl e \<Rightarrow> (w, Inl e)
      | Inr svc \<Rightarrow>
          (case ServiceStatus sy svc w of
             (w, Inl e) \<Rightarrow> (w, Inl e)
           | (w, Inr info) \<Rightarrow>
               let socketPath = localSocketPath cw socket; daemon = query socketPath in
               (w, Inr
                 (''Service:  '' @ service_String svc @ '' ('' @ sv_UnitPath svc @ '')'' @ nl
                  @ ''State:    '' @ si_Summary info @ nl
                  @ concat (map (\<lambda>p. ''          ! '' @ p @ nl) (si_Problems info))
                  @ daemon_line socketPath daemon
                  @ tcp_line reach (localTCPAddr cw)
                  @ ''Logs:     '' @ LogsCommand m svc @ nl
                  @ ''Manual:   start: '' @ StartCommand m svc @ nl
                  @ ''          stop: '' @ StopCommand m svc @ nl
                  @ ''          restart: '' @ RestartCommand m svc @ nl,
                  si_Running info \<and> daemon \<noteq> None))))"

text \<open>
  After a start the command asks the daemon until it answers, every 250 ms for ten seconds: \<open>ask n\<close> is what
  attempt \<open>n\<close> gets and \<open>clock n\<close> the time after it. \<open>None\<close> is running out of fuel.
\<close>

fun wait_answer ::
  "(nat \<Rightarrow> pb_system_status option) \<Rightarrow> (nat \<Rightarrow> time) \<Rightarrow> time \<Rightarrow> nat \<Rightarrow> nat \<Rightarrow> pb_system_status option option" where
  "wait_answer ask clock deadline n 0 = None"
| "wait_answer ask clock deadline n (Suc fuel) =
     (case ask n of
        Some st \<Rightarrow> Some (Some st)
      | None \<Rightarrow>
          if deadline < clock n then Some None else wait_answer ask clock deadline (Suc n) fuel)"

definition answerTimeout :: time where "answerTimeout = 10 * second"
definition answerPause :: time where "answerPause = 250 * (second div 1000)"
definition answer_fuel :: nat where "answer_fuel = 42"

definition started_text :: "'k cli_world \<Rightarrow> (string \<Rightarrow> bool) \<Rightarrow> string \<Rightarrow> pb_system_status \<Rightarrow> string" where
  "started_text cw reach socketPath st =
     (let tcp = localTCPAddr cw;
          tcp = (if tcp = [] then ''disabled''
                 else if reach tcp then tcp
                 else tcp @ '' (not listening '' @ em_dash @ '' port in use? see: hqssh service logs -n 20)'')
      in ''hqsshd started ('' @ pidLabel (pu_Pid st) @ ''): socket '' @ socketPath @ '', tcp '' @ tcp @ nl)"

text \<open>\<open>start\<close> is the time when the service manager is done.\<close>

definition runServiceOp ::
  "'w sys \<Rightarrow> 'k cli_world \<Rightarrow> string \<Rightarrow> string \<Rightarrow> string \<Rightarrow> (nat \<Rightarrow> pb_system_status option) \<Rightarrow> (nat \<Rightarrow> time) \<Rightarrow> time
   \<Rightarrow> (string \<Rightarrow> bool) \<Rightarrow> 'w \<Rightarrow> ('w \<times> (string + string)) option" where
  "runServiceOp sy cw host socket op ask clock start reach w =
     (case localService (sy_machine sy) host of
        Inl e \<Rightarrow> Some (w, Inl e)
      | Inr svc \<Rightarrow>
          (case (if op = ''start'' then StartService sy svc w
                 else if op = ''stop'' then StopService sy svc w
                 else if op = ''restart'' then RestartService sy svc w
                 else Some (w, None)) of
             None \<Rightarrow> None
           | Some (w, Some err) \<Rightarrow> Some (w, Inl (op_error_Error err))
           | Some (w, None) \<Rightarrow>
               if op = ''stop'' then Some (w, Inr (''hqsshd stopped (it stays stopped until `hqssh service start`)'' @ nl))
               else
                 let socketPath = localSocketPath cw socket in
                 (case wait_answer ask clock (start + answerTimeout) 0 answer_fuel of
                    None \<Rightarrow> None
                  | Some (Some st) \<Rightarrow> Some (w, Inr (started_text cw reach socketPath st))
                  | Some None \<Rightarrow>
                      Some (w, Inl (''service started but the daemon is not answering on '' @ socketPath
                        @ '' after 10s; check: hqssh service logs -n 50'')))))"

text \<open>The command that shows the log. \<open>exists\<close> is \<open>os.Stat\<close>.\<close>

definition runServiceLogs :: "machine \<Rightarrow> (string \<Rightarrow> bool) \<Rightarrow> string \<Rightarrow> bool \<Rightarrow> int \<Rightarrow> string + string list" where
  "runServiceLogs m exists host follow lines =
     (case localService m host of
        Inl e \<Rightarrow> Inl e
      | Inr svc \<Rightarrow>
          let argv = LogsCommandArgs m svc follow lines in
          if sv_Kind svc = KindLaunchd \<and> \<not> exists (last argv) then
            Inl (''no daemon log at '' @ last argv @ '' yet (the daemon has not started under launchd)'')
          else Inr argv)"

section \<open>The doctor command\<close>

text \<open>\<open>encode\<close> is the JSON encoder. The answer is the text and whether the command exits with status 0.\<close>

definition runDoctor ::
  "'w doctor_io \<Rightarrow> (report \<Rightarrow> string + string) \<Rightarrow> string \<Rightarrow> string \<Rightarrow> bool \<Rightarrow> bool \<Rightarrow> 'w \<Rightarrow> 'w \<times> (string + string \<times> bool)" where
  "runDoctor io encode host socket quiet json w =
     (if host \<noteq> [] then (w, Inl ''doctor runs locally; for a remote host use: ssh <host> hqssh doctor'')
      else
        let (w, report) = doctor_Run io \<lparr>op_SocketPath = socket, op_TCPAddr = [], op_ConfigPath = [], op_LogLines = 0\<rparr> w;
            out = (if quiet then Inr [] else if json then encode report else Inr (Render report))
        in (w, case out of Inl e \<Rightarrow> Inl e | Inr s \<Rightarrow> Inr (s, \<not> Failed report)))"

section \<open>Facts\<close>

lemma wait_answer_ends: "deadline < clock (n + fuel) \<Longrightarrow> wait_answer ask clock deadline n (Suc fuel) \<noteq> None"
proof (induction fuel arbitrary: n)
  case (Suc fuel)
  then show ?case by (subst wait_answer.simps) (simp split: option.split del: wait_answer.simps)
qed (simp split: option.split)

text \<open>Forty-two rounds of at least 250 ms take longer than the ten seconds of the wait.\<close>

lemma wait_answer_fuel:
  assumes "start \<le> clock 0" and step: "\<And>n. clock n + answerPause \<le> clock (Suc n)"
  shows "wait_answer ask clock (start + answerTimeout) 0 answer_fuel \<noteq> None"
proof -
  have "clock 0 + int n * answerPause \<le> clock n" for n
  proof (induction n)
    case (Suc n)
    then show ?case using step [of n] by (simp add: algebra_simps)
  qed simp
  from this [of 41] have "start + answerTimeout < clock 41"
    using assms(1) by (simp add: answerTimeout_def answerPause_def)
  then show ?thesis
    using wait_answer_ends [of "start + answerTimeout" clock 0 41 ask] by (auto simp: answer_fuel_def)
qed

lemma wait_answer_saw: "wait_answer ask clock deadline n fuel = Some (Some st) \<Longrightarrow> \<exists>k. ask k = Some st"
proof (induction fuel arbitrary: n)
  case (Suc fuel)
  then show ?case by (cases "ask n") (auto split: if_splits)
qed simp

text \<open>
  The service commands end, and they do not claim what they did not see: \<open>start\<close> and \<open>restart\<close> succeed only after
  the service manager showed a process (a new one, for \<open>restart\<close>) and the daemon answered on the socket; \<open>stop\<close>
  only after it showed none.
\<close>

lemma runServiceOp_honest:
  assumes "time_flows sy" and "start \<le> clock 0" and "\<And>n. clock n + answerPause \<le> clock (Suc n)"
    and op: "op \<in> {''start'', ''stop'', ''restart''}"
  shows "\<exists>w' r. runServiceOp sy cw host socket op ask clock start reach w = Some (w', r)
    \<and> (\<not> isl r \<longrightarrow> (\<exists>svc. localService (sy_machine sy) host = Inr svc
         \<and> (op = ''start'' \<longrightarrow> saw_pid sy svc w' (\<lambda>p. 0 < p))
         \<and> (op = ''stop'' \<longrightarrow> saw_pid sy svc w' (\<lambda>p. p = 0))
         \<and> (op = ''restart'' \<longrightarrow> saw_pid sy svc w' (\<lambda>p. 0 < p \<and> p \<noteq> snd (query_pid sy svc w)))
         \<and> (op \<noteq> ''stop'' \<longrightarrow> (\<exists>k st. ask k = Some st \<and> r = Inr (started_text cw reach (localSocketPath cw socket) st)))))"
proof (cases "localService (sy_machine sy) host")
  case (Inl e)
  then show ?thesis by (simp add: runServiceOp_def)
next
  case (Inr svc)
  define what where "what = (if op = ''start'' then StartService sy svc w
                 else if op = ''stop'' then StopService sy svc w
                 else if op = ''restart'' then RestartService sy svc w
                 else Some (w, None))"
  have "what \<noteq> None"
    using start_ends [OF assms(1), of svc w] stop_ends [OF assms(1), of svc w] restart_ends [OF assms(1), of svc w]
    by (simp add: what_def)
  then obtain w' e where w': "what = Some (w', e)" by auto
  have saw: "e = None \<Longrightarrow> (op = ''start'' \<longrightarrow> saw_pid sy svc w' (\<lambda>p. 0 < p))
      \<and> (op = ''stop'' \<longrightarrow> saw_pid sy svc w' (\<lambda>p. p = 0))
      \<and> (op = ''restart'' \<longrightarrow> saw_pid sy svc w' (\<lambda>p. 0 < p \<and> p \<noteq> snd (query_pid sy svc w)))"
    using start_saw [of sy svc w w'] stop_saw [of sy svc w w'] restart_saw [of sy svc w w'] w' op
    by (auto simp: what_def)
  obtain a where a: "wait_answer ask clock (start + answerTimeout) 0 answer_fuel = Some a"
    using wait_answer_fuel [OF assms(2,3), of ask] by auto
  show ?thesis
  proof (cases e)
    case (Some err)
    then show ?thesis using Inr w' by (simp add: runServiceOp_def what_def)
  next
    case None
    note w' = w' [unfolded None what_def] and saw = saw [OF None]
    show ?thesis
    proof (cases "op = ''stop''")
      case True
      then show ?thesis using Inr w' saw by (simp add: runServiceOp_def)
    next
      case False
      then show ?thesis
        using Inr w' saw a wait_answer_saw [of ask clock "start + answerTimeout" 0 answer_fuel]
        by (cases a) (auto simp: runServiceOp_def Let_def)
    qed
  qed
qed

text \<open>The exit status of \<open>doctor\<close> is that of its checks, whatever is printed.\<close>

lemma runDoctor_status:
  assumes "runDoctor io encode [] socket quiet json w = (w', Inr (out, ok))"
  shows "\<exists>r. doctor_Run io \<lparr>op_SocketPath = socket, op_TCPAddr = [], op_ConfigPath = [], op_LogLines = 0\<rparr> w = (w', r)
    \<and> ok = (\<not> Failed r) \<and> (quiet \<longrightarrow> out = []) \<and> (\<not> quiet \<and> \<not> json \<longrightarrow> out = Render r)"
  using assms by (auto simp: runDoctor_def Let_def split: prod.splits sum.splits if_splits)

end
