(* ===== verification/Procscan_Darwin.thy ===== *)
theory Procscan_Darwin
  imports Procscan
begin

text \<open>
  The macOS variant of the platform file, \<open>internal/procscan/procscan_darwin.go\<close>: the process table and the arguments
  of a process from sysctl, working directories from one call of \<open>lsof\<close>. What sysctl and \<open>lsof\<close> answer is
  the record \<open>darwin_sys\<close>. Times are nanoseconds from the zero time of Go, as in the theory Procscan.
\<close>

section \<open>Reading sysctl\<close>

record darwin_proc =
  dp_pid :: int
  dp_ppid :: int
  dp_sec :: int
  dp_usec :: int

text \<open>How the call of \<open>lsof\<close> went; \<open>LsofRan\<close> says whether the exit status was other than 0.\<close>

datatype lsof_result = LsofTimeout | LsofFailed bytes | LsofRan bool bytes

record darwin_sys =
  dw_boot :: "(int \<times> int) option"
  dw_procs :: "darwin_proc list option"
  dw_args :: "int \<Rightarrow> bytes option"
  dw_look_lsof :: "string option"
  dw_stat_lsof :: bool
  dw_lsof :: "string list \<Rightarrow> lsof_result"

definition unix_usec :: "int \<Rightarrow> int \<Rightarrow> time" where
  "unix_usec sec usec = (sec + 62135596800) * second + usec * 1000"

definition LsofPath :: "darwin_sys \<Rightarrow> string" where
  "LsofPath sy =
     (case dw_look_lsof sy of
        Some p \<Rightarrow> p
      | None \<Rightarrow> if dw_stat_lsof sy then ''/usr/sbin/lsof'' else [])"

definition darwin_BootTime :: "darwin_sys \<Rightarrow> time option" where
  "darwin_BootTime sy =
     (case dw_boot sy of
        None \<Rightarrow> None
      | Some (sec, usec) \<Rightarrow> if sec = 0 then None else Some (unix_usec sec usec))"

text \<open>\<open>int(int32(binary.LittleEndian.Uint32(b)))\<close> of four bytes.\<close>

definition le_int32 :: "bytes \<Rightarrow> int" where
  "le_int32 b =
     (let n = int (bval (b ! 0) + 256 * bval (b ! 1) + 65536 * bval (b ! 2) + 16777216 * bval (b ! 3))
      in if n < 2147483648 then n else n - 4294967296)"

text \<open>The loop over the arguments, \<open>n\<close> of which are still to come.\<close>

fun take_args :: "nat \<Rightarrow> bytes \<Rightarrow> string list" where
  "take_args 0 rest = []"
| "take_args (Suc n) rest =
     (if rest = [] then []
      else if NUL \<notin> set rest then [rest]
      else takeWhile (\<lambda>c. c \<noteq> NUL) rest # take_args n (tl (dropWhile (\<lambda>c. c \<noteq> NUL) rest)))"

definition parseProcArgs2 :: "bytes \<Rightarrow> string + string list" where
  "parseProcArgs2 buf =
     (if length buf < 4 then Inl (''procargs2 buffer too short: '' @ itoa (int (length buf)) @ '' bytes'')
      else
        let argc = le_int32 (take 4 buf) in
        if argc \<le> 0 then Inl (''procargs2 argc = '' @ itoa argc)
        else
          let rest = drop 4 buf in
          if NUL \<notin> set rest then Inl ''procargs2 missing exec path terminator''
          else
            let argv = take_args (nat argc) (dropWhile (\<lambda>c. c = NUL) (dropWhile (\<lambda>c. c \<noteq> NUL) rest)) in
            if argv = [] then Inl ''procargs2 yielded no argv'' else Inr argv)"

definition darwin_readArgv :: "darwin_sys \<Rightarrow> int \<Rightarrow> string list option" where
  "darwin_readArgv sy pid =
     (case dw_args sy pid of
        None \<Rightarrow> None
      | Some buf \<Rightarrow> (case parseProcArgs2 buf of Inl e \<Rightarrow> None | Inr argv \<Rightarrow> Some argv))"

definition darwin_listProcesses :: "darwin_sys \<Rightarrow> (int, proc_info) gomap" where
  "darwin_listProcesses sy =
     (case dw_procs sy of
        None \<Rightarrow> []
      | Some kps \<Rightarrow>
          gput_all (List.map_filter (\<lambda>kp.
            if dp_pid kp \<le> 0 then None
            else Some (dp_pid kp,
              \<lparr>pi_ppid = dp_ppid kp,
               pi_startedAt = (if 0 < dp_sec kp then unix_usec (dp_sec kp) (dp_usec kp) else 0),
               pi_argv = (case darwin_readArgv sy (dp_pid kp) of None \<Rightarrow> [] | Some argv \<Rightarrow> argv)\<rparr>)) kps) [])"

section \<open>Working directories\<close>

definition lsof_line :: "int \<times> (int, string) gomap \<Rightarrow> string \<Rightarrow> int \<times> (int, string) gomap" where
  "lsof_line st line =
     (let (cur, cwds) = st in
      if has_prefix line ''p'' then (case atoi (tl line) of None \<Rightarrow> (0, cwds) | Some pid \<Rightarrow> (pid, cwds))
      else if has_prefix line ''n'' \<and> 0 < cur then (cur, gput cur (tl line) cwds)
      else (cur, cwds))"

definition parseLsofCwd :: "bytes \<Rightarrow> (int, string) gomap" where
  "parseLsofCwd out = snd (foldl lsof_line (0, []) (split_on (CHR 0x0A) out))"

text \<open>The directories, and the warning that is handed to the rate limiter.\<close>

definition darwin_cwdFor :: "darwin_sys \<Rightarrow> int list \<Rightarrow> (int, string) gomap \<times> string option" where
  "darwin_cwdFor sy pids =
     (if pids = [] then ([], None)
      else if LsofPath sy = [] then
        ([], Some ''lsof not found; external session working directories are unavailable'')
      else
        case dw_lsof sy [LsofPath sy, ''-a'', ''-d'', ''cwd'', ''-Fn'', ''-w'', ''-p'', join_with '','' (map itoa pids)] of
          LsofTimeout \<Rightarrow> ([], Some ''lsof timed out; external sessions omitted'')
        | LsofFailed out \<Rightarrow>
            if out = [] then ([], Some ''lsof failed; external sessions omitted'') else (parseLsofCwd out, None)
        | LsofRan nonzero out \<Rightarrow> if out = [] \<and> nonzero then ([], None) else (parseLsofCwd out, None))"

record rate_limiter =
  rl_every :: time
  rl_last :: time

text \<open>\<open>Do\<close>: whether the function runs. \<open>rl_last\<close> is 0, the zero time, before the first run.\<close>

definition limiter_Do :: "time \<Rightarrow> rate_limiter \<Rightarrow> rate_limiter \<times> bool" where
  "limiter_Do now r =
     (if rl_last r \<noteq> 0 \<and> now - rl_last r < rl_every r then (r, False) else (r\<lparr>rl_last := now\<rparr>, True))"

definition lsofWarn :: rate_limiter where "lsofWarn = \<lparr>rl_every = 5 * 60 * second, rl_last = 0\<rparr>"

section \<open>What the kernel writes is read back\<close>

text \<open>The layout of the buffer: the count, the path of the program, padding, the arguments, the environment.\<close>

definition le_bytes :: "nat \<Rightarrow> bytes" where
  "le_bytes n = map char_of [n mod 256, n div 256 mod 256, n div 65536 mod 256, n div 16777216 mod 256]"

definition procargs2 :: "string \<Rightarrow> nat \<Rightarrow> string list \<Rightarrow> string list \<Rightarrow> bytes" where
  "procargs2 path pad argv env =
     le_bytes (length argv) @ path @ replicate (Suc pad) NUL @ concat (map (\<lambda>a. a @ [NUL]) (argv @ env))"

lemma le_int32_bytes:
  assumes "n < 2147483648"
  shows "le_int32 (le_bytes n) = int n"
proof -
  have "n div 16777216 mod 256 = n div 16777216" using assms by simp
  moreover have "n mod 256 + 256 * (n div 256 mod 256) + 65536 * (n div 65536 mod 256) + 16777216 * (n div 16777216) = n"
  proof -
    have d: "n div 256 div 256 = n div 65536" "n div 65536 div 256 = n div 16777216"
      by (simp_all flip: div_mult2_eq)
    show ?thesis
      using div_mult_mod_eq [of n 256] div_mult_mod_eq [of "n div 256" 256] div_mult_mod_eq [of "n div 65536" 256]
      unfolding d by linarith
  qed
  ultimately show ?thesis using assms by (simp add: le_int32_def le_bytes_def bval_def Let_def)
qed

lemma take_args_concat:
  "\<forall>a \<in> set as. NUL \<notin> set a \<Longrightarrow> take_args (length as) (concat (map (\<lambda>a. a @ [NUL]) as) @ rest) = as"
proof (induction as)
  case (Cons a as)
  have "takeWhile (\<lambda>c. c \<noteq> NUL) (a @ NUL # xs) = a" "dropWhile (\<lambda>c. c \<noteq> NUL) (a @ NUL # xs) = NUL # xs" for xs
    using Cons.prems by (simp_all add: takeWhile_append dropWhile_append)
  then show ?case using Cons by simp
qed simp

lemma drop_path:
  assumes "NUL \<notin> set path"
  shows "dropWhile (\<lambda>c. c = NUL) (dropWhile (\<lambda>c. c \<noteq> NUL) (path @ replicate (Suc pad) NUL @ rest))
    = dropWhile (\<lambda>c. c = NUL) rest"
proof -
  have "dropWhile (\<lambda>c. c \<noteq> NUL) (path @ replicate (Suc pad) NUL @ rest) = replicate (Suc pad) NUL @ rest"
    using assms by (subst dropWhile_append2) auto
  moreover have "dropWhile (\<lambda>c. c = NUL) (replicate n NUL @ rest) = dropWhile (\<lambda>c. c = NUL) rest" for n
    by (induction n) auto
  ultimately show ?thesis by simp
qed

lemma parse_procargs2:
  assumes "NUL \<notin> set path" and "argv \<noteq> []" and "length argv < 2147483648"
  shows "parseProcArgs2 (procargs2 path pad argv env) =
    (let as = take_args (length argv) (dropWhile (\<lambda>c. c = NUL) (concat (map (\<lambda>a. a @ [NUL]) (argv @ env))))
     in if as = [] then Inl ''procargs2 yielded no argv'' else Inr as)"
proof -
  have "take 4 (procargs2 path pad argv env) = le_bytes (length argv)"
    and "drop 4 (procargs2 path pad argv env) = path @ replicate (Suc pad) NUL @ concat (map (\<lambda>a. a @ [NUL]) (argv @ env))"
    and "4 \<le> length (procargs2 path pad argv env)"
    by (simp_all add: procargs2_def le_bytes_def)
  then show ?thesis
    using assms(2,3) drop_path [OF assms(1), of pad]
    by (simp add: parseProcArgs2_def le_int32_bytes Let_def del: replicate_Suc)
qed

text \<open>
  The arguments are read back, whatever the environment behind them, if the first is not empty: the padding
  after the path cannot be told from an empty first argument.
\<close>

lemma procargs2_read_back:
  assumes "NUL \<notin> set path" and "argv \<noteq> []" and "length argv < 2147483648"
    and "hd argv \<noteq> []" and "\<forall>a \<in> set argv. NUL \<notin> set a"
  shows "parseProcArgs2 (procargs2 path pad argv env) = Inr argv"
proof -
  have hd: "hd (hd argv) \<noteq> NUL" using assms(2,4,5) by (metis hd_in_set)
  have "dropWhile (\<lambda>c. c = NUL) (concat (map (\<lambda>a. a @ [NUL]) (argv @ env))) = concat (map (\<lambda>a. a @ [NUL]) (argv @ env))"
    using hd assms(2,4) by (cases argv; cases "hd argv") auto
  then show ?thesis
    unfolding parse_procargs2 [OF assms(1-3)] using take_args_concat [OF assms(5)] assms(2) by simp
qed

text \<open>With an empty first argument everything moves up, and the environment is taken for arguments.\<close>

lemma procargs2_empty_first:
  assumes "NUL \<notin> set path" and "a \<noteq> []" and "NUL \<notin> set a" and "v \<noteq> []" and "NUL \<notin> set v"
  shows "parseProcArgs2 (procargs2 path pad [[], a] (v # env)) = Inr [a, v]"
proof -
  have "hd a \<noteq> NUL" using assms(2,3) by (metis hd_in_set)
  then have "dropWhile (\<lambda>c. c = NUL) (concat (map (\<lambda>a. a @ [NUL]) ([[], a] @ v # env)))
      = concat (map (\<lambda>a. a @ [NUL]) [a, v]) @ concat (map (\<lambda>a. a @ [NUL]) env)"
    using assms(2) by (cases a) auto
  then show ?thesis
    using take_args_concat [of "[a, v]" "concat (map (\<lambda>a. a @ [NUL]) env)"] assms
      parse_procargs2 [OF assms(1), of "[[], a]" pad "v # env"]
    by (simp only: list.size) (simp del: take_args.simps)
qed

text \<open>What \<open>lsof -Fn\<close> prints for the working directories, with a line for the descriptor between.\<close>

definition lsof_output :: "(int \<times> string) list \<Rightarrow> bytes" where
  "lsof_output ds =
     concat (map (\<lambda>l. l @ [CHR 0x0A]) (concat (map (\<lambda>(pid, path). [CHR ''p'' # itoa pid, ''fcwd'', CHR ''n'' # path]) ds)))"

lemma itoa_no_nl: "CHR 0x0A \<notin> set (itoa i)"
proof -
  have "CHR 0x0A \<notin> set (itoa_nat n)" for n
    using itoa_nat_digits [of n] by (auto simp: list_all_iff is_digit_def bval_def)
  then show ?thesis by (simp add: itoa_def)
qed

lemma lsof_fold:
  "list_all (\<lambda>(pid, path). 0 < pid \<and> pid < 2 ^ 63) ds \<Longrightarrow>
     snd (foldl lsof_line (cur, m) (concat (map (\<lambda>(pid, path). [CHR ''p'' # itoa pid, ''fcwd'', CHR ''n'' # path]) ds)))
       = gput_all ds m"
proof (induction ds arbitrary: cur m)
  case (Cons d ds)
  then show ?case
    by (cases d) (simp add: lsof_line_def has_prefix_def atoi_itoa)
qed simp

lemma lsof_read_back:
  assumes "list_all (\<lambda>(pid, path). 0 < pid \<and> pid < 2 ^ 63 \<and> CHR 0x0A \<notin> set path) ds"
  shows "parseLsofCwd (lsof_output ds) = gput_all ds []"
proof -
  have fold_nl: "foldl lsof_line st (ls @ [[]]) = foldl lsof_line st ls" for st ls
    by (simp add: lsof_line_def has_prefix_def case_prod_beta)
  have "list_all (\<lambda>l. CHR 0x0A \<notin> set l) (concat (map (\<lambda>(pid, path). [CHR ''p'' # itoa pid, ''fcwd'', CHR ''n'' # path]) ds))"
    using assms itoa_no_nl by (auto simp: list_all_iff)
  from split_lines [OF this] show ?thesis
    using assms lsof_fold [of ds 0 "[]"] fold_nl by (simp add: parseLsofCwd_def lsof_output_def list_all_iff case_prod_beta)
qed

text \<open>Between two warnings passes the interval of the limiter, however often it is asked.\<close>

fun limiter_runs :: "time list \<Rightarrow> rate_limiter \<Rightarrow> time list" where
  "limiter_runs [] r = []"
| "limiter_runs (t # ts) r = (let (r, ran) = limiter_Do t r in (if ran then [t] else []) @ limiter_runs ts r)"

lemma limiter_spaced:
  assumes "sorted ts" and "\<forall>t \<in> set ts. 0 < t"
  shows "sorted_wrt (\<lambda>s t. s + rl_every r \<le> t) (limiter_runs ts r)
    \<and> (\<forall>t \<in> set (limiter_runs ts r). t \<in> set ts \<and> (rl_last r \<noteq> 0 \<longrightarrow> rl_last r + rl_every r \<le> t))"
  using assms
proof (induction ts arbitrary: r)
  case (Cons t ts)
  show ?case
  proof (cases "rl_last r \<noteq> 0 \<and> t - rl_last r < rl_every r")
    case True
    then have "limiter_runs (t # ts) r = limiter_runs ts r" by (simp add: limiter_Do_def)
    then show ?thesis using Cons.IH [of r] Cons.prems by auto
  next
    case False
    then have "limiter_runs (t # ts) r = t # limiter_runs ts (r\<lparr>rl_last := t\<rparr>)" by (auto simp: limiter_Do_def)
    moreover have "sorted_wrt (\<lambda>s t. s + rl_every r \<le> t) (limiter_runs ts (r\<lparr>rl_last := t\<rparr>))
        \<and> (\<forall>u \<in> set (limiter_runs ts (r\<lparr>rl_last := t\<rparr>)). u \<in> set ts \<and> t + rl_every r \<le> u)"
      using Cons.IH [of "r\<lparr>rl_last := t\<rparr>"] Cons.prems by auto
    ultimately show ?thesis using False Cons.prems by fastforce
  qed
qed simp

end
