(* ===== verification/Daemon_Main.thy ===== *)
theory Daemon_Main
  imports Lifecycle Servicemgr
begin

text \<open>
  Logging and the main program of the daemon: \<open>internal/logging/logger.go\<close> and \<open>cmd/hqsshd/main.go\<close>. A log line is
  its level and its message, with an error or the addresses appended; other attributes, the format and the
  \<open>slog\<close> handlers are left out. The result of
  building, binding and serving the server is an argument, as the theories Server_Main and Lifecycle model it.
\<close>

section \<open>Logging\<close>

datatype log_level = LevelDebug | LevelInfo | LevelWarn | LevelError

fun level_rank :: "log_level \<Rightarrow> int" where
  "level_rank LevelDebug = - 4" | "level_rank LevelInfo = 0" | "level_rank LevelWarn = 4" | "level_rank LevelError = 8"

definition parseLevel :: "string \<Rightarrow> log_level" where
  "parseLevel level =
     (let l = to_lower level in
      if l = ''debug'' then LevelDebug
      else if l = ''warn'' \<or> l = ''warning'' then LevelWarn
      else if l = ''error'' then LevelError
      else LevelInfo)"

text \<open>A logger writes to a file or, with the empty path, to the standard output.\<close>

record slogger =
  sl_level :: log_level
  sl_json :: bool
  sl_out :: string

text \<open>The two global variables, and what has been written: output, level and message.\<close>

record logging =
  lg_logger :: "slogger option"
  lg_file :: "string option"
  lg_lines :: "(string \<times> log_level \<times> string) list"

definition logging_start :: logging where
  "logging_start = \<lparr>lg_logger = None, lg_file = None, lg_lines = []\<rparr>"

text \<open>\<open>mkdir\<close> and \<open>openf\<close> are the errors of creating the directory and opening the file.\<close>

definition logging_Init ::
  "(string \<Rightarrow> string option) \<Rightarrow> (string \<Rightarrow> string option) \<Rightarrow> log_config option \<Rightarrow> logging \<Rightarrow> logging \<times> string option" where
  "logging_Init mkdir openf cfg st =
     (let cfg = (case cfg of None \<Rightarrow> \<lparr>lc_Level = ''info'', lc_Format = ''text'', lc_File = []\<rparr> | Some c \<Rightarrow> c);
          file = lc_File cfg;
          logger = \<lparr>sl_level = parseLevel (lc_Level cfg), sl_json = (to_lower (lc_Format cfg) = ''json''), sl_out = file\<rparr> in
      if file = [] then (st\<lparr>lg_logger := Some logger\<rparr>, None)
      else case mkdir (dir_name file) of
        Some e \<Rightarrow> (st, Some (''create log directory for '' @ file @ '': '' @ e))
      | None \<Rightarrow>
          (case openf file of
             Some e \<Rightarrow> (st, Some (''open log file '' @ file @ '': '' @ e))
           | None \<Rightarrow> (st\<lparr>lg_file := Some file, lg_logger := Some logger\<rparr>, None)))"

definition logging_Get :: "logging \<Rightarrow> slogger option" where "logging_Get st = lg_logger st"

definition SetLogger :: "slogger option \<Rightarrow> logging \<Rightarrow> logging \<times> slogger option" where
  "SetLogger l st = (st\<lparr>lg_logger := l\<rparr>, lg_logger st)"

definition ToFile :: "logging \<Rightarrow> bool" where "ToFile st \<longleftrightarrow> lg_file st \<noteq> None"

definition logging_Close :: "logging \<Rightarrow> logging" where "logging_Close st = st\<lparr>lg_file := None\<rparr>"

text \<open>
  \<open>Debug\<close>, \<open>Info\<close>, \<open>Warn\<close> and \<open>Error\<close>. A line for a file that has been closed is lost.
\<close>

definition logging_Log :: "log_level \<Rightarrow> string \<Rightarrow> logging \<Rightarrow> logging" where
  "logging_Log level msg st =
     (case lg_logger st of
        None \<Rightarrow> st
      | Some l \<Rightarrow>
          if level_rank (sl_level l) \<le> level_rank level \<and> (sl_out l = [] \<or> lg_file st = Some (sl_out l))
          then st\<lparr>lg_lines := lg_lines st @ [(sl_out l, level, msg)]\<rparr> else st)"

section \<open>The main program\<close>

record main_flags =
  mf_config :: string
  mf_socket :: string
  mf_logLevel :: string
  mf_version :: bool

datatype listen_result = Listening string string string | ListenStopping | ListenFailed start_error

text \<open>
  What the program meets: the YAML decoder, files and their permissions, the home directory, the directory
  and the file of the log, and how the server comes up for a configuration and ends.
\<close>

record main_io =
  mi_version :: string
  mi_unmarshal :: "bytes \<Rightarrow> config \<Rightarrow> string + config"
  mi_read :: "string \<Rightarrow> file_read"
  mi_home :: "string option"
  mi_mode :: "string \<Rightarrow> 16 word option"
  mi_perm_text :: "string \<Rightarrow> string"
  mi_mkdir :: "string \<Rightarrow> string option"
  mi_openf :: "string \<Rightarrow> string option"
  mi_server :: "config \<Rightarrow> start_error option"
  mi_listen :: "config \<Rightarrow> listen_result"
  mi_serve :: "config \<Rightarrow> string option"

text \<open>The exit code, what was printed, the log, and the configuration of the server that was built.\<close>

record main_out =
  mo_exit :: int
  mo_stdout :: string
  mo_stderr :: "string list"
  mo_log :: logging
  mo_config :: "config option"

definition fatal :: "int \<Rightarrow> string \<Rightarrow> string \<Rightarrow> main_out \<Rightarrow> main_out" where
  "fatal code msg err o' =
     (let st = mo_log o'; logged = logging_Log LevelError (msg @ '': '' @ err) st in
      o'\<lparr>mo_exit := code,
         mo_stderr := mo_stderr o' @ (if logging_Get st = None \<or> ToFile st then [''hqsshd: '' @ msg @ '': '' @ err] else []),
         mo_log := logging_Close logged\<rparr>)"

definition finish :: "main_out \<Rightarrow> main_out" where
  "finish o' = o'\<lparr>mo_exit := exitOK, mo_log := logging_Close (mo_log o')\<rparr>"

definition log_info :: "string \<Rightarrow> main_out \<Rightarrow> main_out" where
  "log_info msg o' = o'\<lparr>mo_log := logging_Log LevelInfo msg (mo_log o')\<rparr>"

definition warn_perms :: "main_io \<Rightarrow> main_flags \<Rightarrow> string list" where
  "warn_perms io f =
     (let path = (if mf_config f \<noteq> [] then Some (mf_config f) else DefaultConfigPath (mi_home io)) in
      case path of
        None \<Rightarrow> []
      | Some p \<Rightarrow> if CheckFilePermissions (mi_mode io p) then [] else [''Warning: '' @ mi_perm_text io p])"

text \<open>The two overrides of the configuration by flags.\<close>

definition override :: "main_flags \<Rightarrow> config \<Rightarrow> config" where
  "override f c =
     (let c = (if mf_socket f \<noteq> [] then c\<lparr>Socket := mf_socket f\<rparr> else c)
      in if mf_logLevel f \<noteq> [] then c\<lparr>LogConf := (LogConf c)\<lparr>lc_Level := mf_logLevel f\<rparr>\<rparr> else c)"

text \<open>From the single-instance check on.\<close>

definition main_serve :: "main_io \<Rightarrow> config \<Rightarrow> main_out \<Rightarrow> main_out" where
  "main_serve io c o' =
     (case mi_server io c of
        Some e \<Rightarrow> fatal (exitCodeFor e) ''startup failed'' (start_error_Error e) o'
      | None \<Rightarrow>
          let o' = o'\<lparr>mo_config := Some c\<rparr> in
          case mi_listen io c of
            ListenStopping \<Rightarrow> finish (log_info ''hqsshd stopped before startup completed'' o')
          | ListenFailed e \<Rightarrow> fatal (exitCodeFor e) ''startup failed'' (start_error_Error e) o'
          | Listening sock tcp pending \<Rightarrow>
              let tcp = (if tcp \<noteq> [] then tcp
                         else if pending \<noteq> [] then ''pending ('' @ pending @ '' in use; retrying)'' else ''disabled'');
                  o' = log_info (''hqsshd ready: socket '' @ sock @ '', tcp '' @ tcp) o'
              in (case mi_serve io c of
                    Some e \<Rightarrow> fatal exitRuntime ''server error'' e o'
                  | None \<Rightarrow> finish o'))"

definition daemon_main :: "main_io \<Rightarrow> main_flags \<Rightarrow> main_out" where
  "daemon_main io f =
     (let o' = \<lparr>mo_exit = exitOK, mo_stdout = [], mo_stderr = [], mo_log = logging_start, mo_config = None\<rparr> in
      if mf_version f then o'\<lparr>mo_stdout := ''hqsshd version '' @ mi_version io @ nl\<rparr>
      else case (if mf_config f \<noteq> []
                 then LoadFromPath (mi_unmarshal io) (mi_read io) (case mi_home io of Some h \<Rightarrow> h | None \<Rightarrow> []) (mf_config f)
                 else LoadConfig (mi_unmarshal io) (mi_read io) (mi_home io)) of
        Inl e \<Rightarrow> fatal exitConfig ''failed to load config'' e o'
      | Inr c \<Rightarrow>
          let o' = o'\<lparr>mo_stderr := warn_perms io f\<rparr> in
          case ValidateConfig c of
            Some e \<Rightarrow> fatal exitConfig ''invalid config'' e o'
          | None \<Rightarrow>
              let c = override f c in
              case logging_Init (mi_mkdir io) (mi_openf io) (Some (LogConf c)) (mo_log o') of
                (st, Some e) \<Rightarrow> fatal exitLogging ''failed to initialize logging'' e (o'\<lparr>mo_log := st\<rparr>)
              | (st, None) \<Rightarrow> main_serve io c (log_info ''hqsshd starting'' (o'\<lparr>mo_log := st\<rparr>)))"

section \<open>Failures are visible\<close>

text \<open>
  \<open>visible\<close>: the message is on the standard error or, when the log goes to the standard output, in the log, which
  shows errors at every level.
\<close>

definition visible :: "string \<Rightarrow> main_out \<Rightarrow> bool" where
  "visible text o' \<longleftrightarrow> ''hqsshd: '' @ text \<in> set (mo_stderr o') \<or> ([], LevelError, text) \<in> set (lg_lines (mo_log o'))"

text \<open>The file that is open is the one the logger writes to.\<close>

definition log_ok :: "logging \<Rightarrow> bool" where
  "log_ok st \<longleftrightarrow> (case lg_logger st of None \<Rightarrow> lg_file st = None | Some l \<Rightarrow> lg_file st = (if sl_out l = [] then None else Some (sl_out l)))"

lemma level_rank_Error: "level_rank l \<le> level_rank LevelError"
  by (cases l) simp_all

lemma log_ok_Init: "logging_Init mkdir openf cfg logging_start = (st, e) \<Longrightarrow> log_ok st \<and> (e = None \<longrightarrow> lg_logger st \<noteq> None)"
  by (auto simp: logging_Init_def logging_start_def log_ok_def Let_def split: option.splits if_splits)

lemma log_ok_start: "log_ok logging_start"
  by (simp add: log_ok_def logging_start_def)

lemma log_ok_Log [simp]: "log_ok (logging_Log l m st) = log_ok st"
  by (auto simp: logging_Log_def log_ok_def split: option.split)

lemma fatal_visible:
  assumes "log_ok (mo_log o')"
  shows "mo_exit (fatal code msg err o') = code \<and> visible (msg @ '': '' @ err) (fatal code msg err o')"
  using assms level_rank_Error
  by (auto simp: fatal_def visible_def Let_def logging_Get_def ToFile_def log_ok_def logging_Log_def logging_Close_def
      split: option.splits if_splits)

lemma main_serve_log: "log_ok (mo_log o') \<Longrightarrow> log_ok (mo_log (log_info msg o'))"
  by (simp add: log_info_def)

lemma exitCodeFor_range: "exitCodeFor e \<in> {exitRuntime, exitAlreadyRunning, exitBind}"
  by (cases e) simp_all

lemmas exit_defs = exitOK_def exitRuntime_def exitConfig_def exitAlreadyRunning_def exitBind_def exitLogging_def

lemma fatal_config [simp]: "mo_config (fatal code msg err o') = mo_config o'"
  by (simp add: fatal_def Let_def)

lemma main_serve_visible:
  assumes "log_ok (mo_log o')" and "mo_config o' = None"
  shows "(mo_exit (main_serve io c o') = exitOK \<or> (\<exists>text. visible text (main_serve io c o')))
    \<and> mo_exit (main_serve io c o') \<in> {exitOK, exitRuntime, exitAlreadyRunning, exitBind}
    \<and> mo_config (main_serve io c o') \<in> {None, Some c}"
proof -
  have vis: "mo_exit (fatal code msg err o'') = code \<and> (\<exists>text. visible text (fatal code msg err o''))"
    if "log_ok (mo_log o'')" for code msg err o''
    using fatal_visible [OF that] by blast
  have ok: "log_ok (mo_log (o'\<lparr>mo_config := Some c\<rparr>))" using assms(1) by simp
  show ?thesis
  proof (cases "mi_server io c")
    case (Some e)
    then show ?thesis using vis [OF assms(1)] exitCodeFor_range [of e] assms(2) by (simp add: main_serve_def)
  next
    case None
    show ?thesis
    proof (cases "mi_listen io c")
      case (ListenFailed e)
      then show ?thesis using None vis [OF ok] exitCodeFor_range [of e] by (simp add: main_serve_def)
    next
      case ListenStopping
      then show ?thesis using None by (simp add: main_serve_def finish_def log_info_def)
    next
      case (Listening sock tcp pending)
      then show ?thesis
        using None vis [OF main_serve_log [OF ok]]
        by (cases "mi_serve io c") (simp_all add: main_serve_def Let_def finish_def log_info_def)
    qed
  qed
qed

text \<open>
  A start that fails says so where somebody can see it; the exit codes for a bad configuration and for a log that
  cannot be opened mean that no server was built; and a server is only ever built from a configuration
  that was validated, with the overrides of the flags.
\<close>

lemma daemon_failures_visible:
  fixes io :: main_io and f :: main_flags
  defines "o' \<equiv> daemon_main io f"
  shows "(mo_exit o' = exitOK \<or> (\<exists>text. visible text o'))
    \<and> mo_exit o' \<in> {exitOK, exitRuntime, exitConfig, exitAlreadyRunning, exitBind, exitLogging}
    \<and> (mo_exit o' \<in> {exitConfig, exitLogging} \<longrightarrow> mo_config o' = None)
    \<and> (\<forall>c. mo_config o' = Some c \<longrightarrow> (\<exists>c0. ValidateConfig c0 = None \<and> c = override f c0))"
proof (cases "mf_version f")
  case True
  then show ?thesis by (simp add: o'_def daemon_main_def)
next
  case False
  let ?load = "if mf_config f \<noteq> []
                 then LoadFromPath (mi_unmarshal io) (mi_read io) (case mi_home io of Some h \<Rightarrow> h | None \<Rightarrow> []) (mf_config f)
                 else LoadConfig (mi_unmarshal io) (mi_read io) (mi_home io)"
  let ?o = "\<lparr>mo_exit = exitOK, mo_stdout = [], mo_stderr = [], mo_log = logging_start, mo_config = None\<rparr>"
  show ?thesis
  proof (cases ?load)
    case (Inl e)
    have "log_ok (mo_log ?o)" by (simp add: log_ok_start)
    from fatal_visible [OF this] Inl False show ?thesis
      unfolding o'_def daemon_main_def Let_def by (simp split del: if_split) blast
  next
    case (Inr c)
    let ?o1 = "?o\<lparr>mo_stderr := warn_perms io f\<rparr>"
    have ok1: "log_ok (mo_log ?o1)" by (simp add: log_ok_start)
    show ?thesis
    proof (cases "ValidateConfig c")
      case (Some e)
      from fatal_visible [OF ok1] Inr Some False show ?thesis
        unfolding o'_def daemon_main_def Let_def by (simp split del: if_split) blast
    next
      case None
      obtain st e where init: "logging_Init (mi_mkdir io) (mi_openf io) (Some (LogConf (override f c))) logging_start = (st, e)"
        by fastforce
      have st: "log_ok st" using log_ok_Init [OF init] by blast
      show ?thesis
      proof (cases e)
        case (Some err)
        have "log_ok (mo_log (?o1\<lparr>mo_log := st\<rparr>))" using st by simp
        from fatal_visible [OF this] Inr None Some init False show ?thesis
          unfolding o'_def daemon_main_def Let_def by (simp split del: if_split) blast
      next
        case e: None
        let ?o2 = "log_info ''hqsshd starting'' (?o1\<lparr>mo_log := st\<rparr>)"
        have "o' = main_serve io (override f c) ?o2"
          using Inr None e init False unfolding o'_def daemon_main_def Let_def by (simp split del: if_split)
        moreover have "log_ok (mo_log ?o2)" "mo_config ?o2 = None" using st by (simp_all add: log_info_def)
        ultimately show ?thesis
          using main_serve_visible [of ?o2 io "override f c"] None by (auto simp: exit_defs)
      qed
    qed
  qed
qed

end
