(* ===== verification/Spec2Isabelle.thy ===== *)
theory Spec2Isabelle
  imports Manager_Props Session_Reader Executor_Props Task_Stores Mode_Replay ShellUtil Config
    Fsutil Server_Projects Server_Sessions Server_Tasks Server_Attach Server_Main Lifecycle Servicemgr_Ops
    Cli_Sessions Cli_Tasks Doctor_Checks Cli_Service
    Procscan_Darwin Daemon_Main
begin

text \<open>
  Verification library of hqsshd, a daemon that keeps PTY sessions of AI command line tools alive while clients (a
  phone through an SSH tunnel, the command line tool \<open>hqssh\<close>) come and go, runs tasks with such tools, knows the
  projects of its user, and is driven over gRPC; and of \<open>hqssh\<close> itself, with its doctor. Paths of source files
  are relative to the repository.

  \<^bold>\<open>The program and its parts.\<close> A session (\<open>internal/session\<close>) is a process on a PTY. Its reader goroutine feeds every chunk
  of output to a bell detector and a mode tracker, appends it to a bounded scrollback and a log, and offers it
  to the channel of every attached client without ever waiting for one. The manager holds the sessions,
  limits their number, ends idle ones, and keeps \<open>sessions.json\<close> and an event hub in step. The executor
  (\<open>internal/task\<close>) runs tasks in goroutines of their own that a cancel, a timeout or the shutdown may meet anywhere.
  The registry and the discovery state (\<open>internal/project\<close>) remember projects and which of them were removed. The
  handlers of \<open>internal/server\<close> compose these behind an authorization check. A pidfile lock and a
  probe of the socket make sure that one daemon runs; launchd or systemd (\<open>internal/servicemgr\<close>) start and stop it.

  \<^bold>\<open>How the code is modelled.\<close> A struct is a record, an enumeration a datatype, a fallible call a sum with the error on
  the left, and a panic the value \<open>None\<close>, which theorems exclude or, where the code does panic, exhibit. Strings and
  byte slices are lists of bytes, maps are association lists (every theorem is about an arbitrary list, hence
  about every iteration order), \<open>int\<close> is \<open>int\<close>, and words are used where the width matters (window sizes, \<open>int32\<close> fields,
  permission bits). A function under a mutex is one step. Where the code releases a lock in the middle
  of an operation, the operation is split there, and executions are lists or step relations over the
  pieces, so that the theorems are about every interleaving. The operating system, the clock, random ids, and
  third-party libraries (the YAML decoder, gRPC, SSH, gzip) are arguments; what is assumed of them stands as a
  hypothesis in the theorem that needs it.

  \<^bold>\<open>The theories, by layer.\<close>
  \<^item> Go and Unix: \<open>Prelude\<close> (maps, strings, decimal numbers), \<open>Paths\<close> (\<open>path/filepath\<close>), \<open>Utf8\<close>, \<open>Channels\<close> (buffered
    channels with panics), \<open>Stream_Scanner\<close> (locale: a scanner whose answers do not depend on how a stream is cut
    into chunks; interpreted by the bell detector, the mode tracker and the detach keys), \<open>Keyed_Store\<close>
    (locale: a store rebuilt from its saved records answers alike; interpreted by the session, task
    and project stores).
  \<^item> Sessions, \<open>internal/session\<close>: \<open>Bell\<close>, \<open>Modes\<close>, \<open>Mode_Replay\<close>, \<open>Events\<close>, \<open>SessionLogger\<close>, \<open>SessionStore\<close> are one file each;
    \<open>Session\<close> is \<open>session.go\<close> and \<open>pty.go\<close>; \<open>Session_Stream\<close>, \<open>Session_Status\<close>, \<open>Session_Reader\<close> are about its executions;
    \<open>Manager\<close> and \<open>Manager_Props\<close> are \<open>manager.go\<close> and its invariant.
  \<^item> Tasks, \<open>internal/task\<close>: \<open>TaskStore\<close>, \<open>RunStore\<close> (a heap of runs that two indexes point to), \<open>Executor\<close> (every
    critical section, store call and signal a step of a goroutine's program counter), \<open>Executor_Props\<close>, \<open>Task_Stores\<close>.
  \<^item> Projects and tools: \<open>Detector\<close> (\<open>internal/tools\<close>), \<open>Project\<close> (\<open>internal/project\<close>), \<open>Procscan\<close> and \<open>Procscan_Darwin\<close>
    (\<open>internal/procscan\<close> on Linux and macOS), \<open>ShellUtil\<close>, \<open>Fsutil\<close> (atomic file replacement under power loss).
  \<^item> The daemon: \<open>Config\<close>, \<open>Server_Base\<close> (authorization, tools, helpers), \<open>Server_Sessions\<close>, \<open>Server_Attach\<close>,
    \<open>Server_Tasks\<close>, \<open>Server_Projects\<close> (the services of \<open>internal/server/server.go\<close>), \<open>Server_Main\<close> (start from and stop to
    the files, webhook), \<open>Lifecycle\<close> (\<open>pidfile.go\<close>, \<open>lifecycle.go\<close>: processes whose system calls interleave),
    \<open>Daemon_Main\<close> (\<open>logger.go\<close>, \<open>cmd/hqsshd/main.go\<close>), \<open>Servicemgr\<close> and \<open>Servicemgr_Ops\<close>.
  \<^item> The command line tool: \<open>Cli_Config\<close> (settings), \<open>Cli_Client\<close> (SSH, retries, token), \<open>Cli_Base\<close> (choice of the daemon,
    ids by prefix, detach keys), \<open>Cli_Sessions\<close>, \<open>Cli_Tasks\<close>, \<open>Cli_Output\<close>, \<open>Cli_Service\<close> (the commands over the services:
    what they list and what they change are two states, with other clients in between), \<open>Doctor\<close> and
    \<open>Doctor_Checks\<close> (\<open>internal/doctor\<close>).

  \<^bold>\<open>What is shown.\<close>
  \<^item> Output: replay and live stream of a client are the whole output with a marker at exactly the gaps, through the
    gRPC stream too; a replay restores the modes of the terminal; scrollback is bounded and starts on a rune; the
    log is read back; no interleaving of session operations panics.
  \<^item> State: the limit on sessions, records that never claim a session that does not exist, cleanup that is exact,
    windows within their bounds, at most one active run per task, cancels that kill, removed projects that
    stay removed, stores that survive a restart, a single daemon on a data directory.
  \<^item> Security: tools and prompts cannot be injected into the shell, only configured tools run, log paths stay inside
    their directory, the token guards the handlers and reaches them unchanged, stored credentials only
    go to their own host.
  \<^item> The command line tool: connecting ends; commands change the one thing whose prefix was typed; the keys mean
    the same however they are read; the service commands report what the service manager and the daemon said;
    the doctor's failures carry advice and two daemons are always reported.
  \<^item> Where the code does not do what it means to, a theorem shows an execution: a session that is idle while
    attached, a rescan that brings a removed project back, the race of the pidfile, null entries in the task
    files, the log of a killed session that cannot be asked for, the advice to \<open>kill 0\<close>.

  \<^bold>\<open>Bounds and fuel.\<close> A loop that waits has fuel, and a theorem shows that the fuel is enough when time passes: 62
  rounds of 250 ms for the 15 s of a service operation (\<open>wait_fuel\<close>), ten attempts of a bootstrap, twelve
  of binding a busy port within 5 s, three of connecting, 42 of asking a started daemon within 10 s. Walks over
  directories and process parents are bounded as in the code; every other recursion is
  structural or has a termination proof.

  \<^bold>\<open>Not modelled.\<close> The generated protocol code under \<open>proto\<close> and the install scripts. Of the daemon: draining the gRPC server,
  log attributes and formats, saving the configuration (a YAML encoder), the HTTP client of the webhook
  and the redaction of its URL, the answer of \<open>Attach\<close> for a session that is deleted while its scrollback is sent,
  \<open>ExecRunner\<close> (it calls \<open>os/exec\<close>), and the stubs of \<open>procscan_other.go\<close>. Of the command line tool: the goroutines that
  forward and keep alive an open tunnel, raw mode and signals of an attached terminal and the copying of
  the output stream, JSON encoding and the alignment of tables, progress messages, the declarations of commands
  and flags for cobra, and shell completion. They are calls of libraries or of the operating system with no
  decision of their own.
\<close>

end
